(* ===== verification/Prelude.thy ===== *)
theory Prelude
  imports Main "HOL-Library.AList"
begin

text \<open>
  Shared vocabulary of the development: JavaScript strings and the string operations the
  sources use, insertion-ordered maps and sets, the invariant rule of state machines, and the
  generic lemmas the components share.

  A JavaScript string is a list of UTF-16 code units (\<open>jstr\<close>); \<open>js\<close> turns an ASCII literal
  into one.  A JavaScript number is an \<open>int\<close> where the sources only handle integers
  (sequences, codes, statuses, delays); the rounding of doubles above 2^53 is not modelled.
  A \<open>Map\<close> is an association list in insertion order (\<open>AList.update\<close> overwrites in place or
  appends, which is what \<open>Map.prototype.set\<close> does), a \<open>Set\<close> a distinct list.
\<close>

named_theorems js_eval \<open>equations that evaluate closed strings and numbers\<close>

section \<open>Strings\<close>

type_synonym jstr = "nat list"

definition js :: "string \<Rightarrow> jstr" where
  "js s = map of_char s"

lemma js_Nil [simp, js_eval]: "js [] = []"
  by (simp add: js_def)

lemma js_Cons [js_eval]: "js (c # s) = of_char c # js s"
  by (simp add: js_def)

lemma js_inject [simp]: "js a = js b \<longleftrightarrow> a = b"
proof -
  have "inj (of_char :: char \<Rightarrow> nat)"
    by (rule injI) simp
  then show ?thesis
    by (simp add: js_def inj_map_eq_map)
qed

lemma js_eq_Nil [simp]: "js a = [] \<longleftrightarrow> a = []"
  by (simp add: js_def)

lemma length_js [simp]: "length (js s) = length s"
  by (simp add: js_def)

text \<open>A code unit is a 16-bit value.\<close>

definition units_ok :: "jstr \<Rightarrow> bool" where
  "units_ok s \<longleftrightarrow> list_all (\<lambda>c. c < 65536) s"

lemma units_ok_simps [simp]:
  "units_ok []" "units_ok (c # s) \<longleftrightarrow> c < 65536 \<and> units_ok s"
  "units_ok (s @ t) \<longleftrightarrow> units_ok s \<and> units_ok t"
  by (auto simp: units_ok_def)

lemma units_ok_js [simp]: "units_ok (js s)"
proof (induction s)
  case (Cons c s)
  have "(of_char c :: nat) < 256" by simp
  then have "(of_char c :: nat) < 65536" by linarith
  with Cons show ?case by (simp add: js_Cons)
qed simp

text \<open>\<open>Array.prototype.join\<close>.\<close>

fun join :: "jstr \<Rightarrow> jstr list \<Rightarrow> jstr" where
  "join sep [] = []"
| "join sep [p] = p"
| "join sep (p # q # ps) = p @ sep @ join sep (q # ps)"

text \<open>\<open>String.prototype.split\<close> on a one-unit separator.\<close>

fun split_on :: "nat \<Rightarrow> jstr \<Rightarrow> jstr list" where
  "split_on c [] = [[]]"
| "split_on c (x # xs) =
     (if x = c then [] # split_on c xs
      else (case split_on c xs of [] \<Rightarrow> [[x]] | p # ps \<Rightarrow> (x # p) # ps))"

lemma split_on_not_Nil [simp]: "split_on c s \<noteq> []"
  by (induction s) (auto split: list.splits)

lemma split_on_Cons_ex: "\<exists>p ps. split_on c s = p # ps"
  by (cases "split_on c s") auto

lemma join_Cons_ne: "ps \<noteq> [] \<Longrightarrow> join sep (p # ps) = p @ sep @ join sep ps"
  by (cases ps) auto

text \<open>Splitting and joining on the same separator are inverse.\<close>

lemma join_split_on: "join [c] (split_on c s) = s"
proof (induction s)
  case (Cons x xs)
  obtain p ps where s: "split_on c xs = p # ps"
    using split_on_Cons_ex by blast
  have "join [c] ((x # p) # ps) = x # join [c] (p # ps)"
    by (cases ps) auto
  with Cons s show ?case
    by (simp add: join_Cons_ne)
qed simp

lemma split_on_no_sep: "p \<in> set (split_on c s) \<Longrightarrow> c \<notin> set p"
proof (induction s arbitrary: p)
  case (Cons x xs)
  obtain q qs where s: "split_on c xs = q # qs"
    using split_on_Cons_ex by blast
  with Cons show ?case
    by (auto split: if_splits)
qed simp

lemma split_on_append:
  "c \<notin> set p \<Longrightarrow> split_on c (p @ c # s) = p # split_on c s"
  by (induction p) auto

lemma split_on_plain: "c \<notin> set p \<Longrightarrow> split_on c p = [p]"
  by (induction p) auto

lemma split_on_join:
  "ps \<noteq> [] \<Longrightarrow> \<forall>p \<in> set ps. c \<notin> set p \<Longrightarrow> split_on c (join [c] ps) = ps"
proof (induction ps)
  case (Cons p ps)
  then show ?case
    by (cases "ps = []") (auto simp: split_on_plain join_Cons_ne split_on_append)
qed simp

definition starts_with :: "jstr \<Rightarrow> jstr \<Rightarrow> bool" where
  "starts_with s p \<longleftrightarrow> take (length p) s = p"

lemma starts_with_iff: "starts_with s p \<longleftrightarrow> (\<exists>r. s = p @ r)"
  by (auto simp: starts_with_def) (metis append_take_drop_id)

text \<open>\<open>String.prototype.includes\<close>.\<close>

fun str_includes :: "jstr \<Rightarrow> jstr \<Rightarrow> bool" where
  "str_includes [] p \<longleftrightarrow> p = []"
| "str_includes (x # xs) p \<longleftrightarrow> starts_with (x # xs) p \<or> str_includes xs p"

lemma str_includes_iff: "str_includes s p \<longleftrightarrow> (\<exists>a b. s = a @ p @ b)"
proof (induction s)
  case (Cons x xs)
  show ?case
  proof
    assume "str_includes (x # xs) p"
    then consider "starts_with (x # xs) p" | "str_includes xs p" by auto
    then show "\<exists>a b. x # xs = a @ p @ b"
    proof cases
      case 1
      then obtain r where "x # xs = p @ r" by (auto simp: starts_with_iff)
      then show ?thesis by (intro exI [of _ "[]"] exI [of _ r]) simp
    next
      case 2
      with Cons obtain a b where "xs = a @ p @ b" by auto
      then show ?thesis by (intro exI [of _ "x # a"] exI [of _ b]) simp
    qed
  next
    assume "\<exists>a b. x # xs = a @ p @ b"
    then obtain a b where ab: "x # xs = a @ p @ b" by auto
    show "str_includes (x # xs) p"
    proof (cases a)
      case Nil
      with ab have "starts_with (x # xs) p" unfolding starts_with_iff by simp
      then show ?thesis by simp
    next
      case (Cons y ys)
      with ab have "xs = ys @ p @ b" by simp
      with Cons.IH show ?thesis by auto
    qed
  qed
qed auto

text \<open>
  The white space and line terminators that \<open>trim\<close> and the class \<open>\s\<close> of a regular
  expression recognise.
\<close>

definition is_space :: "nat \<Rightarrow> bool" where
  "is_space c \<longleftrightarrow> c \<in> set [9, 10, 11, 12, 13, 32, 160, 5760, 8232, 8233, 8239, 8287, 12288, 65279]
     \<or> (8192 \<le> c \<and> c \<le> 8202)"

definition trim :: "jstr \<Rightarrow> jstr" where
  "trim s = rev (dropWhile is_space (rev (dropWhile is_space s)))"

lemma last_rev_dropWhile: "rev (dropWhile P xs) \<noteq> [] \<Longrightarrow> \<not> P (last (rev (dropWhile P xs)))"
  using hd_dropWhile [of P xs] by (simp only: last_rev rev_is_Nil_conv) simp

lemma trim_last: "trim s \<noteq> [] \<Longrightarrow> \<not> is_space (last (trim s))"
  unfolding trim_def by (rule last_rev_dropWhile)

text \<open>Removing a run of slashes at the end (\<open>replace(/\/+$/, "")\<close>) or at the start.\<close>

definition trim_end_slashes :: "jstr \<Rightarrow> jstr" where
  "trim_end_slashes s = rev (dropWhile ((=) 47) (rev s))"

definition trim_start_slashes :: "jstr \<Rightarrow> jstr" where
  "trim_start_slashes s = dropWhile ((=) 47) s"

lemma trim_end_slashes_last: "trim_end_slashes s \<noteq> [] \<Longrightarrow> last (trim_end_slashes s) \<noteq> 47"
  unfolding trim_end_slashes_def using last_rev_dropWhile by metis

lemma trim_end_slashes_idem [simp]: "trim_end_slashes (trim_end_slashes s) = trim_end_slashes s"
  by (simp add: trim_end_slashes_def)

lemma trim_end_slashes_append [simp]:
  "trim_end_slashes (s @ replicate n 47) = trim_end_slashes s"
  by (simp add: trim_end_slashes_def) (induction n; simp)

section \<open>Insertion-ordered sets\<close>

text \<open>A JavaScript \<open>Set\<close>: \<open>add\<close> appends a new element, \<open>delete\<close> removes it.\<close>

definition set_add :: "'a \<Rightarrow> 'a list \<Rightarrow> 'a list" where
  "set_add x xs = (if x \<in> set xs then xs else xs @ [x])"

definition set_delete :: "'a \<Rightarrow> 'a list \<Rightarrow> 'a list" where
  "set_delete x xs = filter (\<lambda>y. y \<noteq> x) xs"

lemma set_set_add [simp]: "set (set_add x xs) = insert x (set xs)"
  by (auto simp: set_add_def)

lemma distinct_set_add [simp]: "distinct (set_add x xs) = distinct xs"
  by (auto simp: set_add_def)

lemma set_set_delete [simp]: "set (set_delete x xs) = set xs - {x}"
  by (auto simp: set_delete_def)

lemma distinct_set_delete: "distinct xs \<Longrightarrow> distinct (set_delete x xs)"
  by (simp add: set_delete_def)

section \<open>Labelled transition systems\<close>

text \<open>The states reached from \<open>s0\<close> by steps whose labels are allowed.\<close>

inductive lreach :: "('l \<Rightarrow> 's \<Rightarrow> 's \<Rightarrow> bool) \<Rightarrow> ('l \<Rightarrow> bool) \<Rightarrow> 's \<Rightarrow> 's \<Rightarrow> bool"
  for step :: "'l \<Rightarrow> 's \<Rightarrow> 's \<Rightarrow> bool" and allowed :: "'l \<Rightarrow> bool" and s0 :: 's where
  start [intro!]: "lreach step allowed s0 s0"
| more: "lreach step allowed s0 s \<Longrightarrow> allowed l \<Longrightarrow> step l s t \<Longrightarrow> lreach step allowed s0 t"

lemma lreach_trans: "lreach step allowed s t \<Longrightarrow> lreach step allowed s0 s \<Longrightarrow> lreach step allowed s0 t"
  by (induction rule: lreach.induct) (auto intro: lreach.more)

lemma lreach_single: "allowed l \<Longrightarrow> step l s t \<Longrightarrow> lreach step allowed s t"
  by (rule lreach.more [OF lreach.start])

lemma lreach_next: "lreach step (\<lambda>l. True) s0 s \<Longrightarrow> step l s t \<Longrightarrow> lreach step (\<lambda>l. True) s0 t"
  by (rule lreach.more) simp_all

text \<open>The contract of an inductive invariant, and what it gives for every reachable state.\<close>

locale inductive_invariant =
  fixes step :: "'l \<Rightarrow> 's \<Rightarrow> 's \<Rightarrow> bool" and allowed :: "'l \<Rightarrow> bool" and inv :: "'s \<Rightarrow> bool"
  assumes inv_step: "inv s \<Longrightarrow> allowed l \<Longrightarrow> step l s t \<Longrightarrow> inv t"
begin

lemma inv_reach: "lreach step allowed s0 s \<Longrightarrow> inv s0 \<Longrightarrow> inv s"
  by (induction rule: lreach.induct) (auto intro: inv_step)

end

text \<open>
  A forward simulation: every step of the concrete system is matched by a step of the abstract one
  with the same label, so that the abstract system reaches a related state.
\<close>

locale simulation =
  fixes step :: "'l \<Rightarrow> 's \<Rightarrow> 's \<Rightarrow> bool" and astep :: "'l \<Rightarrow> 't \<Rightarrow> 't \<Rightarrow> bool"
    and allowed :: "'l \<Rightarrow> bool" and rel :: "'s \<Rightarrow> 't \<Rightarrow> bool"
  assumes simulates: "rel s t \<Longrightarrow> allowed l \<Longrightarrow> step l s s' \<Longrightarrow> \<exists>t'. astep l t t' \<and> rel s' t'"
begin

lemma simulates_reach: "lreach step allowed s0 s \<Longrightarrow> rel s0 t0 \<Longrightarrow> \<exists>t. lreach astep allowed t0 t \<and> rel s t"
  by (induction rule: lreach.induct) (use simulates in \<open>blast intro: lreach.intros\<close>)+

end

lemma sorted_wrt_less_filter_split:
  assumes "sorted_wrt (\<lambda>x y. f x < f y) xs" "a \<le> (b :: int)"
  shows "filter (\<lambda>x. a < f x) xs = filter (\<lambda>x. a < f x \<and> f x \<le> b) xs @ filter (\<lambda>x. b < f x) xs"
  using assms
proof (induction xs)
  case (Cons x xs)
  show ?case
  proof (cases "f x \<le> b")
    case True
    with Cons show ?thesis by auto
  next
    case False
    with Cons.prems have "\<forall>y \<in> set xs. b < f y" by auto
    then have "filter (\<lambda>y. a < f y \<and> f y \<le> b) xs = []" "filter (\<lambda>y. b < f y) xs = xs"
      "filter (\<lambda>y. a < f y) xs = xs"
      using Cons.prems(2) by (auto simp: filter_empty_conv filter_id_conv)
    with False Cons.prems(2) show ?thesis by auto
  qed
qed simp

lemma sorted_wrt_less_distinct: "sorted_wrt (\<lambda>x y. f x < (f y :: int)) xs \<Longrightarrow> distinct xs"
  by (induction xs) auto

end
