(* ===== verification/Encoding.thy ===== *)
theory Encoding
  imports Prelude
begin

text \<open>
  Number formatting and percent encoding of the JavaScript standard library, as the sources
  use them: \<open>Number.prototype.toString(radix)\<close>, \<open>String(n)\<close>, \<open>padStart\<close> and
  \<open>encodeURIComponent\<close>.  Digits and percent escapes come with the inverse functions that
  show them unambiguous.
\<close>

section \<open>Positional digits\<close>

function radix_digits :: "nat \<Rightarrow> nat \<Rightarrow> nat list" where
  "radix_digits b n = (if b < 2 \<or> n < b then [n] else radix_digits b (n div b) @ [n mod b])"
  by pat_completeness auto
termination
  by (relation "measure snd") (auto simp: div_less_dividend)

declare radix_digits.simps [simp del]

definition radix_value :: "nat \<Rightarrow> nat list \<Rightarrow> nat" where
  "radix_value b ds = foldl (\<lambda>acc d. acc * b + d) 0 ds"

lemma radix_value_snoc [simp]: "radix_value b (ds @ [d]) = radix_value b ds * b + d"
  by (simp add: radix_value_def)

lemma radix_value_digits: "radix_value b (radix_digits b n) = n"
proof (induction b n rule: radix_digits.induct)
  case (1 b n)
  show ?case
  proof (cases "b < 2 \<or> n < b")
    case True
    then show ?thesis by (subst radix_digits.simps) (simp add: radix_value_def)
  next
    case False
    with "1.IH" show ?thesis by (subst radix_digits.simps) simp
  qed
qed

lemma radix_digits_inject: "radix_digits b m = radix_digits b n \<longleftrightarrow> m = n"
  using radix_value_digits by metis

lemma radix_digits_less: "2 \<le> b \<Longrightarrow> d \<in> set (radix_digits b n) \<Longrightarrow> d < b"
proof (induction b n rule: radix_digits.induct)
  case (1 b n)
  then show ?case
    by (cases "n < b") (auto simp: radix_digits.simps [of b n] split: if_splits)
qed

lemma radix_digits_not_Nil [simp]: "radix_digits b n \<noteq> []"
  by (subst radix_digits.simps) simp

lemma radix_digits_length: "2 \<le> b \<Longrightarrow> n < b ^ Suc k \<Longrightarrow> length (radix_digits b n) \<le> Suc k"
proof (induction k arbitrary: n)
  case 0
  then show ?case by (simp add: radix_digits.simps)
next
  case (Suc k)
  show ?case
  proof (cases "n < b")
    case True
    then show ?thesis by (simp add: radix_digits.simps)
  next
    case False
    have "n div b < b ^ Suc k"
      using Suc.prems by (simp add: less_mult_imp_div_less mult.commute)
    with Suc False show ?thesis by (simp add: radix_digits.simps [of b n])
  qed
qed

text \<open>The digit characters \<open>0-9a-z\<close>.\<close>

definition digit_char :: "nat \<Rightarrow> nat" where
  "digit_char d = (if d < 10 then 48 + d else 87 + d)"

definition char_digit :: "nat \<Rightarrow> nat" where
  "char_digit c = (if c < 58 then c - 48 else c - 87)"

lemma char_digit_char [simp]: "char_digit (digit_char d) = d"
  by (simp add: char_digit_def digit_char_def)

lemma digit_char_inject [simp]: "digit_char d = digit_char e \<longleftrightarrow> d = e"
  by (metis char_digit_char)

definition to_radix :: "nat \<Rightarrow> nat \<Rightarrow> jstr" where
  "to_radix b n = map digit_char (radix_digits b n)"

lemma to_radix_inject [simp]: "to_radix b m = to_radix b n \<longleftrightarrow> m = n"
proof -
  have "inj digit_char" by (rule injI) simp
  then show ?thesis by (simp add: to_radix_def inj_map_eq_map radix_digits_inject)
qed

lemma length_to_radix [simp]: "length (to_radix b n) = length (radix_digits b n)"
  by (simp add: to_radix_def)

definition pad_start :: "nat \<Rightarrow> nat \<Rightarrow> jstr \<Rightarrow> jstr" where
  "pad_start k c s = replicate (k - length s) c @ s"

lemma length_pad_start [simp]: "length (pad_start k c s) = max k (length s)"
  by (simp add: pad_start_def)

text \<open>Left padding with the zero digit does not change the value.\<close>

lemma radix_value_zeros: "radix_value b (replicate k 0 @ ds) = radix_value b ds"
  by (induction k) (simp_all add: radix_value_def)

lemma pad_start_to_radix_inject:
  assumes "pad_start k 48 (to_radix b m) = pad_start k 48 (to_radix b n)"
  shows "m = n"
proof -
  have *: "map char_digit (pad_start k 48 (to_radix b i)) =
      replicate (k - length (radix_digits b i)) 0 @ radix_digits b i" for i
    by (simp add: pad_start_def to_radix_def char_digit_def [of 48] comp_def)
  have "radix_value b (map char_digit (pad_start k 48 (to_radix b i))) = i" for i
    by (simp add: * radix_value_zeros radix_value_digits)
  with assms show ?thesis by metis
qed

text \<open>\<open>String(n)\<close> for an integer.\<close>

definition show_nat :: "nat \<Rightarrow> jstr" where
  "show_nat n = to_radix 10 n"

definition show_int :: "int \<Rightarrow> jstr" where
  "show_int i = (if i < 0 then 45 # show_nat (nat (- i)) else show_nat (nat i))"

lemma show_nat_digits: "c \<in> set (show_nat n) \<Longrightarrow> 48 \<le> c \<and> c \<le> 57"
  using radix_digits_less [of 10 _ n] by (force simp: show_nat_def to_radix_def digit_char_def)

lemma show_nat_not_Nil [simp]: "show_nat n \<noteq> []"
  by (simp add: show_nat_def to_radix_def)

lemma show_nat_inject [simp]: "show_nat m = show_nat n \<longleftrightarrow> m = n"
  by (simp add: show_nat_def)

lemma show_int_inject [simp]: "show_int i = show_int j \<longleftrightarrow> i = j"
proof -
  have "hd (show_nat n) \<noteq> 45" for n
    using show_nat_digits [OF list.set_sel(1) [OF show_nat_not_Nil], of n] by linarith
  then have "show_nat m \<noteq> 45 # s" for m s
    by (metis list.sel(1))
  then show ?thesis
    by (auto simp: show_int_def dest: sym)
qed

section \<open>UTF-16 and UTF-8\<close>

definition high_surrogate :: "nat \<Rightarrow> bool" where
  "high_surrogate c \<longleftrightarrow> 55296 \<le> c \<and> c \<le> 56319"

definition low_surrogate :: "nat \<Rightarrow> bool" where
  "low_surrogate c \<longleftrightarrow> 56320 \<le> c \<and> c \<le> 57343"

text \<open>The code points of a string; \<open>None\<close> on a lone surrogate.\<close>

fun code_points :: "jstr \<Rightarrow> nat list option" where
  "code_points [] = Some []"
| "code_points [c] = (if high_surrogate c \<or> low_surrogate c then None else Some [c])"
| "code_points (c # d # r) =
     (if low_surrogate c then None
      else if \<not> high_surrogate c then map_option (Cons c) (code_points (d # r))
      else if low_surrogate d
      then map_option (Cons ((c - 55296) * 1024 + (d - 56320) + 65536)) (code_points r)
      else None)"

definition utf16 :: "nat \<Rightarrow> jstr" where
  "utf16 p = (if p < 65536 then [p]
     else [55296 + (p - 65536) div 1024, 56320 + (p - 65536) mod 1024])"

lemma utf16_pair:
  assumes "high_surrogate c" "low_surrogate d"
  shows "utf16 ((c - 55296) * 1024 + (d - 56320) + 65536) = [c, d]"
proof -
  obtain x where x: "c = 55296 + x"
    using assms(1) unfolding high_surrogate_def by (metis le_Suc_ex)
  obtain y where y: "d = 56320 + y"
    using assms(2) unfolding low_surrogate_def by (metis le_Suc_ex)
  have "y < 1024" using assms(2) by (simp add: y low_surrogate_def)
  then have "(x * 1024 + y) div 1024 = x" "(x * 1024 + y) mod 1024 = y" by simp_all
  then show ?thesis by (simp add: utf16_def x y)
qed

lemma utf16_code_points: "units_ok s \<Longrightarrow> code_points s = Some ps \<Longrightarrow> concat (map utf16 ps) = s"
proof (induction s arbitrary: ps rule: code_points.induct)
  case (3 c d r)
  then show ?case
    by (auto simp: utf16_pair split: if_splits) (simp_all add: utf16_def)
qed (auto simp: utf16_def split: if_splits)

lemma code_points_bound: "units_ok s \<Longrightarrow> code_points s = Some ps \<Longrightarrow> p \<in> set ps \<Longrightarrow> p < 1114112"
proof (induction s arbitrary: ps rule: code_points.induct)
  case (3 c d r)
  then show ?case
    by (auto simp: high_surrogate_def low_surrogate_def split: if_splits)
qed (auto split: if_splits)

definition utf8 :: "nat \<Rightarrow> nat list" where
  "utf8 p =
     (if p < 128 then [p]
      else if p < 2048 then [192 + p div 64, 128 + p mod 64]
      else if p < 65536 then [224 + p div 4096, 128 + p div 64 mod 64, 128 + p mod 64]
      else [240 + p div 262144, 128 + p div 4096 mod 64, 128 + p div 64 mod 64, 128 + p mod 64])"

fun utf8_decode :: "nat list \<Rightarrow> nat list" where
  "utf8_decode (a # r) =
     (if a < 128 then a # utf8_decode r
      else (case r of
        b # r1 \<Rightarrow> if a < 224 then ((a - 192) * 64 + (b - 128)) # utf8_decode r1
          else (case r1 of
            c # r2 \<Rightarrow> if a < 240 then ((a - 224) * 4096 + (b - 128) * 64 + (c - 128)) # utf8_decode r2
              else (case r2 of
                d # r3 \<Rightarrow> ((a - 240) * 262144 + (b - 128) * 4096 + (c - 128) * 64 + (d - 128)) # utf8_decode r3
              | [] \<Rightarrow> [])
          | [] \<Rightarrow> [])
      | [] \<Rightarrow> []))"
| "utf8_decode [] = []"

lemma split_64: "p div 64 * 64 + p mod 64 = (p :: nat)"
  by simp

lemma split_4096: "p div 4096 * 4096 + p div 64 mod 64 * 64 + p mod 64 = (p :: nat)"
proof -
  have "p div 64 div 64 * 64 + p div 64 mod 64 = p div 64" by simp
  then have "(p div 4096 * 64 + p div 64 mod 64) * 64 = p div 64 * 64"
    by (simp add: div_mult2_eq [symmetric])
  then show ?thesis by (simp add: algebra_simps)
qed

lemma split_262144:
  "p div 262144 * 262144 + p div 4096 mod 64 * 4096 + p div 64 mod 64 * 64 + p mod 64 = (p :: nat)"
proof -
  have "p div 4096 div 64 * 64 + p div 4096 mod 64 = p div 4096" by simp
  then have "(p div 262144 * 64 + p div 4096 mod 64) * 4096 = p div 4096 * 4096"
    by (simp add: div_mult2_eq [symmetric])
  with split_4096 [of p] show ?thesis by (simp add: algebra_simps)
qed

lemma utf8_decode_utf8: "p < 1114112 \<Longrightarrow> utf8_decode (utf8 p @ r) = p # utf8_decode r"
proof -
  assume p: "p < 1114112"
  consider "p < 128" | "128 \<le> p" "p < 2048" | "2048 \<le> p" "p < 65536" | "65536 \<le> p"
    by linarith
  then show ?thesis
  proof cases
    case 2
    then have "p div 64 < 32" by (simp add: less_mult_imp_div_less)
    with 2 show ?thesis by (simp add: utf8_def split_64)
  next
    case 3
    then have "p div 4096 < 16" by (simp add: less_mult_imp_div_less)
    with 3 show ?thesis by (simp add: utf8_def split_4096)
  next
    case 4
    then show ?thesis by (simp add: utf8_def split_262144)
  qed (simp add: utf8_def)
qed

lemma utf8_decode_concat:
  "\<forall>p \<in> set ps. p < 1114112 \<Longrightarrow> utf8_decode (concat (map utf8 ps)) = ps"
  by (induction ps) (auto simp: utf8_decode_utf8)

lemma utf8_bytes: "p < 1114112 \<Longrightarrow> b \<in> set (utf8 p) \<Longrightarrow> b < 256"
proof -
  assume "p < 1114112" "b \<in> set (utf8 p)"
  moreover have "p < 2048 \<Longrightarrow> p div 64 < 32" "p < 65536 \<Longrightarrow> p div 4096 < 16"
    "p < 1114112 \<Longrightarrow> p div 262144 < 5"
    by (simp_all add: less_mult_imp_div_less)
  moreover have "p mod 64 < 64" "p div 64 mod 64 < 64" "p div 4096 mod 64 < 64" by simp_all
  ultimately show ?thesis
    unfolding utf8_def by (simp split: if_splits) linarith+
qed

section \<open>encodeURIComponent\<close>

definition uri_unreserved :: "nat \<Rightarrow> bool" where
  "uri_unreserved c \<longleftrightarrow> (48 \<le> c \<and> c \<le> 57) \<or> (65 \<le> c \<and> c \<le> 90) \<or> (97 \<le> c \<and> c \<le> 122)
     \<or> c \<in> set (js ''-_.!~*()'') \<or> c = 39"

definition hex_digit :: "nat \<Rightarrow> nat" where
  "hex_digit d = (if d < 10 then 48 + d else 55 + d)"

definition unhex :: "nat \<Rightarrow> nat" where
  "unhex c = (if c < 58 then c - 48 else c - 55)"

lemma unhex_hex [simp]: "unhex (hex_digit d) = d"
  by (simp add: unhex_def hex_digit_def)

definition percent :: "nat \<Rightarrow> jstr" where
  "percent b = [37, hex_digit (b div 16), hex_digit (b mod 16)]"

definition encode_point :: "nat \<Rightarrow> jstr" where
  "encode_point p = (if uri_unreserved p then [p] else concat (map percent (utf8 p)))"

text \<open>\<open>None\<close> is the \<open>URIError\<close> on a lone surrogate.\<close>

definition encodeURIComponent :: "jstr \<Rightarrow> jstr option" where
  "encodeURIComponent s = map_option (concat \<circ> map encode_point) (code_points s)"

fun percent_decode :: "jstr \<Rightarrow> nat list" where
  "percent_decode (c # h # l # r) =
     (if c = 37 then (unhex h * 16 + unhex l) # percent_decode r
      else c # percent_decode (h # l # r))"
| "percent_decode s = s"

lemma percent_decode_plain: "c \<noteq> 37 \<Longrightarrow> percent_decode (c # s) = c # percent_decode s"
  by (cases "(c # s)" rule: percent_decode.cases) auto

lemma percent_decode_percent: "percent_decode (percent b @ s) = b # percent_decode s"
  by (simp add: percent_def)

lemma percent_decode_bytes:
  "percent_decode (concat (map percent bs) @ s) = bs @ percent_decode s"
  by (induction bs) (simp_all add: percent_decode_percent)

lemma unreserved_not_special:
  "uri_unreserved c \<Longrightarrow> c \<noteq> 37 \<and> c \<noteq> 47 \<and> c \<noteq> 63 \<and> c \<noteq> 38 \<and> c \<noteq> 61 \<and> c \<noteq> 35 \<and> c < 128"
  by (auto simp: uri_unreserved_def js_eval)

lemma percent_decode_point: "percent_decode (encode_point p @ s) = utf8 p @ percent_decode s"
proof (cases "uri_unreserved p")
  case True
  then have "p \<noteq> 37" "p < 128" using unreserved_not_special by auto
  with True show ?thesis by (simp add: encode_point_def percent_decode_plain utf8_def)
next
  case False
  then show ?thesis by (simp add: encode_point_def percent_decode_bytes)
qed

lemma percent_decode_points:
  "percent_decode (concat (map encode_point ps)) = concat (map utf8 ps)"
  by (induction ps) (simp_all add: percent_decode_point)

text \<open>Percent decoding, UTF-8 decoding and UTF-16 encoding undo \<open>encodeURIComponent\<close>.\<close>

lemma encodeURIComponent_roundtrip:
  assumes "units_ok s" "encodeURIComponent s = Some e"
  shows "concat (map utf16 (utf8_decode (percent_decode e))) = s"
proof -
  obtain ps where ps: "code_points s = Some ps" and e: "e = concat (map encode_point ps)"
    using assms(2) by (auto simp: encodeURIComponent_def)
  have "utf8_decode (percent_decode e) = ps"
    using code_points_bound [OF assms(1) ps]
    by (simp add: e percent_decode_points utf8_decode_concat)
  with utf16_code_points [OF assms(1) ps] show ?thesis by simp
qed

lemma encodeURIComponent_inject:
  assumes "units_ok s" "units_ok t"
    and "encodeURIComponent s = Some e" "encodeURIComponent t = Some e"
  shows "s = t"
  using encodeURIComponent_roundtrip [OF assms(1,3)] encodeURIComponent_roundtrip [OF assms(2,4)]
  by simp

text \<open>The output has no character with a meaning in a URL but the percent sign itself.\<close>

definition uri_safe :: "jstr \<Rightarrow> bool" where
  "uri_safe e \<longleftrightarrow> list_all (\<lambda>c. c = 37 \<or> uri_unreserved c) e"

lemma uri_safe_append [simp]: "uri_safe (a @ b) \<longleftrightarrow> uri_safe a \<and> uri_safe b"
  by (simp add: uri_safe_def)

lemma uri_safe_percent: "b < 256 \<Longrightarrow> uri_safe (percent b)"
proof -
  assume "b < 256"
  then have "b div 16 < 16" "b mod 16 < 16" by (simp_all add: less_mult_imp_div_less)
  then show ?thesis
    by (auto simp: uri_safe_def percent_def hex_digit_def uri_unreserved_def)
qed

lemma uri_safe_encode_point: "p < 1114112 \<Longrightarrow> uri_safe (encode_point p)"
  using uri_safe_percent utf8_bytes [of p]
  by (auto simp: encode_point_def uri_safe_def list_all_iff)

lemma encodeURIComponent_safe:
  assumes "units_ok s" "encodeURIComponent s = Some e"
  shows "uri_safe e"
proof -
  obtain ps where ps: "code_points s = Some ps" and e: "e = concat (map encode_point ps)"
    using assms(2) by (auto simp: encodeURIComponent_def)
  have "\<forall>p \<in> set ps. uri_safe (encode_point p)"
    using code_points_bound [OF assms(1) ps] uri_safe_encode_point by blast
  then show ?thesis by (auto simp: e uri_safe_def list_all_iff)
qed

lemma uri_safe_no_special: "uri_safe e \<Longrightarrow> c \<in> set [47, 63, 38, 61, 35] \<Longrightarrow> c \<notin> set e"
  by (auto simp: uri_safe_def list_all_iff dest!: unreserved_not_special)

text \<open>Evaluation of closed instances.\<close>

lemmas encode_eval = encodeURIComponent_def high_surrogate_def low_surrogate_def encode_point_def
  uri_unreserved_def percent_def hex_digit_def utf8_def js_eval

lemmas show_eval = show_int_def show_nat_def to_radix_def radix_digits.simps digit_char_def js_eval

end
