(* ===== verification/Json.thy ===== *)
theory Json
  imports Encoding
begin

text \<open>
  JSON values with \<open>JSON.stringify\<close> and \<open>JSON.parse\<close>.  Numbers are integers: a literal with
  a fraction or an exponent is outside the modelled fragment and the parser rejects it (the
  protocol carries integers only).  Objects are association lists in insertion order; a
  repeated key keeps its first position and its last value, as in JavaScript.  The parser
  takes fuel; \<open>parse\<close> gives it one unit more than the input has code units, and the round trip
  shows that this is enough for every printed value.
\<close>

datatype json =
    JNull
  | JBool bool
  | JNum int
  | JStr jstr
  | JArr "json list"
  | JObj "(jstr \<times> json) list"

text \<open>Reading a property; \<open>None\<close> is \<open>undefined\<close>.\<close>

fun jget :: "jstr \<Rightarrow> json \<Rightarrow> json option" where
  "jget k (JObj kvs) = map_of kvs k"
| "jget k _ = None"

fun json_number :: "json \<Rightarrow> int option" where
  "json_number (JNum n) = Some n"
| "json_number _ = None"

fun json_string :: "json \<Rightarrow> jstr option" where
  "json_string (JStr s) = Some s"
| "json_string _ = None"

text \<open>The conversion to \<open>boolean\<close> in a condition.\<close>

fun truthy :: "json \<Rightarrow> bool" where
  "truthy JNull = False"
| "truthy (JBool b) = b"
| "truthy (JNum n) = (n \<noteq> 0)"
| "truthy (JStr s) = (s \<noteq> [])"
| "truthy _ = True"

section \<open>Printing\<close>

definition hex4 :: "nat \<Rightarrow> jstr" where
  "hex4 c = map digit_char [c div 4096, c div 256 mod 16, c div 16 mod 16, c mod 16]"

definition escape_unit :: "nat \<Rightarrow> jstr" where
  "escape_unit c =
     (if c = 34 then [92, 34] else if c = 92 then [92, 92]
      else if c = 8 then [92, 98] else if c = 12 then [92, 102]
      else if c = 10 then [92, 110] else if c = 13 then [92, 114]
      else if c = 9 then [92, 116]
      else if c < 32 \<or> high_surrogate c \<or> low_surrogate c then [92, 117] @ hex4 c
      else [c])"

fun quote_body :: "jstr \<Rightarrow> jstr" where
  "quote_body [] = []"
| "quote_body [c] = escape_unit c"
| "quote_body (c # d # r) =
     (if high_surrogate c \<and> low_surrogate d then c # d # quote_body r
      else escape_unit c @ quote_body (d # r))"

definition quote_string :: "jstr \<Rightarrow> jstr" where
  "quote_string s = 34 # quote_body s @ [34]"

fun stringify :: "json \<Rightarrow> jstr" where
  "stringify JNull = js ''null''"
| "stringify (JBool b) = (if b then js ''true'' else js ''false'')"
| "stringify (JNum n) = show_int n"
| "stringify (JStr s) = quote_string s"
| "stringify (JArr vs) = 91 # join [44] (map stringify vs) @ [93]"
| "stringify (JObj kvs) =
     123 # join [44] (map (\<lambda>(k, v). quote_string k @ 58 # stringify v) kvs) @ [125]"

section \<open>Parsing\<close>

definition json_space :: "nat \<Rightarrow> bool" where
  "json_space c \<longleftrightarrow> c = 32 \<or> c = 9 \<or> c = 10 \<or> c = 13"

abbreviation skip_ws :: "jstr \<Rightarrow> jstr" where
  "skip_ws \<equiv> dropWhile json_space"

definition is_hex :: "nat \<Rightarrow> bool" where
  "is_hex c \<longleftrightarrow> (48 \<le> c \<and> c \<le> 57) \<or> (65 \<le> c \<and> c \<le> 70) \<or> (97 \<le> c \<and> c \<le> 102)"

definition hex_value :: "nat \<Rightarrow> nat" where
  "hex_value c = (if c \<le> 57 then c - 48 else if c \<le> 70 then c - 55 else c - 87)"

definition unescape :: "nat \<Rightarrow> nat option" where
  "unescape c =
     (if c = 34 \<or> c = 92 \<or> c = 47 then Some c
      else if c = 98 then Some 8 else if c = 102 then Some 12
      else if c = 110 then Some 10 else if c = 114 then Some 13
      else if c = 116 then Some 9 else None)"

definition push :: "nat \<Rightarrow> (jstr \<times> jstr) option \<Rightarrow> (jstr \<times> jstr) option" where
  "push c r = map_option (apfst (Cons c)) r"

fun parse_string :: "jstr \<Rightarrow> (jstr \<times> jstr) option" where
  "parse_string [] = None"
| "parse_string (c # r) =
     (if c = 34 then Some ([], r)
      else if c = 92 then
        (case r of
           [] \<Rightarrow> None
         | e # r1 \<Rightarrow>
             if e = 117 then
               (case r1 of
                  h1 # h2 # h3 # h4 # r2 \<Rightarrow>
                    if is_hex h1 \<and> is_hex h2 \<and> is_hex h3 \<and> is_hex h4
                    then push (hex_value h1 * 4096 + hex_value h2 * 256 + hex_value h3 * 16 + hex_value h4)
                           (parse_string r2)
                    else None
                | _ \<Rightarrow> None)
             else (case unescape e of None \<Rightarrow> None | Some u \<Rightarrow> push u (parse_string r1)))
      else if c < 32 then None
      else push c (parse_string r))"

definition is_digit :: "nat \<Rightarrow> bool" where
  "is_digit c \<longleftrightarrow> 48 \<le> c \<and> c \<le> 57"

definition number_end :: "jstr \<Rightarrow> bool" where
  "number_end s \<longleftrightarrow> (case s of [] \<Rightarrow> True | c # _ \<Rightarrow> \<not> is_digit c \<and> c \<noteq> 46 \<and> c \<noteq> 101 \<and> c \<noteq> 69)"

definition parse_digits :: "jstr \<Rightarrow> (nat \<times> jstr) option" where
  "parse_digits s =
     (let ds = takeWhile is_digit s; r = dropWhile is_digit s
      in if ds = [] \<or> (hd ds = 48 \<and> length ds > 1) \<or> \<not> number_end r then None
         else Some (radix_value 10 (map char_digit ds), r))"

definition parse_number :: "jstr \<Rightarrow> (int \<times> jstr) option" where
  "parse_number s =
     (case s of
        [] \<Rightarrow> None
      | c # r \<Rightarrow>
          if c = 45 then map_option (apfst (\<lambda>n. - int n)) (parse_digits r)
          else map_option (apfst int) (parse_digits s))"

definition literal :: "jstr \<Rightarrow> json \<Rightarrow> jstr \<Rightarrow> (json \<times> jstr) option" where
  "literal w v s = (if starts_with s w then Some (v, drop (length w) s) else None)"

fun parse_value :: "nat \<Rightarrow> jstr \<Rightarrow> (json \<times> jstr) option"
and parse_elems :: "nat \<Rightarrow> jstr \<Rightarrow> (json list \<times> jstr) option"
and parse_members :: "nat \<Rightarrow> jstr \<Rightarrow> ((jstr \<times> json) list \<times> jstr) option" where
  "parse_value 0 s = None"
| "parse_value (Suc n) s0 =
     (case skip_ws s0 of
        [] \<Rightarrow> None
      | c # r \<Rightarrow>
          if c = 34 then map_option (apfst JStr) (parse_string r)
          else if c = 91 then
            (case skip_ws r of
               [] \<Rightarrow> None
             | d # r' \<Rightarrow>
                 if d = 93 then Some (JArr [], r')
                 else map_option (apfst JArr) (parse_elems n (d # r')))
          else if c = 123 then
            (case skip_ws r of
               [] \<Rightarrow> None
             | d # r' \<Rightarrow>
                 if d = 125 then Some (JObj [], r')
                 else map_option (apfst (\<lambda>es. JObj (foldl (\<lambda>m (k, v). AList.update k v m) [] es)))
                        (parse_members n (d # r')))
          else if c = 110 then literal (js ''null'') JNull (c # r)
          else if c = 116 then literal (js ''true'') (JBool True) (c # r)
          else if c = 102 then literal (js ''false'') (JBool False) (c # r)
          else map_option (apfst JNum) (parse_number (c # r)))"
| "parse_elems 0 s = None"
| "parse_elems (Suc n) s =
     (case parse_value n s of
        None \<Rightarrow> None
      | Some (v, r) \<Rightarrow>
          (case skip_ws r of
             [] \<Rightarrow> None
           | c # r' \<Rightarrow>
               if c = 93 then Some ([v], r')
               else if c = 44 then map_option (apfst (Cons v)) (parse_elems n r')
               else None))"
| "parse_members 0 s = None"
| "parse_members (Suc n) s =
     (case skip_ws s of
        [] \<Rightarrow> None
      | q # s1 \<Rightarrow>
          if q \<noteq> 34 then None
          else (case parse_string s1 of
            None \<Rightarrow> None
          | Some (k, s2) \<Rightarrow>
              (case skip_ws s2 of
                 [] \<Rightarrow> None
               | d # s3 \<Rightarrow>
                   if d \<noteq> 58 then None
                   else (case parse_value n s3 of
                     None \<Rightarrow> None
                   | Some (v, r) \<Rightarrow>
                       (case skip_ws r of
                          [] \<Rightarrow> None
                        | c # r' \<Rightarrow>
                            if c = 125 then Some ([(k, v)], r')
                            else if c = 44 then map_option (apfst (Cons (k, v))) (parse_members n r')
                            else None)))))"

text \<open>\<open>JSON.parse\<close>; \<open>None\<close> is the \<open>SyntaxError\<close>.\<close>

definition parse :: "jstr \<Rightarrow> json option" where
  "parse s =
     (case parse_value (Suc (length s)) s of
        Some (v, r) \<Rightarrow> if skip_ws r = [] then Some v else None
      | None \<Rightarrow> None)"

section \<open>Round trip\<close>

fun json_ok :: "json \<Rightarrow> bool" where
  "json_ok (JStr s) = units_ok s"
| "json_ok (JArr vs) = list_all json_ok vs"
| "json_ok (JObj kvs) = (distinct (map fst kvs) \<and> list_all (\<lambda>(k, v). units_ok k \<and> json_ok v) kvs)"
| "json_ok _ = True"

lemma hex_value_digit: "d < 16 \<Longrightarrow> is_hex (digit_char d) \<and> hex_value (digit_char d) = d"
  by (auto simp: is_hex_def hex_value_def digit_char_def)

lemma hex4_value:
  assumes "(c :: nat) < 65536"
  shows "c div 4096 * 4096 + c div 256 mod 16 * 256 + c div 16 mod 16 * 16 + c mod 16 = c"
proof -
  have 1: "c div 16 * 16 + c mod 16 = c" by simp
  have "c div 16 div 16 * 16 + c div 16 mod 16 = c div 16" by simp
  then have 2: "c div 256 * 16 + c div 16 mod 16 = c div 16" by (simp add: div_mult2_eq [symmetric])
  have "c div 256 div 16 * 16 + c div 256 mod 16 = c div 256" by simp
  then have 3: "c div 4096 * 16 + c div 256 mod 16 = c div 256" by (simp add: div_mult2_eq [symmetric])
  show ?thesis using 1 2 3 by linarith
qed

lemma parse_string_hex4:
  assumes "c < 65536"
  shows "parse_string (92 # 117 # hex4 c @ r) = push c (parse_string r)"
proof -
  have "c div 4096 < 16" using assms by (simp add: less_mult_imp_div_less)
  then show ?thesis
    using hex4_value [OF assms] by (simp add: hex4_def hex_value_digit)
qed

lemma parse_string_escape_unit:
  assumes "c < 65536"
  shows "parse_string (escape_unit c @ r) = push c (parse_string r)"
proof (cases "c \<in> set [34, 92, 8, 12, 10, 13, 9]")
  case True
  then show ?thesis by (auto simp: escape_unit_def unescape_def)
next
  case False
  then show ?thesis
    using parse_string_hex4 [OF assms, of r] by (simp add: escape_unit_def)
qed

lemma parse_string_end [simp]: "parse_string (34 # r) = Some ([], r)"
  by simp

lemma parse_string_plain:
  "c \<noteq> 34 \<Longrightarrow> c \<noteq> 92 \<Longrightarrow> 32 \<le> c \<Longrightarrow> parse_string (c # r) = push c (parse_string r)"
  by simp

declare parse_string.simps(2) [simp del]

lemma parse_string_quote_body:
  "units_ok s \<Longrightarrow> parse_string (quote_body s @ 34 # r) = Some (s, r)"
proof (induction s rule: quote_body.induct)
  case (2 c)
  then show ?case by (simp add: parse_string_escape_unit push_def)
next
  case (3 c d s)
  show ?case
  proof (cases "high_surrogate c \<and> low_surrogate d")
    case True
    have IH: "parse_string (quote_body s @ 34 # r) = Some (s, r)"
      using "3.IH"(1) [OF True] "3.prems" by simp
    have "c > 92" "d > 92" using True by (auto simp: high_surrogate_def low_surrogate_def)
    with True IH show ?thesis by (simp add: parse_string_plain push_def)
  next
    case False
    have "parse_string (quote_body (d # s) @ 34 # r) = Some (d # s, r)"
      using "3.IH"(2) [OF False] "3.prems" by simp
    with 3 False show ?thesis by (auto simp: parse_string_escape_unit push_def)
  qed
qed simp

lemma takeWhile_dropWhile_digits:
  assumes "\<forall>c \<in> set ds. is_digit c" "number_end r"
  shows "takeWhile is_digit (ds @ r) = ds" "dropWhile is_digit (ds @ r) = r"
proof -
  have "takeWhile is_digit r = [] \<and> dropWhile is_digit r = r"
    using assms(2) by (cases r) (auto simp: number_end_def)
  then show "takeWhile is_digit (ds @ r) = ds" "dropWhile is_digit (ds @ r) = r"
    using assms(1) by (simp_all add: takeWhile_append dropWhile_append)
qed

lemma show_nat_head: "1 < length (show_nat n) \<Longrightarrow> hd (show_nat n) \<noteq> 48"
proof -
  have *: "0 < m \<Longrightarrow> hd (radix_digits 10 m) \<noteq> 0" for m
  proof (induction "10 :: nat" m rule: radix_digits.induct)
    case (1 m)
    show ?case
    proof (cases "m < 10")
      case True
      with 1 show ?thesis by (simp add: radix_digits.simps)
    next
      case False
      then have "0 < m div 10" by simp
      with 1 False have "hd (radix_digits 10 (m div 10)) \<noteq> 0" by simp
      with False show ?thesis by (simp add: radix_digits.simps [of 10 m] hd_append)
    qed
  qed
  assume "1 < length (show_nat n)"
  then have "n \<noteq> 0" by (cases "n = 0") (auto simp: show_nat_def radix_digits.simps [of 10 0])
  with * have "hd (radix_digits 10 n) \<noteq> 0" by simp
  moreover have "hd (show_nat n) = digit_char (hd (radix_digits 10 n))"
    by (simp add: show_nat_def to_radix_def hd_map)
  ultimately show ?thesis by (simp add: digit_char_def)
qed

lemma parse_digits_show_nat:
  assumes "number_end r"
  shows "parse_digits (show_nat n @ r) = Some (n, r)"
proof -
  have ds: "\<forall>c \<in> set (show_nat n). is_digit c"
    using show_nat_digits by (auto simp: is_digit_def)
  have "radix_value 10 (map char_digit (show_nat n)) = n"
    by (simp add: show_nat_def to_radix_def comp_def radix_value_digits)
  with takeWhile_dropWhile_digits [OF ds assms] assms show_nat_head [of n] show ?thesis
    by (auto simp: parse_digits_def Let_def)
qed

lemma show_nat_hd_digit: "48 \<le> hd (show_nat n) \<and> hd (show_nat n) \<le> 57"
  using show_nat_digits [OF list.set_sel(1) [OF show_nat_not_Nil]] .

lemma show_nat_append_Cons: "\<exists>c cs. show_nat n @ r = c # cs \<and> 48 \<le> c \<and> c \<le> 57"
  using show_nat_hd_digit [of n] by (cases "show_nat n") (use show_nat_not_Nil in auto)

lemma parse_number_show_int:
  assumes "number_end r"
  shows "parse_number (show_int i @ r) = Some (i, r)"
proof (cases "i < 0")
  case True
  then show ?thesis
    by (simp add: parse_number_def show_int_def parse_digits_show_nat [OF assms])
next
  case False
  obtain c cs where c: "show_nat (nat i) @ r = c # cs" "48 \<le> c"
    using show_nat_append_Cons [of "nat i" r] by auto
  then have "parse_number (show_nat (nat i) @ r) = map_option (apfst int) (parse_digits (show_nat (nat i) @ r))"
    by (simp add: parse_number_def)
  with False show ?thesis
    by (simp add: show_int_def parse_digits_show_nat [OF assms])
qed

lemma parse_value_number:
  assumes "number_end r"
  shows "parse_value (Suc n) (show_int i @ r) = Some (JNum i, r)"
proof -
  obtain c cs where c: "show_int i @ r = c # cs" "c = 45 \<or> (48 \<le> c \<and> c \<le> 57)"
    using show_nat_append_Cons [of "nat i" r] by (cases "i < 0") (auto simp: show_int_def)
  then have "\<not> json_space c" by (auto simp: json_space_def)
  with c have "parse_value (Suc n) (show_int i @ r) =
      map_option (apfst JNum) (parse_number (show_int i @ r))"
    by auto
  with parse_number_show_int [OF assms, of i] show ?thesis by simp
qed

text \<open>The first unit of a printed value is no white space and closes nothing.\<close>

lemma stringify_Cons:
  "\<exists>c cs. stringify v = c # cs \<and> \<not> json_space c \<and> c \<noteq> 93 \<and> c \<noteq> 125"
proof (cases v)
  case (JNum i)
  then show ?thesis
    using show_nat_append_Cons [of "nat i" "[]"]
    by (cases "i < 0") (auto simp: show_int_def json_space_def)
qed (auto simp: js_eval json_space_def quote_string_def)

lemma length_stringify_pos: "0 < length (stringify v)"
  using stringify_Cons [of v] by auto

lemma foldl_update_distinct:
  "distinct (map fst (m @ kvs)) \<Longrightarrow> foldl (\<lambda>m (k, v). AList.update k v m) m kvs = m @ kvs"
proof (induction kvs arbitrary: m)
  case (Cons kv kvs)
  obtain k v where kv: "kv = (k, v)" by force
  have "k \<notin> fst ` set m" using Cons.prems by (auto simp: kv)
  then have "AList.update k v m = m @ [(k, v)]"
    by (induction m) auto
  with Cons kv show ?case by simp
qed simp

definition member_text :: "jstr \<times> json \<Rightarrow> jstr" where
  "member_text kv = quote_string (fst kv) @ 58 # stringify (snd kv)"

lemma stringify_JObj:
  "stringify (JObj kvs) = 123 # join [44] (map member_text kvs) @ [125]"
  by (simp add: member_text_def [abs_def] case_prod_unfold)

declare stringify.simps(6) [simp del]

definition roundtrips :: "json \<Rightarrow> bool" where
  "roundtrips v \<longleftrightarrow> (\<forall>n r. length (stringify v) < n \<longrightarrow> number_end r \<longrightarrow>
     parse_value n (stringify v @ r) = Some (v, r))"

lemma roundtripsD:
  "roundtrips v \<Longrightarrow> length (stringify v) < n \<Longrightarrow> number_end r \<Longrightarrow>
     parse_value n (stringify v @ r) = Some (v, r)"
  by (simp add: roundtrips_def)

lemma number_end_simps [simp]:
  "number_end (44 # r)" "number_end (93 # r)" "number_end (125 # r)" "number_end []"
  by (simp_all add: number_end_def is_digit_def)

lemma json_space_simps [simp]:
  "\<not> json_space 44" "\<not> json_space 93" "\<not> json_space 125" "\<not> json_space 34"
  "\<not> json_space 58" "\<not> json_space 91" "\<not> json_space 123"
  by (simp_all add: json_space_def)

lemma parse_elems_stringify:
  assumes "vs \<noteq> []" "\<forall>v \<in> set vs. roundtrips v" "length (join [44] (map stringify vs)) + 1 < n"
  shows "parse_elems n (join [44] (map stringify vs) @ 93 # r) = Some (vs, r)"
  using assms
proof (induction vs arbitrary: n)
  case (Cons v vs)
  then obtain m where n: "n = Suc m" by (cases n) auto
  show ?case
  proof (cases "vs = []")
    case True
    with Cons n show ?thesis by (simp add: roundtripsD)
  next
    case False
    have j: "join [44] (stringify v # map stringify vs) = stringify v @ 44 # join [44] (map stringify vs)"
      using False by (simp add: join_Cons_ne)
    have "parse_value m (stringify v @ 44 # join [44] (map stringify vs) @ 93 # r)
        = Some (v, 44 # join [44] (map stringify vs) @ 93 # r)"
      using Cons.prems n j by (intro roundtripsD) auto
    moreover have "parse_elems m (join [44] (map stringify vs) @ 93 # r) = Some (vs, r)"
      using Cons False n j length_stringify_pos [of v] by (intro Cons.IH) auto
    ultimately show ?thesis using n by (simp add: j)
  qed
qed simp

lemma parse_members_stringify:
  assumes "kvs \<noteq> []" "\<forall>kv \<in> set kvs. units_ok (fst kv) \<and> roundtrips (snd kv)"
    and "length (join [44] (map member_text kvs)) + 1 < n"
  shows "parse_members n (join [44] (map member_text kvs) @ 125 # r) = Some (kvs, r)"
  using assms
proof (induction kvs arbitrary: n)
  case (Cons kv kvs)
  obtain k v where kv: "kv = (k, v)" by force
  from Cons.prems obtain m where n: "n = Suc m" by (cases n) auto
  have str: "parse_string (quote_body k @ 34 # s) = Some (k, s)" for s
    using Cons.prems kv by (simp add: parse_string_quote_body)
  show ?case
  proof (cases "kvs = []")
    case True
    with Cons n have "parse_value m (stringify v @ 125 # r) = Some (v, 125 # r)"
      by (intro roundtripsD) (auto simp: kv member_text_def)
    with True n show ?thesis by (simp add: kv member_text_def quote_string_def str)
  next
    case False
    let ?rest = "join [44] (map member_text kvs)"
    have j: "join [44] (member_text kv # map member_text kvs) = member_text kv @ 44 # ?rest"
      using False by (simp add: join_Cons_ne)
    have len: "length (member_text kv) + length ?rest < m"
      using Cons.prems(3) n by (simp add: j)
    have v: "length (stringify v) < length (member_text kv)"
      by (simp add: kv member_text_def)
    have "parse_value m (stringify v @ 44 # ?rest @ 125 # r) = Some (v, 44 # ?rest @ 125 # r)"
      using Cons.prems(2) len v by (intro roundtripsD) (auto simp: kv)
    moreover have "parse_members m (?rest @ 125 # r) = Some (kvs, r)"
      using Cons.prems(2) False len v by (intro Cons.IH) auto
    moreover have "join [44] (map member_text (kv # kvs)) @ 125 # r =
        34 # quote_body k @ 34 # 58 # stringify v @ 44 # ?rest @ 125 # r"
      by (simp add: j) (simp add: kv member_text_def quote_string_def)
    ultimately show ?thesis unfolding n by (simp add: kv str)
  qed
qed simp

lemma roundtrips_JArr:
  assumes "\<forall>v \<in> set vs. roundtrips v"
  shows "roundtrips (JArr vs)"
  unfolding roundtrips_def
proof (intro allI impI)
  fix n r assume n: "length (stringify (JArr vs)) < n"
  then obtain m where m: "n = Suc m" by (cases n) auto
  show "parse_value n (stringify (JArr vs) @ r) = Some (JArr vs, r)"
  proof (cases vs)
    case Nil
    with m show ?thesis by simp
  next
    case (Cons v ws)
    obtain c cs where c: "stringify v = c # cs" "\<not> json_space c" "c \<noteq> 93"
      using stringify_Cons by blast
    have "\<exists>cs'. join [44] (map stringify vs) @ 93 # r = c # cs'"
      using c by (cases ws) (auto simp: Cons)
    then obtain cs' where cs': "join [44] (map stringify vs) @ 93 # r = c # cs'" by auto
    have "parse_elems m (join [44] (map stringify vs) @ 93 # r) = Some (vs, r)"
      using assms Cons n m by (intro parse_elems_stringify) auto
    with c m show ?thesis
      by (simp add: cs')
  qed
qed

lemma roundtrips_JObj:
  assumes "distinct (map fst kvs)" "\<forall>kv \<in> set kvs. units_ok (fst kv) \<and> roundtrips (snd kv)"
  shows "roundtrips (JObj kvs)"
  unfolding roundtrips_def
proof (intro allI impI)
  fix n r assume n: "length (stringify (JObj kvs)) < n"
  then obtain m where m: "n = Suc m" by (cases n) auto
  show "parse_value n (stringify (JObj kvs) @ r) = Some (JObj kvs, r)"
  proof (cases kvs)
    case Nil
    with m show ?thesis by (simp add: stringify_JObj)
  next
    case (Cons kv ws)
    have "\<exists>cs'. join [44] (map member_text kvs) @ 125 # r = 34 # cs'"
      by (cases ws) (auto simp: Cons member_text_def quote_string_def)
    then obtain cs' where cs': "join [44] (map member_text kvs) @ 125 # r = 34 # cs'" by auto
    have "parse_members m (join [44] (map member_text kvs) @ 125 # r) = Some (kvs, r)"
      using assms Cons n m by (intro parse_members_stringify) (auto simp: stringify_JObj)
    with m show ?thesis
      using foldl_update_distinct [of "[]" kvs] assms(1)
      by (simp add: stringify_JObj cs')
  qed
qed

lemma literal_append [simp]: "literal w v (w @ r) = Some (v, r)"
  by (simp add: literal_def starts_with_def)

lemma parse_value_word:
  "parse_value (Suc n) (js ''null'' @ r) = Some (JNull, r)"
  "parse_value (Suc n) (js ''true'' @ r) = Some (JBool True, r)"
  "parse_value (Suc n) (js ''false'' @ r) = Some (JBool False, r)"
  by (simp_all add: js_eval json_space_def literal_def starts_with_def)

lemma stringify_roundtrips: "json_ok v \<Longrightarrow> roundtrips v"
proof (induction v rule: json_ok.induct)
  case (2 vs)
  then show ?case by (intro roundtrips_JArr) (auto simp: list_all_iff)
next
  case (3 kvs)
  then show ?case by (intro roundtrips_JObj) (auto simp: list_all_iff)
next
  case (1 s)
  then show ?case
    by (auto simp: roundtrips_def quote_string_def json_space_def parse_string_quote_body gr0_conv_Suc
        dest!: less_imp_Suc_add)
qed (auto simp: roundtrips_def parse_value_word parse_value_number dest!: less_imp_Suc_add
    simp del: parse_value.simps)

text \<open>\<open>JSON.parse(JSON.stringify(v))\<close> is \<open>v\<close>.\<close>

lemma parse_stringify: "json_ok v \<Longrightarrow> parse (stringify v) = Some v"
  using roundtripsD [OF stringify_roundtrips, of v "Suc (length (stringify v))" "[]"]
  by (simp add: parse_def)

end
