(* ===== verification/Types.thy ===== *)
theory Types
  imports Json
begin

text \<open>
  The data model of the SDK (\<open>sdk/ts/src/types.ts\<close>), its error class
  (\<open>sdk/ts/src/error.ts\<close>) and the adapter messages (\<open>sdk/ts/src/adapter.ts\<close>).  A nullable or
  optional field is an \<open>option\<close>.  The sources cast parsed JSON to these types without
  checking; \<open>event_of_json\<close> is that cast for gateway events, and \<open>json_of_event\<close> the wire form
  of an event, with the round trip between them.
\<close>

section \<open>types.ts\<close>

record user =
  usr_uuid :: jstr
  usr_username :: jstr
  usr_nickname :: "jstr option"
  usr_avatar_url :: "jstr option"
  usr_email :: "jstr option"
  usr_last_seen_at :: "jstr option"
  usr_created_at :: jstr
  usr_updated_at :: jstr

datatype conversation_kind = Direct | Group

record conversation_summary =
  cs_id :: jstr
  cs_kind :: conversation_kind
  cs_title :: "jstr option"
  cs_avatar_url :: "jstr option"
  cs_created_by :: jstr
  cs_created_at :: jstr
  cs_updated_at :: jstr

datatype member_role = Owner | Admin | Member

record conversation_member =
  cm_uuid :: jstr
  cm_username :: jstr
  cm_nickname :: "jstr option"
  cm_avatar_url :: "jstr option"
  cm_role :: member_role

record conversation_details =
  cd_conversation_uuid :: jstr
  cd_type :: conversation_kind
  cd_members :: "conversation_member list"

record sender =
  snd_uuid :: jstr
  snd_username :: jstr
  snd_nickname :: "jstr option"
  snd_avatar_url :: "jstr option"

datatype content_type = TextMarkdown | TextPlain

fun content_type_text :: "content_type \<Rightarrow> jstr" where
  "content_type_text TextMarkdown = js ''text/markdown''"
| "content_type_text TextPlain = js ''text/plain''"

record chat_message =
  msg_id :: jstr
  msg_conversation_id :: jstr
  msg_sender :: sender
  msg_content :: jstr
  msg_content_type :: content_type
  msg_created_at :: jstr
  msg_sequence :: int

record upload_result =
  up_key :: jstr
  up_url :: jstr
  up_size :: int

record gateway_event =
  ev_event_id :: jstr
  ev_event :: jstr
  ev_message_id :: "jstr option"
  ev_conversation_id :: jstr
  ev_sequence :: "int option"
  ev_added_user_uuids :: "jstr list option"
  ev_removed_user_uuid :: "jstr option"
  ev_targets :: "jstr list option"

datatype connection_status =
    Connecting
  | Authenticating
  | Online
  | Reconnecting
  | Offline
  | Closed

subsection \<open>The cast of a frame to an event\<close>

definition string_field :: "string \<Rightarrow> json \<Rightarrow> jstr option" where
  "string_field k v = Option.bind (jget (js k) v) json_string"

definition number_field :: "string \<Rightarrow> json \<Rightarrow> int option" where
  "number_field k v = Option.bind (jget (js k) v) json_number"

fun strings_of :: "json \<Rightarrow> jstr list" where
  "strings_of (JArr vs) = List.map_filter json_string vs"
| "strings_of _ = []"

definition event_of_json :: "json \<Rightarrow> gateway_event" where
  "event_of_json v =
     \<lparr>ev_event_id = (case string_field ''event_id'' v of Some s \<Rightarrow> s | None \<Rightarrow> []),
      ev_event = (case string_field ''event'' v of Some s \<Rightarrow> s | None \<Rightarrow> []),
      ev_message_id = string_field ''message_id'' v,
      ev_conversation_id = (case string_field ''conversation_id'' v of Some s \<Rightarrow> s | None \<Rightarrow> []),
      ev_sequence = number_field ''sequence'' v,
      ev_added_user_uuids = map_option strings_of (jget (js ''added_user_uuids'') v),
      ev_removed_user_uuid = string_field ''removed_user_uuid'' v,
      ev_targets = map_option strings_of
        (Option.bind (jget (js ''targets'') v) (jget (js ''user_uuids'')))\<rparr>"

definition opt_field :: "string \<Rightarrow> json option \<Rightarrow> (jstr \<times> json) list" where
  "opt_field k v = (case v of None \<Rightarrow> [] | Some x \<Rightarrow> [(js k, x)])"

definition json_of_event :: "gateway_event \<Rightarrow> json" where
  "json_of_event e = JObj (
     [(js ''event_id'', JStr (ev_event_id e)), (js ''event'', JStr (ev_event e))]
     @ opt_field ''message_id'' (map_option JStr (ev_message_id e))
     @ [(js ''conversation_id'', JStr (ev_conversation_id e))]
     @ opt_field ''sequence'' (map_option JNum (ev_sequence e))
     @ opt_field ''added_user_uuids'' (map_option (JArr \<circ> map JStr) (ev_added_user_uuids e))
     @ opt_field ''removed_user_uuid'' (map_option JStr (ev_removed_user_uuid e))
     @ opt_field ''targets''
         (map_option (\<lambda>us. JObj [(js ''user_uuids'', JArr (map JStr us))]) (ev_targets e)))"

lemma map_filter_json_string [simp]: "List.map_filter json_string (map JStr us) = us"
  by (induction us) (simp_all add: List.map_filter_def)

lemma map_of_opt_field [simp]:
  "map_of (opt_field k v) k' = (if k' = js k then v else None)"
  by (simp add: opt_field_def split: option.splits)

lemma field_views [simp]:
  "Option.bind (map_option JStr x) json_string = x"
  "Option.bind (map_option JNum n) json_number = n"
  "map_option strings_of (map_option (JArr \<circ> map JStr) l) = l"
  "map_option strings_of (Option.bind
     (map_option (\<lambda>us. JObj [(js ''user_uuids'', JArr (map JStr us))]) l) (jget (js ''user_uuids''))) = l"
  by (cases x; cases n; cases l; simp)+

lemma event_of_json_of_event: "event_of_json (json_of_event e) = e"
  by (cases e) (simp add: event_of_json_def json_of_event_def string_field_def number_field_def
      map_add_def split: option.splits)

section \<open>error.ts\<close>

text \<open>\<open>ErrorCode\<close>.\<close>

definition ErrorCode_Internal :: int where
  "ErrorCode_Internal = 10000"

definition ErrorCode_InvalidCredential :: int where
  "ErrorCode_InvalidCredential = 10001"

definition ErrorCode_InvalidRequest :: int where
  "ErrorCode_InvalidRequest = 10003"

definition ErrorCode_PermissionDenied :: int where
  "ErrorCode_PermissionDenied = 10005"

definition ErrorCode_ConversationNotFound :: int where
  "ErrorCode_ConversationNotFound = 11001"

definition ErrorCode_IdempotencyKeyReused :: int where
  "ErrorCode_IdempotencyKeyReused = 11002"

record im_error =
  err_code :: int
  err_message :: jstr
  err_status :: int

definition IMError :: "int \<Rightarrow> jstr \<Rightarrow> int \<Rightarrow> im_error" where
  "IMError code message status = \<lparr>err_code = code, err_message = message, err_status = status\<rparr>"

lemma IMError_sel [simp]:
  "err_code (IMError c m s) = c" "err_message (IMError c m s) = m" "err_status (IMError c m s) = s"
  by (simp_all add: IMError_def)

definition isAuthError :: "im_error \<Rightarrow> bool" where
  "isAuthError e \<longleftrightarrow> err_code e = ErrorCode_InvalidCredential \<or> err_status e = 401"

text \<open>
  What a rejected promise carries: an \<open>IMError\<close>, or another error of which only the message
  is observable.
\<close>

datatype exn = IMErr im_error | JsError jstr

fun exn_status :: "exn \<Rightarrow> int option" where
  "exn_status (IMErr e) = Some (err_status e)"
| "exn_status (JsError _) = None"

fun exn_is_auth :: "exn \<Rightarrow> bool" where
  "exn_is_auth (IMErr e) = isAuthError e"
| "exn_is_auth (JsError _) = False"

fun exn_message :: "exn \<Rightarrow> jstr" where
  "exn_message (IMErr e) = err_message e"
| "exn_message (JsError m) = m"

definition URIError :: exn where
  "URIError = JsError (js ''URI malformed'')"

text \<open>\<open>String(v)\<close> of a JSON value.\<close>

fun js_String :: "json \<Rightarrow> jstr" where
  "js_String JNull = js ''null''"
| "js_String (JBool b) = (if b then js ''true'' else js ''false'')"
| "js_String (JNum n) = show_int n"
| "js_String (JStr s) = s"
| "js_String (JArr vs) = join [44] (map (\<lambda>v. if v = JNull then [] else js_String v) vs)"
| "js_String (JObj _) = js ''[object Object]''"

section \<open>adapter.ts\<close>

datatype http_method = GET | POST | PUT | DELETE

record http_request =
  rq_url :: jstr
  rq_method :: http_method
  rq_headers :: "(jstr \<times> jstr) list"
  rq_data :: "json option"
  rq_timeoutMs :: int

record http_response =
  rs_statusCode :: int
  rs_data :: json

text \<open>\<open>FileInput\<close>: a path, or a platform file object known by a handle.\<close>

datatype file_input = FilePath jstr | FileObject nat

record upload_request =
  ur_url :: jstr
  ur_filePath :: file_input
  ur_name :: jstr
  ur_formData :: "(jstr \<times> jstr) list option"
  ur_timeoutMs :: int

end
