(* ===== verification/Util.thy ===== *)
theory Util
  imports Types
begin

text \<open>
  The helpers of \<open>sdk/ts/src/util.ts\<close>: \<open>randomId\<close> (the clock and the four random numbers are
  arguments), \<open>joinUrl\<close> and \<open>buildUrl\<close>.
\<close>

section \<open>randomId\<close>

text \<open>
  \<open>now\<close> is \<open>Date.now()\<close>, and \<open>rs\<close> are the values of \<open>Math.floor(Math.random() * 0x10000)\<close>, one
  per iteration of the loop.
\<close>

definition random_block :: "nat \<Rightarrow> jstr" where
  "random_block r = pad_start 4 48 (to_radix 36 r)"

fun random_blocks :: "nat list \<Rightarrow> nat \<Rightarrow> jstr \<Rightarrow> jstr" where
  "random_blocks rs 0 rand = rand"
| "random_blocks [] (Suc n) rand = rand"
| "random_blocks (r # rs) (Suc n) rand = random_blocks rs n (rand @ random_block r)"

definition randomId :: "nat \<Rightarrow> nat list \<Rightarrow> jstr" where
  "randomId now rs = to_radix 36 now @ random_blocks rs 4 []"

lemma length_random_block: "r < 65536 \<Longrightarrow> length (random_block r) = 4"
  using radix_digits_length [of 36 r 3] by (simp add: random_block_def)

lemma random_block_inject: "random_block r = random_block r' \<Longrightarrow> r = r'"
  unfolding random_block_def by (rule pad_start_to_radix_inject)

lemma random_blocks_append: "random_blocks rs n rand = rand @ concat (map random_block (take n rs))"
  by (induction rs n rand rule: random_blocks.induct) auto

lemma random_blocks_inject:
  assumes "\<forall>r \<in> set rs. r < 65536" "\<forall>r \<in> set rs'. r < 65536" "length rs = length rs'"
    and "concat (map random_block rs) = concat (map random_block rs')"
  shows "rs = rs'"
  using assms
proof (induction rs arbitrary: rs')
  case (Cons r rs)
  then obtain r' rt where rs': "rs' = r' # rt" by (cases rs') auto
  have len: "length (random_block r) = length (random_block r')"
    using Cons.prems(1,2) by (simp add: rs' length_random_block)
  have "random_block r @ concat (map random_block rs) = random_block r' @ concat (map random_block rt)"
    using Cons.prems(4) by (simp add: rs')
  then have "random_block r = random_block r' \<and>
      concat (map random_block rs) = concat (map random_block rt)"
    by (rule append_eq_append_conv [OF disjI1, OF len, THEN iffD1])
  then have r: "random_block r = random_block r'"
    and rest: "concat (map random_block rs) = concat (map random_block rt)" by blast+
  have "rs = rt" using Cons.prems(1-3) rest by (intro Cons.IH) (simp_all add: rs')
  with random_block_inject [OF r] show ?case by (simp add: rs')
qed simp

section \<open>joinUrl and buildUrl\<close>

definition joinUrl :: "jstr \<Rightarrow> jstr \<Rightarrow> jstr" where
  "joinUrl base path = trim_end_slashes base @ [47] @ trim_start_slashes path"

datatype query_value = QString jstr | QNumber int

fun query_text :: "query_value \<Rightarrow> jstr" where
  "query_text (QString s) = s"
| "query_text (QNumber n) = show_int n"

type_synonym query = "(jstr \<times> query_value option) list"

text \<open>The loop over \<open>Object.entries(query)\<close>; \<open>None\<close> is the \<open>URIError\<close> of \<open>encodeURIComponent\<close>.\<close>

fun query_parts :: "query \<Rightarrow> jstr list option" where
  "query_parts [] = Some []"
| "query_parts ((k, None) # qs) = query_parts qs"
| "query_parts ((k, Some v) # qs) =
     (case (encodeURIComponent k, encodeURIComponent (query_text v)) of
        (Some ek, Some ev) \<Rightarrow> map_option (Cons (ek @ [61] @ ev)) (query_parts qs)
      | _ \<Rightarrow> None)"

definition buildUrl :: "jstr \<Rightarrow> jstr \<Rightarrow> query option \<Rightarrow> jstr option" where
  "buildUrl base path query =
     (let url = joinUrl base path
      in case query of
           None \<Rightarrow> Some url
         | Some q \<Rightarrow>
             map_option (\<lambda>parts. if parts = [] then url else url @ [63] @ join [38] parts)
               (query_parts q))"

text \<open>The base and the path meet in exactly one slash, whatever slashes they had.\<close>

lemma joinUrl_slashes:
  "joinUrl (base @ replicate m 47) (replicate n 47 @ path) = joinUrl base path"
proof -
  have "trim_start_slashes (replicate n 47 @ path) = trim_start_slashes path"
    by (simp add: trim_start_slashes_def) (induction n; simp)
  then show ?thesis by (simp add: joinUrl_def)
qed

lemma query_parts_safe:
  assumes "\<forall>(k, v) \<in> set q. units_ok k \<and> (case v of None \<Rightarrow> True | Some w \<Rightarrow> units_ok (query_text w))"
    and "query_parts q = Some parts" "p \<in> set parts"
  shows "\<exists>a b. p = a @ [61] @ b \<and> uri_safe a \<and> uri_safe b"
  using assms
proof (induction q arbitrary: parts rule: query_parts.induct)
  case (3 k v qs)
  obtain ek ev ps where e: "encodeURIComponent k = Some ek"
      "encodeURIComponent (query_text v) = Some ev" "query_parts qs = Some ps"
      and parts: "parts = (ek @ [61] @ ev) # ps"
    using "3.prems"(2) by (auto split: option.splits)
  show ?case
  proof (cases "p = ek @ [61] @ ev")
    case True
    moreover have "uri_safe ek" "uri_safe ev"
      using "3.prems"(1) e encodeURIComponent_safe by auto
    ultimately show ?thesis by blast
  next
    case False
    with "3.prems" parts e show ?thesis by (intro "3.IH") auto
  qed
qed auto

lemma units_ok_show_int [simp]: "units_ok (show_int n)"
proof -
  have "units_ok (show_nat m)" for m
    using show_nat_digits [of _ m] by (fastforce simp: units_ok_def list_all_iff)
  then show ?thesis by (simp add: show_int_def)
qed

text \<open>Digits and letters pass through \<open>encodeURIComponent\<close> unchanged.\<close>

lemma code_points_plain:
  "list_all uri_unreserved s \<Longrightarrow> code_points s = Some s"
proof (induction s rule: code_points.induct)
  case (2 c)
  then show ?case using unreserved_not_special [of c] by (auto simp: high_surrogate_def low_surrogate_def)
next
  case (3 c d r)
  then show ?case using unreserved_not_special [of c] by (auto simp: high_surrogate_def low_surrogate_def)
qed simp

lemma encodeURIComponent_plain: "list_all uri_unreserved s \<Longrightarrow> encodeURIComponent s = Some s"
proof -
  assume a: "list_all uri_unreserved s"
  then have "concat (map encode_point s) = s"
    by (induction s) (auto simp: encode_point_def)
  then show ?thesis by (simp add: encodeURIComponent_def code_points_plain [OF a])
qed

lemma encodeURIComponent_show_int [simp]: "encodeURIComponent (show_int n) = Some (show_int n)"
proof -
  have "list_all uri_unreserved (show_nat m)" for m
    using show_nat_digits [of _ m] by (auto simp: uri_unreserved_def list_all_iff)
  then have "list_all uri_unreserved (show_int n)"
    by (simp add: show_int_def) (simp add: uri_unreserved_def js_eval)
  then show ?thesis by (rule encodeURIComponent_plain)
qed

end
