(* ===== verification/Http.thy ===== *)
theory Http
  imports Util
begin

text \<open>
  The REST client \<open>IMHttpClient\<close> of \<open>sdk/ts/src/http.ts\<close>.

  The platform adapter and the host's \<open>getCredential\<close> callback are code outside the
  repository: they are arguments (\<open>env\<close>), functions over an arbitrary world \<open>'w\<close>.  A call is
  modelled from its start to the settling of its promise; the state is the client's fields,
  the world and the trace of the requests handed to the adapter.  A rejected promise is
  \<open>Inl\<close>, a resolved one \<open>Inr\<close>; \<open>Inr None\<close> is the value \<open>undefined\<close>.
\<close>

record http_client =
  baseUrl :: jstr
  credential :: jstr
  timeoutMs :: int

record 'w env =
  env_request :: "'w \<Rightarrow> http_request \<Rightarrow> (jstr option + http_response) \<times> 'w"
  env_getCredential :: "('w \<Rightarrow> (exn + jstr) \<times> 'w) option"
  env_upload :: "('w \<Rightarrow> upload_request \<Rightarrow> (exn + http_response) \<times> 'w) option"

record 'w hstate =
  client :: http_client
  world :: 'w
  trace :: "http_request list"

type_synonym ('w, 'a) call = "'w hstate \<Rightarrow> (exn + 'a) \<times> 'w hstate"

definition newHttpClient :: "jstr \<Rightarrow> jstr \<Rightarrow> int option \<Rightarrow> http_client" where
  "newHttpClient apiUrl cred timeout =
     \<lparr>baseUrl = trim_end_slashes apiUrl, credential = cred,
      timeoutMs = (case timeout of Some t \<Rightarrow> t | None \<Rightarrow> 15000)\<rparr>"

definition setCredential :: "jstr \<Rightarrow> http_client \<Rightarrow> http_client" where
  "setCredential cred c = c\<lparr>credential := cred\<rparr>"

section \<open>One request\<close>

record request_options =
  op_query :: "query option"
  op_body :: "json option"
  op_headers :: "(jstr \<times> jstr) list"
  op_auth :: "bool option"

definition no_options :: request_options where
  "no_options = \<lparr>op_query = None, op_body = None, op_headers = [], op_auth = None\<rparr>"

definition safeParse :: "jstr \<Rightarrow> json" where
  "safeParse s = (case parse s of Some v \<Rightarrow> v | None \<Rightarrow> JNull)"

definition request_headers :: "http_client \<Rightarrow> request_options \<Rightarrow> (jstr \<times> jstr) list" where
  "request_headers c opts =
     (let h = op_headers opts;
          h1 = (if op_auth opts \<noteq> Some False \<and> credential c \<noteq> []
                then AList.update (js ''Authorization'') (js ''Bearer '' @ credential c) h else h)
      in if op_body opts \<noteq> None
         then AList.update (js ''Content-Type'') (js ''application/json'') h1 else h1)"

text \<open>\<open>envelope.message ?? `HTTP ${status}`\<close>.\<close>

definition envelope_message :: "json \<Rightarrow> int \<Rightarrow> jstr" where
  "envelope_message envelope status =
     (case jget (js ''message'') envelope of
        None \<Rightarrow> js ''HTTP '' @ show_int status
      | Some m \<Rightarrow> if m = JNull then js ''HTTP '' @ show_int status else js_String m)"

definition envelope_of :: "json \<Rightarrow> json" where
  "envelope_of body = (case body of JStr s \<Rightarrow> safeParse s | _ \<Rightarrow> body)"

definition interpret_response :: "http_response \<Rightarrow> exn + json option" where
  "interpret_response res =
     (let envelope = envelope_of (rs_data res); status = rs_statusCode res
      in if 200 \<le> status \<and> status < 300 \<and> truthy envelope \<and>
            jget (js ''code'') envelope = Some (JNum 0)
         then Inr (jget (js ''data'') envelope)
         else case Option.bind (if truthy envelope then jget (js ''code'') envelope else None) json_number of
             Some code \<Rightarrow> Inl (IMErr (IMError code (envelope_message envelope status) status))
           | None \<Rightarrow> Inl (IMErr (IMError (-1) (js ''HTTP '' @ show_int status @ js '': unexpected response'') status)))"

definition requestOnce ::
  "'w env \<Rightarrow> http_method \<Rightarrow> jstr \<Rightarrow> request_options \<Rightarrow> ('w, json option) call" where
  "requestOnce env meth path opts st =
     (case buildUrl (baseUrl (client st)) path (op_query opts) of
        None \<Rightarrow> (Inl URIError, st)
      | Some url \<Rightarrow>
          let rq = \<lparr>rq_url = url, rq_method = meth, rq_headers = request_headers (client st) opts,
                    rq_data = op_body opts, rq_timeoutMs = timeoutMs (client st)\<rparr>;
              (r, w) = env_request env (world st) rq;
              st' = st\<lparr>world := w, trace := trace st @ [rq]\<rparr>
          in case r of
               Inl m \<Rightarrow> (Inl (IMErr (IMError (-1)
                           (case m of Some s \<Rightarrow> s | None \<Rightarrow> js ''network error'') 0)), st')
             | Inr res \<Rightarrow> (interpret_response res, st'))"

section \<open>Refresh and retry\<close>

definition request ::
  "'w env \<Rightarrow> http_method \<Rightarrow> jstr \<Rightarrow> request_options \<Rightarrow> ('w, json option) call" where
  "request env meth path opts st =
     (case requestOnce env meth path opts st of
        (Inr v, st1) \<Rightarrow> (Inr v, st1)
      | (Inl e, st1) \<Rightarrow>
          (case env_getCredential env of
             None \<Rightarrow> (Inl e, st1)
           | Some getCredential \<Rightarrow>
               if \<not> exn_is_auth e \<or> op_auth opts = Some False \<or> credential (client st1) = []
               then (Inl e, st1)
               else (case getCredential (world st1) of
                   (Inl e', w) \<Rightarrow> (Inl e', st1\<lparr>world := w\<rparr>)
                 | (Inr fresh, w) \<Rightarrow>
                     if fresh = [] \<or> fresh = credential (client st1) then (Inl e, st1\<lparr>world := w\<rparr>)
                     else requestOnce env meth path opts
                            (st1\<lparr>world := w, client := (client st1)\<lparr>credential := fresh\<rparr>\<rparr>))))"

section \<open>Identity and conversations\<close>

definition me :: "'w env \<Rightarrow> ('w, json option) call" where
  "me env = request env GET (js ''/api/v1/me'') no_options"

definition listGroups :: "'w env \<Rightarrow> ('w, json option) call" where
  "listGroups env = request env GET (js ''/api/v1/conversations'')
     (no_options\<lparr>op_query := Some [(js ''type'', Some (QString (js ''group'')))]\<rparr>)"

definition json_strings :: "jstr list \<Rightarrow> json" where
  "json_strings ss = JArr (map JStr ss)"

fun kind_text :: "conversation_kind \<Rightarrow> jstr" where
  "kind_text Direct = js ''direct''"
| "kind_text Group = js ''group''"

definition createConversation ::
  "'w env \<Rightarrow> conversation_kind \<Rightarrow> jstr list \<Rightarrow> jstr option \<Rightarrow> ('w, json option) call" where
  "createConversation env kind memberUUIDs title =
     request env POST (js ''/api/v1/conversations'')
       (no_options\<lparr>op_body := Some (JObj (
          [(js ''kind'', JStr (kind_text kind)), (js ''member_uuids'', json_strings memberUUIDs)]
          @ (case title of Some t \<Rightarrow> [(js ''title'', JStr t)] | None \<Rightarrow> [])))\<rparr>)"

definition createDirect :: "'w env \<Rightarrow> jstr \<Rightarrow> ('w, json option) call" where
  "createDirect env other = createConversation env Direct [other] None"

text \<open>A path with one encoded segment, and the request for it.\<close>

definition request_encoded ::
  "'w env \<Rightarrow> http_method \<Rightarrow> jstr \<Rightarrow> jstr \<Rightarrow> jstr \<Rightarrow> request_options \<Rightarrow> ('w, json option) call" where
  "request_encoded env meth before segment after opts st =
     (case encodeURIComponent segment of
        None \<Rightarrow> (Inl URIError, st)
      | Some e \<Rightarrow> request env meth (before @ e @ after) opts st)"

definition getDirect :: "'w env \<Rightarrow> jstr \<Rightarrow> ('w, json option) call" where
  "getDirect env other st =
     (case request_encoded env GET (js ''/api/v1/conversations/direct/'') other [] no_options st of
        (Inl (IMErr e), st') \<Rightarrow>
          if err_code e = ErrorCode_ConversationNotFound then (Inr (Some JNull), st')
          else (Inl (IMErr e), st')
      | r \<Rightarrow> r)"

definition createGroup :: "'w env \<Rightarrow> jstr option \<Rightarrow> jstr list \<Rightarrow> ('w, json option) call" where
  "createGroup env title memberUUIDs =
     request env POST (js ''/api/v1/group'')
       (no_options\<lparr>op_body := Some (JObj
          [(js ''title'', case title of Some t \<Rightarrow> JStr t | None \<Rightarrow> JNull),
           (js ''member_uuids'', json_strings memberUUIDs)])\<rparr>)"

definition getConversation :: "'w env \<Rightarrow> jstr \<Rightarrow> ('w, json option) call" where
  "getConversation env conversationId =
     request_encoded env GET (js ''/api/v1/conversations/'') conversationId [] no_options"

definition addMembers :: "'w env \<Rightarrow> jstr \<Rightarrow> jstr list \<Rightarrow> ('w, json option) call" where
  "addMembers env conversationId memberUUIDs =
     request_encoded env POST (js ''/api/v1/conversations/'') conversationId (js ''/members'')
       (no_options\<lparr>op_body := Some (JObj [(js ''member_uuids'', json_strings memberUUIDs)])\<rparr>)"

definition removeMember :: "'w env \<Rightarrow> jstr \<Rightarrow> jstr \<Rightarrow> ('w, json option) call" where
  "removeMember env conversationId userUUID st =
     (case (encodeURIComponent conversationId, encodeURIComponent userUUID) of
        (Some c, Some u) \<Rightarrow>
          request env DELETE (js ''/api/v1/conversations/'' @ c @ js ''/members/'' @ u) no_options st
      | _ \<Rightarrow> (Inl URIError, st))"

fun removeMembers_loop ::
  "'w env \<Rightarrow> jstr \<Rightarrow> jstr list \<Rightarrow> json option \<Rightarrow> ('w, json option) call" where
  "removeMembers_loop env conversationId [] details st = (Inr details, st)"
| "removeMembers_loop env conversationId (u # us) details st =
     (case removeMember env conversationId u st of
        (Inl e, st') \<Rightarrow> (Inl e, st')
      | (Inr d, st') \<Rightarrow> removeMembers_loop env conversationId us d st')"

definition removeMembers :: "'w env \<Rightarrow> jstr \<Rightarrow> jstr list \<Rightarrow> ('w, json option) call" where
  "removeMembers env conversationId userUUIDs st =
     (if userUUIDs = [] then getConversation env conversationId st
      else removeMembers_loop env conversationId userUUIDs None st)"

section \<open>Messages\<close>

record list_options =
  lo_afterSequence :: "int option"
  lo_limit :: "int option"

definition listMessages :: "'w env \<Rightarrow> jstr \<Rightarrow> list_options \<Rightarrow> ('w, json option) call" where
  "listMessages env conversationId options =
     request_encoded env GET (js ''/api/v1/conversations/'') conversationId (js ''/messages'')
       (no_options\<lparr>op_query := Some
          [(js ''after_sequence'', map_option QNumber (lo_afterSequence options)),
           (js ''limit'', map_option QNumber (lo_limit options))]\<rparr>)"

record send_options =
  so_contentType :: "content_type option"
  so_idempotencyKey :: "jstr option"
  so_retries :: "int option"

definition default_send :: send_options where
  "default_send = \<lparr>so_contentType = None, so_idempotencyKey = None, so_retries = None\<rparr>"

definition post_options :: "jstr \<Rightarrow> json \<Rightarrow> request_options" where
  "post_options key body =
     no_options\<lparr>op_headers := [(js ''Idempotency-Key'', key)], op_body := Some body\<rparr>"

text \<open>The \<open>for (;;)\<close> loop; \<open>attempt\<close> counts the failures so far.\<close>

function post_loop ::
  "'w env \<Rightarrow> jstr \<Rightarrow> json \<Rightarrow> jstr \<Rightarrow> int \<Rightarrow> int \<Rightarrow> ('w, json option) call" where
  "post_loop env path body key maxRetries attempt st =
     (case request env POST path (post_options key body) st of
        (Inr v, st') \<Rightarrow> (Inr v, st')
      | (Inl e, st') \<Rightarrow>
          if exn_status e \<noteq> Some 0 \<or> attempt + 1 > maxRetries then (Inl e, st')
          else post_loop env path body key maxRetries (attempt + 1) st')"
  by pat_completeness auto
termination
  by (relation "measure (\<lambda>(env, path, body, key, maxRetries, attempt, st). nat (maxRetries - attempt))") auto

declare post_loop.simps [simp del]

text \<open>\<open>rnd\<close> holds the clock and the random numbers \<open>randomId()\<close> reads.\<close>

definition postMessage ::
  "'w env \<Rightarrow> nat \<times> nat list \<Rightarrow> jstr \<Rightarrow> json \<Rightarrow> send_options \<Rightarrow> ('w, json option) call" where
  "postMessage env rnd path body options =
     post_loop env path body
       (case so_idempotencyKey options of Some k \<Rightarrow> k | None \<Rightarrow> randomId (fst rnd) (snd rnd))
       (case so_retries options of Some r \<Rightarrow> r | None \<Rightarrow> 1) 0"

text \<open>The body; a property whose value is \<open>undefined\<close> is not serialised.\<close>

definition message_body :: "json option \<Rightarrow> jstr \<Rightarrow> send_options \<Rightarrow> json" where
  "message_body conversationId content options = JObj (
     (case conversationId of Some c \<Rightarrow> [(js ''conversation_id'', c)] | None \<Rightarrow> [])
     @ [(js ''content'', JStr content),
        (js ''content_type'', JStr (content_type_text
           (case so_contentType options of Some t \<Rightarrow> t | None \<Rightarrow> TextMarkdown)))])"

definition sendMessage ::
  "'w env \<Rightarrow> nat \<times> nat list \<Rightarrow> jstr \<Rightarrow> jstr \<Rightarrow> send_options \<Rightarrow> ('w, json option) call" where
  "sendMessage env rnd conversationId content options =
     postMessage env rnd (js ''/api/v1/messages'')
       (message_body (Some (JStr conversationId)) content options) options"

text \<open>
  \<open>conversation.id\<close> throws on \<open>undefined\<close> and \<open>null\<close>; a missing id is sent as \<open>undefined\<close>.
\<close>

definition sendDirectMessage ::
  "'w env \<Rightarrow> nat \<times> nat list \<Rightarrow> jstr \<Rightarrow> jstr \<Rightarrow> send_options \<Rightarrow> ('w, json option) call" where
  "sendDirectMessage env rnd other content options st =
     (case createDirect env other st of
        (Inl e, st') \<Rightarrow> (Inl e, st')
      | (Inr None, st') \<Rightarrow> (Inl (JsError (js ''Cannot read properties of undefined'')), st')
      | (Inr (Some v), st') \<Rightarrow>
          if v = JNull then (Inl (JsError (js ''Cannot read properties of null'')), st')
          else postMessage env rnd (js ''/api/v1/messages'')
                 (message_body (jget (js ''id'') v) content options) options st')"

section \<open>Storage\<close>

definition upload_answer :: "http_response \<Rightarrow> exn + json" where
  "upload_answer res =
     (let parsed = envelope_of (rs_data res); status = rs_statusCode res
      in if 200 \<le> status \<and> status < 300 \<and> truthy parsed \<and> string_field ''key'' parsed \<noteq> None
         then Inr parsed
         else Inl (IMErr (IMError (-1)
           (case jget (js ''error'') parsed of
              Some e \<Rightarrow> if e = JNull then js ''upload failed: HTTP '' @ show_int status else js_String e
            | None \<Rightarrow> js ''upload failed: HTTP '' @ show_int status) status)))"

definition uploadFile :: "'w env \<Rightarrow> file_input \<Rightarrow> jstr option \<Rightarrow> ('w, json) call" where
  "uploadFile env file dir st =
     (case env_upload env of
        None \<Rightarrow> (Inl (IMErr (IMError (-1) (js ''The current adapter does not support file upload'') 0)), st)
      | Some upload \<Rightarrow>
          let (r, w) = upload (world st)
                \<lparr>ur_url = joinUrl (baseUrl (client st)) (js ''/api/v1/storage''), ur_filePath = file,
                 ur_name = js ''file'',
                 ur_formData = (case dir of
                    Some d \<Rightarrow> if d = [] then None else Some [(js ''dir'', d)] | None \<Rightarrow> None),
                 ur_timeoutMs = max (timeoutMs (client st)) 60000\<rparr>
          in (case r of Inl e \<Rightarrow> Inl e | Inr res \<Rightarrow> upload_answer res, st\<lparr>world := w\<rparr>))"

text \<open>Encoding every segment of a list; \<open>None\<close> is the \<open>URIError\<close>.\<close>

fun encode_all :: "jstr list \<Rightarrow> jstr list option" where
  "encode_all [] = Some []"
| "encode_all (s # ss) =
     (case encodeURIComponent s of
        None \<Rightarrow> None
      | Some e \<Rightarrow> map_option (Cons e) (encode_all ss))"

definition storageUrl :: "http_client \<Rightarrow> jstr \<Rightarrow> jstr option" where
  "storageUrl c key =
     map_option (\<lambda>segments. joinUrl (baseUrl c) (js ''/api/v1/storage/'' @ join [47] segments))
       (encode_all (split_on 47 key))"

section \<open>The trace of a call\<close>

text \<open>The request \<open>requestOnce\<close> hands to the adapter.\<close>

definition built_request ::
  "http_client \<Rightarrow> http_method \<Rightarrow> jstr \<Rightarrow> request_options \<Rightarrow> http_request" where
  "built_request c meth url opts =
     \<lparr>rq_url = url, rq_method = meth, rq_headers = request_headers c opts,
      rq_data = op_body opts, rq_timeoutMs = timeoutMs c\<rparr>"

lemma requestOnce_cases:
  assumes "requestOnce env meth path opts st = (r, st')"
  obtains "buildUrl (baseUrl (client st)) path (op_query opts) = None" "st' = st" "r = Inl URIError"
  | url where "buildUrl (baseUrl (client st)) path (op_query opts) = Some url"
      "client st' = client st" "trace st' = trace st @ [built_request (client st) meth url opts]"
      "r = (case fst (env_request env (world st) (built_request (client st) meth url opts)) of
              Inl m \<Rightarrow> Inl (IMErr (IMError (-1) (case m of Some s \<Rightarrow> s | None \<Rightarrow> js ''network error'') 0))
            | Inr res \<Rightarrow> interpret_response res)"
proof (cases "buildUrl (baseUrl (client st)) path (op_query opts)")
  case None
  with assms have "st' = st" "r = Inl URIError" by (simp_all add: requestOnce_def)
  with None that(1) show ?thesis by blast
next
  case (Some url)
  obtain r0 w where r0: "env_request env (world st) (built_request (client st) meth url opts) = (r0, w)"
    by force
  have st': "st' = st\<lparr>world := w, trace := trace st @ [built_request (client st) meth url opts]\<rparr>"
    using assms Some r0 by (simp add: requestOnce_def Let_def built_request_def split: sum.splits)
  have "r = (case r0 of
      Inl m \<Rightarrow> Inl (IMErr (IMError (-1) (case m of Some s \<Rightarrow> s | None \<Rightarrow> js ''network error'') 0))
    | Inr res \<Rightarrow> interpret_response res)"
    using assms Some r0 by (simp add: requestOnce_def Let_def built_request_def split: sum.splits)
  with Some st' r0 that(2) [of url] show ?thesis by simp
qed

lemma requestOnce_client: "requestOnce env meth path opts st = (r, st') \<Longrightarrow> client st' = client st"
  by (erule requestOnce_cases) auto

text \<open>The ways a \<open>request\<close> can go: one attempt, or a second one with a fresh credential.\<close>

lemma request_cases:
  assumes "request env meth path opts st = (r, st')"
  obtains (once) st1 r1 where "requestOnce env meth path opts st = (r1, st1)"
      "client st' = client st1" "trace st' = trace st1"
  | (refreshed) e st1 st2 fresh where
      "requestOnce env meth path opts st = (Inl e, st1)" "exn_is_auth e"
      "op_auth opts \<noteq> Some False" "fresh \<noteq> []" "fresh \<noteq> credential (client st)"
      "trace st2 = trace st1" "client st2 = (client st)\<lparr>credential := fresh\<rparr>"
      "requestOnce env meth path opts st2 = (r, st')"
      "credential (client st) \<noteq> []" "\<exists>g w. env_getCredential env = Some g \<and> fst (g w) = Inr fresh"
proof -
  obtain r1 st1 where 1: "requestOnce env meth path opts st = (r1, st1)" by force
  note cl = requestOnce_client [OF 1]
  show ?thesis
  proof (cases r1)
    case (Inr v)
    with assms 1 once [OF 1] show ?thesis by (simp add: request_def)
  next
    case (Inl e)
    show ?thesis
    proof (cases "env_getCredential env = None \<or> \<not> exn_is_auth e \<or> op_auth opts = Some False
        \<or> credential (client st1) = []")
      case True
      with assms 1 Inl once [OF 1] show ?thesis by (auto simp: request_def split: option.splits)
    next
      case False
      then obtain g where g: "env_getCredential env = Some g" by auto
      obtain c w where c: "g (world st1) = (c, w)" by force
      show ?thesis
      proof (cases "\<exists>fresh. c = Inr fresh \<and> fresh \<noteq> [] \<and> fresh \<noteq> credential (client st1)")
        case True
        then obtain fresh where f: "c = Inr fresh" "fresh \<noteq> []" "fresh \<noteq> credential (client st1)" by auto
        let ?st2 = "st1\<lparr>world := w, client := (client st1)\<lparr>credential := fresh\<rparr>\<rparr>"
        have "requestOnce env meth path opts ?st2 = (r, st')"
          using assms 1 Inl False g c f by (simp add: request_def)
        moreover have "\<exists>g w. env_getCredential env = Some g \<and> fst (g w) = Inr fresh"
          using g c f(1) by (intro exI [of _ g] exI [of _ "world st1"]) simp
        ultimately show ?thesis using False f 1 Inl cl
          by (intro refreshed [of e st1 fresh ?st2]) simp_all
      next
        case no: False
        then have "client st' = client st1 \<and> trace st' = trace st1"
          using assms 1 Inl False g c by (auto simp: request_def split: sum.splits if_splits)
        with once [OF 1] show ?thesis by blast
      qed
    qed
  qed
qed

lemma request_headers_auth:
  assumes "op_auth opts \<noteq> Some False" "credential c \<noteq> []"
  shows "map_of (request_headers c opts) (js ''Authorization'') = Some (js ''Bearer '' @ credential c)"
  using assms by (simp add: request_headers_def Let_def update_conv')

lemma request_headers_key:
  "k \<noteq> js ''Authorization'' \<Longrightarrow> k \<noteq> js ''Content-Type'' \<Longrightarrow>
     map_of (request_headers c opts) k = map_of (op_headers opts) k"
  by (simp add: request_headers_def Let_def update_conv')

lemma request_base:
  assumes "request env meth path opts st = (r, st')"
  shows "baseUrl (client st') = baseUrl (client st) \<and> timeoutMs (client st') = timeoutMs (client st)"
  using assms by (rule request_cases) (auto dest!: requestOnce_client)

text \<open>The requests of a call are built from its arguments, for some credential.\<close>

definition attempt_of ::
  "http_client \<Rightarrow> http_method \<Rightarrow> jstr \<Rightarrow> request_options \<Rightarrow> http_request \<Rightarrow> bool" where
  "attempt_of c meth path opts rq \<longleftrightarrow>
     (\<exists>url cred. buildUrl (baseUrl c) path (op_query opts) = Some url \<and>
        rq = built_request (c\<lparr>credential := cred\<rparr>) meth url opts)"

lemma attempt_of_credential [simp]:
  "attempt_of (c\<lparr>credential := x\<rparr>) meth path opts rq = attempt_of c meth path opts rq"
  by (simp add: attempt_of_def)

lemma http_client_same:
  "baseUrl (c :: http_client) = baseUrl d \<and> timeoutMs c = timeoutMs d \<Longrightarrow>
     c = d\<lparr>credential := credential c\<rparr>"
  by simp

lemma requestOnce_trace:
  assumes "requestOnce env meth path opts st = (r, st')"
  shows "\<exists>rqs. trace st' = trace st @ rqs \<and> length rqs \<le> 1 \<and>
    (\<forall>rq \<in> set rqs. attempt_of (client st) meth path opts rq)"
  using assms
proof (cases rule: requestOnce_cases)
  case (2 url)
  have "attempt_of (client st) meth path opts (built_request (client st) meth url opts)"
    unfolding attempt_of_def using 2(1)
    by (intro exI [of _ url] exI [of _ "credential (client st)"]) simp
  with 2 show ?thesis by auto
qed auto

lemma request_trace:
  assumes "request env meth path opts st = (r, st')"
  shows "\<exists>rqs. trace st' = trace st @ rqs \<and> length rqs \<le> 2 \<and>
    (\<forall>rq \<in> set rqs. attempt_of (client st) meth path opts rq)"
  using assms
proof (cases rule: request_cases)
  case (once st1 r1)
  with requestOnce_trace [OF once(1)] show ?thesis by fastforce
next
  case (refreshed e st1 st2 fresh)
  obtain rqs where 1: "trace st1 = trace st @ rqs" "length rqs \<le> 1"
      "\<forall>rq \<in> set rqs. attempt_of (client st) meth path opts rq"
    using requestOnce_trace [OF refreshed(1)] by blast
  obtain rqs' where 2: "trace st' = trace st2 @ rqs'" "length rqs' \<le> 1"
      "\<forall>rq \<in> set rqs'. attempt_of (client st2) meth path opts rq"
    using requestOnce_trace [OF refreshed(8)] by blast
  show ?thesis
    using 1 2 refreshed(6,7) by (intro exI [of _ "rqs @ rqs'"]) auto
qed

section \<open>Properties\<close>

subsection \<open>Responses and errors\<close>

lemma interpret_response_Inl:
  assumes "interpret_response res = Inl e"
  shows "\<exists>ie. e = IMErr ie \<and> err_status ie = rs_statusCode res"
  using assms by (auto simp: interpret_response_def Let_def split: if_splits option.splits)

lemma interpret_response_Inr:
  "interpret_response res = Inr v \<longleftrightarrow>
     200 \<le> rs_statusCode res \<and> rs_statusCode res < 300 \<and>
     jget (js ''code'') (envelope_of (rs_data res)) = Some (JNum 0) \<and>
     v = jget (js ''data'') (envelope_of (rs_data res))"
proof -
  have "jget k j = Some x \<Longrightarrow> truthy j" for k j x by (cases j) auto
  then show ?thesis
    by (auto simp: interpret_response_def Let_def split: option.splits)
qed

text \<open>
C24: One HTTP attempt resolves exactly on a 2xx answer whose envelope has code 0, with that
envelope's data; every other answer rejects with an \<open>IMError\<close> that carries the HTTP status, and
a rejected transport gives code -1 and status 0.
\<close>

theorem requestOnce_outcome:
  assumes "requestOnce env meth path opts st = (r, st')"
    and "buildUrl (baseUrl (client st)) path (op_query opts) = Some url"
    and "fst (env_request env (world st) (built_request (client st) meth url opts)) = ans"
  shows "case ans of
      Inl m \<Rightarrow> (\<exists>msg. r = Inl (IMErr (IMError (-1) msg 0)))
    | Inr res \<Rightarrow>
        (if 200 \<le> rs_statusCode res \<and> rs_statusCode res < 300 \<and>
            jget (js ''code'') (envelope_of (rs_data res)) = Some (JNum 0)
         then r = Inr (jget (js ''data'') (envelope_of (rs_data res)))
         else (\<exists>ie. r = Inl (IMErr ie) \<and> err_status ie = rs_statusCode res))"
  using assms(1)
proof (cases rule: requestOnce_cases)
  case (2 url')
  with assms(2,3) have r: "r = (case ans of
      Inl m \<Rightarrow> Inl (IMErr (IMError (-1) (case m of Some s \<Rightarrow> s | None \<Rightarrow> js ''network error'') 0))
    | Inr res \<Rightarrow> interpret_response res)" by simp
  show ?thesis
  proof (cases ans)
    case (Inr res)
    show ?thesis
    proof (cases "interpret_response res")
      case (Inl e)
      then have "\<not> (200 \<le> rs_statusCode res \<and> rs_statusCode res < 300 \<and>
          jget (js ''code'') (envelope_of (rs_data res)) = Some (JNum 0))"
        using interpret_response_Inr [of res] by force
      with Inl Inr r interpret_response_Inl [OF Inl] show ?thesis by auto
    next
      case (Inr v)
      with \<open>ans = Inr res\<close> r show ?thesis by (simp add: interpret_response_Inr)
    qed
  qed (auto simp: r)
qed (use assms(2) in \<open>simp add: URIError_def\<close>)

text \<open>An adapter that plays back a list of answers, and the client state it starts from.\<close>

definition scripted :: "(jstr option + http_response) list env" where
  "scripted = \<lparr>env_request = (\<lambda>w rq. case w of [] \<Rightarrow> (Inl None, []) | r # rs \<Rightarrow> (r, rs)),
     env_getCredential = None, env_upload = None\<rparr>"

definition start_state :: "jstr \<Rightarrow> jstr \<Rightarrow> 'w \<Rightarrow> 'w hstate" where
  "start_state base cred w =
     \<lparr>client = newHttpClient base cred None, world = w, trace = []\<rparr>"

definition ok_response :: "json \<Rightarrow> http_response" where
  "ok_response v = \<lparr>rs_statusCode = 200,
     rs_data = JObj [(js ''code'', JNum 0), (js ''data'', v), (js ''message'', JNull)]\<rparr>"

lemma interpret_ok_response [simp]: "interpret_response (ok_response v) = Inr (Some v)"
  by (simp add: interpret_response_Inr ok_response_def envelope_of_def)

lemma requestOnce_outcome_witness:
  "\<exists>msg. fst (requestOnce scripted GET (js ''/api/v1/me'') no_options
      (start_state (js ''http://h'') (js ''c'') [])) = Inl (IMErr (IMError (-1) msg 0))"
proof -
  let ?st = "start_state (js ''http://h'') (js ''c'') ([] :: (jstr option + http_response) list)"
  obtain r st' where rs: "requestOnce scripted GET (js ''/api/v1/me'') no_options ?st = (r, st')"
    by force
  have "buildUrl (baseUrl (client ?st)) (js ''/api/v1/me'') (op_query no_options)
      = Some (joinUrl (baseUrl (client ?st)) (js ''/api/v1/me''))"
    by (simp add: buildUrl_def no_options_def)
  from requestOnce_outcome [OF rs this refl] have "\<exists>msg. r = Inl (IMErr (IMError (-1) msg 0))"
    by (simp add: scripted_def start_state_def)
  with rs show ?thesis by simp
qed

subsection \<open>Credential refresh\<close>

text \<open>An attempt that fails as a rejected credential got an answer that says so.\<close>

lemma rejected_answer:
  assumes "requestOnce env meth path opts st = (Inl e, st1)" "exn_is_auth e"
  shows "\<exists>rq res a. trace st1 = trace st @ [rq] \<and> attempt_of (client st) meth path opts rq \<and>
    fst (env_request env (world st) rq) = Inr res \<and> interpret_response res = Inl (IMErr a) \<and> isAuthError a"
  using assms(1)
proof (cases rule: requestOnce_cases)
  case (2 url)
  let ?rq = "built_request (client st) meth url opts"
  have "attempt_of (client st) meth path opts ?rq"
    unfolding attempt_of_def using 2(1) by (intro exI [of _ url] exI [of _ "credential (client st)"]) simp
  moreover have "\<exists>res. fst (env_request env (world st) ?rq) = Inr res \<and> interpret_response res = Inl e"
    using 2(4) assms(2) by (cases "fst (env_request env (world st) ?rq)") (auto simp: isAuthError_def ErrorCode_InvalidCredential_def)
  moreover obtain a where "e = IMErr a" "isAuthError a" using assms(2) by (cases e) auto
  ultimately show ?thesis using 2(3) by blast
qed (use assms(2) in \<open>simp add: URIError_def\<close>)

text \<open>
C23: A request makes at most two attempts, both built from the same arguments.  A second one is made only when the answer to the
first rejected its credential, that is, was interpreted as an error with status 401 or the code of an invalid credential, when the
request was not anonymous, and when \<open>getCredential\<close> then returned another, non-empty credential; the client
keeps that credential, and the second attempt presents it in its \<open>Authorization\<close> header.
\<close>

theorem request_attempts:
  assumes "request env meth path opts st = (r, st')"
  shows "\<exists>rqs. trace st' = trace st @ rqs \<and> length rqs \<le> 2 \<and>
    (\<forall>rq \<in> set rqs. attempt_of (client st) meth path opts rq) \<and>
    (length rqs = 2 \<longrightarrow>
       (\<exists>res e. fst (env_request env (world st) (rqs ! 0)) = Inr res \<and> interpret_response res = Inl (IMErr e) \<and>
          (err_code e = ErrorCode_InvalidCredential \<or> err_status e = 401)) \<and>
       op_auth opts \<noteq> Some False \<and> credential (client st) \<noteq> [] \<and>
       (\<exists>g w. env_getCredential env = Some g \<and> fst (g w) = Inr (credential (client st'))) \<and>
       credential (client st') \<noteq> [] \<and> credential (client st') \<noteq> credential (client st) \<and>
       map_of (rq_headers (rqs ! 1)) (js ''Authorization'')
         = Some (js ''Bearer '' @ credential (client st')))"
  using assms
proof (cases rule: request_cases)
  case (once st1 r1)
  with requestOnce_trace [OF once(1)] show ?thesis by fastforce
next
  case (refreshed e st1 st2 fresh)
  obtain rq res a where 1: "trace st1 = trace st @ [rq]" "attempt_of (client st) meth path opts rq"
      "fst (env_request env (world st) rq) = Inr res" "interpret_response res = Inl (IMErr a)" "isAuthError a"
    using rejected_answer [OF refreshed(1,2)] by blast
  have a: "err_code a = ErrorCode_InvalidCredential \<or> err_status a = 401" using 1(5) by (simp add: isAuthError_def)
  from refreshed(8) show ?thesis
  proof (cases rule: requestOnce_cases)
    case (2 url)
    let ?rq = "built_request (client st2) meth url opts"
    have "attempt_of (client st) meth path opts ?rq"
      using 2(1) refreshed(7) by (auto simp: attempt_of_def)
    moreover have "map_of (rq_headers ?rq) (js ''Authorization'') = Some (js ''Bearer '' @ fresh)"
      using request_headers_auth [of opts "client st2"] refreshed(3,4,7) by (simp add: built_request_def)
    ultimately show ?thesis
      using 1 2 refreshed a by (intro exI [of _ "[rq, ?rq]"]) auto
  qed (use 1 refreshed in auto)
qed

text \<open>A server that accepts one credential, with a refresh callback that returns it.\<close>

definition refreshing :: "unit env" where
  "refreshing = \<lparr>env_request = (\<lambda>w rq.
       (if map_of (rq_headers rq) (js ''Authorization'') = Some (js ''Bearer new'')
        then Inr (ok_response (JNum 1))
        else Inr \<lparr>rs_statusCode = 401, rs_data = JNull\<rparr>, w)),
     env_getCredential = Some (\<lambda>w. (Inr (js ''new''), w)), env_upload = None\<rparr>"

lemma request_attempts_witness:
  "\<exists>r st'. request refreshing GET (js ''/api/v1/me'') no_options
       (start_state (js ''http://h'') (js ''old'') ()) = (r, st') \<and>
     r = Inr (Some (JNum 1)) \<and> credential (client st') = js ''new'' \<and> length (trace st') \<le> 2"
proof -
  obtain r st' where rs: "request refreshing GET (js ''/api/v1/me'') no_options
      (start_state (js ''http://h'') (js ''old'') ()) = (r, st')" by force
  from request_attempts [OF rs] have "length (trace st') \<le> 2"
    by (auto simp: start_state_def)
  moreover have "r = Inr (Some (JNum 1)) \<and> credential (client st') = js ''new''"
  proof -
    have "fst (request refreshing GET (js ''/api/v1/me'') no_options
          (start_state (js ''http://h'') (js ''old'') ())) = Inr (Some (JNum 1)) \<and>
        credential (client (snd (request refreshing GET (js ''/api/v1/me'') no_options
          (start_state (js ''http://h'') (js ''old'') ())))) = js ''new''"
      by code_simp
    with rs show ?thesis by simp
  qed
  ultimately show ?thesis using rs by blast
qed

subsection \<open>Retried sends\<close>

lemma post_loop_trace:
  assumes "post_loop env path body key maxRetries attempt st = (r, st')"
  shows "\<exists>rqs. trace st' = trace st @ rqs \<and>
    length rqs \<le> 2 * (nat (maxRetries - attempt) + 1) \<and>
    (\<forall>rq \<in> set rqs. attempt_of (client st) POST path (post_options key body) rq)"
  using assms
proof (induction env path body key maxRetries attempt st rule: post_loop.induct)
  case (1 env path body key maxRetries attempt st)
  obtain r1 st1 where 2: "request env POST path (post_options key body) st = (r1, st1)" by force
  obtain rqs where rqs: "trace st1 = trace st @ rqs" "length rqs \<le> 2"
      "\<forall>rq \<in> set rqs. attempt_of (client st) POST path (post_options key body) rq"
    using request_trace [OF 2] by blast
  show ?case
  proof (cases "\<exists>e. r1 = Inl e \<and> exn_status e = Some 0 \<and> attempt + 1 \<le> maxRetries")
    case True
    then obtain e where e: "r1 = Inl e" "exn_status e = Some 0" "attempt + 1 \<le> maxRetries" by auto
    have "post_loop env path body key maxRetries (attempt + 1) st1 = (r, st')"
      using "1.prems" 2 e by (simp add: post_loop.simps [of env path body key maxRetries attempt st])
    then obtain rqs' where rqs': "trace st' = trace st1 @ rqs'"
        "length rqs' \<le> 2 * (nat (maxRetries - (attempt + 1)) + 1)"
        "\<forall>rq \<in> set rqs'. attempt_of (client st1) POST path (post_options key body) rq"
      using "1.IH" [OF 2 [symmetric] e(1)] e by auto
    obtain x where "client st1 = (client st)\<lparr>credential := x\<rparr>"
      using request_base [OF 2] by (metis http_client_same)
    then have "attempt_of (client st1) = attempt_of (client st)"
      by (intro ext) simp
    with rqs rqs' e show ?thesis by (intro exI [of _ "rqs @ rqs'"]) auto
  next
    case False
    then have "st' = st1"
      using "1.prems" 2 by (auto simp: post_loop.simps [of env path body key maxRetries attempt st]
          split: sum.splits if_splits)
    with rqs show ?thesis by (intro exI [of _ rqs]) auto
  qed
qed

text \<open>
C17: However often a send is retried, every request it makes is a POST to the same URL with the
same body and the same \<open>Idempotency-Key\<close> (the caller's, or one generated once for the call),
and there are at most two per allowed attempt.
\<close>

theorem sendMessage_idempotent:
  assumes "sendMessage env rnd conversationId content options st = (r, st')"
  shows "\<exists>rqs. trace st' = trace st @ rqs \<and>
    length rqs \<le> 2 * (nat (case so_retries options of Some n \<Rightarrow> n | None \<Rightarrow> 1) + 1) \<and>
    (\<forall>rq \<in> set rqs. rq_method rq = POST \<and>
       rq_url rq = joinUrl (baseUrl (client st)) (js ''/api/v1/messages'') \<and>
       rq_data rq = Some (message_body (Some (JStr conversationId)) content options) \<and>
       map_of (rq_headers rq) (js ''Idempotency-Key'') = Some
         (case so_idempotencyKey options of Some k \<Rightarrow> k | None \<Rightarrow> randomId (fst rnd) (snd rnd)))"
proof -
  let ?key = "case so_idempotencyKey options of Some k \<Rightarrow> k | None \<Rightarrow> randomId (fst rnd) (snd rnd)"
  let ?body = "message_body (Some (JStr conversationId)) content options"
  have *: "rq_method rq = POST \<and> rq_url rq = joinUrl (baseUrl (client st)) (js ''/api/v1/messages'') \<and>
      rq_data rq = Some ?body \<and> map_of (rq_headers rq) (js ''Idempotency-Key'') = Some ?key"
    if "attempt_of (client st) POST (js ''/api/v1/messages'') (post_options ?key ?body) rq" for rq
    using that by (auto simp: attempt_of_def built_request_def request_headers_key post_options_def
        no_options_def buildUrl_def)
  have "post_loop env (js ''/api/v1/messages'') ?body ?key
      (case so_retries options of Some n \<Rightarrow> n | None \<Rightarrow> 1) 0 st = (r, st')"
    using assms by (simp add: sendMessage_def postMessage_def)
  from post_loop_trace [OF this] * show ?thesis by auto
qed

lemma sendMessage_idempotent_witness:
  "\<exists>r st'. sendMessage scripted (0, [1, 2, 3, 4]) (js ''c1'') (js ''hi'') default_send
       (start_state (js ''http://h'') (js ''t'') []) = (r, st') \<and> length (trace st') \<le> 4"
proof -
  obtain r st' where rs: "sendMessage scripted (0, [1, 2, 3, 4]) (js ''c1'') (js ''hi'') default_send
      (start_state (js ''http://h'') (js ''t'') ([] :: (jstr option + http_response) list)) = (r, st')"
    by force
  from sendMessage_idempotent [OF rs] have "length (trace st') \<le> 4"
    by (auto simp: start_state_def default_send_def)
  with rs show ?thesis by blast
qed

text \<open>A transport failure of \<open>requestOnce\<close> leaves a request in the trace.\<close>

lemma request_status_trace:
  assumes "request env meth path opts st = (Inl e, st')" "exn_status e = Some s"
  shows "length (trace st) < length (trace st')"
proof -
  obtain r1 st1 where 1: "requestOnce env meth path opts st = (r1, st1)" by force
  have "length (trace st) < length (trace st1) \<or> (st1 = st \<and> r1 = Inl URIError)"
    using 1 by (rule requestOnce_cases) auto
  moreover have "r1 \<noteq> Inl URIError"
    using assms 1 by (auto simp: request_def URIError_def split: option.splits)
  moreover have "length (trace st1) \<le> length (trace st')"
    using assms(1)
  proof (cases rule: request_cases)
    case (once st1' r1')
    with 1 show ?thesis by simp
  next
    case (refreshed e' st1' st2 fresh)
    with 1 requestOnce_trace [OF refreshed(8)] show ?thesis by auto
  qed
  ultimately show ?thesis by linarith
qed

lemma post_loop_exhausted:
  assumes "post_loop env path body key maxRetries attempt st = (Inl e, st')" "exn_status e = Some 0"
  shows "length (trace st') \<ge> length (trace st) + nat (maxRetries - attempt) + 1"
  using assms
proof (induction env path body key maxRetries attempt st rule: post_loop.induct)
  case (1 env path body key maxRetries attempt st)
  obtain r1 st1 where 2: "request env POST path (post_options key body) st = (r1, st1)" by force
  with "1.prems" obtain e1 where e1: "r1 = Inl e1"
    by (auto simp: post_loop.simps [of env path body key maxRetries attempt st] split: sum.splits)
  show ?case
  proof (cases "exn_status e1 = Some 0 \<and> attempt + 1 \<le> maxRetries")
    case True
    have "post_loop env path body key maxRetries (attempt + 1) st1 = (Inl e, st')"
      using "1.prems" 2 e1 True by (simp add: post_loop.simps [of env path body key maxRetries attempt st])
    with True "1.IH" [OF 2 [symmetric] e1] "1.prems"(2)
    have "length (trace st') \<ge> length (trace st1) + nat (maxRetries - (attempt + 1)) + 1" by auto
    moreover have "length (trace st) < length (trace st1)"
      using request_status_trace 2 e1 True by blast
    ultimately show ?thesis using True by linarith
  next
    case False
    then have "st' = st1 \<and> e = e1"
      using "1.prems"(1) 2 e1
      by (auto simp: post_loop.simps [of env path body key maxRetries attempt st] split: if_splits)
    moreover have "length (trace st) < length (trace st1)"
      using request_status_trace 2 e1 calculation "1.prems"(2) by blast
    ultimately show ?thesis using False "1.prems"(2) by auto
  qed
qed

text \<open>
A send gives up on a transport failure only after its retries are used up: when it rejects
with status 0, at least \<open>retries + 1\<close> requests were made (\<open>retries\<close> defaults to 1).
\<close>

theorem sendMessage_exhausts_retries:
  assumes "sendMessage env rnd conversationId content options st = (Inl e, st')"
    and "exn_status e = Some 0"
  shows "length (trace st') \<ge> length (trace st) +
    nat (case so_retries options of Some n \<Rightarrow> n | None \<Rightarrow> 1) + 1"
  using assms post_loop_exhausted by (fastforce simp: sendMessage_def postMessage_def)

lemma sendMessage_exhausts_retries_witness:
  "\<exists>e st'. sendMessage scripted (0, [1, 2, 3, 4]) (js ''c1'') (js ''hi'') (default_send\<lparr>so_retries := Some 2\<rparr>)
       (start_state (js ''http://h'') (js ''t'') []) = (Inl e, st') \<and> exn_status e = Some 0 \<and>
     length (trace st') \<ge> 3"
proof -
  let ?call = "sendMessage scripted (0, [1, 2, 3, 4]) (js ''c1'') (js ''hi'') (default_send\<lparr>so_retries := Some 2\<rparr>)
       (start_state (js ''http://h'') (js ''t'') ([] :: (jstr option + http_response) list))"
  have "\<not> isl (fst ?call) \<or> exn_status (projl (fst ?call)) = Some 0" and "isl (fst ?call)"
    by code_simp+
  then obtain e st' where c: "?call = (Inl e, st')" "exn_status e = Some 0"
    by (cases ?call; cases "fst ?call") auto
  from sendMessage_exhausts_retries [OF c] have "length (trace st') \<ge> 3"
    by (simp add: start_state_def default_send_def)
  with c show ?thesis by blast
qed

text \<open>
Transport failures up to the number of retries are survived: when the adapter fails
\<open>k \<le> retries\<close> times and then answers with a success, the send resolves with its data after
exactly \<open>k + 1\<close> requests.
\<close>

theorem sendMessage_survives_failures:
  assumes "int k \<le> (case so_retries options of Some n \<Rightarrow> n | None \<Rightarrow> 1)"
    and "world st = replicate k (Inl m) @ Inr res # rest" and "interpret_response res = Inr v"
  shows "\<exists>st'. sendMessage scripted rnd conversationId content options st = (Inr v, st') \<and>
    length (trace st') = length (trace st) + k + 1"
proof -
  have *: "\<exists>st'. post_loop scripted (js ''/api/v1/messages'') body key maxRetries attempt st = (Inr v, st') \<and>
      length (trace st') = length (trace st) + k + 1"
    if "attempt + int k \<le> maxRetries" "world st = replicate k (Inl m) @ Inr res # rest"
    for body key maxRetries attempt k and st :: "(jstr option + http_response) list hstate"
    using that
  proof (induction k arbitrary: attempt st)
    case 0
    with assms(3) show ?case
      by (simp add: post_loop.simps request_def requestOnce_def scripted_def buildUrl_def post_options_def
          no_options_def Let_def)
  next
    case (Suc k)
    obtain st1 where st1: "request scripted POST (js ''/api/v1/messages'') (post_options key body) st =
        (Inl (IMErr (IMError (-1) (case m of Some s \<Rightarrow> s | None \<Rightarrow> js ''network error'') 0)), st1)"
      "world st1 = replicate k (Inl m) @ Inr res # rest" "length (trace st1) = length (trace st) + 1"
      using Suc.prems(2)
      by (simp add: request_def requestOnce_def scripted_def buildUrl_def post_options_def no_options_def Let_def)
    have "post_loop scripted (js ''/api/v1/messages'') body key maxRetries attempt st =
        post_loop scripted (js ''/api/v1/messages'') body key maxRetries (attempt + 1) st1"
      using Suc.prems(1) st1(1)
      by (simp add: post_loop.simps [of _ _ _ _ _ attempt st])
    with Suc.IH [of "attempt + 1" st1] Suc.prems(1) st1(2,3) show ?case by auto
  qed
  show ?thesis
    unfolding sendMessage_def postMessage_def using assms(1,2) by (intro *) simp_all
qed

lemma sendMessage_survives_failures_witness:
  "\<exists>st'. sendMessage scripted (0, [1, 2, 3, 4]) (js ''c1'') (js ''hi'') default_send
       (start_state (js ''http://h'') (js ''t'') [Inl None, Inr (ok_response (JNum 7))]) =
       (Inr (Some (JNum 7)), st') \<and> length (trace st') = 2"
  using sendMessage_survives_failures [of 1 default_send
      "start_state (js ''http://h'') (js ''t'') [Inl None, Inr (ok_response (JNum 7))]"
      None "ok_response (JNum 7)" "[]" "Some (JNum 7)" "(0, [1, 2, 3, 4])" "js ''c1''" "js ''hi''"]
  by (simp add: default_send_def start_state_def numeral_2_eq_2)

subsection \<open>URLs\<close>

lemma build_messages_url:
  "buildUrl base (js ''/api/v1/conversations/'' @ e @ js ''/messages'')
     (Some [(js ''after_sequence'', Some (QNumber a)), (js ''limit'', Some (QNumber l))]) =
   Some (trim_end_slashes base @ js ''/api/v1/conversations/'' @ e @
      js ''/messages?after_sequence='' @ show_int a @ js ''&limit='' @ show_int l)"
proof -
  have enc: "encodeURIComponent (js ''after_sequence'') = Some (js ''after_sequence'')"
    "encodeURIComponent (js ''limit'') = Some (js ''limit'')"
    by (rule encodeURIComponent_plain, code_simp)+
  have "query_parts [(js ''after_sequence'', Some (QNumber a)), (js ''limit'', Some (QNumber l))] =
      Some [js ''after_sequence'' @ [61] @ show_int a, js ''limit'' @ [61] @ show_int l]"
    by (simp add: enc)
  then show ?thesis by (simp add: buildUrl_def joinUrl_def trim_start_slashes_def) (simp add: js_eval)
qed

text \<open>
Every request of \<open>listMessages\<close> goes to the messages of the encoded conversation id, and
the encoding cannot leave its path segment: it has no slash, question mark, ampersand or hash,
and different ids have different encodings.
\<close>

theorem listMessages_url:
  assumes "listMessages env conversationId \<lparr>lo_afterSequence = Some a, lo_limit = Some l\<rparr> st = (r, st')"
    and "units_ok conversationId"
  shows "\<exists>rqs. trace st' = trace st @ rqs \<and> (\<forall>rq \<in> set rqs. \<exists>e.
    encodeURIComponent conversationId = Some e \<and>
    rq_url rq = trim_end_slashes (baseUrl (client st)) @ js ''/api/v1/conversations/'' @ e @
      js ''/messages?after_sequence='' @ show_int a @ js ''&limit='' @ show_int l \<and>
    (\<forall>c \<in> set [47, 63, 38, 61, 35]. c \<notin> set e) \<and>
    (\<forall>other. units_ok other \<longrightarrow> encodeURIComponent other = Some e \<longrightarrow> other = conversationId))"
proof (cases "encodeURIComponent conversationId")
  case None
  with assms(1) show ?thesis by (auto simp: listMessages_def request_encoded_def)
next
  case (Some e)
  let ?opts = "no_options\<lparr>op_query := Some
      [(js ''after_sequence'', Some (QNumber a)), (js ''limit'', Some (QNumber l))]\<rparr>"
  have "request env GET (js ''/api/v1/conversations/'' @ e @ js ''/messages'') ?opts st = (r, st')"
    using assms(1) Some by (simp add: listMessages_def request_encoded_def)
  from request_trace [OF this] obtain rqs where rqs: "trace st' = trace st @ rqs"
    "\<forall>rq \<in> set rqs. attempt_of (client st) GET (js ''/api/v1/conversations/'' @ e @ js ''/messages'') ?opts rq"
    by blast
  have url: "rq_url rq = trim_end_slashes (baseUrl (client st)) @ js ''/api/v1/conversations/'' @ e @
      js ''/messages?after_sequence='' @ show_int a @ js ''&limit='' @ show_int l" if "rq \<in> set rqs" for rq
    using that rqs(2) by (auto simp: attempt_of_def built_request_def build_messages_url)
  have safe: "\<forall>c \<in> set [47, 63, 38, 61, 35]. c \<notin> set e"
    using uri_safe_no_special [OF encodeURIComponent_safe [OF assms(2) Some]] by blast
  have "\<forall>other. units_ok other \<longrightarrow> encodeURIComponent other = Some e \<longrightarrow> other = conversationId"
    using encodeURIComponent_inject [OF _ assms(2) _ Some] by blast
  with rqs(1) url safe Some show ?thesis by blast
qed

lemma listMessages_url_witness:
  "\<exists>rq. trace (snd (listMessages scripted (js ''a/b'') \<lparr>lo_afterSequence = Some 5, lo_limit = Some 200\<rparr>
       (start_state (js ''http://h'') (js ''t'') []))) = [rq] \<and> 47 \<notin> set (js ''a%2Fb'') \<and>
     rq_url rq = js ''http://h/api/v1/conversations/a%2Fb/messages?after_sequence=5&limit=200''"
proof -
  let ?call = "listMessages scripted (js ''a/b'') \<lparr>lo_afterSequence = Some 5, lo_limit = Some 200\<rparr>
      (start_state (js ''http://h'') (js ''t'') ([] :: (jstr option + http_response) list))"
  obtain r st' where c: "?call = (r, st')" by force
  have enc: "encodeURIComponent (js ''a/b'') = Some (js ''a%2Fb'')" by (simp add: encode_eval)
  have qs: "query_parts [(js ''after_sequence'', Some (QNumber 5)), (js ''limit'', Some (QNumber 200))] \<noteq> None"
    by (simp add: encode_eval show_eval)
  have "length (trace (snd ?call)) = 1"
    using qs by (auto simp: listMessages_def request_encoded_def request_def requestOnce_def scripted_def
        buildUrl_def enc start_state_def no_options_def Let_def)
  moreover have "trim_end_slashes (baseUrl (client (start_state (js ''http://h'') (js ''t'') ())))
       @ js ''/api/v1/conversations/'' @ js ''a%2Fb'' @
      js ''/messages?after_sequence='' @ show_int 5 @ js ''&limit='' @ show_int 200
     = js ''http://h/api/v1/conversations/a%2Fb/messages?after_sequence=5&limit=200''"
    by (simp add: start_state_def newHttpClient_def trim_end_slashes_def show_eval)
  ultimately show ?thesis
    using listMessages_url [OF c] c enc
    by (auto simp: start_state_def length_Suc_conv)
qed

lemma encode_all_inject:
  assumes "encode_all ss = Some es" "encode_all ts = Some es"
    and "\<forall>s \<in> set ss. units_ok s" "\<forall>t \<in> set ts. units_ok t"
  shows "ss = ts"
  using assms
proof (induction ss arbitrary: es ts)
  case Nil
  then show ?case by (cases ts) (auto split: option.splits)
next
  case (Cons s ss)
  then obtain e es' where e: "encodeURIComponent s = Some e" "encode_all ss = Some es'" "es = e # es'"
    by (auto split: option.splits)
  with Cons.prems(2) obtain t ts' where t: "ts = t # ts'" "encodeURIComponent t = Some e"
      "encode_all ts' = Some es'"
    by (cases ts) (auto split: option.splits)
  then have "ss = ts'" using Cons e by auto
  moreover have "s = t" using encodeURIComponent_inject e t Cons.prems by auto
  ultimately show ?case using t by simp
qed

lemma encode_all_no_slash:
  "encode_all ss = Some es \<Longrightarrow> \<forall>s \<in> set ss. units_ok s \<Longrightarrow> \<forall>e \<in> set es. 47 \<notin> set e"
proof (induction ss arbitrary: es)
  case (Cons s ss)
  then show ?case
    using uri_safe_no_special [OF encodeURIComponent_safe, of s _ 47] by (auto split: option.splits)
qed simp

lemma encode_all_not_Nil: "encode_all ss = Some es \<Longrightarrow> ss \<noteq> [] \<Longrightarrow> es \<noteq> []"
  by (cases ss) (auto split: option.splits)

lemma units_ok_split: "units_ok s \<Longrightarrow> p \<in> set (split_on c s) \<Longrightarrow> units_ok p"
proof (induction s arbitrary: p)
  case (Cons x xs)
  obtain q qs where "split_on c xs = q # qs" using split_on_Cons_ex by blast
  with Cons show ?case by (auto split: if_splits)
qed simp

text \<open>
Storage URLs are unambiguous: two keys with the same download URL are equal, slashes in
the key included.
\<close>

theorem storageUrl_inject:
  assumes "units_ok k1" "units_ok k2" "storageUrl c k1 = Some u" "storageUrl c k2 = Some u"
  shows "k1 = k2"
proof -
  obtain e1 where e1: "encode_all (split_on 47 k1) = Some e1"
    and u1: "u = joinUrl (baseUrl c) (js ''/api/v1/storage/'' @ join [47] e1)"
    using assms(3) by (auto simp: storageUrl_def)
  obtain e2 where e2: "encode_all (split_on 47 k2) = Some e2"
    and u2: "u = joinUrl (baseUrl c) (js ''/api/v1/storage/'' @ join [47] e2)"
    using assms(4) by (auto simp: storageUrl_def)
  have "join [47] e1 = join [47] e2"
    using u1 u2 by (simp add: joinUrl_def trim_start_slashes_def js_eval)
  moreover have "split_on 47 (join [47] e1) = e1" "split_on 47 (join [47] e2) = e2"
    using encode_all_no_slash [OF e1] encode_all_no_slash [OF e2] encode_all_not_Nil [OF e1]
      encode_all_not_Nil [OF e2] units_ok_split assms(1,2) by (simp_all add: split_on_join)
  ultimately have "e1 = e2" by metis
  then have "split_on 47 k1 = split_on 47 k2"
    using encode_all_inject [OF e1] e2 units_ok_split assms(1,2) by blast
  then show ?thesis using join_split_on by metis
qed

lemma storageUrl_inject_witness:
  "storageUrl (newHttpClient (js ''http://h/'') [] None) (js ''a b/c'')
     = Some (js ''http://h/api/v1/storage/a%20b/c'') \<and> js ''a b/c'' = js ''a '' @ js ''b/c''"
proof -
  have u: "storageUrl (newHttpClient (js ''http://h/'') [] None) (js ''a b/c'')
     = Some (js ''http://h/api/v1/storage/a%20b/c'')"
    "storageUrl (newHttpClient (js ''http://h/'') [] None) (js ''a '' @ js ''b/c'')
     = Some (js ''http://h/api/v1/storage/a%20b/c'')"
    by (simp_all add: storageUrl_def newHttpClient_def trim_end_slashes_def joinUrl_def
        trim_start_slashes_def encode_eval)
  have "units_ok (js ''a '' @ js ''b/c'')"
    using units_ok_js [of "''a ''"] units_ok_js [of "''b/c''"] by (simp add: units_ok_def)
  then show ?thesis using u(1) storageUrl_inject [OF units_ok_js _ u] by blast
qed

subsection \<open>Removing members\<close>

text \<open>
\<open>removeMembers\<close> works through the list in order and stops at the first failure: when it
rejects, the members before some position were removed, the removal at that position was the
one that failed, with the same error and final state, and nothing after it was attempted.
\<close>

theorem removeMembers_first_failure:
  assumes "removeMembers env conversationId us st = (Inl e, st')" "us \<noteq> []"
  shows "\<exists>k d st1. k < length us \<and>
    removeMembers_loop env conversationId (take k us) None st = (Inr d, st1) \<and>
    removeMember env conversationId (us ! k) st1 = (Inl e, st')"
proof -
  have "\<exists>k d st1. k < length us \<and> removeMembers_loop env conversationId (take k us) d0 st = (Inr d, st1) \<and>
    removeMember env conversationId (us ! k) st1 = (Inl e, st')"
    if "removeMembers_loop env conversationId us d0 st = (Inl e, st')" for d0
    using that
  proof (induction us arbitrary: d0 st)
    case (Cons u us)
    obtain r1 st1 where 1: "removeMember env conversationId u st = (r1, st1)" by force
    show ?case
    proof (cases r1)
      case (Inl e1)
      with Cons.prems 1 show ?thesis by (intro exI [of _ 0]) auto
    next
      case (Inr d1)
      with Cons 1 obtain k d st2 where "k < length us"
        "removeMembers_loop env conversationId (take k us) d1 st1 = (Inr d, st2)"
        "removeMember env conversationId (us ! k) st2 = (Inl e, st')" by fastforce
      with 1 Inr show ?thesis by (intro exI [of _ "Suc k"] exI [of _ d] exI [of _ st2]) simp
    qed
  qed simp
  with assms show ?thesis by (auto simp: removeMembers_def)
qed

lemma removeMembers_first_failure_witness:
  "\<exists>e st' k d st1. removeMembers scripted (js ''g'') [js ''a'', js ''b'', js ''c'']
      (start_state (js ''http://h'') (js ''t'') [Inr (ok_response JNull), Inl None]) = (Inl e, st') \<and>
    k < 3 \<and> removeMembers_loop scripted (js ''g'') (take k [js ''a'', js ''b'', js ''c'']) None
      (start_state (js ''http://h'') (js ''t'') [Inr (ok_response JNull), Inl None]) = (Inr d, st1)"
proof -
  let ?call = "removeMembers scripted (js ''g'') [js ''a'', js ''b'', js ''c'']
      (start_state (js ''http://h'') (js ''t'') [Inr (ok_response JNull), Inl None])"
  have enc: "encodeURIComponent (js s) = Some (js s)" if "s \<in> {''g'', ''a'', ''b'', ''c''}" for s
    using that by (auto simp: encode_eval)
  have "isl (fst ?call)"
    by (simp add: removeMembers_def removeMember_def enc request_def requestOnce_def scripted_def
        buildUrl_def start_state_def no_options_def Let_def)
  then obtain e st' where c: "?call = (Inl e, st')" by (cases ?call; cases "fst ?call") auto
  from removeMembers_first_failure [OF c] obtain k d st1 where "k < length [js ''a'', js ''b'', js ''c'']"
    "removeMembers_loop scripted (js ''g'') (take k [js ''a'', js ''b'', js ''c'']) None
      (start_state (js ''http://h'') (js ''t'') [Inr (ok_response JNull), Inl None]) = (Inr d, st1)"
    by blast
  with c show ?thesis
    by (intro exI [of _ e] exI [of _ st'] exI [of _ k] exI [of _ d] exI [of _ st1]) simp
qed

end
