(* ===== verification/Sync.thy ===== *)
theory Sync
  imports Types
begin

text \<open>
  The synchronization engine \<open>SyncEngine\<close> of \<open>sdk/ts/src/sync.ts\<close>.

  An \<open>async\<close> task is cut at its \<open>await\<close>: \<open>start_task\<close> runs it to its first \<open>listMessages\<close> call
  and \<open>resume_task\<close> runs it on with the answer, up to the next call or to its end.  The promise
  chain \<open>queues.get(id)\<close> is a \<open>chain\<close>: the task that runs and the tasks that wait for it.  A
  chain that \<open>forget\<close> drops from \<open>queues\<close> still runs its tasks, so chains are kept in a list
  and \<open>queues\<close> holds an index into it.  Handlers and answers are recorded in \<open>outs\<close>.  The
  storage adapter is a record of functions over an arbitrary store.
\<close>

record 's storage_adapter =
  sa_get :: "'s \<Rightarrow> jstr \<Rightarrow> jstr option"
  sa_set :: "'s \<Rightarrow> jstr \<Rightarrow> jstr \<Rightarrow> 's"
  sa_remove :: "'s \<Rightarrow> jstr \<Rightarrow> 's"

record fetch_options =
  fo_fromSequence :: "int option"
  fo_limit :: "int option"
  fo_maxPages :: "int option"

definition no_fetch_options :: fetch_options where
  "no_fetch_options = \<lparr>fo_fromSequence = None, fo_limit = None, fo_maxPages = None\<rparr>"

text \<open>\<open>ReloadTask e notify\<close>: with \<open>notify\<close> the caller is \<open>handleMessageModeratedEvent\<close>.\<close>

datatype task = FetchTask fetch_options | ReloadTask gateway_event bool

text \<open>A task that waits for \<open>listMessages\<close>, with the local variables of \<open>runFetch\<close>.\<close>

datatype frame =
    Fetching (fr_limit: int) (fr_from: int) (fr_maxPages: int) (fr_page: int) (fr_all: "chat_message list")
  | Reloading gateway_event bool

record chain =
  ch_conversation :: jstr
  ch_running :: "frame option"
  ch_waiting :: "task list"

datatype sync_out =
    OnMessages "chat_message list"
  | OnMessageUpdated chat_message
  | ListMessages jstr int int
  | Fetched jstr "chat_message list"
  | Reloaded jstr "chat_message option"
  | Rejected jstr exn

record 's sync_state =
  lastSeq :: "(jstr \<times> int) list"
  queues :: "(jstr \<times> nat) list"
  chains :: "chain list"
  store :: "'s option"
  storageKey :: jstr
  outs :: "sync_out list"

definition PAGE_LIMIT :: int where
  "PAGE_LIMIT = 200"

definition MAX_SYNC_PAGES :: int where
  "MAX_SYNC_PAGES = 10"

definition out :: "sync_out \<Rightarrow> 's sync_state \<Rightarrow> 's sync_state" where
  "out x st = st\<lparr>outs := outs st @ [x]\<rparr>"

section \<open>Sequence bookkeeping\<close>

definition json_of_sequences :: "(jstr \<times> int) list \<Rightarrow> json" where
  "json_of_sequences seqs = JObj (map (\<lambda>(i, s). (i, JNum s)) seqs)"

definition persist :: "'s storage_adapter \<Rightarrow> 's sync_state \<Rightarrow> 's sync_state" where
  "persist sa st =
     (case store st of
        None \<Rightarrow> st
      | Some s \<Rightarrow>
          st\<lparr>store := Some (sa_set sa s (storageKey st) (stringify (json_of_sequences (lastSeq st))))\<rparr>)"

text \<open>\<open>Object.entries\<close>; \<open>None\<close> is the \<open>TypeError\<close> on \<open>null\<close>.\<close>

fun object_entries :: "json \<Rightarrow> (jstr \<times> json) list option" where
  "object_entries JNull = None"
| "object_entries (JObj kvs) = Some kvs"
| "object_entries (JArr vs) = Some (zip (map show_nat [0..<length vs]) vs)"
| "object_entries (JStr s) = Some (zip (map show_nat [0..<length s]) (map (\<lambda>c. JStr [c]) s))"
| "object_entries _ = Some []"

fun load_entry :: "(jstr \<times> int) list \<Rightarrow> jstr \<times> json \<Rightarrow> (jstr \<times> int) list" where
  "load_entry seqs (i, v) =
     (case json_number v of
        Some s \<Rightarrow> if s > 0 then AList.update i s seqs else seqs
      | None \<Rightarrow> seqs)"

definition load :: "'s storage_adapter \<Rightarrow> 's sync_state \<Rightarrow> 's sync_state" where
  "load sa st =
     (case store st of
        None \<Rightarrow> st
      | Some s \<Rightarrow>
          (case sa_get sa s (storageKey st) of
             None \<Rightarrow> st
           | Some raw \<Rightarrow>
               if raw = [] then st
               else (case Option.bind (parse raw) object_entries of
                   None \<Rightarrow> st
                 | Some entries \<Rightarrow> st\<lparr>lastSeq := foldl load_entry (lastSeq st) entries\<rparr>)))"

definition newSyncEngine :: "'s storage_adapter \<Rightarrow> 's option \<Rightarrow> jstr option \<Rightarrow> 's sync_state" where
  "newSyncEngine sa storage key =
     load sa \<lparr>lastSeq = [], queues = [], chains = [], store = storage,
       storageKey = (case key of Some k \<Rightarrow> k | None \<Rightarrow> js ''airway-im.sequences''), outs = []\<rparr>"

definition track :: "'s storage_adapter \<Rightarrow> jstr \<Rightarrow> int \<Rightarrow> 's sync_state \<Rightarrow> 's sync_state" where
  "track sa conversationId sequence st =
     (case map_of (lastSeq st) conversationId of
        None \<Rightarrow> persist sa (st\<lparr>lastSeq := AList.update conversationId (max 0 sequence) (lastSeq st)\<rparr>)
      | Some current \<Rightarrow>
          if sequence > current
          then persist sa (st\<lparr>lastSeq := AList.update conversationId sequence (lastSeq st)\<rparr>)
          else st)"

definition isTracked :: "'s sync_state \<Rightarrow> jstr \<Rightarrow> bool" where
  "isTracked st conversationId \<longleftrightarrow> map_of (lastSeq st) conversationId \<noteq> None"

definition lastSequence :: "'s sync_state \<Rightarrow> jstr \<Rightarrow> int" where
  "lastSequence st conversationId =
     (case map_of (lastSeq st) conversationId of Some s \<Rightarrow> s | None \<Rightarrow> 0)"

definition forget :: "'s storage_adapter \<Rightarrow> jstr \<Rightarrow> 's sync_state \<Rightarrow> 's sync_state" where
  "forget sa conversationId st =
     persist sa (st\<lparr>lastSeq := AList.delete conversationId (lastSeq st),
                    queues := AList.delete conversationId (queues st)\<rparr>)"

section \<open>Serialized fetching\<close>

definition enqueue :: "jstr \<Rightarrow> task \<Rightarrow> 's sync_state \<Rightarrow> 's sync_state" where
  "enqueue conversationId t st =
     (case map_of (queues st) conversationId of
        Some i \<Rightarrow>
          st\<lparr>chains := (chains st)[i := (chains st ! i)\<lparr>ch_waiting := ch_waiting (chains st ! i) @ [t]\<rparr>]\<rparr>
      | None \<Rightarrow>
          st\<lparr>queues := AList.update conversationId (length (chains st)) (queues st),
             chains := chains st @
               [\<lparr>ch_conversation = conversationId, ch_running = None, ch_waiting = [t]\<rparr>]\<rparr>)"

definition fetchFrom :: "jstr \<Rightarrow> fetch_options \<Rightarrow> 's sync_state \<Rightarrow> 's sync_state" where
  "fetchFrom conversationId options st = enqueue conversationId (FetchTask options) st"

definition reloadMessage :: "jstr \<Rightarrow> gateway_event \<Rightarrow> bool \<Rightarrow> 's sync_state \<Rightarrow> 's sync_state" where
  "reloadMessage conversationId event notify st =
     enqueue conversationId (ReloadTask event notify) st"

definition resyncAll :: "'s sync_state \<Rightarrow> 's sync_state" where
  "resyncAll st = foldl (\<lambda>s i. fetchFrom i no_fetch_options s) st (map fst (lastSeq st))"

text \<open>The end of a task: the chain is free for its next one.\<close>

definition settle :: "nat \<Rightarrow> sync_out \<Rightarrow> 's sync_state \<Rightarrow> 's sync_state" where
  "settle i result st =
     out result (st\<lparr>chains := (chains st)[i := (chains st ! i)\<lparr>ch_running := None\<rparr>]\<rparr>)"

definition suspend :: "nat \<Rightarrow> frame \<Rightarrow> int \<Rightarrow> int \<Rightarrow> 's sync_state \<Rightarrow> 's sync_state" where
  "suspend i f after limit st =
     out (ListMessages (ch_conversation (chains st ! i)) after limit)
       (st\<lparr>chains := (chains st)[i := (chains st ! i)\<lparr>ch_running := Some f\<rparr>]\<rparr>)"

text \<open>Leaving the loop of \<open>runFetch\<close>, and its loop condition.\<close>

definition finish_fetch ::
  "'s storage_adapter \<Rightarrow> nat \<Rightarrow> int \<Rightarrow> chat_message list \<Rightarrow> 's sync_state \<Rightarrow> 's sync_state" where
  "finish_fetch sa i frm all st =
     (let conversationId = ch_conversation (chains st ! i)
      in settle i (Fetched conversationId all) (track sa conversationId frm st))"

definition fetch_page ::
  "'s storage_adapter \<Rightarrow> nat \<Rightarrow> int \<Rightarrow> int \<Rightarrow> int \<Rightarrow> int \<Rightarrow> chat_message list \<Rightarrow> 's sync_state \<Rightarrow> 's sync_state" where
  "fetch_page sa i limit frm maxPages page all st =
     (if page < maxPages then suspend i (Fetching limit frm maxPages page all) frm limit st
      else finish_fetch sa i frm all st)"

text \<open>Running a waiting task up to its first \<open>await\<close>.\<close>

definition start_task :: "'s storage_adapter \<Rightarrow> nat \<Rightarrow> 's sync_state \<Rightarrow> 's sync_state" where
  "start_task sa i st =
     (if i < length (chains st) \<and> ch_running (chains st ! i) = None then
        (case ch_waiting (chains st ! i) of
           [] \<Rightarrow> st
         | t # ts \<Rightarrow>
             let c = chains st ! i; conversationId = ch_conversation c;
                 st1 = st\<lparr>chains := (chains st)[i := c\<lparr>ch_waiting := ts\<rparr>]\<rparr>
             in case t of
                  FetchTask options \<Rightarrow>
                    fetch_page sa i
                      (case fo_limit options of Some l \<Rightarrow> l | None \<Rightarrow> PAGE_LIMIT)
                      (case fo_fromSequence options of Some f \<Rightarrow> f | None \<Rightarrow> lastSequence st1 conversationId)
                      (case fo_maxPages options of Some m \<Rightarrow> m | None \<Rightarrow> MAX_SYNC_PAGES)
                      0 [] st1
                | ReloadTask event notify \<Rightarrow>
                    (case ev_sequence event of
                       None \<Rightarrow> settle i (Reloaded conversationId None) st1
                     | Some s \<Rightarrow> suspend i (Reloading event notify) (s - 1) 10 st1))
      else st)"

text \<open>The answer of \<open>listMessages\<close> arrives at the task that waits for it.\<close>

definition resume_task ::
  "'s storage_adapter \<Rightarrow> nat \<Rightarrow> exn + chat_message list \<Rightarrow> 's sync_state \<Rightarrow> 's sync_state" where
  "resume_task sa i answer st =
     (if i < length (chains st) then
        (case ch_running (chains st ! i) of
           None \<Rightarrow> st
         | Some f \<Rightarrow>
             let conversationId = ch_conversation (chains st ! i)
             in case answer of
                  Inl e \<Rightarrow> settle i (Rejected conversationId e) st
                | Inr messages \<Rightarrow>
                    (case f of
                       Fetching limit frm maxPages page all \<Rightarrow>
                         if messages = [] then finish_fetch sa i frm all st
                         else
                           let st1 = out (OnMessages messages) st;
                               frm' = msg_sequence (last messages)
                           in if int (length messages) < limit
                              then finish_fetch sa i frm' (all @ messages) st1
                              else fetch_page sa i limit frm' maxPages (page + 1) (all @ messages) st1
                     | Reloading event notify \<Rightarrow>
                         let updated = List.find (\<lambda>m. ev_message_id event = Some (msg_id m)) messages;
                             st1 = settle i (Reloaded conversationId updated) st
                         in case updated of
                              Some m \<Rightarrow> if notify then out (OnMessageUpdated m) st1 else st1
                            | None \<Rightarrow> st1))
      else st)"

section \<open>Event-driven sync\<close>

definition handleMessageEvent :: "gateway_event \<Rightarrow> 's sync_state \<Rightarrow> 's sync_state" where
  "handleMessageEvent event st =
     (let conversationId = ev_conversation_id event
      in if \<not> isTracked st conversationId then st
         else if (case ev_sequence event of
                    Some target \<Rightarrow> target \<le> lastSequence st conversationId
                  | None \<Rightarrow> False) then st
         else fetchFrom conversationId no_fetch_options st)"

definition handleMessageModeratedEvent :: "gateway_event \<Rightarrow> 's sync_state \<Rightarrow> 's sync_state" where
  "handleMessageModeratedEvent event st =
     (if \<not> isTracked st (ev_conversation_id event) then st
      else reloadMessage (ev_conversation_id event) event True st)"

section \<open>The backend's message log\<close>

text \<open>
  \<open>ListMessages\<close> of \<open>install/lib/im/app/api/im_api/messages.go\<close>: the messages of one conversation
  with a larger sequence, in sequence order, as many as the limit; a limit outside 1-200 is 100.
\<close>

definition server_page :: "chat_message list \<Rightarrow> int \<Rightarrow> int \<Rightarrow> chat_message list" where
  "server_page log after limit =
     take (nat (if limit < 1 \<or> limit > 200 then 100 else limit))
       (filter (\<lambda>m. after < msg_sequence m) log)"

section \<open>Laws of the bookkeeping\<close>

lemma persist_frame [simp]:
  "lastSeq (persist sa st) = lastSeq st" "queues (persist sa st) = queues st"
  "chains (persist sa st) = chains st" "outs (persist sa st) = outs st"
  "storageKey (persist sa st) = storageKey st"
  by (simp_all add: persist_def split: option.split)

lemma lastSequence_persist [simp]: "lastSequence (persist sa st) = lastSequence st"
  by (simp add: lastSequence_def fun_eq_iff)

lemma track_frame [simp]:
  "queues (track sa c s st) = queues st" "chains (track sa c s st) = chains st"
  "outs (track sa c s st) = outs st" "storageKey (track sa c s st) = storageKey st"
  by (simp_all add: track_def split: option.split)

lemma lastSequence_cong: "lastSeq st = lastSeq st' \<Longrightarrow> lastSequence st = lastSequence st'"
  by (simp add: lastSequence_def fun_eq_iff)

lemma out_frame [simp]:
  "lastSeq (out x st) = lastSeq st" "queues (out x st) = queues st" "chains (out x st) = chains st"
  "store (out x st) = store st" "storageKey (out x st) = storageKey st"
  "outs (out x st) = outs st @ [x]"
  by (simp_all add: out_def)

text \<open>Every remembered sequence is a number of the backend or the 0 of a fresh conversation.\<close>

definition seqs_ok :: "'s sync_state \<Rightarrow> bool" where
  "seqs_ok st \<longleftrightarrow> distinct (map fst (lastSeq st)) \<and> (\<forall>e \<in> set (lastSeq st). 0 \<le> snd e)"

lemma lastSequence_nonneg: "seqs_ok st \<Longrightarrow> 0 \<le> lastSequence st c"
  by (force simp: seqs_ok_def lastSequence_def split: option.split dest: map_of_SomeD)

lemma lastSequence_untracked: "\<not> isTracked st c \<Longrightarrow> lastSequence st c = 0"
  by (simp add: isTracked_def lastSequence_def)

lemma lastSequence_track:
  "lastSequence (track sa c s st) c' =
     (if c' = c
      then (if isTracked st c then max s (lastSequence st c) else max 0 s)
      else lastSequence st c')"
  by (auto simp: track_def lastSequence_def isTracked_def AList.update_conv' split: option.split)

lemma lastSequence_track_max:
  "seqs_ok st \<Longrightarrow>
   lastSequence (track sa c s st) c' = (if c' = c then max s (lastSequence st c) else lastSequence st c')"
  using lastSequence_nonneg [of st c] by (auto simp: lastSequence_track lastSequence_untracked)

lemma isTracked_track: "isTracked (track sa c s st) c' \<longleftrightarrow> c' = c \<or> isTracked st c'"
  by (auto simp: track_def isTracked_def AList.update_conv' split: option.split)

lemma update_nonneg:
  "\<forall>e \<in> set al. 0 \<le> snd e \<Longrightarrow> 0 \<le> (v :: int) \<Longrightarrow> \<forall>e \<in> set (AList.update k v al). 0 \<le> snd e"
  by (induction al) auto

lemma seqs_ok_updated:
  "seqs_ok st \<Longrightarrow> 0 \<le> v \<Longrightarrow> seqs_ok (st\<lparr>lastSeq := AList.update k v (lastSeq st)\<rparr>)"
  using update_nonneg [of "lastSeq st" v k] by (simp add: seqs_ok_def distinct_update)

lemma seqs_ok_cong: "lastSeq st = lastSeq st' \<Longrightarrow> seqs_ok st = seqs_ok st'"
  by (simp add: seqs_ok_def)

lemma seqs_ok_persist [simp]: "seqs_ok (persist sa st) = seqs_ok st"
  by (rule seqs_ok_cong) simp

lemma seqs_ok_track:
  assumes "seqs_ok st"
  shows "seqs_ok (track sa c s st)"
proof (cases "map_of (lastSeq st) c")
  case None
  then show ?thesis using assms by (simp add: track_def seqs_ok_updated)
next
  case (Some q)
  then have "0 \<le> q" using lastSequence_nonneg [OF assms, of c] by (simp add: lastSequence_def)
  then show ?thesis using assms Some by (simp add: track_def seqs_ok_updated)
qed

lemma seqs_ok_forget: "seqs_ok st \<Longrightarrow> seqs_ok (forget sa c st)"
  by (auto simp: forget_def seqs_ok_def distinct_delete) (auto simp: AList.delete_eq)

lemma load_entries_ok:
  "distinct (map fst al) \<Longrightarrow> \<forall>e \<in> set al. 0 \<le> snd e \<Longrightarrow>
   distinct (map fst (foldl load_entry al es)) \<and> (\<forall>e \<in> set (foldl load_entry al es). 0 \<le> snd e)"
proof (induction es arbitrary: al)
  case (Cons e es)
  have "distinct (map fst (load_entry al e))"
    using Cons.prems(1) by (cases e) (simp add: distinct_update split: option.split)
  moreover have "\<forall>e' \<in> set (load_entry al e). 0 \<le> snd e'"
    using update_nonneg [OF Cons.prems(2), OF less_imp_le] Cons.prems(2) by (cases e) (auto split: option.split)
  ultimately show ?case using Cons.IH by simp
qed simp

lemma newSyncEngine_seqs_ok: "seqs_ok (newSyncEngine sa s k)"
  using load_entries_ok [of "[]"]
  by (simp add: newSyncEngine_def load_def seqs_ok_def split: option.split)

text \<open>What \<open>load\<close> makes of the entries that \<open>persist\<close> wrote.\<close>

lemma map_of_foldl_load_entry:
  "distinct (map fst kvs) \<Longrightarrow>
   map_of (foldl load_entry al (map (\<lambda>(i, s). (i, JNum s)) kvs)) k =
     (case map_of kvs k of
        Some s \<Rightarrow> if s > 0 then Some s else map_of al k
      | None \<Rightarrow> map_of al k)"
proof (induction kvs arbitrary: al)
  case (Cons kv kvs)
  obtain i s where kv: "kv = (i, s)" by fastforce
  have "map_of kvs i = None" using Cons.prems kv by (simp add: map_of_eq_None_iff)
  then show ?case
    using Cons.IH [of "load_entry al (i, JNum s)"] Cons.prems kv
    by (auto simp: AList.update_conv' split: option.splits)
qed simp

text \<open>The contract of a key-value store: a write that is accepted is read back, a refused one
  changes nothing.\<close>

locale storage_laws =
  fixes sa :: "'s storage_adapter" and accepts :: "'s \<Rightarrow> jstr \<Rightarrow> jstr \<Rightarrow> bool"
  assumes get_set: "accepts s k v \<Longrightarrow> v \<noteq> [] \<Longrightarrow> sa_get sa (sa_set sa s k v) k = Some v"
    and get_set_other: "k' \<noteq> k \<Longrightarrow> sa_get sa (sa_set sa s k v) k' = sa_get sa s k'"
    and set_refused: "\<not> accepts s k v \<Longrightarrow> sa_set sa s k v = s"
    and get_remove: "accepts s k [] \<Longrightarrow> sa_get sa (sa_remove sa s k) k = None"
begin

lemma reload_lastSequence:
  assumes "seqs_ok st" "\<forall>c \<in> fst ` set (lastSeq st). units_ok c" "store st = Some s"
    and "accepts s (storageKey st) (stringify (json_of_sequences (lastSeq st)))"
  shows "lastSequence (newSyncEngine sa (store (persist sa st)) (Some (storageKey st))) c = lastSequence st c"
    and "isTracked (newSyncEngine sa (store (persist sa st)) (Some (storageKey st))) c \<longleftrightarrow> 0 < lastSequence st c"
proof -
  let ?raw = "stringify (json_of_sequences (lastSeq st))"
  let ?new = "newSyncEngine sa (store (persist sa st)) (Some (storageKey st))"
  have ok: "json_ok (json_of_sequences (lastSeq st))"
    using assms(1,2) by (auto simp: json_of_sequences_def seqs_ok_def list_all_iff comp_def split_def)
  have raw: "?raw \<noteq> []" by (simp add: json_of_sequences_def stringify.simps)
  have "map_of (lastSeq ?new) c =
    (case map_of (lastSeq st) c of Some q \<Rightarrow> if q > 0 then Some q else None | None \<Rightarrow> None)"
    using assms(1,3) get_set [OF assms(4) raw] raw parse_stringify [OF ok]
    by (simp add: newSyncEngine_def load_def persist_def json_of_sequences_def seqs_ok_def
        map_of_foldl_load_entry split: option.split)
  then show "lastSequence ?new c = lastSequence st c" "isTracked ?new c \<longleftrightarrow> 0 < lastSequence st c"
    using lastSequence_nonneg [OF assms(1), of c]
    by (auto simp: lastSequence_def isTracked_def split: option.splits)
qed

end

end
