(* ===== verification/Delivery.thy ===== *)
theory Delivery
  imports Sync
begin

text \<open>
  The engine of \<open>sdk/ts/src/sync.ts\<close> together with the message log it reads.

  First one fetch task alone: what a drain emits when the backend answers each of its pages.
  Then every interleaving: \<open>sync_step\<close> has one step for each call of an engine operation, for the
  start and the answer of a task of any chain, for a failed answer, and for a message that the
  backend appends in between.  The invariant of the clean steps gives the promise of the header
  comment, that each message is emitted exactly once and in order; the steps that are not clean
  (a failure after the first page, \<open>forget\<close>, a tracked send, an explicit \<open>fromSequence\<close>) are
  the ones that break it.
\<close>

section \<open>Message logs\<close>

definition pending :: "chat_message list \<Rightarrow> int \<Rightarrow> chat_message list" where
  "pending log after = filter (\<lambda>m. after < msg_sequence m) log"

definition between :: "chat_message list \<Rightarrow> int \<Rightarrow> int \<Rightarrow> chat_message list" where
  "between log a b = filter (\<lambda>m. a < msg_sequence m \<and> msg_sequence m \<le> b) log"

definition sorted_log :: "chat_message list \<Rightarrow> bool" where
  "sorted_log log \<longleftrightarrow> sorted_wrt (\<lambda>x y. msg_sequence x < msg_sequence y) log"

text \<open>The sequence of the last message of a list, or a default.\<close>

definition upto_seq :: "int \<Rightarrow> chat_message list \<Rightarrow> int" where
  "upto_seq d ms = (if ms = [] then d else msg_sequence (last ms))"

lemma sorted_wrt_last: "sorted_wrt (\<lambda>x y. f x < (f y :: int)) xs \<Longrightarrow> x \<in> set xs \<Longrightarrow> f x \<le> f (last xs)"
proof (induction xs)
  case (Cons y ys)
  then show ?case using last_in_set [of ys] by (cases "ys = []") (auto intro: less_imp_le)
qed simp

lemma sorted_take_between:
  assumes "sorted_wrt (\<lambda>x y. f x < (f y :: int)) xs" "take n xs \<noteq> []"
  shows "filter (\<lambda>x. f (last (take n xs)) < f x) xs = drop n xs"
    and "filter (\<lambda>x. f x \<le> f (last (take n xs))) xs = take n xs"
proof -
  let ?l = "last (take n xs)"
  have s: "sorted_wrt (\<lambda>x y. f x < f y) (take n xs @ drop n xs)" using assms(1) by simp
  then have le: "f x \<le> f ?l" if "x \<in> set (take n xs)" for x
    using sorted_wrt_last [of f "take n xs" x] that by (simp only: sorted_wrt_append)
  have gt: "f ?l < f x" if "x \<in> set (drop n xs)" for x
    using s that last_in_set [OF assms(2)] by (auto simp only: sorted_wrt_append)
  have "filter (\<lambda>x. f ?l < f x) (take n xs @ drop n xs) = drop n xs"
    "filter (\<lambda>x. f x \<le> f ?l) (take n xs @ drop n xs) = take n xs"
    using le gt by (fastforce simp: filter_empty_conv filter_id_conv simp del: append_take_drop_id)+
  then show "filter (\<lambda>x. f ?l < f x) xs = drop n xs" "filter (\<lambda>x. f x \<le> f ?l) xs = take n xs"
    by simp_all
qed

lemma sorted_pending: "sorted_log log \<Longrightarrow> sorted_log (pending log a)"
  by (simp add: sorted_log_def pending_def sorted_wrt_filter)

lemma upto_seq_ge:
  assumes "set ms \<subseteq> set (pending log a)"
  shows "a \<le> upto_seq a ms"
proof (cases "ms = []")
  case False
  then have "last ms \<in> set (pending log a)" using assms last_in_set by blast
  then show ?thesis by (simp add: upto_seq_def pending_def)
qed (simp add: upto_seq_def)

lemma take_pending_in: "set (take n (pending log a)) \<subseteq> set (pending log a)"
  by (rule set_take_subset)

lemma pending_upto:
  assumes "sorted_log log"
  shows "pending log (upto_seq a (take n (pending log a))) = drop n (pending log a)"
proof (cases "take n (pending log a) = []")
  case True
  then show ?thesis by (auto simp: upto_seq_def)
next
  case False
  let ?b = "upto_seq a (take n (pending log a))"
  have "a \<le> ?b" by (rule upto_seq_ge [OF take_pending_in])
  then have "pending log ?b = filter (\<lambda>m. ?b < msg_sequence m) (pending log a)"
    by (auto simp: pending_def intro: filter_cong)
  also have "\<dots> = drop n (pending log a)"
    using sorted_take_between(1) [of msg_sequence "pending log a" n] sorted_pending [OF assms] False
    by (simp add: upto_seq_def sorted_log_def)
  finally show ?thesis .
qed

lemma take_pending_between:
  assumes "sorted_log log"
  shows "take n (pending log a) = between log a (upto_seq a (take n (pending log a)))"
proof (cases "take n (pending log a) = []")
  case True
  then show ?thesis by (auto simp: upto_seq_def between_def)
next
  case False
  then show ?thesis
    using sorted_take_between(2) [of msg_sequence "pending log a" n] sorted_pending [OF assms]
    by (simp add: upto_seq_def sorted_log_def between_def) (simp add: pending_def conj_commute)
qed

lemma between_append:
  assumes "sorted_log log" "a \<le> b" "b \<le> c"
  shows "between log a b @ between log b c = between log a c"
proof -
  let ?xs = "filter (\<lambda>m. msg_sequence m \<le> c) log"
  have "sorted_wrt (\<lambda>x y. msg_sequence x < msg_sequence y) ?xs"
    using assms(1) by (simp add: sorted_log_def sorted_wrt_filter)
  from sorted_wrt_less_filter_split [OF this assms(2)]
  have "between log a c = filter (\<lambda>m. (a < msg_sequence m \<and> msg_sequence m \<le> b) \<and> msg_sequence m \<le> c) log
      @ between log b c"
    by (simp add: between_def conj_commute)
  also have "filter (\<lambda>m. (a < msg_sequence m \<and> msg_sequence m \<le> b) \<and> msg_sequence m \<le> c) log = between log a b"
    using assms(3) by (auto simp: between_def intro!: filter_cong)
  finally show ?thesis by simp
qed

section \<open>One drain\<close>

text \<open>The messages handed to \<open>onMessages\<close>, in order.\<close>

definition emissions :: "sync_out list \<Rightarrow> chat_message list" where
  "emissions os = concat (map (\<lambda>x. case x of OnMessages ms \<Rightarrow> ms | _ \<Rightarrow> []) os)"

lemma emissions_append [simp]: "emissions (xs @ ys) = emissions xs @ emissions ys"
  by (simp add: emissions_def)

lemma emissions_simps [simp]:
  "emissions [] = []" "emissions (OnMessages ms # os) = ms @ emissions os"
  "emissions (ListMessages c a l # os) = emissions os" "emissions (Fetched c ms # os) = emissions os"
  "emissions (Rejected c e # os) = emissions os" "emissions (Reloaded c r # os) = emissions os"
  "emissions (OnMessageUpdated m # os) = emissions os"
  by (simp_all add: emissions_def)

text \<open>The backend, as a function from its log, answers the page a fetch waits for.\<close>

definition serve ::
  "'s storage_adapter \<Rightarrow> (chat_message list \<Rightarrow> int \<Rightarrow> int \<Rightarrow> chat_message list) \<Rightarrow> chat_message list
   \<Rightarrow> nat \<Rightarrow> 's sync_state \<Rightarrow> 's sync_state" where
  "serve sa page log i st =
     (case ch_running (chains st ! i) of
        Some (Fetching limit frm maxPages p all) \<Rightarrow> resume_task sa i (Inr (page log frm limit)) st
      | _ \<Rightarrow> st)"

text \<open>What a fetch task leaves behind when it ends.\<close>

definition drained ::
  "'s storage_adapter \<Rightarrow> nat \<Rightarrow> int \<Rightarrow> chat_message list \<Rightarrow> chat_message list \<Rightarrow> 's sync_state \<Rightarrow> 's sync_state \<Rightarrow> bool" where
  "drained sa i frm all got st st' \<longleftrightarrow>
     (let c = ch_conversation (chains st ! i)
      in ch_running (chains st' ! i) = None \<and>
         ch_waiting (chains st' ! i) = ch_waiting (chains st ! i) \<and>
         ch_conversation (chains st' ! i) = c \<and>
         last (outs st') = Fetched c (all @ got) \<and>
         emissions (outs st') = emissions (outs st) @ got \<and>
         lastSeq st' = lastSeq (track sa c (upto_seq frm got) st))"

lemma settle_frame [simp]:
  "lastSeq (settle i r st) = lastSeq st" "queues (settle i r st) = queues st"
  "outs (settle i r st) = outs st @ [r]"
  "chains (settle i r st) = (chains st)[i := (chains st ! i)\<lparr>ch_running := None\<rparr>]"
  by (simp_all add: settle_def)

lemma suspend_frame [simp]:
  "lastSeq (suspend i f a l st) = lastSeq st" "queues (suspend i f a l st) = queues st"
  "outs (suspend i f a l st) = outs st @ [ListMessages (ch_conversation (chains st ! i)) a l]"
  "chains (suspend i f a l st) = (chains st)[i := (chains st ! i)\<lparr>ch_running := Some f\<rparr>]"
  by (simp_all add: suspend_def)

lemma finish_fetch_frame [simp]:
  "lastSeq (finish_fetch sa i f all st) = lastSeq (track sa (ch_conversation (chains st ! i)) f st)"
  "queues (finish_fetch sa i f all st) = queues st"
  "outs (finish_fetch sa i f all st) = outs st @ [Fetched (ch_conversation (chains st ! i)) all]"
  "chains (finish_fetch sa i f all st) = (chains st)[i := (chains st ! i)\<lparr>ch_running := None\<rparr>]"
  by (simp_all add: finish_fetch_def Let_def)

lemma track_lastSeq_cong: "lastSeq st = lastSeq st' \<Longrightarrow> lastSeq (track sa c s st) = lastSeq (track sa c s st')"
  by (simp add: track_def split: option.split)

lemma serve_idle: "ch_running (chains st ! i) = None \<Longrightarrow> (serve sa page log i ^^ n) st = st"
  by (induction n) (simp_all add: serve_def)

lemma drained_finish:
  assumes "i < length (chains st1)" "lastSeq st1 = lastSeq st"
    "emissions (outs st1) = emissions (outs st) @ got"
    "ch_conversation (chains st1 ! i) = ch_conversation (chains st ! i)"
    "ch_waiting (chains st1 ! i) = ch_waiting (chains st ! i)"
  shows "drained sa i frm all got st (finish_fetch sa i (upto_seq frm got) (all @ got) st1)"
  using assms track_lastSeq_cong [OF assms(2)] by (simp add: drained_def Let_def)

lemmas drained_empty = drained_finish [where got = "[]", unfolded upto_seq_def, simplified]

text \<open>The contract the drain needs of the backend.\<close>

locale message_source =
  fixes page :: "chat_message list \<Rightarrow> int \<Rightarrow> int \<Rightarrow> chat_message list"
  assumes page_take: "\<exists>n. page log after limit = take n (pending log after)"
    and page_full: "1 \<le> limit \<Longrightarrow> limit \<le> 200 \<Longrightarrow> page log after limit = take (nat limit) (pending log after)"
begin

lemma page_upto: "sorted_log log \<Longrightarrow> page log a l = between log a (upto_seq a (page log a l))"
  using page_take [of log a l] take_pending_between by auto

lemma page_pending: "sorted_log log \<Longrightarrow> a \<le> upto_seq a (page log a l)"
  using page_take [of log a l] upto_seq_ge [OF take_pending_in] by auto

lemma drain:
  assumes "sorted_log log" "1 \<le> l" "l \<le> 200" "i < length (chains st)"
    and "ch_running (chains st ! i) = Some (Fetching l frm mp p all)" "p < mp"
  shows "drained sa i frm all (take (nat (mp - p) * nat l) (pending log frm)) st
    ((serve sa page log i ^^ nat (mp - p)) st)"
  using assms(4-6)
proof (induction "nat (mp - p) - 1" arbitrary: p frm all st)
  case 0
  then have one: "nat (mp - p) = 1" "\<not> p + 1 < mp" by simp_all
  define pg where "pg = take (nat l) (pending log frm)"
  have pg: "page log frm l = pg" using assms(2,3) by (simp add: pg_def page_full)
  have "drained sa i frm all pg st (finish_fetch sa i (upto_seq frm pg) (all @ pg) (out (OnMessages pg) st))"
    using 0 by (intro drained_finish) simp_all
  then show ?case using 0 one pg drained_empty [of i st st sa frm all]
    by (auto simp: serve_def resume_task_def Let_def upto_seq_def fetch_page_def simp flip: pg_def)
next
  case (Suc n)
  then have more: "p + 1 < mp" "n = nat (mp - (p + 1)) - 1" and k: "nat (mp - p) = Suc (nat (mp - (p + 1)))" by simp_all
  let ?pg = "take (nat l) (pending log frm)" and ?k = "nat (mp - (p + 1))"
  let ?st1 = "out (OnMessages ?pg) st"
  consider (empty) "?pg = []" | (short) "?pg \<noteq> []" "int (length ?pg) < l"
    | (full) "?pg \<noteq> []" "\<not> int (length ?pg) < l" by blast
  then show ?case
  proof cases
    case empty
    then have "take (nat (mp - p) * nat l) (pending log frm) = []" using assms(2) by auto
    then show ?thesis using Suc.prems empty k assms(1-3) drained_empty [of i st st sa frm all]
      by (simp add: funpow_Suc_right serve_def [of _ _ _ _ st] resume_task_def page_full Let_def upto_seq_def serve_idle del: funpow.simps)
  next
    case short
    then have all: "take (nat (mp - p) * nat l) (pending log frm) = ?pg" "int (length (pending log frm)) < l" using k by simp_all
    have "drained sa i frm all ?pg st (finish_fetch sa i (upto_seq frm ?pg) (all @ ?pg) ?st1)"
      using Suc.prems by (intro drained_finish) simp_all
    then show ?thesis unfolding all(1) using Suc.prems short all(2) k assms(1-3)
      by (simp add: funpow_Suc_right serve_def [of _ _ _ _ st] resume_task_def page_full Let_def upto_seq_def serve_idle del: funpow.simps)
  next
    case full
    let ?f = "upto_seq frm ?pg"
    let ?st2 = "suspend i (Fetching l ?f mp (p + 1) (all @ ?pg)) ?f l ?st1"
    have step: "serve sa page log i st = ?st2"
      using Suc.prems full more(1) assms(1-3)
      by (simp add: serve_def resume_task_def page_full Let_def upto_seq_def fetch_page_def)
    let ?rest = "take (?k * nat l) (pending log ?f)"
    have "drained sa i ?f (all @ ?pg) ?rest ?st2 ((serve sa page log i ^^ ?k) ?st2)"
      using Suc.prems more by (intro Suc.hyps(1)) simp_all
    moreover have "?pg @ ?rest = take (nat (mp - p) * nat l) (pending log frm)"
      unfolding pending_upto [OF assms(1)] k mult_Suc by (simp add: take_add)
    moreover have "upto_seq ?f ?rest = upto_seq frm (?pg @ ?rest)" by (simp add: upto_seq_def)
    ultimately show ?thesis using Suc.prems(1) unfolding k funpow_Suc_right comp_def step
      by (simp add: drained_def Let_def track_lastSeq_cong [of ?st2 st])
  qed
qed

end

interpretation backend: message_source server_page
proof
  show "\<exists>n. server_page log after limit = take n (pending log after)" for log after limit
    unfolding server_page_def pending_def by blast
qed (simp add: server_page_def pending_def)

text \<open>The parameters of a fetch task, as \<open>runFetch\<close> reads them from its options.\<close>

definition fetch_limit :: "fetch_options \<Rightarrow> int" where
  "fetch_limit o' = (case fo_limit o' of Some l \<Rightarrow> l | None \<Rightarrow> PAGE_LIMIT)"

definition fetch_pages :: "fetch_options \<Rightarrow> int" where
  "fetch_pages o' = (case fo_maxPages o' of Some m \<Rightarrow> m | None \<Rightarrow> MAX_SYNC_PAGES)"

definition fetch_start :: "'s sync_state \<Rightarrow> jstr \<Rightarrow> fetch_options \<Rightarrow> int" where
  "fetch_start st c o' = (case fo_fromSequence o' of Some f \<Rightarrow> f | None \<Rightarrow> lastSequence st c)"

lemma start_fetch:
  assumes "i < length (chains st)" "ch_running (chains st ! i) = None"
    and "ch_waiting (chains st ! i) = FetchTask o' # ts"
  shows "start_task sa i st =
    fetch_page sa i (fetch_limit o') (fetch_start st (ch_conversation (chains st ! i)) o') (fetch_pages o') 0 []
      (st\<lparr>chains := (chains st)[i := (chains st ! i)\<lparr>ch_waiting := ts\<rparr>]\<rparr>)"
  using assms
  by (simp add: start_task_def Let_def fetch_limit_def fetch_pages_def fetch_start_def lastSequence_def
      split: option.split)

lemma fetch_drained:
  assumes "i < length (chains st)" "ch_running (chains st ! i) = None"
    and "ch_waiting (chains st ! i) = FetchTask o' # ts"
    and "1 \<le> fetch_limit o'" "fetch_limit o' \<le> 200" "sorted_log log"
  defines "frm \<equiv> fetch_start st (ch_conversation (chains st ! i)) o'"
  shows "drained sa i frm [] (take (nat (fetch_pages o') * nat (fetch_limit o')) (pending log frm))
    (st\<lparr>chains := (chains st)[i := (chains st ! i)\<lparr>ch_waiting := ts\<rparr>]\<rparr>)
    ((serve sa server_page log i ^^ nat (fetch_pages o')) (start_task sa i st))"
proof -
  let ?st0 = "st\<lparr>chains := (chains st)[i := (chains st ! i)\<lparr>ch_waiting := ts\<rparr>]\<rparr>"
  let ?l = "fetch_limit o'" and ?m = "fetch_pages o'"
  have start: "start_task sa i st = fetch_page sa i ?l frm ?m 0 [] ?st0"
    unfolding frm_def by (rule start_fetch [OF assms(1-3)])
  show ?thesis
  proof (cases "0 < ?m")
    case True
    let ?st1 = "suspend i (Fetching ?l frm ?m 0 []) frm ?l ?st0"
    have "drained sa i frm [] (take (nat (?m - 0) * nat ?l) (pending log frm)) ?st1
        ((serve sa server_page log i ^^ nat (?m - 0)) ?st1)"
      using assms True by (intro backend.drain) simp_all
    then show ?thesis
      using True assms(1) track_lastSeq_cong [of ?st1 ?st0] by (simp add: start fetch_page_def drained_def Let_def)
  next
    case False
    then show ?thesis using assms(1) drained_empty [of i ?st0 ?st0 sa frm "[]"]
      by (simp add: start fetch_page_def)
  qed
qed

section \<open>Every interleaving\<close>

datatype sync_label =
    Append jstr chat_message
  | Created gateway_event
  | Moderated gateway_event
  | History jstr fetch_options
  | Resync
  | Forget jstr
  | Track jstr int
  | Start nat
  | Answer nat nat
  | Fail jstr nat exn bool

text \<open>The request a task waits for, and whether it has already handed out messages.\<close>

fun frame_request :: "frame \<Rightarrow> int \<times> int" where
  "frame_request (Fetching limit frm maxPages page all) = (frm, limit)"
| "frame_request (Reloading event notify) =
     ((case ev_sequence event of Some s \<Rightarrow> s - 1 | None \<Rightarrow> 0), 10)"

fun frame_emitted :: "frame \<Rightarrow> bool" where
  "frame_emitted (Fetching limit frm maxPages page all) = (all \<noteq> [])"
| "frame_emitted (Reloading event notify) = False"

text \<open>
  An answer is a page of any earlier version of the log, a prefix, because the log may have grown
  since the backend read it.  A new message has a larger sequence than those before it.
\<close>

inductive sync_step ::
  "'s storage_adapter \<Rightarrow> sync_label \<Rightarrow> 's sync_state \<times> (jstr \<Rightarrow> chat_message list)
   \<Rightarrow> 's sync_state \<times> (jstr \<Rightarrow> chat_message list) \<Rightarrow> bool"
  for sa :: "'s storage_adapter" where
  step_append: "msg_conversation_id m = c \<Longrightarrow> 0 < msg_sequence m \<Longrightarrow> \<forall>x \<in> set (logs c). msg_sequence x < msg_sequence m \<Longrightarrow>
    sync_step sa (Append c m) (st, logs) (st, logs(c := logs c @ [m]))"
| step_created: "sync_step sa (Created e) (st, logs) (handleMessageEvent e st, logs)"
| step_moderated: "sync_step sa (Moderated e) (st, logs) (handleMessageModeratedEvent e st, logs)"
| step_history: "sync_step sa (History c o') (st, logs) (fetchFrom c o' st, logs)"
| step_resync: "sync_step sa Resync (st, logs) (resyncAll st, logs)"
| step_forget: "sync_step sa (Forget c) (st, logs) (forget sa c st, logs)"
| step_track: "sync_step sa (Track c s) (st, logs) (track sa c s st, logs)"
| step_start: "i < length (chains st) \<Longrightarrow> sync_step sa (Start i) (st, logs) (start_task sa i st, logs)"
| step_answer: "i < length (chains st) \<Longrightarrow> ch_running (chains st ! i) = Some f \<Longrightarrow> frame_request f = (after, limit) \<Longrightarrow>
    sync_step sa (Answer i n) (st, logs)
      (resume_task sa i (Inr (server_page (take n (logs (ch_conversation (chains st ! i)))) after limit)) st, logs)"
| step_fail: "i < length (chains st) \<Longrightarrow> ch_running (chains st ! i) = Some f \<Longrightarrow>
    sync_step sa (Fail (ch_conversation (chains st ! i)) i e (frame_emitted f)) (st, logs) (resume_task sa i (Inl e) st, logs)"

inductive_cases sync_step_cases: "sync_step sa l (st, logs) w"

text \<open>The steps that keep the promise of the engine for the conversation \<open>d\<close>.\<close>

fun clean :: "jstr \<Rightarrow> sync_label \<Rightarrow> bool" where
  "clean d (History c o') = (c = d \<longrightarrow> fo_fromSequence o' = None)"
| "clean d (Forget c) = (c \<noteq> d)"
| "clean d (Track c s) = (c = d \<longrightarrow> s \<le> 0)"
| "clean d (Fail c i e emitted) = (c = d \<longrightarrow> \<not> emitted)"
| "clean d _ = True"

section \<open>The invariant\<close>

text \<open>The task that runs for a conversation.\<close>

definition run_of :: "'s sync_state \<Rightarrow> jstr \<Rightarrow> frame option" where
  "run_of st c = (case map_of (queues st) c of Some i \<Rightarrow> ch_running (chains st ! i) | None \<Rightarrow> None)"

fun from_cursor :: "task \<Rightarrow> bool" where
  "from_cursor (FetchTask o') = (fo_fromSequence o' = None)"
| "from_cursor (ReloadTask e notify) = True"

text \<open>Each queue has its chain, the conversation \<open>d\<close> has no other, and its tasks fetch from the cursor.\<close>

definition chains_ok :: "jstr \<Rightarrow> 's sync_state \<Rightarrow> bool" where
  "chains_ok d st \<longleftrightarrow>
     (\<forall>c i. map_of (queues st) c = Some i \<longrightarrow> i < length (chains st) \<and> ch_conversation (chains st ! i) = c) \<and>
     (\<forall>i < length (chains st). ch_conversation (chains st ! i) = d \<longrightarrow>
        map_of (queues st) d = Some i \<and> list_all from_cursor (ch_waiting (chains st ! i)))"

definition cursor :: "int \<Rightarrow> frame option \<Rightarrow> int" where
  "cursor ls r = (case r of Some (Fetching l f mp p all) \<Rightarrow> f | _ \<Rightarrow> ls)"

definition frame_ok :: "int \<Rightarrow> frame option \<Rightarrow> bool" where
  "frame_ok ls r =
     (case r of Some (Fetching l f mp p all) \<Rightarrow> ls \<le> f \<and> (all = [] \<longrightarrow> f = ls) | _ \<Rightarrow> True)"

definition emitted :: "'s sync_state \<Rightarrow> jstr \<Rightarrow> chat_message list" where
  "emitted st c = filter (\<lambda>m. msg_conversation_id m = c) (emissions (outs st))"

definition log_ok :: "jstr \<Rightarrow> chat_message list \<Rightarrow> bool" where
  "log_ok c log \<longleftrightarrow> sorted_log log \<and> (\<forall>m \<in> set log. msg_conversation_id m = c \<and> 0 < msg_sequence m)"

text \<open>Of one conversation: nothing before \<open>a\<close> was emitted, everything up to the cursor was.\<close>

definition conv_inv :: "int \<Rightarrow> int \<Rightarrow> frame option \<Rightarrow> chat_message list \<Rightarrow> chat_message list \<Rightarrow> bool" where
  "conv_inv a ls r em log \<longleftrightarrow>
     a \<le> ls \<and> frame_ok ls r \<and> cursor ls r \<le> upto_seq 0 log \<and> em = between log a (cursor ls r)"

definition sync_inv :: "jstr \<Rightarrow> int \<Rightarrow> 's sync_state \<times> (jstr \<Rightarrow> chat_message list) \<Rightarrow> bool" where
  "sync_inv d a = (\<lambda>(st, logs). seqs_ok st \<and> chains_ok d st \<and> (\<forall>c. log_ok c (logs c)) \<and>
     conv_inv a (lastSequence st d) (run_of st d) (emitted st d) (logs d))"

lemma chains_okD:
  assumes "chains_ok d st"
  shows "map_of (queues st) c = Some i \<Longrightarrow> i < length (chains st)"
    and "map_of (queues st) c = Some i \<Longrightarrow> ch_conversation (chains st ! i) = c"
    and "i < length (chains st) \<Longrightarrow> ch_conversation (chains st ! i) = d \<Longrightarrow> map_of (queues st) d = Some i"
    and "i < length (chains st) \<Longrightarrow> ch_conversation (chains st ! i) = d \<Longrightarrow> list_all from_cursor (ch_waiting (chains st ! i))"
  using assms unfolding chains_ok_def by blast+

lemma chains_okI:
  assumes "\<And>c i. map_of (queues st) c = Some i \<Longrightarrow> i < length (chains st) \<and> ch_conversation (chains st ! i) = c"
    and "\<And>i. i < length (chains st) \<Longrightarrow> ch_conversation (chains st ! i) = d \<Longrightarrow>
      map_of (queues st) d = Some i \<and> list_all from_cursor (ch_waiting (chains st ! i))"
  shows "chains_ok d st"
  using assms unfolding chains_ok_def by blast

lemma chains_ok_update:
  assumes "chains_ok d st" "i < length (chains st)" "queues st' = queues st" "chains st' = (chains st)[i := ch]"
    and "ch_conversation ch = ch_conversation (chains st ! i)" "ch_conversation ch = d \<longrightarrow> list_all from_cursor (ch_waiting ch)"
  shows "chains_ok d st'" and "run_of st' d = (if ch_conversation ch = d then ch_running ch else run_of st d)"
proof -
  note ok = chains_okD [OF assms(1)]
  show "chains_ok d st'"
  proof (rule chains_okI)
    fix c j assume "map_of (queues st') c = Some j"
    then show "j < length (chains st') \<and> ch_conversation (chains st' ! j) = c"
      using ok(1,2) [of c j] assms(2-5) by (cases "i = j") simp_all
  next
    fix j assume "j < length (chains st')" "ch_conversation (chains st' ! j) = d"
    then show "map_of (queues st') d = Some j \<and> list_all from_cursor (ch_waiting (chains st' ! j))"
      using ok(3,4) [of j] assms(2-6) by (cases "i = j") simp_all
  qed
  show "run_of st' d = (if ch_conversation ch = d then ch_running ch else run_of st d)"
  proof (cases "map_of (queues st) d")
    case None
    then have "ch_conversation ch \<noteq> d" using ok(3) [OF assms(2)] assms(5) by auto
    then show ?thesis using None assms(3) by (simp add: run_of_def)
  next
    case (Some j)
    then show ?thesis using ok(1,2) [OF Some] ok(3) [OF assms(2)] assms(2-5) by (cases "j = i") (auto simp: run_of_def)
  qed
qed

lemma chains_ok_cong:
  "chains st = chains st' \<Longrightarrow> queues st = queues st' \<Longrightarrow> chains_ok d st = chains_ok d st'"
  by (simp add: chains_ok_def)

lemma run_of_cong: "chains st = chains st' \<Longrightarrow> queues st = queues st' \<Longrightarrow> run_of st = run_of st'"
  unfolding run_of_def by metis

lemma enqueue_frame [simp]: "lastSeq (enqueue c t st) = lastSeq st" "outs (enqueue c t st) = outs st"
  by (simp_all add: enqueue_def split: option.split)

lemma enqueue_chains:
  assumes "chains_ok d st" "c = d \<longrightarrow> from_cursor t"
  shows "chains_ok d (enqueue c t st)" "run_of (enqueue c t st) d = run_of st d"
proof -
  have "chains_ok d (enqueue c t st) \<and> run_of (enqueue c t st) d = run_of st d"
  proof (cases "map_of (queues st) c")
    case None
    have ne: "c = d \<Longrightarrow> ch_conversation (chains st ! j) \<noteq> d" if "j < length (chains st)" for j
      using chains_okD(3) [OF assms(1) that] None by auto
    have "chains_ok d (enqueue c t st)"
    proof (rule chains_okI)
      fix e j assume "map_of (queues (enqueue c t st)) e = Some j"
      then show "j < length (chains (enqueue c t st)) \<and> ch_conversation (chains (enqueue c t st) ! j) = e"
        using None chains_okD(1,2) [OF assms(1), of e j]
        by (cases "e = c") (simp_all add: enqueue_def AList.update_conv' nth_append)
    next
      fix j assume "j < length (chains (enqueue c t st))" "ch_conversation (chains (enqueue c t st) ! j) = d"
      then show "map_of (queues (enqueue c t st)) d = Some j \<and> list_all from_cursor (ch_waiting (chains (enqueue c t st) ! j))"
        using None ne [of j] assms(2) chains_okD(3,4) [OF assms(1), of j]
        by (cases "j = length (chains st)") (auto simp: enqueue_def AList.update_conv' nth_append)
    qed
    moreover have "run_of (enqueue c t st) d = run_of st d"
      using chains_okD(1) [OF assms(1), of d] None
      by (auto simp: enqueue_def run_of_def AList.update_conv' nth_append split: option.split)
    ultimately show ?thesis by simp
  next
    case (Some i)
    then have i: "i < length (chains st)" "ch_conversation (chains st ! i) = c"
      using chains_okD(1,2) [OF assms(1)] by simp_all
    have w: "c = d \<longrightarrow> list_all from_cursor (ch_waiting (chains st ! i))" using chains_okD(4) [OF assms(1) i(1)] i(2) by simp
    let ?ch = "(chains st ! i)\<lparr>ch_waiting := ch_waiting (chains st ! i) @ [t]\<rparr>"
    have "c = d \<longrightarrow> run_of st d = ch_running (chains st ! i)" using Some by (auto simp: run_of_def)
    then show ?thesis
      using chains_ok_update [of d st i "enqueue c t st" ?ch] assms Some i w by (auto simp: enqueue_def)
  qed
  then show "chains_ok d (enqueue c t st)" "run_of (enqueue c t st) d = run_of st d" by simp_all
qed

text \<open>The invariant depends on a few observations of the engine only.\<close>

lemma sync_inv_cong:
  assumes "sync_inv d a (st, logs)" "seqs_ok st'" "lastSequence st' d = lastSequence st d" "chains_ok d st'"
    and "run_of st' d = run_of st d" "emissions (outs st') = emissions (outs st)"
  shows "sync_inv d a (st', logs)"
  using assms by (simp add: sync_inv_def emitted_def)

lemma sync_inv_out:
  assumes "sync_inv d a (st, logs)" "emissions [x] = []"
  shows "sync_inv d a (out x st, logs)"
proof (rule sync_inv_cong [OF assms(1)])
  show "seqs_ok (out x st)" using assms(1) seqs_ok_cong [of "out x st" st] by (simp add: sync_inv_def)
  show "chains_ok d (out x st)" using assms(1) chains_ok_cong [of "out x st" st] by (simp add: sync_inv_def)
  show "run_of (out x st) d = run_of st d" using run_of_cong [of "out x st" st] by simp
qed (simp_all add: assms(2) lastSequence_def)

lemma sync_inv_enqueue:
  assumes "sync_inv d a (st, logs)" "c = d \<longrightarrow> from_cursor t"
  shows "sync_inv d a (enqueue c t st, logs)"
proof (rule sync_inv_cong [OF assms(1)])
  show "chains_ok d (enqueue c t st)" "run_of (enqueue c t st) d = run_of st d"
    using enqueue_chains [OF _ assms(2), of st] assms(1) by (simp_all add: sync_inv_def)
  show "seqs_ok (enqueue c t st)" using assms(1) seqs_ok_cong [of "enqueue c t st" st] by (simp add: sync_inv_def)
qed (simp_all add: lastSequence_def)

lemma sync_inv_resync:
  "sync_inv d a (st, logs) \<Longrightarrow> sync_inv d a (foldl (\<lambda>s c. fetchFrom c no_fetch_options s) st cs, logs)"
  by (induction cs arbitrary: st)
     (simp_all add: fetchFrom_def sync_inv_enqueue no_fetch_options_def)

text \<open>Changing the conversation \<open>c\<close>.\<close>

lemma sync_inv_update:
  assumes "sync_inv d a (st, logs)" "seqs_ok st'" "chains_ok d st'" "run_of st' d = (if c = d then r else run_of st d)"
    and "c \<noteq> d \<Longrightarrow> lastSequence st' d = lastSequence st d"
    and "emissions (outs st') = emissions (outs st) @ ms" "\<forall>m \<in> set ms. msg_conversation_id m = c"
    and "c = d \<Longrightarrow> conv_inv a (lastSequence st' d) r (emitted st d @ ms) (logs d)"
  shows "sync_inv d a (st', logs)"
proof -
  have "emitted st' d = (if c = d then emitted st d @ ms else emitted st d)"
    using assms(6,7) by (auto simp: emitted_def filter_empty_conv filter_id_conv)
  then show ?thesis using assms(1-5,8) by (cases "c = d") (simp_all add: sync_inv_def)
qed

lemma frame_ok_None [simp]: "frame_ok ls None" "frame_ok ls (Some (Reloading e b))"
  by (simp_all add: frame_ok_def)

lemma cursor_simps [simp]:
  "cursor ls None = ls" "cursor ls (Some (Reloading e b)) = ls" "cursor ls (Some (Fetching l f mp p all)) = f"
  by (simp_all add: cursor_def)

lemma frame_ok_Fetching [simp]:
  "frame_ok ls (Some (Fetching l f mp p all)) \<longleftrightarrow> ls \<le> f \<and> (all = [] \<longrightarrow> f = ls)"
  by (simp add: frame_ok_def)

lemma sync_invD:
  assumes "sync_inv d a (st, logs)"
  shows "seqs_ok st" "chains_ok d st" "log_ok c (logs c)"
    "conv_inv a (lastSequence st d) (run_of st d) (emitted st d) (logs d)"
  using assms by (simp_all add: sync_inv_def)

lemma run_of_chain:
  "chains_ok d st \<Longrightarrow> i < length (chains st) \<Longrightarrow> ch_conversation (chains st ! i) = d \<Longrightarrow> run_of st d = ch_running (chains st ! i)"
  using chains_okD(3) [of d st i] by (simp add: run_of_def)

lemmas waiting_from_cursor = chains_okD(4)

lemma between_stable:
  assumes "b \<le> upto_seq 0 log" "\<forall>x \<in> set log. msg_sequence x < msg_sequence m" "0 < msg_sequence m"
  shows "between (log @ [m]) a b = between log a b"
proof -
  have "b < msg_sequence m"
    using assms last_in_set [of log] by (cases "log = []") (auto simp: upto_seq_def intro: le_less_trans)
  then show ?thesis by (simp add: between_def)
qed

text \<open>Ending a fetch at \<open>f\<close>, and waiting for its next page.\<close>

lemma finish_fetch_inv:
  assumes "sync_inv d a (st, logs)" "i < length (chains st)" "c = ch_conversation (chains st ! i)"
    and "emissions (outs st') = emissions (outs st) @ ms" "\<forall>m \<in> set ms. msg_conversation_id m = c"
    and "lastSeq st' = lastSeq st" "queues st' = queues st" "chains st' = (chains st)[i := ch]"
    and "ch_conversation ch = c" "c = d \<longrightarrow> list_all from_cursor (ch_waiting ch)"
    and "c = d \<longrightarrow> conv_inv a (lastSequence st d) (Some (Fetching l f mp p all)) (emitted st d @ ms) (logs d)"
  shows "sync_inv d a (finish_fetch sa i f all st', logs)"
proof (rule sync_inv_update [OF assms(1), where c = c and r = None and ms = ms])
  have ok: "seqs_ok st'" using assms(1,6) seqs_ok_cong [of st' st] by (simp add: sync_inv_def)
  have c: "ch_conversation (chains st' ! i) = c" using assms(2,8,9) by simp
  have ls: "lastSequence (finish_fetch sa i f all st') e =
      (if e = c then max f (lastSequence st c) else lastSequence st e)" for e
    using lastSequence_cong [of "finish_fetch sa i f all st'" "track sa c f st'"]
      lastSequence_track_max [OF ok] lastSequence_cong [OF assms(6)] c by simp
  show "seqs_ok (finish_fetch sa i f all st')"
    using seqs_ok_track [OF ok, of sa c f] seqs_ok_cong [of "finish_fetch sa i f all st'" "track sa c f st'"] c by simp
  show "chains_ok d (finish_fetch sa i f all st')"
    "run_of (finish_fetch sa i f all st') d = (if c = d then None else run_of st d)"
    using chains_ok_update [of d st i "finish_fetch sa i f all st'" "ch\<lparr>ch_running := None\<rparr>"] assms
    by (simp_all add: sync_inv_def)
  show "emissions (outs (finish_fetch sa i f all st')) = emissions (outs st) @ ms" using assms(4) by simp
  show "conv_inv a (lastSequence (finish_fetch sa i f all st') d) None (emitted st d @ ms) (logs d)" if "c = d"
    using assms(11) that by (auto simp: ls conv_inv_def max_def)
  show "lastSequence (finish_fetch sa i f all st') d = lastSequence st d" if "c \<noteq> d"
    using that by (simp add: ls)
qed (use assms in simp_all)

lemma fetch_page_inv:
  assumes "sync_inv d a (st, logs)" "i < length (chains st)" "c = ch_conversation (chains st ! i)"
    and "emissions (outs st') = emissions (outs st) @ ms" "\<forall>m \<in> set ms. msg_conversation_id m = c"
    and "lastSeq st' = lastSeq st" "queues st' = queues st" "chains st' = (chains st)[i := ch]"
    and "ch_conversation ch = c" "c = d \<longrightarrow> list_all from_cursor (ch_waiting ch)"
    and "c = d \<longrightarrow> conv_inv a (lastSequence st d) (Some (Fetching l f mp p all)) (emitted st d @ ms) (logs d)"
  shows "sync_inv d a (fetch_page sa i l f mp p all st', logs)"
proof (cases "p < mp")
  case False
  then show ?thesis using finish_fetch_inv [OF assms] by (simp add: fetch_page_def)
next
  case True
  let ?st = "suspend i (Fetching l f mp p all) f l st'"
  have "sync_inv d a (?st, logs)"
  proof (rule sync_inv_update [OF assms(1), where c = c and r = "Some (Fetching l f mp p all)" and ms = ms])
    show "seqs_ok ?st" using assms(1,6) seqs_ok_cong [of ?st st] by (simp add: sync_inv_def)
    show "chains_ok d ?st" "run_of ?st d = (if c = d then Some (Fetching l f mp p all) else run_of st d)"
      using chains_ok_update [of d st i ?st "ch\<lparr>ch_running := Some (Fetching l f mp p all)\<rparr>"] assms
      by (simp_all add: sync_inv_def)
  qed (use assms lastSequence_cong [of ?st st] in simp_all)
  then show ?thesis using True by (simp add: fetch_page_def)
qed

text \<open>A step of chain \<open>i\<close> that emits nothing and leaves the sequences alone.\<close>

lemma quiet_inv:
  assumes "sync_inv d a (st, logs)" "i < length (chains st)"
    and "emissions (outs st') = emissions (outs st)"
    and "lastSeq st' = lastSeq st" "queues st' = queues st" "chains st' = (chains st)[i := ch]"
    and "ch_conversation ch = ch_conversation (chains st ! i)"
    and "ch_conversation ch = d \<longrightarrow> list_all from_cursor (ch_waiting ch)"
    and "ch_running ch = None \<or> (\<exists>e b. ch_running ch = Some (Reloading e b))"
    and "ch_conversation ch = d \<longrightarrow> cursor (lastSequence st d) (ch_running (chains st ! i)) = lastSequence st d"
  shows "sync_inv d a (st', logs)"
proof (rule sync_inv_update [OF assms(1), where c = "ch_conversation ch" and r = "ch_running ch" and ms = "[]"])
  let ?c = "ch_conversation ch"
  have ls: "lastSequence st' = lastSequence st" using assms(4) by (rule lastSequence_cong)
  show "seqs_ok st'" using assms(1,4) seqs_ok_cong [of st' st] by (simp add: sync_inv_def)
  show "chains_ok d st'" "run_of st' d = (if ?c = d then ch_running ch else run_of st d)"
    using chains_ok_update [OF _ assms(2,5,6,7,8)] assms(1) by (simp_all add: sync_inv_def)
  show "conv_inv a (lastSequence st' d) (ch_running ch) (emitted st d @ []) (logs d)" if "?c = d"
  proof -
    have "run_of st d = ch_running (chains st ! i)"
      using run_of_chain [OF sync_invD(2) [OF assms(1)] assms(2)] assms(7) that by simp
    then show ?thesis using sync_invD(4) [OF assms(1)] assms(9,10) that by (auto simp: conv_inv_def ls)
  qed
  show "lastSequence st' d = lastSequence st d" by (simp add: ls)
qed (use assms in simp_all)

lemma start_inv:
  assumes "sync_inv d a (st, logs)" "i < length (chains st)"
  shows "sync_inv d a (start_task sa i st, logs)"
proof (cases "ch_running (chains st ! i) = None \<and> ch_waiting (chains st ! i) \<noteq> []")
  case True
  then obtain t ts where t: "ch_running (chains st ! i) = None" "ch_waiting (chains st ! i) = t # ts"
    by (cases "ch_waiting (chains st ! i)") auto
  let ?c = "ch_conversation (chains st ! i)" and ?ch = "(chains st ! i)\<lparr>ch_waiting := ts\<rparr>"
  have w: "?c = d \<longrightarrow> from_cursor t" "?c = d \<longrightarrow> list_all from_cursor ts"
    using waiting_from_cursor [OF sync_invD(2) [OF assms(1)] assms(2)] t(2) by auto
  have run: "?c = d \<longrightarrow> run_of st d = None" using run_of_chain [OF sync_invD(2) [OF assms(1)] assms(2)] t(1) by simp
  show ?thesis
  proof (cases t)
    case (FetchTask o')
    then have "?c = d \<longrightarrow> fetch_start st ?c o' = lastSequence st d" using w(1) by (simp add: fetch_start_def)
    then have "?c = d \<longrightarrow> conv_inv a (lastSequence st d) (Some (Fetching l (fetch_start st ?c o') mp 0 [])) (emitted st d @ []) (logs d)" for l mp
      using sync_invD(4) [OF assms(1)] run by (auto simp: conv_inv_def)
    then show ?thesis
      unfolding start_fetch [OF assms(2) t(1) t(2) [unfolded FetchTask]]
      using w(2) by (intro fetch_page_inv [OF assms refl, where ms = "[]" and ch = ?ch]) simp_all
  next
    case (ReloadTask e notify)
    show ?thesis
    proof (cases "ev_sequence e")
      case None
      then show ?thesis
        using ReloadTask assms(2) t w(2)
        by (intro quiet_inv [OF assms, where ch = "?ch\<lparr>ch_running := None\<rparr>"]) (simp_all add: start_task_def Let_def)
    next
      case (Some q)
      then show ?thesis
        using ReloadTask assms(2) t w(2)
        by (intro quiet_inv [OF assms, where ch = "?ch\<lparr>ch_running := Some (Reloading e notify)\<rparr>"])
           (simp_all add: start_task_def Let_def)
    qed
  qed
next
  case False
  then have "start_task sa i st = st" by (auto simp: start_task_def)
  then show ?thesis using assms(1) by simp
qed

text \<open>A page of a prefix of the log continues the log where the cursor stands.\<close>

lemma page_of_prefix: "\<exists>j. server_page (take n log) f l = take j (pending log f)"
proof -
  obtain k where "server_page (take n log) f l = take k (pending (take n log) f)" using backend.page_take by blast
  moreover have "\<exists>j. pending (take n log) f = take j (pending log f)"
    unfolding pending_def by (metis append_eq_conv_conj append_take_drop_id filter_append)
  ultimately show ?thesis by (metis take_take)
qed

lemma page_between:
  fixes f l :: int and n :: nat
  assumes "log_ok c log"
  defines "ms \<equiv> server_page (take n log) f l"
  shows "ms = between log f (upto_seq f ms)" "f \<le> upto_seq f ms" "set ms \<subseteq> set log"
    and "f \<le> upto_seq 0 log \<Longrightarrow> upto_seq f ms \<le> upto_seq 0 log"
proof -
  obtain j where ms: "ms = take j (pending log f)" using page_of_prefix unfolding ms_def by blast
  have sorted: "sorted_log log" using assms(1) by (simp add: log_ok_def)
  show "ms = between log f (upto_seq f ms)" unfolding ms by (rule take_pending_between [OF sorted])
  show "f \<le> upto_seq f ms" unfolding ms by (rule upto_seq_ge [OF take_pending_in])
  show sub: "set ms \<subseteq> set log" unfolding ms pending_def by (auto dest: in_set_takeD)
  show "upto_seq f ms \<le> upto_seq 0 log" if "f \<le> upto_seq 0 log"
  proof (cases "ms = []")
    case False
    then have "last ms \<in> set log" using sub last_in_set by blast
    then have "msg_sequence (last ms) \<le> msg_sequence (last log)"
      using sorted sorted_wrt_last [of msg_sequence log] by (simp add: sorted_log_def)
    then show ?thesis using False sub by (auto simp: upto_seq_def)
  qed (use that in \<open>simp add: upto_seq_def\<close>)
qed

lemma fetch_answer_inv:
  fixes n :: nat
  assumes "sync_inv d a (st, logs)" "i < length (chains st)" "ch_running (chains st ! i) = Some (Fetching l frm mp p all)"
  defines "c \<equiv> ch_conversation (chains st ! i)"
  defines "ms \<equiv> server_page (take n (logs c)) frm l"
  shows "sync_inv d a (resume_task sa i (Inr ms) st, logs)"
proof -
  let ?st = "out (OnMessages ms) st"
  have w: "c = d \<longrightarrow> list_all from_cursor (ch_waiting (chains st ! i))"
    using waiting_from_cursor [OF sync_invD(2) [OF assms(1)] assms(2)] by (simp add: c_def)
  note page = page_between [OF sync_invD(3) [OF assms(1), of c], where n = n and f = frm and l = l, folded ms_def]
  have conv: "\<forall>m \<in> set ms. msg_conversation_id m = c"
    using page(3) sync_invD(3) [OF assms(1), of c] by (auto simp: log_ok_def)
  have next_inv: "c = d \<longrightarrow> conv_inv a (lastSequence st d) (Some (Fetching l (upto_seq frm ms) mp p' (all @ ms))) (emitted st d @ ms) (logs d)" for p'
  proof
    assume cd: "c = d"
    have run: "run_of st d = Some (Fetching l frm mp p all)"
      using run_of_chain [OF sync_invD(2) [OF assms(1)] assms(2)] assms(3) cd by (simp add: c_def)
    note inv = sync_invD(4) [OF assms(1), unfolded run]
    have "emitted st d @ ms = between (logs d) a (upto_seq frm ms)"
      using inv page(1,2) between_append [of "logs d" a frm "upto_seq frm ms"] sync_invD(3) [OF assms(1), of d] cd
      by (simp add: conv_inv_def log_ok_def)
    then show "conv_inv a (lastSequence st d) (Some (Fetching l (upto_seq frm ms) mp p' (all @ ms))) (emitted st d @ ms) (logs d)"
      using inv page(2,4) cd by (auto simp: conv_inv_def upto_seq_def)
  qed
  show ?thesis
  proof (cases "ms = []")
    case True
    then have "sync_inv d a (finish_fetch sa i frm all st, logs)"
      using next_inv w by (intro finish_fetch_inv [OF assms(1,2) refl, where ms = "[]" and ch = "chains st ! i" and l = l and mp = mp and p = p])
        (simp_all add: upto_seq_def c_def)
    then show ?thesis using True assms(2,3) by (simp add: resume_task_def)
  next
    case False
    have "sync_inv d a (finish_fetch sa i (upto_seq frm ms) (all @ ms) ?st, logs)"
      using next_inv w conv by (intro finish_fetch_inv [OF assms(1,2) refl, where ms = ms and ch = "chains st ! i" and l = l and mp = mp and p = p])
        (simp_all add: c_def)
    moreover have "sync_inv d a (fetch_page sa i l (upto_seq frm ms) mp (p + 1) (all @ ms) ?st, logs)"
      using next_inv w conv by (intro fetch_page_inv [OF assms(1,2) refl, where ms = ms and ch = "chains st ! i"])
        (simp_all add: c_def)
    ultimately show ?thesis using False assms(2,3) by (simp add: resume_task_def Let_def upto_seq_def)
  qed
qed

lemma reload_answer_inv:
  assumes "sync_inv d a (st, logs)" "i < length (chains st)" "ch_running (chains st ! i) = Some (Reloading e notify)"
  shows "sync_inv d a (resume_task sa i (Inr ms) st, logs)"
proof -
  let ?c = "ch_conversation (chains st ! i)" and ?u = "List.find (\<lambda>m. ev_message_id e = Some (msg_id m)) ms"
  have settled: "sync_inv d a (settle i (Reloaded ?c ?u) st, logs)"
    using assms(3) waiting_from_cursor [OF sync_invD(2) [OF assms(1)] assms(2)]
    by (intro quiet_inv [OF assms(1,2), where ch = "(chains st ! i)\<lparr>ch_running := None\<rparr>"]) simp_all
  then have "sync_inv d a (out (OnMessageUpdated m) (settle i (Reloaded ?c ?u) st), logs)" for m
    by (rule sync_inv_out) simp
  then show ?thesis using settled assms(2,3) by (auto simp: resume_task_def Let_def split: option.split)
qed

lemma answer_inv:
  assumes "sync_inv d a (st, logs)" "i < length (chains st)" "ch_running (chains st ! i) = Some f"
    and "frame_request f = (after, limit)"
  shows "sync_inv d a (resume_task sa i (Inr (server_page (take n (logs (ch_conversation (chains st ! i)))) after limit)) st, logs)"
  using assms(3,4) fetch_answer_inv [OF assms(1,2)] reload_answer_inv [OF assms(1,2)] by (cases f) auto

lemma fail_inv:
  assumes "sync_inv d a (st, logs)" "i < length (chains st)" "ch_running (chains st ! i) = Some f"
    and "ch_conversation (chains st ! i) = d \<longrightarrow> \<not> frame_emitted f"
  shows "sync_inv d a (resume_task sa i (Inl e) st, logs)"
proof -
  let ?c = "ch_conversation (chains st ! i)"
  have "?c = d \<longrightarrow> run_of st d = Some f" using run_of_chain [OF sync_invD(2) [OF assms(1)] assms(2)] assms(3) by simp
  then have "?c = d \<longrightarrow> cursor (lastSequence st d) (Some f) = lastSequence st d"
    using sync_invD(4) [OF assms(1)] assms(4) by (cases f) (auto simp: conv_inv_def)
  then show ?thesis using assms(2,3) waiting_from_cursor [OF sync_invD(2) [OF assms(1)] assms(2)]
    by (intro quiet_inv [OF assms(1,2), where ch = "(chains st ! i)\<lparr>ch_running := None\<rparr>"])
       (simp_all add: resume_task_def Let_def)
qed

lemma append_inv:
  assumes "sync_inv d a (st, logs)" "msg_conversation_id m = c" "0 < msg_sequence m"
    and "\<forall>x \<in> set (logs c). msg_sequence x < msg_sequence m"
  shows "sync_inv d a (st, logs(c := logs c @ [m]))"
proof -
  have "upto_seq 0 (logs c) \<le> msg_sequence m"
    using assms(3,4) last_in_set [of "logs c"] by (cases "logs c = []") (auto simp: upto_seq_def less_imp_le)
  then have "c = d \<longrightarrow> conv_inv a (lastSequence st d) (run_of st d) (emitted st d) (logs d @ [m])"
    using sync_invD(4) [OF assms(1)] between_stable [OF _ assms(4,3)]
    by (auto simp: conv_inv_def upto_seq_def)
  moreover have "log_ok c (logs c @ [m])"
    using sync_invD(3) [OF assms(1), of c] assms(2-4) by (auto simp: log_ok_def sorted_log_def sorted_wrt_append)
  ultimately show ?thesis using assms(1) by (auto simp: sync_inv_def)
qed

lemma track_inv:
  assumes "sync_inv d a (st, logs)" "c = d \<longrightarrow> s \<le> 0"
  shows "sync_inv d a (track sa c s st, logs)"
proof (rule sync_inv_cong [OF assms(1)])
  note ok = sync_invD(1) [OF assms(1)]
  show "seqs_ok (track sa c s st)" by (rule seqs_ok_track [OF ok])
  show "chains_ok d (track sa c s st)"
    using sync_invD(2) [OF assms(1)] chains_ok_cong [of "track sa c s st" st] by simp
  show "run_of (track sa c s st) d = run_of st d" using run_of_cong [of "track sa c s st" st] by simp
  show "lastSequence (track sa c s st) d = lastSequence st d"
    using lastSequence_nonneg [OF ok, of d] assms(2) by (auto simp: lastSequence_track_max [OF ok] max_def)
qed simp

lemma forget_inv:
  assumes "sync_inv d a (st, logs)" "c \<noteq> d"
  shows "sync_inv d a (forget sa c st, logs)"
proof (rule sync_inv_cong [OF assms(1)])
  show "seqs_ok (forget sa c st)" by (rule seqs_ok_forget [OF sync_invD(1) [OF assms(1)]])
  show "chains_ok d (forget sa c st)"
  proof (rule chains_okI)
    fix e j assume "map_of (queues (forget sa c st)) e = Some j"
    then show "j < length (chains (forget sa c st)) \<and> ch_conversation (chains (forget sa c st) ! j) = e"
      using chains_okD(1,2) [OF sync_invD(2) [OF assms(1)], of e j] by (cases "e = c") (auto simp: forget_def map_of_delete delete_conv)
  next
    fix j assume "j < length (chains (forget sa c st))" "ch_conversation (chains (forget sa c st) ! j) = d"
    then show "map_of (queues (forget sa c st)) d = Some j \<and> list_all from_cursor (ch_waiting (chains (forget sa c st) ! j))"
      using chains_okD(3,4) [OF sync_invD(2) [OF assms(1)], of j] assms(2) by (simp add: forget_def map_of_delete)
  qed
qed (use assms(2) in \<open>simp_all add: forget_def lastSequence_def run_of_def map_of_delete split: option.split\<close>)

interpretation engine: inductive_invariant "sync_step sa" "clean d" "sync_inv d a"
proof
  fix w l w'
  assume inv: "sync_inv d a w" and ok: "clean d l" and step: "sync_step sa l w w'"
  obtain st logs where w: "w = (st, logs)" by fastforce
  show "sync_inv d a w'"
    using step [unfolded w] inv [unfolded w] ok
    by (elim sync_step_cases)
       (auto simp: handleMessageEvent_def handleMessageModeratedEvent_def reloadMessage_def fetchFrom_def Let_def
         no_fetch_options_def resyncAll_def [unfolded fetchFrom_def]
         intro: append_inv sync_inv_enqueue track_inv forget_inv start_inv answer_inv fail_inv
           sync_inv_resync [unfolded fetchFrom_def no_fetch_options_def])
qed

section \<open>What the engine promises\<close>

lemma newSyncEngine_frame:
  "queues (newSyncEngine sa s k) = []" "chains (newSyncEngine sa s k) = []" "outs (newSyncEngine sa s k) = []"
  by (auto simp: newSyncEngine_def load_def split: option.split)

lemma newSyncEngine_inv:
  assumes "\<forall>c. log_ok c (logs c)" "lastSequence (newSyncEngine sa s k) d \<le> upto_seq 0 (logs d)"
  shows "sync_inv d (lastSequence (newSyncEngine sa s k) d) (newSyncEngine sa s k, logs)"
  using assms newSyncEngine_seqs_ok [of sa s k]
  by (auto simp: sync_inv_def chains_ok_def newSyncEngine_frame conv_inv_def run_of_def emitted_def between_def
      filter_empty_conv)

text \<open>What the invariant says about the emitted messages.\<close>

lemma sync_inv_emitted:
  assumes "sync_inv c a (st, logs)"
  shows "emitted st c = between (logs c) a (cursor (lastSequence st c) (run_of st c)) \<and>
    lastSequence st c \<le> cursor (lastSequence st c) (run_of st c) \<and>
    sorted_wrt (<) (map msg_sequence (emitted st c)) \<and> distinct (emitted st c)"
proof -
  have em: "emitted st c = between (logs c) a (cursor (lastSequence st c) (run_of st c))"
    using sync_invD(4) [OF assms] by (simp add: conv_inv_def)
  have sorted: "sorted_wrt (\<lambda>x y. msg_sequence x < msg_sequence y) (emitted st c)"
    using sync_invD(3) [OF assms, of c] unfolding em between_def log_ok_def sorted_log_def by (simp add: sorted_wrt_filter)
  have "lastSequence st c \<le> cursor (lastSequence st c) (run_of st c)"
    using sync_invD(4) [OF assms] by (auto simp: conv_inv_def frame_ok_def cursor_def split: option.splits frame.splits)
  then show ?thesis using em sorted sorted_wrt_less_distinct [OF sorted] by (simp add: sorted_wrt_map)
qed

text \<open>
C6: Exactly once and in order, whatever the interleaving.  From a new engine whose stored sequence of a
conversation is not ahead of the backend, and as long as, of this conversation, no page after the
first of a fetch fails, it is not forgotten, no send raises its cursor and no history call names a
starting point, the messages of the conversation that reach \<open>onMessages\<close> are, in the order of the
log, exactly those after the stored sequence and up to the cursor; the cursor is the last-seen
sequence when no fetch runs for the conversation.  Other conversations may do anything.
\<close>

theorem exactly_once_in_order:
  assumes "lreach (sync_step sa) (clean c) (newSyncEngine sa storage key, logs0) (st, logs)"
    and "\<forall>c. log_ok c (logs0 c)"
    and "lastSequence (newSyncEngine sa storage key) c \<le> upto_seq 0 (logs0 c)"
  shows "emitted st c = between (logs c) (lastSequence (newSyncEngine sa storage key) c)
      (cursor (lastSequence st c) (run_of st c)) \<and>
    lastSequence st c \<le> cursor (lastSequence st c) (run_of st c) \<and>
    sorted_wrt (<) (map msg_sequence (emitted st c)) \<and> distinct (emitted st c)"
  using engine.inv_reach [OF assms(1) newSyncEngine_inv [OF assms(2,3)]] by (rule sync_inv_emitted)

text \<open>A conversation with two messages, and a store in memory, for the examples.\<close>

definition memory_storage :: "(jstr \<times> jstr) list storage_adapter" where
  "memory_storage = \<lparr>sa_get = map_of, sa_set = (\<lambda>s k v. AList.update k v s), sa_remove = (\<lambda>s k. AList.delete k s)\<rparr>"

definition sample_message :: "nat \<Rightarrow> int \<Rightarrow> chat_message" where
  "sample_message i s = \<lparr>msg_id = [i], msg_conversation_id = [99],
     msg_sender = \<lparr>snd_uuid = [117], snd_username = [118], snd_nickname = None, snd_avatar_url = None\<rparr>,
     msg_content = [104], msg_content_type = TextPlain, msg_created_at = [], msg_sequence = s\<rparr>"

lemma sample_message_simps [simp]:
  "msg_id (sample_message i s) = [i]" "msg_conversation_id (sample_message i s) = [99]"
  "msg_sequence (sample_message i s) = s"
  by (simp_all add: sample_message_def)

definition sample_log :: "chat_message list" where
  "sample_log = [sample_message 1 1, sample_message 2 2, sample_message 3 5]"

definition sample_logs :: "jstr \<Rightarrow> chat_message list" where
  "sample_logs c = (if c = [99] then sample_log else [])"

lemma sample_logs_ok: "log_ok c (sample_logs c)"
  by (simp add: log_ok_def sorted_log_def sample_logs_def sample_log_def)

definition two_pages :: fetch_options where
  "two_pages = \<lparr>fo_fromSequence = None, fo_limit = Some 1, fo_maxPages = Some 2\<rparr>"

definition sample_engine :: "(jstr \<times> jstr) list sync_state" where
  "sample_engine = newSyncEngine memory_storage None None"

lemma lastSequence_sample_engine [simp]: "lastSequence sample_engine c = 0"
  by (simp add: sample_engine_def newSyncEngine_def load_def lastSequence_def)

lemmas sync_eval = fetchFrom_def enqueue_def start_task_def resume_task_def fetch_page_def suspend_def
  finish_fetch_def settle_def track_def persist_def out_def Let_def lastSequence_def two_pages_def
  server_page_def newSyncEngine_def load_def sample_engine_def sample_logs_def sample_log_def

theorem exactly_once_in_order_witness:
  "\<exists>st. lreach (sync_step memory_storage) (clean [99]) (sample_engine, sample_logs) (st, sample_logs) \<and>
     lastSequence st [99] = 2 \<and> emitted st [99] = [sample_message 1 1, sample_message 2 2] \<and> distinct (emitted st [99])"
proof -
  let ?q = "server_page (take 3 (sample_logs [99]))"
  let ?s1 = "fetchFrom [99] two_pages sample_engine"
  let ?s2 = "start_task memory_storage 0 ?s1"
  let ?s3 = "resume_task memory_storage 0 (Inr (?q 0 1)) ?s2"
  let ?s4 = "resume_task memory_storage 0 (Inr (?q 1 1)) ?s3"
  let ?reach = "lreach (sync_step memory_storage) (clean [99]) (sample_engine, sample_logs)"
  have c: "ch_conversation (chains ?s2 ! 0) = [99]" "ch_conversation (chains ?s3 ! 0) = [99]"
    "length (chains ?s1) = 1" "length (chains ?s2) = 1" "length (chains ?s3) = 1"
    "ch_running (chains ?s2 ! 0) = Some (Fetching 1 0 2 0 [])"
    "ch_running (chains ?s3 ! 0) = Some (Fetching 1 1 2 1 [sample_message 1 1])"
    by (simp_all add: sync_eval)
  have "?reach (?s1, sample_logs)"
    by (rule lreach.more [OF lreach.start, where l = "History [99] two_pages"])
       (simp_all add: two_pages_def step_history)
  then have "?reach (?s2, sample_logs)"
    by (rule lreach.more [where l = "Start 0"]) (simp_all add: c step_start)
  then have "?reach (?s3, sample_logs)"
    by (rule lreach.more [where l = "Answer 0 3"])
       (use step_answer [of 0 ?s2 "Fetching 1 0 2 0 []" 0 1 memory_storage 3 sample_logs] c in simp_all)
  then have reach: "?reach (?s4, sample_logs)"
    by (rule lreach.more [where l = "Answer 0 3"])
       (use step_answer [of 0 ?s3 "Fetching 1 1 2 1 [sample_message 1 1]" 1 1 memory_storage 3 sample_logs] c
        in simp_all)
  have ends: "lastSequence ?s4 [99] = 2" "run_of ?s4 [99] = None"
    by (simp_all add: sync_eval run_of_def)
  have logs: "\<forall>c. log_ok c (sample_logs c)" by (simp add: sample_logs_ok)
  have start: "lastSequence sample_engine [99] \<le> upto_seq 0 (sample_logs [99])"
    by (simp add: sample_logs_def sample_log_def upto_seq_def)
  have "emitted ?s4 [99] = between (sample_logs [99]) 0 2 \<and> distinct (emitted ?s4 [99])"
    using exactly_once_in_order [OF reach [unfolded sample_engine_def] logs start [unfolded sample_engine_def],
        folded sample_engine_def]
    unfolding ends cursor_simps lastSequence_sample_engine by blast
  moreover have "between (sample_logs [99]) 0 2 = [sample_message 1 1, sample_message 2 2]"
    by (simp add: between_def sample_logs_def sample_log_def)
  ultimately show ?thesis using reach ends by metis
qed

text \<open>
C16: A fetch with a limit from 1 to 200, which is the largest page of the backend, on a free queue
and a log that does not change meanwhile, ends after at most \<open>maxPages\<close> answers, and it emits and
returns exactly the next \<open>maxPages * limit\<close> messages after its starting point, or all of them
when there are fewer.  It leaves the queue free, and the last-seen sequence at the last message
it emitted unless it was already further.
\<close>

theorem fetch_emits_next_pages:
  assumes "i < length (chains st)" "ch_running (chains st ! i) = None"
    and "ch_waiting (chains st ! i) = FetchTask o' # ts"
    and "1 \<le> fetch_limit o'" "fetch_limit o' \<le> 200" "sorted_log log" "seqs_ok st"
  shows "\<exists>got. got = take (nat (fetch_pages o') * nat (fetch_limit o'))
      (pending log (fetch_start st (ch_conversation (chains st ! i)) o')) \<and>
    (let st' = (serve sa server_page log i ^^ nat (fetch_pages o')) (start_task sa i st);
         c = ch_conversation (chains st ! i)
     in ch_running (chains st' ! i) = None \<and> ch_waiting (chains st' ! i) = ts \<and>
        last (outs st') = Fetched c got \<and> emissions (outs st') = emissions (outs st) @ got \<and>
        lastSequence st' c = max (upto_seq (fetch_start st c o') got) (lastSequence st c))"
proof -
  let ?st = "st\<lparr>chains := (chains st)[i := (chains st ! i)\<lparr>ch_waiting := ts\<rparr>]\<rparr>"
  let ?st' = "(serve sa server_page log i ^^ nat (fetch_pages o')) (start_task sa i st)"
  let ?c = "ch_conversation (chains st ! i)"
  let ?f = "fetch_start st ?c o'"
  let ?got = "take (nat (fetch_pages o') * nat (fetch_limit o')) (pending log ?f)"
  have d: "drained sa i ?f [] ?got ?st ?st'" by (rule fetch_drained [OF assms(1-6)])
  have "seqs_ok ?st" using assms(7) by (simp add: seqs_ok_def)
  have ls: "lastSeq ?st' = lastSeq (track sa ?c (upto_seq ?f ?got) ?st)"
    using d assms(1) by (simp add: drained_def Let_def)
  have "lastSequence ?st' ?c = max (upto_seq ?f ?got) (lastSequence ?st ?c)"
    using lastSequence_cong [OF ls] lastSequence_track_max [OF \<open>seqs_ok ?st\<close>] by simp
  then have "lastSequence ?st' ?c = max (upto_seq ?f ?got) (lastSequence st ?c)" by (simp add: lastSequence_def)
  then show ?thesis using d assms(1) by (simp add: drained_def Let_def)
qed

theorem fetch_emits_next_pages_witness:
  "emissions (outs ((serve memory_storage server_page sample_log 0 ^^ 2)
     (start_task memory_storage 0 (fetchFrom [99] two_pages sample_engine)))) = [sample_message 1 1, sample_message 2 2]"
proof -
  let ?st = "fetchFrom [99] two_pages sample_engine"
  have st: "0 < length (chains ?st)" "ch_running (chains ?st ! 0) = None"
    "ch_waiting (chains ?st ! 0) = FetchTask two_pages # []" "ch_conversation (chains ?st ! 0) = [99]"
    "outs ?st = []" "seqs_ok ?st"
    by (simp_all add: sync_eval seqs_ok_def)
  have o': "fetch_limit two_pages = 1" "fetch_pages two_pages = 2" "fetch_start ?st [99] two_pages = 0"
    by (simp_all add: sync_eval fetch_limit_def fetch_pages_def fetch_start_def)
  have "sorted_log sample_log" by (simp add: sorted_log_def sample_log_def)
  with fetch_emits_next_pages [OF st(1-3), of sample_log memory_storage] show ?thesis
    unfolding o' st(4,5) Let_def using st(6) by (simp add: pending_def) (simp add: sample_log_def)
qed

text \<open>
A \<open>limit\<close> above the 200 that the backend accepts ends the fetch after one answer: the backend
sends a page of 100, the page is shorter than the limit, and the messages after it are not
fetched although the page budget is not used up.
\<close>

theorem large_limit_stops_after_first_page:
  assumes "i < length (chains st)" "ch_running (chains st ! i) = None"
    and "ch_waiting (chains st ! i) = FetchTask o' # ts"
    and "200 < fetch_limit o'" "0 < fetch_pages o'"
    and "pending log (fetch_start st (ch_conversation (chains st ! i)) o') \<noteq> []"
  shows "let st' = serve sa server_page log i (start_task sa i st);
             got = take 100 (pending log (fetch_start st (ch_conversation (chains st ! i)) o'))
         in ch_running (chains st' ! i) = None \<and> last (outs st') = Fetched (ch_conversation (chains st ! i)) got \<and>
            emissions (outs st') = emissions (outs st) @ got"
proof -
  let ?p = "pending log (fetch_start st (ch_conversation (chains st ! i)) o')"
  have "server_page log (fetch_start st (ch_conversation (chains st ! i)) o') (fetch_limit o') = take 100 ?p"
    using assms(4) by (simp add: server_page_def pending_def)
  moreover have "int (length (take 100 ?p)) < fetch_limit o'" using assms(4) by simp
  ultimately show ?thesis
    using assms(1,2,5,6)
    by (simp add: start_fetch [OF assms(1-3)] fetch_page_def serve_def resume_task_def Let_def)
qed

theorem large_limit_stops_after_first_page_witness:
  "emissions (outs (serve memory_storage server_page sample_log 0 (start_task memory_storage 0
     (fetchFrom [99] \<lparr>fo_fromSequence = None, fo_limit = Some 500, fo_maxPages = None\<rparr> sample_engine)))) = sample_log"
proof -
  let ?o = "\<lparr>fo_fromSequence = None, fo_limit = Some 500, fo_maxPages = None\<rparr>"
  let ?st = "fetchFrom [99] ?o sample_engine"
  have st: "0 < length (chains ?st)" "ch_running (chains ?st ! 0) = None"
    "ch_waiting (chains ?st ! 0) = FetchTask ?o # []" "ch_conversation (chains ?st ! 0) = [99]" "outs ?st = []"
    by (simp_all add: sync_eval)
  have o': "fetch_limit ?o = 500" "fetch_pages ?o = 10" "fetch_start ?st [99] ?o = 0"
    by (simp_all add: sync_eval fetch_limit_def fetch_pages_def fetch_start_def MAX_SYNC_PAGES_def)
  have p: "pending sample_log 0 = sample_log" "take 100 sample_log = sample_log" "sample_log \<noteq> []"
    by (simp_all add: pending_def sample_log_def)
  from large_limit_stops_after_first_page [OF st(1-3), of sample_log memory_storage] show ?thesis
    unfolding o' st(4,5) p Let_def using p(3) by simp
qed

text \<open>
C34: A failure after the first page makes the engine emit messages twice: the pages already emitted
are not recorded, so that the next fetch of the conversation starts before them and hands them
to \<open>onMessages\<close> once more.
\<close>

theorem failed_page_is_emitted_again:
  assumes "i < length (chains st)" "ch_running (chains st ! i) = None"
    and "ch_waiting (chains st ! i) = [FetchTask o1, FetchTask o2]"
    and "fo_fromSequence o1 = None" "fo_fromSequence o2 = None" "1 < fetch_pages o1" "0 < fetch_pages o2"
    and "fetch_limit o1 = l" "fetch_limit o2 = l" "1 \<le> l" "l \<le> 200"
    and "int (length (pending log (lastSequence st (ch_conversation (chains st ! i))))) \<ge> l"
  shows "let page = take (nat l) (pending log (lastSequence st (ch_conversation (chains st ! i))));
             failed = resume_task sa i (Inl e) (serve sa server_page log i (start_task sa i st))
         in page \<noteq> [] \<and>
            emissions (outs (serve sa server_page log i (start_task sa i failed))) = emissions (outs st) @ page @ page"
proof -
  let ?c = "ch_conversation (chains st ! i)" and ?ls = "lastSequence st (ch_conversation (chains st ! i))"
  define pg where "pg = take (nat l) (pending log ?ls)"
  have pg: "server_page log ?ls l = pg" "length pg = nat l" "pg \<noteq> []"
    using assms(10-12) by (auto simp: pg_def server_page_def pending_def)
  let ?st1 = "serve sa server_page log i (start_task sa i st)"
  let ?st2 = "resume_task sa i (Inl e) ?st1"
  have f1: "fetch_start st ?c o1 = ?ls" using assms(4) by (simp add: fetch_start_def)
  have "\<exists>f. ch_running (chains ?st1 ! i) = Some f" "length (chains ?st1) = length (chains st)"
    "ch_waiting (chains ?st1 ! i) = [FetchTask o2]" "ch_conversation (chains ?st1 ! i) = ?c"
    "lastSeq ?st1 = lastSeq st" "emissions (outs ?st1) = emissions (outs st) @ pg"
    using assms(1,2,6,8,10) pg
    by (simp_all add: start_fetch [OF assms(1-3)] f1 fetch_page_def serve_def resume_task_def Let_def)
  then have st2: "i < length (chains ?st2)" "ch_running (chains ?st2 ! i) = None"
    "ch_waiting (chains ?st2 ! i) = [FetchTask o2]" "ch_conversation (chains ?st2 ! i) = ?c"
    "lastSeq ?st2 = lastSeq st" "emissions (outs ?st2) = emissions (outs st) @ pg"
    using assms(1) by (auto simp: resume_task_def [of _ _ "Inl e"] Let_def)
  have f2: "fetch_start ?st2 ?c o2 = ?ls"
    using assms(5) lastSequence_cong [OF st2(5)] by (simp add: fetch_start_def)
  have "emissions (outs (serve sa server_page log i (start_task sa i ?st2))) = emissions (outs ?st2) @ pg"
    using st2(1,2) assms(7,9,10) pg
    by (simp add: start_fetch [OF st2(1-3)] st2(4) f2 fetch_page_def [of _ _ _ _ _ 0] serve_def [of _ _ _ _ "suspend _ _ _ _ _"]
        resume_task_def [of _ _ "Inr _"] Let_def) (simp add: fetch_page_def)
  then show ?thesis using pg(3) st2(6) by (simp add: Let_def pg_def)
qed

theorem failed_page_is_emitted_again_witness:
  "emissions (outs (serve memory_storage server_page sample_log 0 (start_task memory_storage 0
     (resume_task memory_storage 0 (Inl (JsError (js ''timeout'')))
       (serve memory_storage server_page sample_log 0 (start_task memory_storage 0
         (fetchFrom [99] two_pages (fetchFrom [99] two_pages sample_engine)))))))) =
   [sample_message 1 1, sample_message 1 1]"
proof -
  let ?st = "fetchFrom [99] two_pages (fetchFrom [99] two_pages sample_engine)"
  have st: "0 < length (chains ?st)" "ch_running (chains ?st ! 0) = None"
    "ch_waiting (chains ?st ! 0) = [FetchTask two_pages, FetchTask two_pages]"
    "ch_conversation (chains ?st ! 0) = [99]" "outs ?st = []" "lastSequence ?st [99] = 0"
    by (simp_all add: sync_eval)
  have o': "fo_fromSequence two_pages = None" "fetch_limit two_pages = 1" "fetch_pages two_pages = 2"
    by (simp_all add: sync_eval fetch_limit_def fetch_pages_def)
  have p: "pending sample_log 0 = sample_log" "length sample_log = 3" "take (nat 1) sample_log = [sample_message 1 1]"
    by (simp_all add: pending_def sample_log_def)
  from failed_page_is_emitted_again [OF st(1-3) o'(1,1) _ _ o'(2,2), of sample_log memory_storage] show ?thesis
    unfolding o' st(4,5,6) p Let_def by simp
qed

text \<open>
C27: A moderation event for a tracked conversation replaces the local copy: once the queued reload
has its answer, the handler gets the log's current version of that very message.
\<close>

theorem moderated_message_is_replaced:
  assumes "isTracked st (ev_conversation_id ev)" "chains_ok (ev_conversation_id ev) st" "run_of st (ev_conversation_id ev) = None"
    and "\<forall>i < length (chains st). ch_waiting (chains st ! i) = []"
    and "ev_message_id ev = Some (msg_id m)" "ev_sequence ev = Some (msg_sequence m)"
    and "m \<in> set log" "sorted_log log"
  shows "\<exists>i. let st1 = start_task sa i (handleMessageModeratedEvent ev st)
    in ch_running (chains st1 ! i) = Some (Reloading ev True) \<and>
       last (outs st1) = ListMessages (ev_conversation_id ev) (msg_sequence m - 1) 10 \<and>
       last (outs (resume_task sa i (Inr (server_page log (msg_sequence m - 1) 10)) st1)) = OnMessageUpdated m"
proof -
  let ?c = "ev_conversation_id ev"
  define i where "i = (case map_of (queues st) ?c of Some i \<Rightarrow> i | None \<Rightarrow> length (chains st))"
  have queue: "i < length (chains (handleMessageModeratedEvent ev st))"
    "ch_running (chains (handleMessageModeratedEvent ev st) ! i) = None"
    "ch_waiting (chains (handleMessageModeratedEvent ev st) ! i) = [ReloadTask ev True]"
    "ch_conversation (chains (handleMessageModeratedEvent ev st) ! i) = ?c"
    using assms(1,3,4) chains_okD(1,2) [OF assms(2), of ?c]
    by (auto simp: i_def handleMessageModeratedEvent_def reloadMessage_def enqueue_def run_of_def
        split: option.splits)
  define p where "p = filter (\<lambda>x. msg_sequence m - 1 < msg_sequence x) log"
  have "sorted_wrt (\<lambda>x y. msg_sequence x < msg_sequence y) p" "m \<in> set p"
    using assms(7,8) by (auto simp: p_def sorted_log_def sorted_wrt_filter)
  moreover have "\<forall>x \<in> set p. msg_sequence m \<le> msg_sequence x" by (auto simp: p_def)
  ultimately obtain ps where p: "p = m # ps" by (cases p) force+
  then have page: "server_page log (msg_sequence m - 1) 10 = m # take 9 ps"
    by (simp add: server_page_def p_def [symmetric] take_Cons')
  show ?thesis using queue assms(5,6)
    by (intro exI [of _ i]) (simp add: Let_def start_task_def resume_task_def page)
qed

definition sample_moderation :: gateway_event where
  "sample_moderation = \<lparr>ev_event_id = [49], ev_event = js ''message.moderated'', ev_message_id = Some [2],
     ev_conversation_id = [99], ev_sequence = Some 2, ev_added_user_uuids = None, ev_removed_user_uuid = None,
     ev_targets = None\<rparr>"

theorem moderated_message_is_replaced_witness:
  "\<exists>i. last (outs (resume_task memory_storage i (Inr (server_page sample_log 1 10))
     (start_task memory_storage i (handleMessageModeratedEvent sample_moderation
       (track memory_storage [99] 5 sample_engine))))) = OnMessageUpdated (sample_message 2 2)"
proof -
  let ?st = "track memory_storage [99] 5 sample_engine"
  have st: "isTracked ?st (ev_conversation_id sample_moderation)" "chains_ok (ev_conversation_id sample_moderation) ?st"
    "run_of ?st (ev_conversation_id sample_moderation) = None"
    "\<forall>i < length (chains ?st). ch_waiting (chains ?st ! i) = []"
    by (simp_all add: isTracked_track sample_moderation_def chains_ok_def run_of_def sample_engine_def newSyncEngine_frame)
  have ev: "ev_message_id sample_moderation = Some (msg_id (sample_message 2 2))"
    "ev_sequence sample_moderation = Some (msg_sequence (sample_message 2 2))"
    "sample_message 2 2 \<in> set sample_log" "sorted_log sample_log"
    by (simp_all add: sample_moderation_def sample_log_def sorted_log_def)
  show ?thesis using moderated_message_is_replaced [OF st ev, of memory_storage] by (simp add: Let_def) blast
qed

end
