(* ===== verification/Gateway.thy ===== *)
theory Gateway
  imports Types
begin

text \<open>
  The WebSocket client \<open>GatewaySocket\<close> of \<open>sdk/ts/src/gateway.ts\<close>, with the timers of
  \<open>timers.ts\<close>.

  The object's fields are a record; each method and each socket handler is a function on it.  What
  a method does to the outside (opening, closing and writing sockets, timers, callbacks) is
  recorded in \<open>g_effects\<close>.  The record also keeps what the runtime holds for the object: the
  sockets whose close event is still to come, the running timers, and the number of credential
  refreshes that have not answered.  Sockets and timers are numbered from 1, so that a handle is
  truthy.  \<open>gw_step\<close> has a step for every call of the owner and every event of the runtime, in any
  order; callbacks do not call back into the object.
\<close>

datatype gateway_effect =
    OpenSocket nat jstr
  | SendFrame nat jstr
  | CloseSocket nat
  | OnStatus connection_status
  | OnReady
  | OnEvent json
  | OnError jstr
  | SetTimeout nat int
  | SetInterval nat int
  | ClearTimeout nat
  | ClearInterval nat
  | GetCredential

record gateway =
  g_url :: jstr
  g_credential :: jstr
  g_pingIntervalMs :: int
  g_getCredential :: bool
  g_socket :: "nat option"
  seenEventIds :: "json list"
  reconnectDelayMs :: int
  closedByUser :: bool
  authenticated :: bool
  authRejected :: bool
  refreshedFor :: "jstr option"
  pingTimer :: "nat option"
  reconnectTimer :: "nat option"
  g_next :: nat
  g_sockets :: "nat list"
  g_opened :: "nat list"
  g_timeouts :: "nat list"
  g_intervals :: "nat list"
  g_refreshing :: nat
  g_effects :: "gateway_effect list"

definition MAX_SEEN_EVENTS :: nat where
  "MAX_SEEN_EVENTS = 10000"

definition MAX_RECONNECT_DELAY_MS :: int where
  "MAX_RECONNECT_DELAY_MS = 10000"

definition newGatewaySocket :: "jstr \<Rightarrow> jstr \<Rightarrow> int option \<Rightarrow> bool \<Rightarrow> gateway" where
  "newGatewaySocket wsUrl cred pingIntervalMs getCredential =
     \<lparr>g_url = trim_end_slashes wsUrl, g_credential = cred,
      g_pingIntervalMs = (case pingIntervalMs of Some p \<Rightarrow> p | None \<Rightarrow> 25000),
      g_getCredential = getCredential, g_socket = None, seenEventIds = [], reconnectDelayMs = 500,
      closedByUser = False, authenticated = False, authRejected = False, refreshedFor = None,
      pingTimer = None, reconnectTimer = None, g_next = 1, g_sockets = [], g_opened = [],
      g_timeouts = [], g_intervals = [], g_refreshing = 0, g_effects = []\<rparr>"

definition effect :: "gateway_effect \<Rightarrow> gateway \<Rightarrow> gateway" where
  "effect x g = g\<lparr>g_effects := g_effects g @ [x]\<rparr>"

definition gw_setCredential :: "jstr \<Rightarrow> gateway \<Rightarrow> gateway" where
  "gw_setCredential cred g = g\<lparr>g_credential := cred\<rparr>"

definition setWsUrl :: "jstr \<Rightarrow> gateway \<Rightarrow> gateway" where
  "setWsUrl wsUrl g = g\<lparr>g_url := trim_end_slashes wsUrl\<rparr>"

definition gw_isOnline :: "gateway \<Rightarrow> bool" where
  "gw_isOnline g = authenticated g"

definition setStatus :: "connection_status \<Rightarrow> gateway \<Rightarrow> gateway" where
  "setStatus s g = effect (OnStatus s) g"

section \<open>Timers\<close>

definition setTimeout :: "int \<Rightarrow> gateway \<Rightarrow> nat \<times> gateway" where
  "setTimeout delay g =
     (g_next g, effect (SetTimeout (g_next g) delay)
        (g\<lparr>g_next := Suc (g_next g), g_timeouts := g_timeouts g @ [g_next g]\<rparr>))"

definition setInterval :: "int \<Rightarrow> gateway \<Rightarrow> nat \<times> gateway" where
  "setInterval period g =
     (g_next g, effect (SetInterval (g_next g) period)
        (g\<lparr>g_next := Suc (g_next g), g_intervals := g_intervals g @ [g_next g]\<rparr>))"

definition clearTimeout :: "nat \<Rightarrow> gateway \<Rightarrow> gateway" where
  "clearTimeout t g = effect (ClearTimeout t) (g\<lparr>g_timeouts := set_delete t (g_timeouts g)\<rparr>)"

definition clearInterval :: "nat \<Rightarrow> gateway \<Rightarrow> gateway" where
  "clearInterval t g = effect (ClearInterval t) (g\<lparr>g_intervals := set_delete t (g_intervals g)\<rparr>)"

definition stopPing :: "gateway \<Rightarrow> gateway" where
  "stopPing g =
     (case pingTimer g of Some t \<Rightarrow> clearInterval t g | None \<Rightarrow> g)\<lparr>pingTimer := None\<rparr>"

definition clearTimers :: "gateway \<Rightarrow> gateway" where
  "clearTimers g =
     (let g1 = stopPing g
      in (case reconnectTimer g1 of Some t \<Rightarrow> clearTimeout t g1 | None \<Rightarrow> g1)\<lparr>reconnectTimer := None\<rparr>)"

definition startPing :: "gateway \<Rightarrow> gateway" where
  "startPing g =
     (let g1 = stopPing g
      in if g_pingIntervalMs g1 \<le> 0 then g1
         else let (t, g2) = setInterval (g_pingIntervalMs g1) g1 in g2\<lparr>pingTimer := Some t\<rparr>)"

definition scheduleReconnect :: "gateway \<Rightarrow> gateway" where
  "scheduleReconnect g =
     (let delay = reconnectDelayMs g;
          g1 = g\<lparr>reconnectDelayMs := min (reconnectDelayMs g * 2) MAX_RECONNECT_DELAY_MS\<rparr>;
          (t, g2) = setTimeout delay g1
      in g2\<lparr>reconnectTimer := Some t\<rparr>)"

section \<open>Connecting and closing\<close>

text \<open>\<open>thrown\<close> is the error of the socket factory, when it throws.\<close>

definition gw_open :: "exn option \<Rightarrow> gateway \<Rightarrow> exn option \<times> gateway" where
  "gw_open thrown g =
     (let g1 = setStatus (if reconnectDelayMs g > 500 then Reconnecting else Connecting)
                 (g\<lparr>authenticated := False, authRejected := False\<rparr>)
      in case thrown of
           Some e \<Rightarrow> (Some e, setStatus Offline g1)
         | None \<Rightarrow>
             (None, effect (OpenSocket (g_next g1) (g_url g1 @ js ''/ws''))
                (g1\<lparr>g_socket := Some (g_next g1), g_next := Suc (g_next g1),
                    g_sockets := g_sockets g1 @ [g_next g1]\<rparr>)))"

definition gw_connect :: "exn option \<Rightarrow> gateway \<Rightarrow> exn option \<times> gateway" where
  "gw_connect thrown g =
     (if g_socket g \<noteq> None then (None, g)
      else gw_open thrown (g\<lparr>closedByUser := False, refreshedFor := None\<rparr>))"

definition gw_close :: "gateway \<Rightarrow> gateway" where
  "gw_close g =
     (let g1 = clearTimers (g\<lparr>closedByUser := True\<rparr>);
          g2 = (case g_socket g1 of Some k \<Rightarrow> effect (CloseSocket k) g1 | None \<Rightarrow> g1)
      in setStatus Closed (g2\<lparr>g_socket := None, authenticated := False\<rparr>))"

section \<open>The handlers of socket \<open>k\<close>\<close>

definition auth_frame :: "jstr \<Rightarrow> jstr" where
  "auth_frame cred = stringify (JObj [(js ''cmd'', JStr (js ''auth'')), (js ''opts'', JArr [JStr cred])])"

definition ping_frame :: jstr where
  "ping_frame = stringify (JObj [(js ''cmd'', JStr (js ''ping''))])"

definition onOpen :: "nat \<Rightarrow> gateway \<Rightarrow> gateway" where
  "onOpen k g =
     effect (SendFrame k (auth_frame (g_credential g)))
       (setStatus Authenticating (g\<lparr>g_opened := g_opened g @ [k]\<rparr>))"

text \<open>A JavaScript \<open>Set\<close> finds a string or a number again, never a freshly parsed object.\<close>

fun is_ref :: "json \<Rightarrow> bool" where
  "is_ref (JArr _) = True"
| "is_ref (JObj _) = True"
| "is_ref _ = False"

definition seen_has :: "json \<Rightarrow> json list \<Rightarrow> bool" where
  "seen_has v ids \<longleftrightarrow> \<not> is_ref v \<and> v \<in> set ids"

definition onAuthReply :: "jstr \<Rightarrow> json \<Rightarrow> gateway \<Rightarrow> gateway" where
  "onAuthReply text frame g =
     (if jget (js ''code'') frame = Some (JNum 0) then
        effect OnReady (startPing (setStatus Online (g\<lparr>authenticated := True, reconnectDelayMs := 500\<rparr>)))
      else
        effect (OnError (js ''gateway auth failed: '' @
            (case jget (js ''message'') frame of
               None \<Rightarrow> text
             | Some JNull \<Rightarrow> text
             | Some v \<Rightarrow> js_String v)))
          (g\<lparr>authRejected := True\<rparr>))"

definition onEventFrame :: "json \<Rightarrow> gateway \<Rightarrow> gateway" where
  "onEventFrame frame g =
     (if jget (js ''cmd'') frame \<noteq> None \<and> jget (js ''event'') frame = None then g
      else case jget (js ''event_id'') frame of
             None \<Rightarrow> g
           | Some event_id \<Rightarrow>
               if \<not> truthy event_id then g
               else if seen_has event_id (seenEventIds g) then g
               else
                 let ids = (if length (seenEventIds g) \<ge> MAX_SEEN_EVENTS then [] else seenEventIds g)
                 in effect (OnEvent frame) (g\<lparr>seenEventIds := ids @ [event_id]\<rparr>))"

text \<open>The first component is the \<open>TypeError\<close> of a property read on \<open>null\<close>.\<close>

definition onMessage :: "jstr \<Rightarrow> gateway \<Rightarrow> exn option \<times> gateway" where
  "onMessage text g =
     (case parse text of
        None \<Rightarrow> (None, g)
      | Some frame \<Rightarrow>
          if frame = JNull then (Some (JsError (js ''Cannot read properties of null'')), g)
          else if \<not> authenticated g then (None, onAuthReply text frame g)
          else (None, onEventFrame frame g))"

definition onClose :: "nat \<Rightarrow> gateway \<Rightarrow> gateway" where
  "onClose k g =
     (let g1 = (stopPing (g\<lparr>g_sockets := set_delete k (g_sockets g)\<rparr>))\<lparr>authenticated := False, g_socket := None\<rparr>
      in if closedByUser g1 then setStatus Closed g1
         else if authRejected g1 then
           let g2 = g1\<lparr>authRejected := False\<rparr>
           in if g_getCredential g2 \<and> refreshedFor g2 \<noteq> Some (g_credential g2)
              then effect GetCredential
                     (g2\<lparr>refreshedFor := Some (g_credential g2), g_refreshing := Suc (g_refreshing g2)\<rparr>)
              else setStatus Offline g2
         else scheduleReconnect (setStatus Reconnecting g1))"

text \<open>The rest of \<open>refreshCredential\<close>, once \<open>getCredential\<close> has answered.\<close>

definition refreshCredential :: "exn + jstr \<Rightarrow> gateway \<Rightarrow> gateway" where
  "refreshCredential answer g =
     (let g1 = g\<lparr>g_refreshing := g_refreshing g - 1\<rparr>;
          g2 = (case answer of
                  Inr fresh \<Rightarrow>
                    if fresh \<noteq> [] \<and> fresh \<noteq> g_credential g1
                    then g1\<lparr>g_credential := fresh, refreshedFor := None\<rparr>
                    else g1
                | Inl e \<Rightarrow> effect (OnError (js ''credential refresh failed: '' @ exn_message e)) g1)
      in scheduleReconnect (setStatus Reconnecting g2))"

definition onReconnectTimer :: "nat \<Rightarrow> exn option \<Rightarrow> gateway \<Rightarrow> exn option \<times> gateway" where
  "onReconnectTimer t thrown g =
     (let g1 = g\<lparr>g_timeouts := set_delete t (g_timeouts g), reconnectTimer := None\<rparr>
      in if \<not> closedByUser g1 \<and> g_socket g1 = None then gw_open thrown g1 else (None, g1))"

definition onPingTimer :: "gateway \<Rightarrow> gateway" where
  "onPingTimer g =
     (case g_socket g of
        Some k \<Rightarrow> if authenticated g then effect (SendFrame k ping_frame) g else g
      | None \<Rightarrow> g)"

section \<open>The runtime\<close>

text \<open>
  The flag of \<open>Connect\<close> marks a \<open>connect\<close> while a closed socket has not reported its close event,
  that of \<open>Refreshed\<close> a credential refresh that answers after a \<open>close\<close> or a new \<open>connect\<close>, and
  that of \<open>SocketMessage\<close> a frame after the gateway has rejected the credential (it closes then).  A
  WebSocket on which \<open>close\<close> was called still reports its close event, but no open and no message.
\<close>

datatype gateway_label =
    Connect bool "exn option"
  | UserClose
  | SetCredential jstr
  | SocketOpen nat
  | SocketMessage bool nat jstr
  | SocketClose nat
  | Refreshed bool "exn + jstr"
  | ReconnectTimer nat "exn option"
  | PingTimer nat

inductive gw_step :: "gateway_label \<Rightarrow> gateway \<Rightarrow> gateway \<Rightarrow> bool" where
  gw_connect: "gw_step (Connect (g_socket g = None \<and> g_sockets g \<noteq> []) ex) g (snd (gw_connect ex g))"
| gw_user_close: "gw_step UserClose g (gw_close g)"
| gw_set_credential: "gw_step (SetCredential c) g (gw_setCredential c g)"
| gw_socket_open: "k \<in> set (g_sockets g) \<Longrightarrow> k \<notin> set (g_opened g) \<Longrightarrow> CloseSocket k \<notin> set (g_effects g) \<Longrightarrow>
    gw_step (SocketOpen k) g (onOpen k g)"
| gw_socket_message: "k \<in> set (g_sockets g) \<Longrightarrow> k \<in> set (g_opened g) \<Longrightarrow> CloseSocket k \<notin> set (g_effects g) \<Longrightarrow>
    gw_step (SocketMessage (authRejected g) k raw) g (snd (onMessage raw g))"
| gw_socket_close: "k \<in> set (g_sockets g) \<Longrightarrow> gw_step (SocketClose k) g (onClose k g)"
| gw_refreshed: "0 < g_refreshing g \<Longrightarrow>
    gw_step (Refreshed (closedByUser g \<or> g_socket g \<noteq> None) answer) g (refreshCredential answer g)"
| gw_reconnect_timer: "t \<in> set (g_timeouts g) \<Longrightarrow> gw_step (ReconnectTimer t ex) g (snd (onReconnectTimer t ex g))"
| gw_ping_timer: "t \<in> set (g_intervals g) \<Longrightarrow> gw_step (PingTimer t) g (onPingTimer g)"

inductive_cases gw_step_cases: "gw_step l g g'"
inductive_simps gw_step_close_simp: "gw_step (SocketClose k) g g'"

text \<open>Runs in which at most one socket is alive.\<close>

fun orderly :: "gateway_label \<Rightarrow> bool" where
  "orderly (Connect stale ex) = (\<not> stale)"
| "orderly (SocketMessage rejected k raw) = (\<not> rejected)"
| "orderly (Refreshed late answer) = (\<not> late)"
| "orderly _ = True"

section \<open>Laws\<close>

lemmas gw_defs = effect_def gw_setCredential_def setStatus_def setTimeout_def setInterval_def clearTimeout_def
  clearInterval_def stopPing_def clearTimers_def startPing_def scheduleReconnect_def gw_open_def gw_connect_def
  gw_close_def onOpen_def onAuthReply_def onEventFrame_def onMessage_def onClose_def refreshCredential_def
  onReconnectTimer_def onPingTimer_def Let_def split_def

lemma effect_sel [simp]:
  "g_url (effect x g) = g_url g" "g_credential (effect x g) = g_credential g"
  "g_pingIntervalMs (effect x g) = g_pingIntervalMs g" "g_getCredential (effect x g) = g_getCredential g"
  "g_socket (effect x g) = g_socket g" "seenEventIds (effect x g) = seenEventIds g"
  "reconnectDelayMs (effect x g) = reconnectDelayMs g" "closedByUser (effect x g) = closedByUser g"
  "authenticated (effect x g) = authenticated g" "authRejected (effect x g) = authRejected g"
  "refreshedFor (effect x g) = refreshedFor g" "pingTimer (effect x g) = pingTimer g"
  "reconnectTimer (effect x g) = reconnectTimer g" "g_next (effect x g) = g_next g"
  "g_sockets (effect x g) = g_sockets g" "g_opened (effect x g) = g_opened g"
  "g_timeouts (effect x g) = g_timeouts g" "g_intervals (effect x g) = g_intervals g"
  "g_refreshing (effect x g) = g_refreshing g" "g_effects (effect x g) = g_effects g @ [x]"
  by (simp_all add: gw_defs split: option.split)

lemma setStatus_sel [simp]:
  "g_url (setStatus s g) = g_url g" "g_credential (setStatus s g) = g_credential g"
  "g_pingIntervalMs (setStatus s g) = g_pingIntervalMs g"
  "g_getCredential (setStatus s g) = g_getCredential g" "g_socket (setStatus s g) = g_socket g"
  "seenEventIds (setStatus s g) = seenEventIds g" "reconnectDelayMs (setStatus s g) = reconnectDelayMs g"
  "closedByUser (setStatus s g) = closedByUser g" "authenticated (setStatus s g) = authenticated g"
  "authRejected (setStatus s g) = authRejected g" "refreshedFor (setStatus s g) = refreshedFor g"
  "pingTimer (setStatus s g) = pingTimer g" "reconnectTimer (setStatus s g) = reconnectTimer g"
  "g_next (setStatus s g) = g_next g" "g_sockets (setStatus s g) = g_sockets g"
  "g_opened (setStatus s g) = g_opened g" "g_timeouts (setStatus s g) = g_timeouts g"
  "g_intervals (setStatus s g) = g_intervals g" "g_refreshing (setStatus s g) = g_refreshing g"
  "g_effects (setStatus s g) = g_effects g @ [OnStatus s]"
  by (simp_all add: gw_defs split: option.split)

lemma clearTimeout_sel [simp]:
  "g_url (clearTimeout t g) = g_url g" "g_credential (clearTimeout t g) = g_credential g"
  "g_pingIntervalMs (clearTimeout t g) = g_pingIntervalMs g"
  "g_getCredential (clearTimeout t g) = g_getCredential g" "g_socket (clearTimeout t g) = g_socket g"
  "seenEventIds (clearTimeout t g) = seenEventIds g"
  "reconnectDelayMs (clearTimeout t g) = reconnectDelayMs g"
  "closedByUser (clearTimeout t g) = closedByUser g" "authenticated (clearTimeout t g) = authenticated g"
  "authRejected (clearTimeout t g) = authRejected g" "refreshedFor (clearTimeout t g) = refreshedFor g"
  "pingTimer (clearTimeout t g) = pingTimer g" "reconnectTimer (clearTimeout t g) = reconnectTimer g"
  "g_next (clearTimeout t g) = g_next g" "g_sockets (clearTimeout t g) = g_sockets g"
  "g_opened (clearTimeout t g) = g_opened g"
  "g_timeouts (clearTimeout t g) = set_delete t (g_timeouts g)"
  "g_intervals (clearTimeout t g) = g_intervals g" "g_refreshing (clearTimeout t g) = g_refreshing g"
  "g_effects (clearTimeout t g) = g_effects g @ [ClearTimeout t]"
  by (simp_all add: gw_defs split: option.split)

lemma clearInterval_sel [simp]:
  "g_url (clearInterval t g) = g_url g" "g_credential (clearInterval t g) = g_credential g"
  "g_pingIntervalMs (clearInterval t g) = g_pingIntervalMs g"
  "g_getCredential (clearInterval t g) = g_getCredential g" "g_socket (clearInterval t g) = g_socket g"
  "seenEventIds (clearInterval t g) = seenEventIds g"
  "reconnectDelayMs (clearInterval t g) = reconnectDelayMs g"
  "closedByUser (clearInterval t g) = closedByUser g" "authenticated (clearInterval t g) = authenticated g"
  "authRejected (clearInterval t g) = authRejected g" "refreshedFor (clearInterval t g) = refreshedFor g"
  "pingTimer (clearInterval t g) = pingTimer g" "reconnectTimer (clearInterval t g) = reconnectTimer g"
  "g_next (clearInterval t g) = g_next g" "g_sockets (clearInterval t g) = g_sockets g"
  "g_opened (clearInterval t g) = g_opened g" "g_timeouts (clearInterval t g) = g_timeouts g"
  "g_intervals (clearInterval t g) = set_delete t (g_intervals g)"
  "g_refreshing (clearInterval t g) = g_refreshing g"
  "g_effects (clearInterval t g) = g_effects g @ [ClearInterval t]"
  by (simp_all add: gw_defs split: option.split)

lemma stopPing_sel [simp]:
  "g_url (stopPing g) = g_url g" "g_credential (stopPing g) = g_credential g"
  "g_pingIntervalMs (stopPing g) = g_pingIntervalMs g" "g_getCredential (stopPing g) = g_getCredential g"
  "g_socket (stopPing g) = g_socket g" "seenEventIds (stopPing g) = seenEventIds g"
  "reconnectDelayMs (stopPing g) = reconnectDelayMs g" "closedByUser (stopPing g) = closedByUser g"
  "authenticated (stopPing g) = authenticated g" "authRejected (stopPing g) = authRejected g"
  "refreshedFor (stopPing g) = refreshedFor g" "pingTimer (stopPing g) = None"
  "reconnectTimer (stopPing g) = reconnectTimer g" "g_next (stopPing g) = g_next g"
  "g_sockets (stopPing g) = g_sockets g" "g_opened (stopPing g) = g_opened g"
  "g_timeouts (stopPing g) = g_timeouts g"
  "g_intervals (stopPing g) = (case pingTimer g of Some t \<Rightarrow> set_delete t (g_intervals g) | None \<Rightarrow> g_intervals g)"
  "g_refreshing (stopPing g) = g_refreshing g"
  "g_effects (stopPing g) = g_effects g @ (case pingTimer g of Some t \<Rightarrow> [ClearInterval t] | None \<Rightarrow> [])"
  by (simp_all add: gw_defs split: option.split)

lemma clearTimers_sel [simp]:
  "g_url (clearTimers g) = g_url g" "g_credential (clearTimers g) = g_credential g"
  "g_pingIntervalMs (clearTimers g) = g_pingIntervalMs g"
  "g_getCredential (clearTimers g) = g_getCredential g" "g_socket (clearTimers g) = g_socket g"
  "seenEventIds (clearTimers g) = seenEventIds g" "reconnectDelayMs (clearTimers g) = reconnectDelayMs g"
  "closedByUser (clearTimers g) = closedByUser g" "authenticated (clearTimers g) = authenticated g"
  "authRejected (clearTimers g) = authRejected g" "refreshedFor (clearTimers g) = refreshedFor g"
  "pingTimer (clearTimers g) = None" "reconnectTimer (clearTimers g) = None"
  "g_next (clearTimers g) = g_next g" "g_sockets (clearTimers g) = g_sockets g"
  "g_opened (clearTimers g) = g_opened g"
  "g_timeouts (clearTimers g) = (case reconnectTimer g of Some t \<Rightarrow> set_delete t (g_timeouts g) | None \<Rightarrow> g_timeouts g)"
  "g_refreshing (clearTimers g) = g_refreshing g"
  "g_effects (clearTimers g) = g_effects g @ (case pingTimer g of Some t \<Rightarrow> [ClearInterval t] | None \<Rightarrow> []) @ (case reconnectTimer g of Some t \<Rightarrow> [ClearTimeout t] | None \<Rightarrow> [])"
  by (simp_all add: gw_defs split: option.split)

lemma startPing_sel [simp]:
  "g_url (startPing g) = g_url g" "g_credential (startPing g) = g_credential g"
  "g_pingIntervalMs (startPing g) = g_pingIntervalMs g" "g_getCredential (startPing g) = g_getCredential g"
  "g_socket (startPing g) = g_socket g" "seenEventIds (startPing g) = seenEventIds g"
  "reconnectDelayMs (startPing g) = reconnectDelayMs g" "closedByUser (startPing g) = closedByUser g"
  "authenticated (startPing g) = authenticated g" "authRejected (startPing g) = authRejected g"
  "refreshedFor (startPing g) = refreshedFor g" "reconnectTimer (startPing g) = reconnectTimer g"
  "g_next (startPing g) = (if g_pingIntervalMs g \<le> 0 then g_next g else Suc (g_next g))"
  "g_sockets (startPing g) = g_sockets g" "g_opened (startPing g) = g_opened g"
  "g_timeouts (startPing g) = g_timeouts g" "g_refreshing (startPing g) = g_refreshing g"
  "g_effects (startPing g) = g_effects g @ (case pingTimer g of Some t \<Rightarrow> [ClearInterval t] | None \<Rightarrow> []) @ (if g_pingIntervalMs g \<le> 0 then [] else [SetInterval (g_next g) (g_pingIntervalMs g)])"
  by (simp_all add: gw_defs split: option.split)

lemma scheduleReconnect_sel [simp]:
  "g_url (scheduleReconnect g) = g_url g" "g_credential (scheduleReconnect g) = g_credential g"
  "g_pingIntervalMs (scheduleReconnect g) = g_pingIntervalMs g"
  "g_getCredential (scheduleReconnect g) = g_getCredential g" "g_socket (scheduleReconnect g) = g_socket g"
  "seenEventIds (scheduleReconnect g) = seenEventIds g"
  "reconnectDelayMs (scheduleReconnect g) = min (reconnectDelayMs g * 2) MAX_RECONNECT_DELAY_MS"
  "closedByUser (scheduleReconnect g) = closedByUser g"
  "authenticated (scheduleReconnect g) = authenticated g"
  "authRejected (scheduleReconnect g) = authRejected g" "refreshedFor (scheduleReconnect g) = refreshedFor g"
  "pingTimer (scheduleReconnect g) = pingTimer g" "reconnectTimer (scheduleReconnect g) = Some (g_next g)"
  "g_next (scheduleReconnect g) = Suc (g_next g)" "g_sockets (scheduleReconnect g) = g_sockets g"
  "g_opened (scheduleReconnect g) = g_opened g"
  "g_timeouts (scheduleReconnect g) = g_timeouts g @ [g_next g]"
  "g_intervals (scheduleReconnect g) = g_intervals g" "g_refreshing (scheduleReconnect g) = g_refreshing g"
  "g_effects (scheduleReconnect g) = g_effects g @ [SetTimeout (g_next g) (reconnectDelayMs g)]"
  by (simp_all add: gw_defs split: option.split)


subsection \<open>Back-off\<close>

definition backoff_ok :: "gateway \<Rightarrow> bool" where
  "backoff_ok g \<longleftrightarrow> 500 \<le> reconnectDelayMs g \<and> reconnectDelayMs g \<le> MAX_RECONNECT_DELAY_MS \<and>
     (\<forall>t d. SetTimeout t d \<in> set (g_effects g) \<longrightarrow> 500 \<le> d \<and> d \<le> MAX_RECONNECT_DELAY_MS)"

lemmas gw_ops = gw_setCredential_def gw_open_def gw_connect_def gw_close_def onOpen_def onAuthReply_def
  onEventFrame_def onMessage_def onClose_def refreshCredential_def onReconnectTimer_def onPingTimer_def Let_def

lemma backoff_schedule: "backoff_ok g \<Longrightarrow> backoff_ok (scheduleReconnect g)"
  by (auto simp: backoff_ok_def MAX_RECONNECT_DELAY_MS_def)

lemma backoff_cong:
  "reconnectDelayMs g = reconnectDelayMs h \<or> reconnectDelayMs g = 500 \<Longrightarrow> 
   \<forall>t d. SetTimeout t d \<in> set (g_effects g) \<longrightarrow> SetTimeout t d \<in> set (g_effects h) \<Longrightarrow>
   backoff_ok h \<Longrightarrow> backoff_ok g"
  by (auto simp: backoff_ok_def MAX_RECONNECT_DELAY_MS_def)

lemma backoff_open: "backoff_ok g \<Longrightarrow> backoff_ok (snd (gw_open ex g))"
  by (rule backoff_cong) (auto simp: gw_open_def Let_def split: option.split)

lemma backoff_step: "gw_step l g g' \<Longrightarrow> backoff_ok g \<Longrightarrow> backoff_ok g'"
proof (induction rule: gw_step.induct)
  case (gw_connect g ex)
  have "backoff_ok (g\<lparr>closedByUser := False, refreshedFor := None\<rparr>)"
    using gw_connect by (simp add: backoff_ok_def)
  then show ?case using gw_connect backoff_open by (simp add: gw_connect_def)
next
  case (gw_user_close g)
  show ?case by (rule backoff_cong [OF _ _ gw_user_close]) (auto simp: gw_close_def Let_def split: option.split)
next
  case (gw_socket_message k g raw)
  show ?case
    by (rule backoff_cong [OF _ _ gw_socket_message(4)])
       (auto simp: onMessage_def onAuthReply_def onEventFrame_def Let_def split: option.split json.split)
next
  case (gw_socket_close k g)
  let ?g = "(stopPing (g\<lparr>g_sockets := set_delete k (g_sockets g)\<rparr>))\<lparr>authenticated := False, g_socket := None\<rparr>"
  have "backoff_ok (setStatus Reconnecting ?g)"
    by (rule backoff_cong [OF _ _ gw_socket_close(2)]) (auto split: option.split)
  then have "backoff_ok (scheduleReconnect (setStatus Reconnecting ?g))" by (rule backoff_schedule)
  then show ?case
    by (auto simp: onClose_def Let_def intro!: backoff_cong [OF _ _ gw_socket_close(2)] split: option.split)
next
  case (gw_refreshed g answer)
  show ?case unfolding refreshCredential_def Let_def
    by (rule backoff_schedule, rule backoff_cong [OF _ _ gw_refreshed(2)]) (auto split: sum.split)
next
  case (gw_reconnect_timer t g ex)
  have "backoff_ok (g\<lparr>g_timeouts := set_delete t (g_timeouts g), reconnectTimer := None\<rparr>)"
    using gw_reconnect_timer by (simp add: backoff_ok_def)
  then show ?case using backoff_open by (simp add: onReconnectTimer_def Let_def)
qed (auto simp: gw_setCredential_def onOpen_def onPingTimer_def backoff_ok_def split: option.split)

interpretation backoff: inductive_invariant gw_step "\<lambda>l. True" backoff_ok
  by unfold_locales (rule backoff_step)

subsection \<open>Deduplication\<close>

fun event_id_of :: "gateway_effect \<Rightarrow> json list" where
  "event_id_of (OnEvent frame) = (case jget (js ''event_id'') frame of Some v \<Rightarrow> [v] | None \<Rightarrow> [])"
| "event_id_of _ = []"

definition delivered :: "gateway \<Rightarrow> json list" where
  "delivered g = concat (map event_id_of (g_effects g))"

definition dedupe_ok :: "gateway \<Rightarrow> bool" where
  "dedupe_ok g \<longleftrightarrow> length (seenEventIds g) \<le> MAX_SEEN_EVENTS \<and>
     (length (delivered g) \<le> MAX_SEEN_EVENTS \<longrightarrow>
        seenEventIds g = delivered g \<and> distinct (filter (\<lambda>v. \<not> is_ref v) (delivered g)))"

lemma delivered_update [simp]:
  "delivered (g\<lparr>closedByUser := b, refreshedFor := r\<rparr>) = delivered g"
  "delivered (g\<lparr>g_timeouts := ts, reconnectTimer := t\<rparr>) = delivered g"
  by (simp_all add: delivered_def)

lemma delivered_open [simp]:
  "delivered (snd (gw_open ex g)) = delivered g" "seenEventIds (snd (gw_open ex g)) = seenEventIds g"
  by (auto simp: delivered_def gw_open_def Let_def split: option.split)

lemma delivered_eventFrame:
  "delivered (onEventFrame frame g) = delivered g \<and> seenEventIds (onEventFrame frame g) = seenEventIds g \<or>
   (\<exists>v. \<not> seen_has v (seenEventIds g) \<and> delivered (onEventFrame frame g) = delivered g @ [v] \<and>
        seenEventIds (onEventFrame frame g) =
          (if length (seenEventIds g) \<ge> MAX_SEEN_EVENTS then [] else seenEventIds g) @ [v])"
  by (auto simp: delivered_def onEventFrame_def Let_def split: option.split)

lemma dedupe_cong: "delivered g = delivered h \<Longrightarrow> seenEventIds g = seenEventIds h \<Longrightarrow> dedupe_ok h \<Longrightarrow> dedupe_ok g"
  by (simp add: dedupe_ok_def)

lemma dedupe_eventFrame:
  assumes "dedupe_ok g"
  shows "dedupe_ok (onEventFrame frame g)"
  using delivered_eventFrame [of frame g]
proof (elim disjE exE conjE)
  fix v
  assume new: "\<not> seen_has v (seenEventIds g)" "delivered (onEventFrame frame g) = delivered g @ [v]"
    "seenEventIds (onEventFrame frame g) = (if length (seenEventIds g) \<ge> MAX_SEEN_EVENTS then [] else seenEventIds g) @ [v]"
  then show ?thesis using assms by (auto simp: dedupe_ok_def seen_has_def MAX_SEEN_EVENTS_def)
qed (rule dedupe_cong [OF _ _ assms])

lemma dedupe_step: "gw_step l g g' \<Longrightarrow> dedupe_ok g \<Longrightarrow> dedupe_ok g'"
proof (induction rule: gw_step.induct)
  case (gw_connect g ex)
  show ?case by (rule dedupe_cong [OF _ _ gw_connect]) (auto simp: gw_connect_def)
next
  case (gw_user_close g)
  show ?case by (rule dedupe_cong [OF _ _ gw_user_close]) (auto simp: delivered_def gw_close_def Let_def split: option.split)
next
  case (gw_socket_message k g raw)
  have "dedupe_ok (onAuthReply raw frame g)" for frame
    by (rule dedupe_cong [OF _ _ gw_socket_message(4)])
       (auto simp: delivered_def onAuthReply_def split: option.split json.split)
  then show ?case using gw_socket_message(4) dedupe_eventFrame by (auto simp: onMessage_def split: option.split)
next
  case (gw_socket_close k g)
  show ?case by (rule dedupe_cong [OF _ _ gw_socket_close(2)]) (auto simp: delivered_def onClose_def Let_def split: option.split)
next
  case (gw_refreshed g answer)
  show ?case by (rule dedupe_cong [OF _ _ gw_refreshed(2)]) (auto simp: delivered_def refreshCredential_def Let_def split: sum.split)
next
  case (gw_reconnect_timer t g ex)
  show ?case by (rule dedupe_cong [OF _ _ gw_reconnect_timer(2)]) (auto simp: onReconnectTimer_def Let_def)
qed (auto simp: gw_setCredential_def onOpen_def onPingTimer_def dedupe_ok_def delivered_def split: option.split)

interpretation dedupe: inductive_invariant gw_step "\<lambda>l. True" dedupe_ok
  by unfold_locales (rule dedupe_step)

subsection \<open>After \<open>close\<close>\<close>

fun is_connect :: "gateway_label \<Rightarrow> bool" where
  "is_connect (Connect stale ex) = True"
| "is_connect _ = False"

definition opened_sockets :: "gateway \<Rightarrow> nat list" where
  "opened_sockets g = concat (map (\<lambda>x. case x of OpenSocket k u \<Rightarrow> [k] | _ \<Rightarrow> []) (g_effects g))"

text \<open>Closed by the user with the sockets \<open>ks\<close> opened so far.\<close>

definition closed_with :: "nat list \<Rightarrow> gateway \<Rightarrow> bool" where
  "closed_with ks g \<longleftrightarrow> closedByUser g \<and> opened_sockets g = ks"

lemma closed_step: "gw_step l g g' \<Longrightarrow> \<not> is_connect l \<Longrightarrow> closed_with ks g \<Longrightarrow> closed_with ks g'"
proof (induction rule: gw_step.induct)
  case (gw_user_close g)
  then show ?case by (auto simp: closed_with_def opened_sockets_def gw_close_def Let_def split: option.split)
next
  case (gw_socket_message k g raw)
  then show ?case
    by (auto simp: closed_with_def opened_sockets_def onMessage_def onAuthReply_def onEventFrame_def Let_def
        split: option.split json.split)
next
  case (gw_refreshed g answer)
  then show ?case by (auto simp: closed_with_def opened_sockets_def refreshCredential_def Let_def split: sum.split)
qed (auto simp: closed_with_def opened_sockets_def gw_setCredential_def onOpen_def onPingTimer_def onClose_def
    onReconnectTimer_def Let_def split: option.split)

interpretation closed: inductive_invariant gw_step "\<lambda>l. \<not> is_connect l" "closed_with ks"
  by unfold_locales (rule closed_step)

subsection \<open>Orderly runs\<close>

definition next_status :: "connection_status option \<Rightarrow> gateway_effect \<Rightarrow> connection_status option" where
  "next_status s x = (case x of OnStatus t \<Rightarrow> Some t | _ \<Rightarrow> s)"

definition last_status :: "gateway \<Rightarrow> connection_status option" where
  "last_status g = foldl next_status None (g_effects g)"

definition frames_to :: "nat \<Rightarrow> gateway \<Rightarrow> jstr list" where
  "frames_to k g = concat (map (\<lambda>x. case x of SendFrame j f \<Rightarrow> if j = k then [f] else [] | _ \<Rightarrow> []) (g_effects g))"

text \<open>At most one socket is alive, and it is the current one unless it was closed.\<close>

definition sockets_ok :: "gateway \<Rightarrow> bool" where
  "sockets_ok g \<longleftrightarrow>
     (case g_socket g of
        Some k \<Rightarrow> g_sockets g = [k] \<and> CloseSocket k \<notin> set (g_effects g) \<and> \<not> closedByUser g
      | None \<Rightarrow> g_sockets g = [] \<or>
          closedByUser g \<and> (\<exists>k. g_sockets g = [k] \<and> CloseSocket k \<in> set (g_effects g))) \<and>
     (\<forall>k. CloseSocket k \<in> set (g_effects g) \<longrightarrow> k < g_next g) \<and>
     (\<forall>k \<in> set (g_opened g) \<union> set (g_sockets g). k < g_next g)"

definition status_ok :: "gateway \<Rightarrow> bool" where
  "status_ok g \<longleftrightarrow>
     authenticated g = (last_status g = Some Online) \<and>
     (authenticated g \<longrightarrow> \<not> authRejected g \<and> (\<exists>k. g_socket g = Some k \<and> k \<in> set (g_opened g))) \<and>
     (closedByUser g \<longrightarrow> last_status g = Some Closed)"

definition frames_ok :: "gateway \<Rightarrow> bool" where
  "frames_ok g \<longleftrightarrow>
     (\<forall>k. if k \<in> set (g_opened g)
          then \<exists>c rest. frames_to k g = auth_frame c # rest \<and> set rest \<subseteq> {ping_frame}
          else frames_to k g = [])"

lemmas view_defs = next_status_def last_status_def frames_to_def

lemma onEventFrame_sel [simp]:
  "g_socket (onEventFrame f g) = g_socket g" "g_sockets (onEventFrame f g) = g_sockets g"
  "g_opened (onEventFrame f g) = g_opened g" "g_next (onEventFrame f g) = g_next g"
  "closedByUser (onEventFrame f g) = closedByUser g" "authenticated (onEventFrame f g) = authenticated g"
  "authRejected (onEventFrame f g) = authRejected g"
  "last_status (onEventFrame f g) = last_status g" "frames_to k (onEventFrame f g) = frames_to k g"
  "CloseSocket k \<in> set (g_effects (onEventFrame f g)) \<longleftrightarrow> CloseSocket k \<in> set (g_effects g)"
  by (auto simp: onEventFrame_def view_defs Let_def split: option.split)

lemma onAuthReply_sel [simp]:
  "g_socket (onAuthReply t f g) = g_socket g" "g_sockets (onAuthReply t f g) = g_sockets g"
  "g_opened (onAuthReply t f g) = g_opened g" "g_next g \<le> g_next (onAuthReply t f g)"
  "closedByUser (onAuthReply t f g) = closedByUser g" "frames_to k (onAuthReply t f g) = frames_to k g"
  "CloseSocket k \<in> set (g_effects (onAuthReply t f g)) \<longleftrightarrow> CloseSocket k \<in> set (g_effects g)"
  by (auto simp: onAuthReply_def view_defs split: option.split json.split)

lemma onAuthReply_status:
  "authenticated (onAuthReply t f g) \<and> authRejected (onAuthReply t f g) = authRejected g \<and>
     last_status (onAuthReply t f g) = Some Online \<or>
   authenticated (onAuthReply t f g) = authenticated g \<and> last_status (onAuthReply t f g) = last_status g"
  by (auto simp: onAuthReply_def view_defs split: option.split json.split)

definition orderly_ok :: "gateway \<Rightarrow> bool" where
  "orderly_ok g \<longleftrightarrow> sockets_ok g \<and> status_ok g \<and> frames_ok g"

lemma orderly_open:
  assumes "orderly_ok g" "g_socket g = None" "g_sockets g = []" "\<not> closedByUser g"
  shows "orderly_ok (snd (gw_open ex g))"
proof -
  have 1: "sockets_ok (snd (gw_open ex g))"
    using assms unfolding orderly_ok_def
    by (cases ex) (auto simp: sockets_ok_def gw_open_def Let_def less_Suc_eq)
  have 2: "status_ok (snd (gw_open ex g))"
    using assms unfolding orderly_ok_def
    by (cases ex) (auto simp: status_ok_def gw_open_def Let_def view_defs)
  have "frames_to k (snd (gw_open ex g)) = frames_to k g" for k
    by (cases ex) (auto simp: gw_open_def Let_def view_defs)
  moreover have "g_opened (snd (gw_open ex g)) = g_opened g"
    by (cases ex) (auto simp: gw_open_def Let_def)
  ultimately have "frames_ok (snd (gw_open ex g))" using assms(1) by (simp add: orderly_ok_def frames_ok_def)
  with 1 2 show ?thesis by (simp add: orderly_ok_def)
qed

lemma sockets_ok_cong:
  assumes "sockets_ok g" "g_socket h = g_socket g" "g_sockets h = g_sockets g" "g_opened h = g_opened g"
    "closedByUser h = closedByUser g" "g_next g \<le> g_next h"
    "\<And>k. CloseSocket k \<in> set (g_effects h) \<longleftrightarrow> CloseSocket k \<in> set (g_effects g)"
  shows "sockets_ok h"
proof -
  have "k < g_next h" if "k < g_next g" for k using that assms(6) by simp
  then show ?thesis using assms(1-5,7) by (auto simp: sockets_ok_def split: option.splits)
qed

lemma frames_ok_cong: "frames_ok g \<Longrightarrow> g_opened h = g_opened g \<Longrightarrow> (\<And>k. frames_to k h = frames_to k g) \<Longrightarrow> frames_ok h"
  by (simp add: frames_ok_def)

lemma status_ok_cong:
  "status_ok g \<Longrightarrow> g_socket h = g_socket g \<Longrightarrow> g_opened h = g_opened g \<Longrightarrow> closedByUser h = closedByUser g \<Longrightarrow>
   authenticated h = authenticated g \<Longrightarrow> authRejected h = authRejected g \<Longrightarrow> last_status h = last_status g \<Longrightarrow> status_ok h"
  by (simp add: status_ok_def)

lemma orderly_user_close:
  assumes "orderly_ok g"
  shows "orderly_ok (gw_close g)"
proof -
  have "sockets_ok (gw_close g)"
    using assms unfolding orderly_ok_def
    by (cases "g_socket g") (auto simp: sockets_ok_def gw_close_def Let_def split: option.split)
  moreover have "status_ok (gw_close g)"
    using assms by (auto simp: orderly_ok_def status_ok_def gw_close_def Let_def view_defs)
  moreover have "frames_ok (gw_close g)"
    by (rule frames_ok_cong [of g])
       (use assms in \<open>auto simp: orderly_ok_def gw_close_def Let_def view_defs split: option.split\<close>)
  ultimately show ?thesis by (simp add: orderly_ok_def)
qed

lemma orderly_current:
  "sockets_ok g \<Longrightarrow> k \<in> set (g_sockets g) \<Longrightarrow> CloseSocket k \<notin> set (g_effects g) \<Longrightarrow> g_socket g = Some k \<and> \<not> closedByUser g"
  by (auto simp: sockets_ok_def split: option.splits)

lemma frames_to_onOpen [simp]:
  "frames_to j (onOpen k g) = frames_to j g @ (if j = k then [auth_frame (g_credential g)] else [])"
  by (simp add: frames_to_def onOpen_def)

lemma frames_to_onPingTimer:
  "g_socket g = Some k \<Longrightarrow> authenticated g \<Longrightarrow> frames_to j (onPingTimer g) = frames_to j g @ (if j = k then [ping_frame] else [])"
  by (simp add: frames_to_def onPingTimer_def)

lemma onOpen_opened [simp]: "g_opened (onOpen k g) = g_opened g @ [k]"
  by (simp add: onOpen_def)

lemma orderly_socket_open:
  assumes "orderly_ok g" "k \<in> set (g_sockets g)" "k \<notin> set (g_opened g)" "CloseSocket k \<notin> set (g_effects g)"
  shows "orderly_ok (onOpen k g)"
proof -
  note cur = orderly_current [OF _ assms(2,4)]
  have "sockets_ok (onOpen k g)"
    using assms by (auto simp: orderly_ok_def sockets_ok_def onOpen_def split: option.split)
  moreover have "status_ok (onOpen k g)"
    using assms cur by (auto simp: orderly_ok_def status_ok_def onOpen_def view_defs)
  moreover have "frames_ok (onOpen k g)"
    using assms(1,3) by (auto simp: orderly_ok_def frames_ok_def)
  ultimately show ?thesis by (simp add: orderly_ok_def)
qed

lemma orderly_socket_message:
  assumes "orderly_ok g" "k \<in> set (g_sockets g)" "k \<in> set (g_opened g)" "CloseSocket k \<notin> set (g_effects g)"
    "\<not> authRejected g"
  shows "orderly_ok (snd (onMessage raw g))"
proof -
  have cur: "g_socket g = Some k" "\<not> closedByUser g" using orderly_current [OF _ assms(2,4)] assms(1) by (auto simp: orderly_ok_def)
  have "orderly_ok (onAuthReply raw f g)" if "\<not> authenticated g" for f
  proof -
    have "sockets_ok (onAuthReply raw f g)" by (rule sockets_ok_cong [of g]) (use assms(1) in \<open>simp_all add: orderly_ok_def\<close>)
    moreover have "status_ok (onAuthReply raw f g)"
      using that assms(1,3,5) cur onAuthReply_status [of raw f g] by (auto simp: orderly_ok_def status_ok_def)
    moreover have "frames_ok (onAuthReply raw f g)" by (rule frames_ok_cong [of g]) (use assms(1) in \<open>simp_all add: orderly_ok_def\<close>)
    ultimately show ?thesis by (simp add: orderly_ok_def)
  qed
  moreover have "orderly_ok (onEventFrame f g)" for f
    using assms(1) sockets_ok_cong [of g "onEventFrame f g"] status_ok_cong [of g "onEventFrame f g"]
      frames_ok_cong [of g "onEventFrame f g"] by (simp add: orderly_ok_def)
  ultimately show ?thesis using assms(1) by (auto simp: onMessage_def split: option.split)
qed

lemma orderly_socket_close:
  assumes "orderly_ok g" "k \<in> set (g_sockets g)"
  shows "orderly_ok (onClose k g)"
proof -
  have "g_sockets g = [k]" using assms by (auto simp: orderly_ok_def sockets_ok_def split: option.splits)
  then have none: "g_sockets (onClose k g) = []" "g_socket (onClose k g) = None"
    by (auto simp: onClose_def Let_def set_delete_def)
  have "sockets_ok (onClose k g)"
    using assms(1) none by (auto simp: orderly_ok_def sockets_ok_def onClose_def Let_def intro: less_SucI split: option.split)
  moreover have "status_ok (onClose k g)"
    using assms(1) by (auto simp: orderly_ok_def status_ok_def onClose_def Let_def view_defs split: option.split)
  moreover have "frames_ok (onClose k g)"
    by (rule frames_ok_cong [of g])
       (use assms in \<open>auto simp: orderly_ok_def onClose_def Let_def view_defs split: option.split\<close>)
  ultimately show ?thesis by (simp add: orderly_ok_def)
qed

lemma orderly_refreshed:
  assumes "orderly_ok g" "\<not> closedByUser g" "g_socket g = None"
  shows "orderly_ok (refreshCredential answer g)"
proof -
  have "sockets_ok (refreshCredential answer g)"
    by (rule sockets_ok_cong [of g]) (use assms in \<open>auto simp: orderly_ok_def refreshCredential_def Let_def split: sum.split\<close>)
  moreover have "status_ok (refreshCredential answer g)"
    using assms by (auto simp: orderly_ok_def status_ok_def refreshCredential_def Let_def view_defs split: sum.split)
  moreover have "frames_ok (refreshCredential answer g)"
    by (rule frames_ok_cong [of g]) (use assms in \<open>auto simp: orderly_ok_def refreshCredential_def Let_def view_defs split: sum.split\<close>)
  ultimately show ?thesis by (simp add: orderly_ok_def)
qed

lemma frames_ok_ping:
  assumes "frames_ok g" "g_opened h = g_opened g" "k \<in> set (g_opened g)"
    "\<And>j. frames_to j h = frames_to j g @ (if j = k then [ping_frame] else [])"
  shows "frames_ok h"
  unfolding frames_ok_def
proof
  fix j
  have j: "if j \<in> set (g_opened g) then \<exists>c rest. frames_to j g = auth_frame c # rest \<and> set rest \<subseteq> {ping_frame}
      else frames_to j g = []"
    using assms(1) by (simp add: frames_ok_def)
  show "if j \<in> set (g_opened h) then \<exists>c rest. frames_to j h = auth_frame c # rest \<and> set rest \<subseteq> {ping_frame}
      else frames_to j h = []"
    using j assms(3) unfolding assms(2,4) by (auto split: if_splits)
qed

lemma orderly_ping:
  assumes "orderly_ok g"
  shows "orderly_ok (onPingTimer g)"
proof (cases "\<exists>k. g_socket g = Some k \<and> authenticated g")
  case True
  then obtain k where k: "g_socket g = Some k" "authenticated g" by blast
  then have ping: "onPingTimer g = effect (SendFrame k ping_frame) g" by (simp add: onPingTimer_def)
  have "sockets_ok (onPingTimer g)" "status_ok (onPingTimer g)"
    using assms sockets_ok_cong [of g "onPingTimer g"] status_ok_cong [of g "onPingTimer g"]
    by (simp_all add: orderly_ok_def ping view_defs)
  moreover have "k \<in> set (g_opened g)" "g_opened (onPingTimer g) = g_opened g"
    using assms k by (auto simp: orderly_ok_def status_ok_def ping)
  then have "frames_ok (onPingTimer g)"
    using assms by (intro frames_ok_ping [OF _ _ _ frames_to_onPingTimer [OF k]]) (simp_all add: orderly_ok_def)
  ultimately show ?thesis by (simp add: orderly_ok_def)
next
  case False
  then have "onPingTimer g = g" by (auto simp: onPingTimer_def split: option.split)
  then show ?thesis using assms by simp
qed

lemma last_status_cong: "g_effects h = g_effects g \<Longrightarrow> last_status h = last_status g"
  by (simp add: last_status_def)

lemma frames_to_cong: "g_effects h = g_effects g \<Longrightarrow> frames_to k h = frames_to k g"
  by (simp add: frames_to_def)

lemma orderly_cong:
  assumes "orderly_ok g" "g_socket h = g_socket g" "g_sockets h = g_sockets g" "g_opened h = g_opened g"
    "closedByUser h = closedByUser g" "g_next h = g_next g" "authenticated h = authenticated g"
    "authRejected h = authRejected g" "g_effects h = g_effects g"
  shows "orderly_ok h"
  using assms sockets_ok_cong [of g h] status_ok_cong [of g h] frames_ok_cong [of g h] last_status_cong [of h g]
    frames_to_cong [of h g] by (simp add: orderly_ok_def)

lemma orderly_update:
  assumes "orderly_ok g"
  shows "orderly_ok (g\<lparr>g_credential := c\<rparr>)" "orderly_ok (g\<lparr>g_timeouts := ts, reconnectTimer := t\<rparr>)"
  by (rule orderly_cong [OF assms]; simp)+

lemma orderly_reopen:
  assumes "orderly_ok g" "g_socket g = None" "g_sockets g = []"
  shows "orderly_ok (g\<lparr>closedByUser := False, refreshedFor := r\<rparr>)"
proof -
  let ?h = "g\<lparr>closedByUser := False, refreshedFor := r\<rparr>"
  have "last_status ?h = last_status g" "\<And>k. frames_to k ?h = frames_to k g"
    by (simp_all add: last_status_def frames_to_def)
  then show ?thesis using assms by (auto simp: orderly_ok_def sockets_ok_def status_ok_def frames_ok_def)
qed

lemma orderly_step: "gw_step l g g' \<Longrightarrow> orderly l \<Longrightarrow> orderly_ok g \<Longrightarrow> orderly_ok g'"
proof (induction rule: gw_step.induct)
  case (gw_connect g ex)
  then show ?case
    using orderly_open [OF orderly_reopen [OF gw_connect(2)]] by (auto simp: gw_connect_def)
next
  case (gw_reconnect_timer t g ex)
  have "g_socket g = None \<Longrightarrow> \<not> closedByUser g \<Longrightarrow> g_sockets g = []"
    using gw_reconnect_timer(3) by (auto simp: orderly_ok_def sockets_ok_def)
  then show ?case
    using orderly_update(2) [OF gw_reconnect_timer(3)] orderly_open [OF orderly_update(2) [OF gw_reconnect_timer(3)]]
    by (auto simp: onReconnectTimer_def Let_def)
qed (auto simp: gw_setCredential_def orderly_update orderly_user_close orderly_socket_open orderly_socket_message
    orderly_socket_close orderly_refreshed orderly_ping)

interpretation orderly_runs: inductive_invariant gw_step orderly orderly_ok
  by unfold_locales (rule orderly_step)

section \<open>What the gateway client promises\<close>

definition sample_gateway :: gateway where
  "sample_gateway = newGatewaySocket (js ''wss://h/'') (js ''c1'') None True"

text \<open>Connected and dropped once.\<close>

definition sample_dropped :: gateway where
  "sample_dropped = onClose 1 (snd (gw_connect None sample_gateway))"

lemma sample_dropped_reach: "lreach gw_step (\<lambda>l. True) sample_gateway sample_dropped"
proof -
  note more = lreach.more [where step = gw_step and allowed = "\<lambda>l. True" and ?s0.0 = sample_gateway]
  have start: "lreach gw_step (\<lambda>l. True) sample_gateway sample_gateway" by (rule lreach.start)
  have "gw_step (SocketClose 1) (snd (gw_connect None sample_gateway)) sample_dropped"
    unfolding sample_dropped_def
    by (rule gw_socket_close) (simp add: gw_connect_def gw_open_def sample_gateway_def newGatewaySocket_def)
  from more [OF more [OF start TrueI gw_step.gw_connect] TrueI this] show ?thesis .
qed

text \<open>
C21: Reconnection never waits less than half a second nor more than ten seconds, whatever
happens on the sockets.
\<close>

theorem reconnect_delays_bounded:
  assumes "lreach gw_step (\<lambda>l. True) (newGatewaySocket url cred ping get) g" "SetTimeout t d \<in> set (g_effects g)"
  shows "500 \<le> d \<and> d \<le> 10000"
proof -
  have "backoff_ok g"
    by (rule backoff.inv_reach [OF assms(1)]) (simp add: backoff_ok_def newGatewaySocket_def MAX_RECONNECT_DELAY_MS_def)
  then show ?thesis using assms(2) by (auto simp: backoff_ok_def MAX_RECONNECT_DELAY_MS_def)
qed

theorem reconnect_delays_bounded_witness:
  "SetTimeout 2 500 \<in> set (g_effects sample_dropped) \<and> (500 :: int) \<le> 500 \<and> (500 :: int) \<le> 10000"
proof -
  have "SetTimeout 2 500 \<in> set (g_effects sample_dropped)"
    by (simp add: sample_dropped_def sample_gateway_def newGatewaySocket_def gw_connect_def gw_open_def onClose_def)
  with reconnect_delays_bounded [OF sample_dropped_reach [unfolded sample_gateway_def]] show ?thesis by blast
qed

text \<open>
C18: At-least-once delivery becomes exactly-once: among the first ten thousand events handed to
\<open>onEvent\<close>, over any number of reconnections, no \<open>event_id\<close> comes twice; and the memory of ids never
grows beyond ten thousand.
\<close>

theorem events_delivered_once:
  assumes "lreach gw_step (\<lambda>l. True) (newGatewaySocket url cred ping get) g"
  shows "length (seenEventIds g) \<le> 10000 \<and>
    (length (delivered g) \<le> 10000 \<longrightarrow> distinct (filter (\<lambda>v. \<not> is_ref v) (delivered g)))"
proof -
  have "dedupe_ok g"
    by (rule dedupe.inv_reach [OF assms]) (simp add: dedupe_ok_def newGatewaySocket_def delivered_def)
  then show ?thesis by (simp add: dedupe_ok_def MAX_SEEN_EVENTS_def)
qed

definition online_frame :: jstr where
  "online_frame = stringify (JObj [(js ''code'', JNum 0)])"

definition event_frame :: jstr where
  "event_frame = stringify (JObj [(js ''event_id'', JStr (js ''e1'')), (js ''event'', JStr (js ''message.created''))])"

lemma parse_frames [simp]:
  "parse online_frame = Some (JObj [(js ''code'', JNum 0)])"
  "parse event_frame = Some (JObj [(js ''event_id'', JStr (js ''e1'')), (js ''event'', JStr (js ''message.created''))])"
  unfolding online_frame_def event_frame_def by (rule parse_stringify; simp add: js_def)+

text \<open>Connected, authenticated, and the same event delivered twice.\<close>

definition sample_connected :: gateway where
  "sample_connected = onOpen 1 (snd (gw_connect None sample_gateway))"

definition sample_online :: gateway where
  "sample_online = snd (onMessage online_frame sample_connected)"

definition sample_twice :: gateway where
  "sample_twice = snd (onMessage event_frame (snd (onMessage event_frame sample_online)))"

lemmas sample_defs = sample_gateway_def newGatewaySocket_def sample_connected_def sample_online_def sample_twice_def
  gw_connect_def gw_open_def onOpen_def onMessage_def onAuthReply_def onEventFrame_def Let_def seen_has_def

lemma sample_twice_reach:
  assumes "allowed (Connect False None)" "\<And>k. allowed (SocketOpen k)" "\<And>k raw. allowed (SocketMessage False k raw)"
  shows "lreach gw_step allowed sample_gateway sample_online" "lreach gw_step allowed sample_gateway sample_twice"
proof -
  note more = lreach.more [where step = gw_step and allowed = allowed and ?s0.0 = sample_gateway]
  have start: "lreach gw_step allowed sample_gateway sample_gateway" by (rule lreach.start)
  have "gw_step (Connect False None) sample_gateway (snd (gw_connect None sample_gateway))"
    using gw_step.gw_connect [of sample_gateway None] by (simp add: sample_gateway_def newGatewaySocket_def)
  note connected = more [OF start assms(1) this]
  have "gw_step (SocketOpen 1) (snd (gw_connect None sample_gateway)) sample_connected"
    unfolding sample_connected_def by (rule gw_socket_open) (simp_all add: sample_defs)
  note opened = more [OF connected assms(2) this]
  have "gw_step (SocketMessage False 1 online_frame) sample_connected sample_online"
    using gw_socket_message [of 1 sample_connected online_frame] by (simp add: sample_defs)
  from more [OF opened assms(3) this]
  show online: "lreach gw_step allowed sample_gateway sample_online" .
  let ?g = "snd (onMessage event_frame sample_online)"
  have "gw_step (SocketMessage False 1 event_frame) sample_online ?g"
    using gw_socket_message [of 1 sample_online event_frame] by (simp add: sample_defs)
  note once = more [OF online assms(3) this]
  have "gw_step (SocketMessage False 1 event_frame) ?g sample_twice"
    using gw_socket_message [of 1 ?g event_frame] by (simp add: sample_defs)
  from more [OF once assms(3) this] show "lreach gw_step allowed sample_gateway sample_twice" .
qed

theorem events_delivered_once_witness:
  "delivered sample_twice = [JStr (js ''e1'')] \<and> distinct (filter (\<lambda>v. \<not> is_ref v) (delivered sample_twice))"
proof -
  have d: "delivered sample_twice = [JStr (js ''e1'')]"
    by (simp add: delivered_def sample_defs)
  show ?thesis
    using events_delivered_once [OF sample_twice_reach(2) [of "\<lambda>l. True", unfolded sample_gateway_def]] d by simp
qed

text \<open>
C19: After \<open>close()\<close>, and until the owner calls \<open>connect()\<close> again, no socket is opened: neither a
pending reconnection timer, nor a late close event, nor the answer of a credential refresh brings
the connection back.
\<close>

theorem close_is_final:
  assumes "lreach gw_step (\<lambda>l. \<not> is_connect l) (gw_close g) g'"
  shows "closedByUser g' \<and> opened_sockets g' = opened_sockets g"
proof -
  have "closed_with (opened_sockets g) (gw_close g)"
    by (auto simp: closed_with_def opened_sockets_def gw_close_def Let_def split: option.split)
  from closed.inv_reach [OF assms this] show ?thesis by (simp add: closed_with_def)
qed

theorem close_is_final_witness:
  "closedByUser (onClose 1 (gw_close sample_online)) \<and> opened_sockets (onClose 1 (gw_close sample_online)) = [1]"
proof -
  note more = lreach.more [where step = gw_step and allowed = "\<lambda>l. \<not> is_connect l" and ?s0.0 = "gw_close sample_online"]
  have start: "lreach gw_step (\<lambda>l. \<not> is_connect l) (gw_close sample_online) (gw_close sample_online)" by (rule lreach.start)
  have "gw_step (SocketClose 1) (gw_close sample_online) (onClose 1 (gw_close sample_online))"
    by (rule gw_socket_close) (simp add: gw_close_def sample_defs)
  note reach = more [OF start _ this]
  have "opened_sockets sample_online = [1]" by (simp add: opened_sockets_def sample_defs)
  then show ?thesis using close_is_final [OF reach] by simp
qed

text \<open>
C15: In an orderly run, where the owner reconnects only after the old socket has reported its
close, no credential refresh answers late and the gateway sends nothing after a rejection: at most
one socket is alive; the reported status is \<open>online\<close> exactly while the client is authenticated and
\<open>closed\<close> whenever the owner closed it; and the first frame on every socket is the authentication
frame, followed by nothing but pings.
\<close>

theorem orderly_connection:
  assumes "lreach gw_step orderly (newGatewaySocket url cred ping get) g"
  shows "length (g_sockets g) \<le> 1 \<and> (gw_isOnline g \<longleftrightarrow> last_status g = Some Online) \<and>
    (closedByUser g \<longrightarrow> last_status g = Some Closed) \<and>
    (frames_to k g = [] \<or> (\<exists>c n. frames_to k g = auth_frame c # replicate n ping_frame))"
proof -
  have "orderly_ok (newGatewaySocket url cred ping get)"
    by (simp add: orderly_ok_def newGatewaySocket_def sockets_ok_def status_ok_def frames_ok_def view_defs)
  with orderly_runs.inv_reach [OF assms] have ok: "sockets_ok g" "status_ok g" "frames_ok g"
    by (simp_all add: orderly_ok_def)
  have rep: "set rest \<subseteq> {ping_frame} \<Longrightarrow> rest = replicate (length rest) ping_frame" for rest
    by (induction rest) auto
  have "frames_to k g = [] \<or> (\<exists>c n. frames_to k g = auth_frame c # replicate n ping_frame)"
    using ok(3) rep unfolding frames_ok_def by (metis (mono_tags, lifting))
  moreover have "length (g_sockets g) \<le> 1" using ok(1) by (auto simp: sockets_ok_def split: option.splits)
  ultimately show ?thesis using ok(2) by (auto simp: status_ok_def gw_isOnline_def)
qed

theorem orderly_connection_witness:
  "length (g_sockets sample_online) \<le> 1 \<and> gw_isOnline sample_online \<and> last_status sample_online = Some Online \<and>
   frames_to 1 sample_online = [auth_frame (js ''c1'')]"
proof -
  have "last_status sample_online = Some Online" by (simp add: view_defs sample_defs)
  moreover have "frames_to 1 sample_online = [auth_frame (js ''c1'')]" by (simp add: view_defs sample_defs)
  ultimately show ?thesis
    using orderly_connection [OF sample_twice_reach(1) [of orderly, unfolded sample_gateway_def]] by simp
qed

text \<open>
C22: A credential that stays invalid is refreshed once: when the gateway rejects it, the client asks
for a fresh one and reconnects; when that answer is the same credential (or an error) and the
gateway rejects it again, the client reports \<open>offline\<close>, starts no timer and asks no more.
\<close>

theorem rejected_credential_stops:
  assumes "g_getCredential g" "\<not> closedByUser g" "authRejected g" "refreshedFor g \<noteq> Some (g_credential g)"
    and "answer = Inr (g_credential g) \<or> answer = Inr [] \<or> (\<exists>e. answer = Inl e)"
    and "parse raw = Some frame" "frame \<noteq> JNull" "jget (js ''code'') frame \<noteq> Some (JNum 0)"
  shows "let asked = onClose k g; scheduled = refreshCredential answer asked;
             t = the (reconnectTimer scheduled);
             opened = snd (onReconnectTimer t None scheduled); j = the (g_socket opened);
             rejected = snd (onMessage raw (onOpen j opened)); final = onClose j rejected
         in last (g_effects asked) = GetCredential \<and> g_socket opened \<noteq> None \<and>
            g_timeouts final = g_timeouts opened \<and> g_refreshing final = g_refreshing opened \<and>
            g_socket final = None \<and> last (g_effects final) = OnStatus Offline"
proof -
  let ?asked = "onClose k g"
  have asked: "last (g_effects ?asked) = GetCredential" "refreshedFor ?asked = Some (g_credential g)"
    "g_credential ?asked = g_credential g" "g_socket ?asked = None" "\<not> closedByUser ?asked" "g_getCredential ?asked"
    using assms(1-4) by (simp_all add: onClose_def Let_def)
  define s where "s = refreshCredential answer ?asked"
  have s: "refreshedFor s = Some (g_credential g)" "g_credential s = g_credential g" "g_socket s = None"
    "\<not> closedByUser s" "g_getCredential s"
    using assms(5) asked by (auto simp: s_def refreshCredential_def Let_def)
  define p where "p = snd (onReconnectTimer (the (reconnectTimer s)) None s)"
  have p: "refreshedFor p = Some (g_credential g)" "g_credential p = g_credential g" "g_socket p \<noteq> None"
    "\<not> closedByUser p" "\<not> authenticated p" "g_getCredential p"
    using s by (auto simp: p_def onReconnectTimer_def gw_open_def Let_def)
  then obtain j where j: "g_socket p = Some j" by blast
  have "snd (onMessage raw (onOpen j p)) = onAuthReply raw frame (onOpen j p)"
    using assms(6,7) p(5) by (simp add: onMessage_def onOpen_def)
  then have "refreshedFor (snd (onMessage raw (onOpen j p))) = Some (g_credential (snd (onMessage raw (onOpen j p))))"
    "authRejected (snd (onMessage raw (onOpen j p)))" "\<not> closedByUser (snd (onMessage raw (onOpen j p)))"
    "g_timeouts (snd (onMessage raw (onOpen j p))) = g_timeouts p" "g_refreshing (snd (onMessage raw (onOpen j p))) = g_refreshing p"
    using assms(8) p by (simp_all add: onAuthReply_def onOpen_def)
  then show ?thesis using asked(1) p(3) j
    unfolding Let_def s_def [symmetric] p_def [symmetric] by (simp add: onClose_def Let_def)
qed

definition rejection_frame :: jstr where
  "rejection_frame = stringify (JObj [(js ''code'', JNum 10001)])"

lemma parse_rejection_frame: "parse rejection_frame = Some (JObj [(js ''code'', JNum 10001)])"
  unfolding rejection_frame_def by (rule parse_stringify) (simp add: js_def)

definition sample_rejected :: gateway where
  "sample_rejected = snd (onMessage rejection_frame sample_connected)"

theorem rejected_credential_stops_witness:
  "last (g_effects (onClose 1 sample_rejected)) = GetCredential \<and>
   g_socket (snd (onReconnectTimer 2 None (refreshCredential (Inr (js ''c1'')) (onClose 1 sample_rejected)))) = Some 3"
proof -
  have r: "g_getCredential sample_rejected" "\<not> closedByUser sample_rejected" "authRejected sample_rejected"
    "refreshedFor sample_rejected \<noteq> Some (g_credential sample_rejected)" "g_credential sample_rejected = js ''c1''"
    by (simp_all add: sample_rejected_def parse_rejection_frame sample_defs)
  have g: "g_socket (snd (onReconnectTimer 2 None (refreshCredential (Inr (js ''c1'')) (onClose 1 sample_rejected)))) = Some 3"
    by (simp add: sample_rejected_def parse_rejection_frame sample_defs onClose_def refreshCredential_def onReconnectTimer_def js_def)
  have "last (g_effects (onClose 1 sample_rejected)) = GetCredential"
    using rejected_credential_stops [OF r(1-4), of "Inr (g_credential sample_rejected)", OF _ parse_rejection_frame]
    by (simp add: Let_def)
  with g show ?thesis by simp
qed

text \<open>
C38: Two live sockets: when the owner calls \<open>close()\<close> and then \<open>connect()\<close> before the old socket has
reported its close, that late report clears the new socket, and the reconnection it schedules
opens another one.  Both stay open, neither was closed by the client, and both deliver to the same
handlers.
\<close>

theorem stale_close_opens_second_socket:
  assumes "orderly_ok g" "g_socket g = Some k" "\<not> authRejected g"
  shows "let reopened = snd (gw_connect None (gw_close g)); dropped = onClose k reopened;
             final = snd (onReconnectTimer (the (reconnectTimer dropped)) None dropped)
         in length (g_sockets final) = 2 \<and> distinct (g_sockets final) \<and>
            (\<forall>j \<in> set (g_sockets final). CloseSocket j \<notin> set (g_effects final))"
proof -
  have k: "g_sockets g = [k]" "k < g_next g" "\<And>j. CloseSocket j \<in> set (g_effects g) \<Longrightarrow> j < g_next g"
    using assms(1,2) by (auto simp: orderly_ok_def sockets_ok_def)
  define c where "c = gw_close g"
  have c: "g_socket c = None" "g_sockets c = [k]" "g_next c = g_next g"
    "\<And>j. CloseSocket j \<in> set (g_effects c) \<Longrightarrow> j < g_next g"
    using assms(2) k by (auto simp: c_def gw_close_def Let_def split: option.splits)
  define r where "r = snd (gw_connect None c)"
  have r: "g_sockets r = [k, g_next g]" "g_next r = Suc (g_next g)" "\<not> closedByUser r" "\<not> authRejected r"
    "\<And>j. CloseSocket j \<in> set (g_effects r) \<Longrightarrow> j < g_next g"
    using c by (auto simp: r_def gw_connect_def gw_open_def Let_def)
  define d where "d = onClose k r"
  have d: "g_sockets d = [g_next g]" "g_next d = Suc (Suc (g_next g))" "\<not> closedByUser d" "g_socket d = None"
    "\<And>j. CloseSocket j \<in> set (g_effects d) \<Longrightarrow> j < g_next g"
    using r k(2) by (auto simp: d_def onClose_def Let_def set_delete_def split: option.splits)
  have "g_sockets (snd (onReconnectTimer t None d)) = [g_next g, Suc (Suc (g_next g))]"
    "\<And>j. CloseSocket j \<in> set (g_effects (snd (onReconnectTimer t None d))) \<Longrightarrow> j < g_next g" for t
    using d by (auto simp: onReconnectTimer_def gw_open_def Let_def)
  then show ?thesis unfolding Let_def c_def [symmetric] r_def [symmetric] d_def [symmetric] by fastforce
qed

theorem stale_close_opens_second_socket_witness:
  "length (g_sockets (snd (onReconnectTimer (the (reconnectTimer (onClose 1 (snd (gw_connect None (gw_close sample_online))))))
     None (onClose 1 (snd (gw_connect None (gw_close sample_online))))))) = 2"
proof -
  have "orderly_ok sample_online"
  proof (rule orderly_runs.inv_reach [OF sample_twice_reach(1)])
    show "orderly_ok sample_gateway"
      by (simp add: sample_gateway_def orderly_ok_def newGatewaySocket_def sockets_ok_def status_ok_def frames_ok_def view_defs)
  qed simp_all
  moreover have "g_socket sample_online = Some 1" "\<not> authRejected sample_online" by (simp_all add: sample_defs)
  ultimately show ?thesis using stale_close_opens_second_socket by (simp add: Let_def)
qed

text \<open>
A credential refresh that answers after \<open>close()\<close> reports \<open>reconnecting\<close> after the final
\<open>closed\<close> and starts a timer, although nothing will be reopened.
\<close>

theorem late_refresh_reports_reconnecting:
  assumes "0 < g_refreshing g"
  shows "last_status (gw_close g) = Some Closed \<and>
    (\<exists>g'. gw_step (Refreshed True answer) (gw_close g) g' \<and> last_status g' = Some Reconnecting \<and>
       closedByUser g' \<and> g_timeouts g' = g_timeouts (gw_close g) @ [g_next (gw_close g)])"
proof -
  have c: "last_status (gw_close g) = Some Closed" "closedByUser (gw_close g)" "0 < g_refreshing (gw_close g)"
    using assms by (auto simp: gw_close_def Let_def view_defs split: option.split)
  have "gw_step (Refreshed True answer) (gw_close g) (refreshCredential answer (gw_close g))"
    using gw_refreshed [OF c(3), of answer] c(2) by simp
  moreover have "last_status (refreshCredential answer h) = Some Reconnecting"
    "closedByUser (refreshCredential answer h) = closedByUser h"
    "g_timeouts (refreshCredential answer h) = g_timeouts h @ [g_next h]" for h
    by (auto simp: refreshCredential_def Let_def view_defs split: sum.split)
  ultimately show ?thesis using c by blast
qed

theorem late_refresh_reports_reconnecting_witness:
  "\<exists>g'. gw_step (Refreshed True (Inr (js ''c2''))) (gw_close (onClose 1 sample_rejected)) g' \<and> last_status g' = Some Reconnecting"
proof -
  have "0 < g_refreshing (onClose 1 sample_rejected)"
    by (simp add: sample_rejected_def parse_rejection_frame sample_defs onClose_def)
  from late_refresh_reports_reconnecting [OF this] show ?thesis by blast
qed

end
