(* ===== verification/Session.thy ===== *)
theory Session
  imports Http Delivery Gateway "HOL-Library.Monad_Syntax"
begin

text \<open>
  The facade \<open>AirwayIM\<close> of \<open>sdk/ts/src/session.ts\<close> and the conversation objects of
  \<open>sdk/ts/src/conversation.ts\<close>, over the REST client, the gateway client and the sync engine.

  Listeners are numbers; what listener \<open>l\<close> does when it is called with \<open>a\<close> is \<open>beh l a\<close>, the error it
  throws if it throws, and every call is recorded in \<open>s_calls\<close>.  A listener does not call back into
  the session.  An emission that never returns, because an \<open>error\<close> listener throws again and
  again, is \<open>None\<close>; the depth of the call stack is a parameter of the emission.  The gateway client is
  part of the world of the REST client, because a credential that the REST client fetches is
  handed to the gateway at once.  A REST call runs to its end in one step.  The conversation
  objects of one conversation id share the record in \<open>conversations\<close>.
\<close>

section \<open>Messages on the wire\<close>

definition nullable :: "json option \<Rightarrow> jstr option" where
  "nullable v = Option.bind v json_string"

definition text_of :: "json option \<Rightarrow> jstr" where
  "text_of v = (case Option.bind v json_string of Some s \<Rightarrow> s | None \<Rightarrow> [])"

definition sender_of_json :: "json \<Rightarrow> sender" where
  "sender_of_json v = \<lparr>snd_uuid = text_of (jget (js ''uuid'') v), snd_username = text_of (jget (js ''username'') v),
     snd_nickname = nullable (jget (js ''nickname'') v), snd_avatar_url = nullable (jget (js ''avatar_url'') v)\<rparr>"

definition message_of_json :: "json \<Rightarrow> chat_message" where
  "message_of_json v =
     \<lparr>msg_id = text_of (jget (js ''id'') v), msg_conversation_id = text_of (jget (js ''conversation_id'') v),
      msg_sender = sender_of_json (case jget (js ''sender'') v of Some s \<Rightarrow> s | None \<Rightarrow> JNull),
      msg_content = text_of (jget (js ''content'') v),
      msg_content_type = (if text_of (jget (js ''content_type'') v) = js ''text/plain'' then TextPlain else TextMarkdown),
      msg_created_at = text_of (jget (js ''created_at'') v),
      msg_sequence = (case number_field ''sequence'' v of Some s \<Rightarrow> s | None \<Rightarrow> 0)\<rparr>"

definition json_nullable :: "jstr option \<Rightarrow> json" where
  "json_nullable s = (case s of Some x \<Rightarrow> JStr x | None \<Rightarrow> JNull)"

definition json_of_sender :: "sender \<Rightarrow> json" where
  "json_of_sender s = JObj [(js ''uuid'', JStr (snd_uuid s)), (js ''username'', JStr (snd_username s)),
     (js ''nickname'', json_nullable (snd_nickname s)), (js ''avatar_url'', json_nullable (snd_avatar_url s))]"

definition json_of_message :: "chat_message \<Rightarrow> json" where
  "json_of_message m = JObj [(js ''id'', JStr (msg_id m)), (js ''conversation_id'', JStr (msg_conversation_id m)),
     (js ''sender'', json_of_sender (msg_sender m)), (js ''content'', JStr (msg_content m)),
     (js ''content_type'', JStr (content_type_text (msg_content_type m))),
     (js ''created_at'', JStr (msg_created_at m)), (js ''sequence'', JNum (msg_sequence m))]"

text \<open>The array that \<open>runFetch\<close> reads; anything else has no \<open>length\<close> or cannot be spread.\<close>

definition messages_of_json :: "json option \<Rightarrow> exn + chat_message list" where
  "messages_of_json v =
     (case v of
        Some (JArr vs) \<Rightarrow> Inr (map message_of_json vs)
      | _ \<Rightarrow> Inl (JsError (js ''messages is not an array'')))"

section \<open>State\<close>

datatype event_name =
    EvMessage | EvMessageUpdated | EvMembersAdded | EvMembersRemoved | EvStatus | EvError | EvEvent

datatype event_arg =
    ArgMessage chat_message
  | ArgAdded jstr "jstr list" gateway_event
  | ArgRemoved jstr jstr gateway_event
  | ArgStatus connection_status
  | ArgError exn
  | ArgEvent gateway_event

type_synonym listeners = "(event_name \<times> nat list) list"
type_synonym behaviour = "nat \<Rightarrow> event_arg \<Rightarrow> exn option"

record conversation =
  conv_id :: jstr
  conv_kind :: conversation_kind
  conv_title :: "jstr option"
  conv_listeners :: listeners

record ('w, 's) session =
  s_rest :: "('w \<times> gateway option) hstate"
  s_sync :: "'s sync_state"
  s_listeners :: listeners
  s_status :: connection_status
  wantConnected :: bool
  conversationKinds :: "(jstr \<times> conversation_kind) list"
  conversations :: "(jstr \<times> conversation) list"
  s_calls :: "(nat \<times> event_arg) list"

text \<open>What the session needs of its surroundings: platform, host callback, storage, listeners.\<close>

record ('w, 's) session_env =
  se_request :: "'w \<Rightarrow> http_request \<Rightarrow> (jstr option + http_response) \<times> 'w"
  se_getCredential :: "('w \<Rightarrow> (exn + jstr) \<times> 'w) option"
  se_upload :: "('w \<Rightarrow> upload_request \<Rightarrow> (exn + http_response) \<times> 'w) option"
  se_storage :: "'s storage_adapter"
  se_behaviour :: behaviour
  se_stack :: nat

abbreviation gateway_of :: "('w, 's) session \<Rightarrow> gateway option" where
  "gateway_of s \<equiv> snd (world (s_rest s))"

definition set_gateway :: "gateway option \<Rightarrow> ('w, 's) session \<Rightarrow> ('w, 's) session" where
  "set_gateway g s = s\<lparr>s_rest := (s_rest s)\<lparr>world := (fst (world (s_rest s)), g)\<rparr>\<rparr>"

text \<open>The \<open>getCredential\<close> handed to the REST client passes the fresh credential to the gateway.\<close>

definition rest_env :: "('w, 's) session_env \<Rightarrow> ('w \<times> gateway option) env" where
  "rest_env env =
     \<lparr>env_request = (\<lambda>(w, g) rq. let (r, w') = se_request env w rq in (r, (w', g))),
      env_getCredential = map_option (\<lambda>get (w, g).
        case get w of
          (Inl e, w') \<Rightarrow> (Inl e, (w', g))
        | (Inr fresh, w') \<Rightarrow> (Inr fresh, (w', map_option (gw_setCredential fresh) g))) (se_getCredential env),
      env_upload = map_option (\<lambda>up (w, g) rq. let (r, w') = up w rq in (r, (w', g))) (se_upload env)\<rparr>"

text \<open>Running a REST call inside the session.\<close>

definition run_rest ::
  "('w \<times> gateway option, 'a) call \<Rightarrow> ('w, 's) session \<Rightarrow> (exn + 'a) \<times> ('w, 's) session" where
  "run_rest call s = (let (r, h) = call (s_rest s) in (r, s\<lparr>s_rest := h\<rparr>))"

section \<open>Events\<close>

definition listeners_of :: "listeners \<Rightarrow> event_name \<Rightarrow> nat list" where
  "listeners_of ls ev = (case map_of ls ev of Some xs \<Rightarrow> xs | None \<Rightarrow> [])"

definition session_on :: "event_name \<Rightarrow> nat \<Rightarrow> ('w, 's) session \<Rightarrow> ('w, 's) session" where
  "session_on ev l s = s\<lparr>s_listeners := AList.update ev (set_add l (listeners_of (s_listeners s) ev)) (s_listeners s)\<rparr>"

definition session_off :: "event_name \<Rightarrow> nat \<Rightarrow> ('w, 's) session \<Rightarrow> ('w, 's) session" where
  "session_off ev l s =
     (case map_of (s_listeners s) ev of
        None \<Rightarrow> s
      | Some xs \<Rightarrow> s\<lparr>s_listeners := AList.update ev (set_delete l xs) (s_listeners s)\<rparr>)"

text \<open>
  The listener calls of \<open>emit(ev, a)\<close>, in order.  Calling the listeners \<open>xs\<close>: a listener that throws
  makes \<open>emit\<close> call itself for \<open>error\<close>; \<open>None\<close> when the stack of depth \<open>n\<close> is used up.
\<close>

fun emit_calls :: "behaviour \<Rightarrow> listeners \<Rightarrow> nat \<Rightarrow> nat list \<Rightarrow> event_arg \<Rightarrow> (nat \<times> event_arg) list option" where
  "emit_calls beh ls n [] a = Some []"
| "emit_calls beh ls n (l # xs) a =
     (case beh l a of
        None \<Rightarrow> do { rest \<leftarrow> emit_calls beh ls n xs a; Some ((l, a) # rest) }
      | Some e \<Rightarrow>
          (case n of
             0 \<Rightarrow> None
           | Suc m \<Rightarrow> do {
               errs \<leftarrow> emit_calls beh ls m (listeners_of ls EvError) (ArgError e);
               rest \<leftarrow> emit_calls beh ls n xs a;
               Some ((l, a) # errs @ rest) }))"

definition emit :: "('w, 's) session_env \<Rightarrow> event_name \<Rightarrow> event_arg \<Rightarrow> ('w, 's) session \<Rightarrow> ('w, 's) session option" where
  "emit env ev a s = do {
     calls \<leftarrow> emit_calls (se_behaviour env) (s_listeners s) (se_stack env) (listeners_of (s_listeners s) ev) a;
     Some (s\<lparr>s_calls := s_calls s @ calls\<rparr>) }"

definition reportError :: "('w, 's) session_env \<Rightarrow> exn \<Rightarrow> ('w, 's) session \<Rightarrow> ('w, 's) session option" where
  "reportError env e s = emit env EvError (ArgError e) s"

text \<open>\<open>Conversation.emitLocal\<close>: the errors of its listeners go to the session.\<close>

fun emitLocal_loop :: "('w, 's) session_env \<Rightarrow> nat list \<Rightarrow> event_arg \<Rightarrow> ('w, 's) session \<Rightarrow> ('w, 's) session option" where
  "emitLocal_loop env [] a s = Some s"
| "emitLocal_loop env (l # xs) a s =
     (let s1 = s\<lparr>s_calls := s_calls s @ [(l, a)]\<rparr>
      in case se_behaviour env l a of
           None \<Rightarrow> emitLocal_loop env xs a s1
         | Some e \<Rightarrow> do { s2 \<leftarrow> reportError env e s1; emitLocal_loop env xs a s2 })"

definition emitLocal :: "('w, 's) session_env \<Rightarrow> jstr \<Rightarrow> event_name \<Rightarrow> event_arg \<Rightarrow> ('w, 's) session \<Rightarrow> ('w, 's) session option" where
  "emitLocal env conversationId ev a s =
     (case map_of (conversations s) conversationId of
        None \<Rightarrow> Some s
      | Some c \<Rightarrow> emitLocal_loop env (listeners_of (conv_listeners c) ev) a s)"

text \<open>An emission on the session and then on the conversation object.\<close>

definition emit_both :: "('w, 's) session_env \<Rightarrow> jstr \<Rightarrow> event_name \<Rightarrow> event_arg \<Rightarrow> ('w, 's) session \<Rightarrow> ('w, 's) session option" where
  "emit_both env conversationId ev a s = do { s1 \<leftarrow> emit env ev a s; emitLocal env conversationId ev a s1 }"

section \<open>The handlers of the sync engine\<close>

fun onMessages :: "('w, 's) session_env \<Rightarrow> chat_message list \<Rightarrow> ('w, 's) session \<Rightarrow> ('w, 's) session option" where
  "onMessages env [] s = Some s"
| "onMessages env (m # ms) s = do {
     s1 \<leftarrow> emit_both env (msg_conversation_id m) EvMessage (ArgMessage m) s;
     onMessages env ms s1 }"

definition onMessageUpdated :: "('w, 's) session_env \<Rightarrow> chat_message \<Rightarrow> ('w, 's) session \<Rightarrow> ('w, 's) session option" where
  "onMessageUpdated env m s = emit_both env (msg_conversation_id m) EvMessageUpdated (ArgMessage m) s"

text \<open>
  What the session does with the reports of the engine.  A rejection of a task that the session
  started for itself (the first one of \<open>resyncAll\<close>, \<open>ensureTracked\<close>, a moderation event) is emitted
  as \<open>error\<close>; \<open>own\<close> says whether the rejected task is such a task.
\<close>

fun sync_report :: "('w, 's) session_env \<Rightarrow> bool \<Rightarrow> sync_out \<Rightarrow> ('w, 's) session \<Rightarrow> ('w, 's) session option" where
  "sync_report env own (OnMessages ms) s = onMessages env ms s"
| "sync_report env own (OnMessageUpdated m) s = onMessageUpdated env m s"
| "sync_report env own (Rejected c e) s = (if own then emit env EvError (ArgError e) s else Some s)"
| "sync_report env own _ s = Some s"

fun sync_reports :: "('w, 's) session_env \<Rightarrow> bool \<Rightarrow> sync_out list \<Rightarrow> ('w, 's) session \<Rightarrow> ('w, 's) session option" where
  "sync_reports env own [] s = Some s"
| "sync_reports env own (x # xs) s = do { s1 \<leftarrow> sync_report env own x s; sync_reports env own xs s1 }"

text \<open>Installing the engine after a step, and handling the reports of that step.\<close>

definition with_sync :: "('w, 's) session_env \<Rightarrow> bool \<Rightarrow> 's sync_state \<Rightarrow> ('w, 's) session \<Rightarrow> ('w, 's) session option" where
  "with_sync env own sy s =
     sync_reports env own (drop (length (outs (s_sync s))) (outs sy)) (s\<lparr>s_sync := sy\<rparr>)"

text \<open>The REST call that answers the waiting task of chain \<open>i\<close>, and the task's next step.\<close>

definition answer_fetch :: "('w, 's) session_env \<Rightarrow> bool \<Rightarrow> nat \<Rightarrow> ('w, 's) session \<Rightarrow> ('w, 's) session option" where
  "answer_fetch env own i s =
     (case ch_running (chains (s_sync s) ! i) of
        None \<Rightarrow> Some s
      | Some f \<Rightarrow>
          let (after, limit) = frame_request f;
              (r, s1) = run_rest (listMessages (rest_env env) (ch_conversation (chains (s_sync s) ! i))
                 \<lparr>lo_afterSequence = Some after, lo_limit = Some limit\<rparr>) s;
              answer = (case r of Inl e \<Rightarrow> Inl e | Inr v \<Rightarrow> messages_of_json v)
          in with_sync env own (resume_task (se_storage env) i answer (s_sync s1)) s1)"

definition run_next :: "('w, 's) session_env \<Rightarrow> nat \<Rightarrow> ('w, 's) session \<Rightarrow> ('w, 's) session option" where
  "run_next env i s = with_sync env False (start_task (se_storage env) i (s_sync s)) s"

section \<open>The registry of conversations\<close>

definition rememberKind :: "jstr \<Rightarrow> conversation_kind \<Rightarrow> ('w, 's) session \<Rightarrow> ('w, 's) session" where
  "rememberKind conversationId kind s = s\<lparr>conversationKinds := AList.update conversationId kind (conversationKinds s)\<rparr>"

definition conversationFor ::
  "jstr \<Rightarrow> conversation_kind \<Rightarrow> jstr option \<Rightarrow> ('w, 's) session \<Rightarrow> conversation \<times> ('w, 's) session" where
  "conversationFor i kind title s =
     (case map_of (conversations s) i of
        Some existing \<Rightarrow> (existing, s)
      | None \<Rightarrow>
          let c = \<lparr>conv_id = i, conv_kind = kind, conv_title = (case kind of Direct \<Rightarrow> None | Group \<Rightarrow> title),
                   conv_listeners = []\<rparr>
          in (c, s\<lparr>conversations := AList.update i c (conversations s)\<rparr>))"

section \<open>Gateway events\<close>

definition handleEvent :: "('w, 's) session_env \<Rightarrow> gateway_event \<Rightarrow> ('w, 's) session \<Rightarrow> ('w, 's) session option" where
  "handleEvent env event s0 = do {
     s \<leftarrow> emit env EvEvent (ArgEvent event) s0;
     if ev_event event = js ''message.created'' then
       with_sync env False (handleMessageEvent event (s_sync s)) s
     else if ev_event event = js ''message.moderated'' then
       with_sync env True (handleMessageModeratedEvent event (s_sync s)) s
     else if ev_event event = js ''conversation.member_added'' then
       (let s1 = rememberKind (ev_conversation_id event) Group s
        in case ev_added_user_uuids event of
             Some us \<Rightarrow>
               if us = [] then Some s1
               else emit_both env (ev_conversation_id event) EvMembersAdded
                      (ArgAdded (ev_conversation_id event) us event) s1
           | None \<Rightarrow> Some s1)
     else if ev_event event = js ''conversation.member_removed'' then
       (let s1 = rememberKind (ev_conversation_id event) Group s
        in case ev_removed_user_uuid event of
             Some u \<Rightarrow> emit_both env (ev_conversation_id event) EvMembersRemoved
                         (ArgRemoved (ev_conversation_id event) u event) s1
           | None \<Rightarrow> Some s1)
     else Some s }"

text \<open>The callbacks the session gives to the gateway client.\<close>

fun gateway_callback :: "('w, 's) session_env \<Rightarrow> gateway_effect \<Rightarrow> ('w, 's) session \<Rightarrow> ('w, 's) session option" where
  "gateway_callback env (OnEvent frame) s = handleEvent env (event_of_json frame) s"
| "gateway_callback env (OnStatus status) s = emit env EvStatus (ArgStatus status) (s\<lparr>s_status := status\<rparr>)"
| "gateway_callback env OnReady s = with_sync env True (resyncAll (s_sync s)) s"
| "gateway_callback env (OnError m) s = emit env EvError (ArgError (JsError m)) s"
| "gateway_callback env _ s = Some s"

fun gateway_callbacks :: "('w, 's) session_env \<Rightarrow> gateway_effect list \<Rightarrow> ('w, 's) session \<Rightarrow> ('w, 's) session option" where
  "gateway_callbacks env [] s = Some s"
| "gateway_callbacks env (x # xs) s = do { s1 \<leftarrow> gateway_callback env x s; gateway_callbacks env xs s1 }"

text \<open>Installing the gateway client after a step from \<open>g\<close>, and running the callbacks of that step.\<close>

definition with_gateway :: "('w, 's) session_env \<Rightarrow> gateway \<Rightarrow> gateway \<Rightarrow> ('w, 's) session \<Rightarrow> ('w, 's) session option" where
  "with_gateway env g g' s =
     gateway_callbacks env (drop (length (g_effects g)) (g_effects g')) (set_gateway (Some g') s)"

text \<open>The gateway's own \<open>getCredential\<close> sets the credential of the REST client, too.\<close>

definition gateway_refresh :: "('w, 's) session_env \<Rightarrow> ('w, 's) session \<Rightarrow> ('w, 's) session option" where
  "gateway_refresh env s =
     (case (se_getCredential env, gateway_of s) of
        (Some get, Some g) \<Rightarrow>
          (case get (fst (world (s_rest s))) of
             (answer, w) \<Rightarrow>
               let h = s_rest s;
                   h1 = h\<lparr>world := (w, Some g),
                          client := (case answer of Inr fresh \<Rightarrow> setCredential fresh (client h) | Inl e \<Rightarrow> client h)\<rparr>
               in with_gateway env g (refreshCredential answer g) (s\<lparr>s_rest := h1\<rparr>))
      | _ \<Rightarrow> Some s)"

section \<open>Realtime\<close>

definition session_connect ::
  "('w, 's) session_env \<Rightarrow> exn option \<Rightarrow> ('w, 's) session \<Rightarrow> (exn option \<times> ('w, 's) session) option" where
  "session_connect env thrown s =
     (case gateway_of s of
        None \<Rightarrow> do {
          s1 \<leftarrow> emit env EvError (ArgError (IMErr (IMError (-1) (js ''No wsUrl configured; realtime is disabled'') 0))) s;
          Some (None, s1) }
      | Some g \<Rightarrow>
          let (ex, g') = gw_connect thrown g
          in do { s1 \<leftarrow> with_gateway env g g' (s\<lparr>wantConnected := True\<rparr>); Some (ex, s1) })"

definition disconnect :: "('w, 's) session_env \<Rightarrow> ('w, 's) session \<Rightarrow> ('w, 's) session option" where
  "disconnect env s =
     (case gateway_of s of
        None \<Rightarrow> Some (s\<lparr>wantConnected := False\<rparr>)
      | Some g \<Rightarrow> do {
          s1 \<leftarrow> with_gateway env g (gw_close g) (s\<lparr>wantConnected := False\<rparr>);
          Some (s1\<lparr>s_status := Closed\<rparr>) })"

text \<open>The \<open>onShow\<close> callback.\<close>

definition onShow ::
  "('w, 's) session_env \<Rightarrow> exn option \<Rightarrow> ('w, 's) session \<Rightarrow> (exn option \<times> ('w, 's) session) option" where
  "onShow env thrown s =
     (case gateway_of s of
        Some g \<Rightarrow>
          if wantConnected s then
            let (ex, g') = gw_connect thrown g in do { s1 \<leftarrow> with_gateway env g g' s; Some (ex, s1) }
          else Some (None, s)
      | None \<Rightarrow> Some (None, s))"

definition connectionStatus :: "('w, 's) session \<Rightarrow> connection_status" where
  "connectionStatus s = s_status s"

definition isOnline :: "('w, 's) session \<Rightarrow> bool" where
  "isOnline s = (case gateway_of s of Some g \<Rightarrow> gw_isOnline g | None \<Rightarrow> False)"

definition session_setCredential :: "jstr \<Rightarrow> ('w, 's) session \<Rightarrow> ('w, 's) session" where
  "session_setCredential cred s =
     set_gateway (map_option (gw_setCredential cred) (gateway_of s))
       (s\<lparr>s_rest := (s_rest s)\<lparr>client := setCredential cred (client (s_rest s))\<rparr>\<rparr>)"

section \<open>The constructor\<close>

record im_options =
  io_apiUrl :: jstr
  io_wsUrl :: "jstr option"
  io_credential :: jstr
  io_adapter :: bool
  io_timeoutMs :: "int option"
  io_pingIntervalMs :: "int option"
  io_persistSequences :: "bool option"
  io_autoConnect :: bool

text \<open>\<open>storage\<close> is the adapter's store, if it has one; an empty \<open>wsUrl\<close> is no \<open>wsUrl\<close>.\<close>

definition newAirwayIM ::
  "('w, 's) session_env \<Rightarrow> im_options \<Rightarrow> 's option \<Rightarrow> exn option \<Rightarrow> 'w \<Rightarrow> (exn + ('w, 's) session) option" where
  "newAirwayIM env options storage thrown w =
     (if \<not> io_adapter options then Some (Inl (JsError (js ''createClient requires an explicit adapter'')))
      else
        let gw = (case io_wsUrl options of
                    None \<Rightarrow> None
                  | Some u \<Rightarrow>
                      if u = [] then None
                      else Some (newGatewaySocket u (io_credential options) (io_pingIntervalMs options)
                                   (se_getCredential env \<noteq> None)));
            s = \<lparr>s_rest = \<lparr>client = newHttpClient (io_apiUrl options) (io_credential options) (io_timeoutMs options),
                           world = (w, gw), trace = []\<rparr>,
                 s_sync = newSyncEngine (se_storage env)
                   (if io_persistSequences options = Some False then None else storage) None,
                 s_listeners = [], s_status = Closed, wantConnected = False, conversationKinds = [],
                 conversations = [], s_calls = []\<rparr>
        in if io_autoConnect options then do {
             (ex, s1) \<leftarrow> session_connect env thrown s;
             Some (case ex of Some e \<Rightarrow> Inl e | None \<Rightarrow> Inr s1) }
           else Some (Inr s))"

section \<open>REST passthrough\<close>

text \<open>Reading \<open>id\<close> of an answer: a \<open>TypeError\<close> on \<open>undefined\<close> and \<open>null\<close>.\<close>

definition summary_id :: "json option \<Rightarrow> exn + jstr" where
  "summary_id v =
     (case v of
        None \<Rightarrow> Inl (JsError (js ''Cannot read properties of undefined''))
      | Some x \<Rightarrow> if x = JNull then Inl (JsError (js ''Cannot read properties of null''))
                 else Inr (text_of (jget (js ''id'') x)))"

definition session_me :: "('w, 's) session_env \<Rightarrow> ('w, 's) session \<Rightarrow> (exn + json option) \<times> ('w, 's) session" where
  "session_me env s = run_rest (me (rest_env env)) s"

definition session_listGroups ::
  "('w, 's) session_env \<Rightarrow> ('w, 's) session \<Rightarrow> (exn + json option) \<times> ('w, 's) session" where
  "session_listGroups env s =
     (case run_rest (listGroups (rest_env env)) s of
        (Inr (Some (JArr vs)), s1) \<Rightarrow>
          (Inr (Some (JArr vs)), foldl (\<lambda>s v. rememberKind (text_of (jget (js ''id'') v)) Group s) s1 vs)
      | (Inr v, s1) \<Rightarrow> (Inl (JsError (js ''conversations is not iterable'')), s1)
      | (Inl e, s1) \<Rightarrow> (Inl e, s1))"

text \<open>The object for an answered conversation.\<close>

definition conversation_of_answer ::
  "conversation_kind \<Rightarrow> jstr option \<Rightarrow> (exn + json option) \<times> ('w, 's) session \<Rightarrow> (exn + conversation) \<times> ('w, 's) session" where
  "conversation_of_answer kind title rs =
     (case rs of
        (Inl e, s) \<Rightarrow> (Inl e, s)
      | (Inr v, s) \<Rightarrow>
          (case summary_id v of
             Inl e \<Rightarrow> (Inl e, s)
           | Inr i \<Rightarrow> let (c, s1) = conversationFor i kind title (rememberKind i kind s) in (Inr c, s1)))"

definition session_createDirect ::
  "('w, 's) session_env \<Rightarrow> jstr \<Rightarrow> ('w, 's) session \<Rightarrow> (exn + conversation) \<times> ('w, 's) session" where
  "session_createDirect env other s =
     conversation_of_answer Direct None (run_rest (createDirect (rest_env env) other) s)"

definition session_getDirect ::
  "('w, 's) session_env \<Rightarrow> jstr \<Rightarrow> ('w, 's) session \<Rightarrow> (exn + conversation option) \<times> ('w, 's) session" where
  "session_getDirect env other s =
     (case run_rest (getDirect (rest_env env) other) s of
        (Inl e, s1) \<Rightarrow> (Inl e, s1)
      | (Inr v, s1) \<Rightarrow>
          if (case v of None \<Rightarrow> True | Some x \<Rightarrow> \<not> truthy x) then (Inr None, s1)
          else (case conversation_of_answer Direct None (Inr v, s1) of
              (Inl e, s2) \<Rightarrow> (Inl e, s2)
            | (Inr c, s2) \<Rightarrow> (Inr (Some c), s2)))"

definition session_createGroup ::
  "('w, 's) session_env \<Rightarrow> jstr option \<Rightarrow> jstr list \<Rightarrow> ('w, 's) session \<Rightarrow> (exn + conversation) \<times> ('w, 's) session" where
  "session_createGroup env title members s =
     (case run_rest (createGroup (rest_env env) title members) s of
        (r, s1) \<Rightarrow> conversation_of_answer Group
          (case r of Inr (Some v) \<Rightarrow> nullable (jget (js ''title'') v) | _ \<Rightarrow> None) (r, s1))"

definition kind_of_text :: "jstr \<Rightarrow> conversation_kind" where
  "kind_of_text t = (if t = js ''direct'' then Direct else Group)"

definition openConversation ::
  "('w, 's) session_env \<Rightarrow> jstr \<Rightarrow> ('w, 's) session \<Rightarrow> (exn + conversation) \<times> ('w, 's) session" where
  "openConversation env conversationId s =
     (case map_of (conversations s) conversationId of
        Some existing \<Rightarrow> (Inr existing, s)
      | None \<Rightarrow>
          (case map_of (conversationKinds s) conversationId of
             Some kind \<Rightarrow> let (c, s1) = conversationFor conversationId kind None s in (Inr c, s1)
           | None \<Rightarrow>
               (case run_rest (getConversation (rest_env env) conversationId) s of
                  (Inl e, s1) \<Rightarrow> (Inl e, s1)
                | (Inr None, s1) \<Rightarrow> (Inl (JsError (js ''Cannot read properties of undefined'')), s1)
                | (Inr (Some v), s1) \<Rightarrow>
                    if v = JNull then (Inl (JsError (js ''Cannot read properties of null'')), s1)
                    else
                      let kind = kind_of_text (text_of (jget (js ''type'') v));
                          s2 = rememberKind (text_of (jget (js ''conversation_uuid'') v)) kind s1;
                          (c, s3) = conversationFor conversationId kind None s2
                      in (Inr c, s3))))"

definition session_addMembers ::
  "('w, 's) session_env \<Rightarrow> jstr \<Rightarrow> jstr list \<Rightarrow> ('w, 's) session \<Rightarrow> (exn + json option) \<times> ('w, 's) session" where
  "session_addMembers env conversationId members s =
     run_rest (addMembers (rest_env env) conversationId members) (rememberKind conversationId Group s)"

definition session_removeMembers ::
  "('w, 's) session_env \<Rightarrow> jstr \<Rightarrow> jstr list \<Rightarrow> ('w, 's) session \<Rightarrow> (exn + json option) \<times> ('w, 's) session" where
  "session_removeMembers env conversationId users s =
     run_rest (removeMembers (rest_env env) conversationId users) (rememberKind conversationId Group s)"

section \<open>Messages\<close>

definition history :: "jstr \<Rightarrow> int option \<Rightarrow> int option \<Rightarrow> ('w, 's) session \<Rightarrow> ('w, 's) session" where
  "history conversationId fromSequence limit s =
     s\<lparr>s_sync := fetchFrom conversationId
        \<lparr>fo_fromSequence = fromSequence, fo_limit = limit, fo_maxPages = None\<rparr> (s_sync s)\<rparr>"

definition session_listMessages ::
  "('w, 's) session_env \<Rightarrow> jstr \<Rightarrow> list_options \<Rightarrow> ('w, 's) session \<Rightarrow> (exn + json option) \<times> ('w, 's) session" where
  "session_listMessages env conversationId options s = run_rest (listMessages (rest_env env) conversationId options) s"

text \<open>\<open>track(conversationId, message.sequence)\<close> after a send.\<close>

definition track_sent ::
  "('w, 's) session_env \<Rightarrow> jstr \<Rightarrow> (exn + json option) \<times> ('w, 's) session \<Rightarrow> (exn + json) \<times> ('w, 's) session" where
  "track_sent env conversationId rs =
     (case rs of
        (Inl e, s) \<Rightarrow> (Inl e, s)
      | (Inr None, s) \<Rightarrow> (Inl (JsError (js ''Cannot read properties of undefined'')), s)
      | (Inr (Some v), s) \<Rightarrow>
          if v = JNull then (Inl (JsError (js ''Cannot read properties of null'')), s)
          else (Inr v, s\<lparr>s_sync := track (se_storage env) conversationId (msg_sequence (message_of_json v)) (s_sync s)\<rparr>))"

definition sendGroupMessage ::
  "('w, 's) session_env \<Rightarrow> nat \<times> nat list \<Rightarrow> jstr \<Rightarrow> jstr \<Rightarrow> send_options \<Rightarrow> ('w, 's) session
   \<Rightarrow> (exn + json) \<times> ('w, 's) session" where
  "sendGroupMessage env rnd conversationId content options s =
     track_sent env conversationId
       (run_rest (sendMessage (rest_env env) rnd conversationId content options) (rememberKind conversationId Group s))"

definition session_sendDirectMessage ::
  "('w, 's) session_env \<Rightarrow> nat \<times> nat list \<Rightarrow> jstr \<Rightarrow> jstr \<Rightarrow> send_options \<Rightarrow> ('w, 's) session
   \<Rightarrow> (exn + json) \<times> ('w, 's) session" where
  "session_sendDirectMessage env rnd other content options s =
     (case session_createDirect env other s of
        (Inl e, s1) \<Rightarrow> (Inl e, s1)
      | (Inr c, s1) \<Rightarrow>
          track_sent env (conv_id c) (run_rest (sendMessage (rest_env env) rnd (conv_id c) content options) s1))"

definition session_lastSequence :: "('w, 's) session \<Rightarrow> jstr \<Rightarrow> int" where
  "session_lastSequence s conversationId = lastSequence (s_sync s) conversationId"

definition forgetConversation :: "('w, 's) session_env \<Rightarrow> jstr \<Rightarrow> ('w, 's) session \<Rightarrow> ('w, 's) session" where
  "forgetConversation env conversationId s =
     s\<lparr>s_sync := forget (se_storage env) conversationId (s_sync s),
       conversationKinds := AList.delete conversationId (conversationKinds s)\<rparr>"

definition ensureTracked :: "jstr \<Rightarrow> ('w, 's) session \<Rightarrow> ('w, 's) session" where
  "ensureTracked conversationId s =
     (if isTracked (s_sync s) conversationId then s else history conversationId None None s)"

definition session_uploadFile ::
  "('w, 's) session_env \<Rightarrow> file_input \<Rightarrow> jstr option \<Rightarrow> ('w, 's) session \<Rightarrow> (exn + json) \<times> ('w, 's) session" where
  "session_uploadFile env file dir s = run_rest (uploadFile (rest_env env) file dir) s"

definition session_storageUrl :: "('w, 's) session \<Rightarrow> jstr \<Rightarrow> jstr option" where
  "session_storageUrl s key = storageUrl (client (s_rest s)) key"

section \<open>Conversation objects\<close>

definition conversation_on :: "jstr \<Rightarrow> event_name \<Rightarrow> nat \<Rightarrow> ('w, 's) session \<Rightarrow> ('w, 's) session" where
  "conversation_on i ev l s =
     (case map_of (conversations s) i of
        None \<Rightarrow> s
      | Some c \<Rightarrow>
          let old = listeners_of (conv_listeners c) ev;
              c1 = c\<lparr>conv_listeners := AList.update ev (set_add l old) (conv_listeners c)\<rparr>;
              s1 = s\<lparr>conversations := AList.update i c1 (conversations s)\<rparr>
          in if old = [] \<and> ev = EvMessage then ensureTracked (conv_id c) s1 else s1)"

definition conversation_off :: "jstr \<Rightarrow> event_name \<Rightarrow> nat \<Rightarrow> ('w, 's) session \<Rightarrow> ('w, 's) session" where
  "conversation_off i ev l s =
     (case map_of (conversations s) i of
        None \<Rightarrow> s
      | Some c \<Rightarrow>
          (case map_of (conv_listeners c) ev of
             None \<Rightarrow> s
           | Some xs \<Rightarrow>
               s\<lparr>conversations := AList.update i
                  (c\<lparr>conv_listeners := AList.update ev (set_delete l xs) (conv_listeners c)\<rparr>) (conversations s)\<rparr>))"

definition conversation_history :: "conversation \<Rightarrow> int option \<Rightarrow> int option \<Rightarrow> ('w, 's) session \<Rightarrow> ('w, 's) session" where
  "conversation_history c fromSequence limit s = history (conv_id c) fromSequence limit s"

definition conversation_send ::
  "('w, 's) session_env \<Rightarrow> nat \<times> nat list \<Rightarrow> conversation \<Rightarrow> jstr \<Rightarrow> send_options \<Rightarrow> ('w, 's) session
   \<Rightarrow> (exn + json option) \<times> ('w, 's) session" where
  "conversation_send env rnd c content options s =
     run_rest (sendMessage (rest_env env) rnd (conv_id c) content options) s"

definition details :: "('w, 's) session_env \<Rightarrow> conversation \<Rightarrow> ('w, 's) session \<Rightarrow> (exn + json option) \<times> ('w, 's) session" where
  "details env c s = run_rest (getConversation (rest_env env) (conv_id c)) s"

definition conversation_lastSequence :: "conversation \<Rightarrow> ('w, 's) session \<Rightarrow> int" where
  "conversation_lastSequence c s = session_lastSequence s (conv_id c)"

definition conversation_forget :: "('w, 's) session_env \<Rightarrow> conversation \<Rightarrow> ('w, 's) session \<Rightarrow> ('w, 's) session" where
  "conversation_forget env c s = forgetConversation env (conv_id c) s"

definition conversation_addMembers ::
  "('w, 's) session_env \<Rightarrow> conversation \<Rightarrow> jstr list \<Rightarrow> ('w, 's) session \<Rightarrow> (exn + json option) \<times> ('w, 's) session" where
  "conversation_addMembers env c members s = session_addMembers env (conv_id c) members s"

definition conversation_removeMembers ::
  "('w, 's) session_env \<Rightarrow> conversation \<Rightarrow> jstr list \<Rightarrow> ('w, 's) session \<Rightarrow> (exn + json option) \<times> ('w, 's) session" where
  "conversation_removeMembers env c users s = session_removeMembers env (conv_id c) users s"

section \<open>Emission\<close>

text \<open>What one listener does to the log when the \<open>error\<close> listeners do not throw.\<close>

definition listener_calls :: "behaviour \<Rightarrow> listeners \<Rightarrow> event_arg \<Rightarrow> nat \<Rightarrow> (nat \<times> event_arg) list" where
  "listener_calls beh ls a l =
     (l, a) # (case beh l a of None \<Rightarrow> [] | Some e \<Rightarrow> map (\<lambda>k. (k, ArgError e)) (listeners_of ls EvError))"

definition calm :: "behaviour \<Rightarrow> listeners \<Rightarrow> bool" where
  "calm beh ls \<longleftrightarrow> (\<forall>k \<in> set (listeners_of ls EvError). \<forall>e. beh k (ArgError e) = None)"

lemma emit_calls_silent:
  "\<forall>l \<in> set xs. beh l a = None \<Longrightarrow> emit_calls beh ls n xs a = Some (map (\<lambda>l. (l, a)) xs)"
  by (induction xs) simp_all

lemma emit_calls_calm:
  assumes "calm beh ls" "0 < n"
  shows "emit_calls beh ls n xs a = Some (concat (map (listener_calls beh ls a) xs))"
proof (induction xs)
  case (Cons l xs)
  obtain m where n: "n = Suc m" using assms(2) by (cases n) auto
  have errs: "emit_calls beh ls m (listeners_of ls EvError) (ArgError e)
      = Some (map (\<lambda>k. (k, ArgError e)) (listeners_of ls EvError))" for e
    using assms(1) by (intro emit_calls_silent) (simp add: calm_def)
  show ?case using Cons.IH errs by (simp add: n listener_calls_def split: option.split)
qed simp

lemma emit_calm:
  assumes "calm (se_behaviour env) (s_listeners s)" "0 < se_stack env"
  shows "emit env ev a s = Some (s\<lparr>s_calls := s_calls s @
    concat (map (listener_calls (se_behaviour env) (s_listeners s) a) (listeners_of (s_listeners s) ev))\<rparr>)"
  by (simp add: emit_def emit_calls_calm [OF assms])

text \<open>
A throwing listener does not break an emission: as long as the \<open>error\<close> listeners themselves do
not throw, \<open>emit\<close> returns, every listener of the event is called once in the order of registration,
and each error is handed to all \<open>error\<close> listeners before the next listener runs.
\<close>

theorem emit_survives_throwing_listeners:
  assumes "\<forall>k \<in> set (listeners_of (s_listeners s) EvError). \<forall>e. se_behaviour env k (ArgError e) = None"
    and "0 < se_stack env"
  shows "\<exists>s'. emit env ev a s = Some s' \<and> s'\<lparr>s_calls := s_calls s\<rparr> = s \<and>
    s_calls s' = s_calls s @ concat (map (\<lambda>l. (l, a) #
      (case se_behaviour env l a of
         None \<Rightarrow> []
       | Some e \<Rightarrow> map (\<lambda>k. (k, ArgError e)) (listeners_of (s_listeners s) EvError)))
      (listeners_of (s_listeners s) ev))"
proof -
  have "calm (se_behaviour env) (s_listeners s)" using assms(1) by (simp add: calm_def)
  from emit_calm [OF this assms(2)] show ?thesis by (simp add: listener_calls_def [abs_def])
qed

text \<open>
An \<open>error\<close> listener that throws whenever it is called makes every emission of \<open>error\<close> recurse
without end: no depth of the call stack is enough for \<open>emit\<close> to return.
\<close>

theorem throwing_error_listener_never_returns:
  assumes "k \<in> set (listeners_of (s_listeners s) EvError)" "\<forall>e. se_behaviour env k (ArgError e) \<noteq> None"
  shows "emit env EvError (ArgError e) s = None"
proof -
  let ?ls = "s_listeners s" and ?beh = "se_behaviour env"
  have nk: "?beh k (ArgError e) \<noteq> None" for e using assms(2) by blast
  have "emit_calls ?beh ?ls n xs (ArgError e) = None" if "k \<in> set xs" for n xs e
    using that
  proof (induction n arbitrary: xs e)
    case 0
    then show ?case
    proof (induction xs)
      case (Cons l xs)
      then show ?case using nk [of e] by (cases "?beh l (ArgError e)") auto
    qed simp
  next
    case (Suc n)
    then have errs: "emit_calls ?beh ?ls n (listeners_of ?ls EvError) (ArgError e') = None" for e'
      using assms(1) by blast
    show ?case using Suc.prems
    proof (induction xs)
      case (Cons l xs)
      then show ?case using nk [of e] errs by (cases "?beh l (ArgError e)") auto
    qed simp
  qed
  then show ?thesis using assms(1) by (simp add: emit_def)
qed

text \<open>A session without a gateway, and one listener of each kind, for the examples.\<close>

definition sample_env :: "behaviour \<Rightarrow> (unit, (jstr \<times> jstr) list) session_env" where
  "sample_env beh = \<lparr>se_request = (\<lambda>w rq. (Inl None, w)), se_getCredential = None, se_upload = None,
     se_storage = memory_storage, se_behaviour = beh, se_stack = 3\<rparr>"

definition sample_session :: "(unit, (jstr \<times> jstr) list) session" where
  "sample_session =
     \<lparr>s_rest = \<lparr>client = newHttpClient (js ''http://h'') (js ''c'') None, world = ((), None), trace = []\<rparr>,
      s_sync = sample_engine, s_listeners = [(EvMessage, [1, 2]), (EvError, [3])], s_status = Closed,
      wantConnected = False, conversationKinds = [], conversations = [], s_calls = []\<rparr>"

definition sample_beh :: behaviour where
  "sample_beh l a = (if l = 1 then Some (JsError (js ''boom'')) else None)"

lemma sample_listeners [simp]:
  "listeners_of (s_listeners sample_session) EvError = [3]"
  "listeners_of (s_listeners sample_session) EvMessage = [1, 2]" "s_calls sample_session = []"
  by (simp_all add: sample_session_def listeners_of_def)

theorem emit_survives_throwing_listeners_witness:
  "\<exists>s'. emit (sample_env sample_beh) EvMessage (ArgMessage (sample_message 1 1)) sample_session = Some s' \<and>
     s_calls s' = [(1, ArgMessage (sample_message 1 1)), (3, ArgError (JsError (js ''boom''))), (2, ArgMessage (sample_message 1 1))]"
  using emit_survives_throwing_listeners [of sample_session "sample_env sample_beh" EvMessage "ArgMessage (sample_message 1 1)"]
  by (simp add: sample_env_def sample_beh_def) blast

theorem throwing_error_listener_never_returns_witness:
  "emit (sample_env (\<lambda>l a. Some (JsError []))) EvError (ArgError (JsError (js ''x''))) sample_session = None"
  by (rule throwing_error_listener_never_returns [where k = 3]) (simp_all add: sample_env_def)

section \<open>Delivery to the listeners\<close>

lemma text_of_simps [simp]:
  "text_of (Some (JStr s)) = s" "nullable (Some (JStr s)) = Some s" "nullable (Some JNull) = None"
  by (simp_all add: text_of_def nullable_def)

lemma nullable_json_nullable [simp]: "nullable (Some (json_nullable s)) = s"
  by (simp add: json_nullable_def split: option.split)

lemma sender_of_json_of_sender [simp]: "sender_of_json (json_of_sender s) = s"
  by (cases s) (simp add: sender_of_json_def json_of_sender_def)

lemma message_of_json_of_message [simp]: "message_of_json (json_of_message m) = m"
  by (cases m; cases "msg_content_type m") (simp_all add: message_of_json_def json_of_message_def number_field_def)

lemma messages_of_json_of_messages [simp]:
  "messages_of_json (Some (JArr (map json_of_message ms))) = Inr ms"
  by (simp add: messages_of_json_def comp_def)

definition local_listeners :: "('w, 's) session \<Rightarrow> jstr \<Rightarrow> event_name \<Rightarrow> nat list" where
  "local_listeners s c ev =
     (case map_of (conversations s) c of Some o' \<Rightarrow> listeners_of (conv_listeners o') ev | None \<Rightarrow> [])"

lemma emitLocal_loop_silent:
  "\<forall>l a. se_behaviour env l a = None \<Longrightarrow>
   emitLocal_loop env xs a s = Some (s\<lparr>s_calls := s_calls s @ map (\<lambda>l. (l, a)) xs\<rparr>)"
  by (induction xs arbitrary: s) simp_all

lemma emit_both_silent:
  assumes "\<forall>l a. se_behaviour env l a = None"
  shows "emit_both env c ev a s = Some (s\<lparr>s_calls := s_calls s @
    map (\<lambda>l. (l, a)) (listeners_of (s_listeners s) ev @ local_listeners s c ev)\<rparr>)"
  using assms emitLocal_loop_silent [OF assms]
  by (simp add: emit_both_def emit_def emit_calls_silent emitLocal_def local_listeners_def split: option.split)

definition message_calls :: "('w, 's) session \<Rightarrow> chat_message \<Rightarrow> (nat \<times> event_arg) list" where
  "message_calls s m = map (\<lambda>l. (l, ArgMessage m))
     (listeners_of (s_listeners s) EvMessage @ local_listeners s (msg_conversation_id m) EvMessage)"

lemma onMessages_silent:
  assumes "\<forall>l a. se_behaviour env l a = None"
  shows "onMessages env ms s = Some (s\<lparr>s_calls := s_calls s @ concat (map (message_calls s) ms)\<rparr>)"
proof (induction ms arbitrary: s)
  case (Cons m ms)
  have "message_calls (s\<lparr>s_calls := cs\<rparr>) = message_calls s" for cs
    by (simp add: message_calls_def local_listeners_def fun_eq_iff)
  then show ?case using Cons.IH by (simp add: emit_both_silent [OF assms]) (simp add: message_calls_def)
qed simp

lemma run_rest_frame:
  "run_rest f s = (r, s1) \<Longrightarrow> s_sync s1 = s_sync s \<and> s_listeners s1 = s_listeners s \<and>
     conversations s1 = conversations s \<and> s_calls s1 = s_calls s \<and> conversationKinds s1 = conversationKinds s"
  by (auto simp: run_rest_def split_def Let_def)

text \<open>What a fetch reports when a page arrives.\<close>

lemma resume_reports:
  assumes "i < length (chains st)" "ch_running (chains st ! i) = Some (Fetching l f mp p all)" "ms \<noteq> []"
  shows "\<exists>x. outs (resume_task sa i (Inr ms) st) = outs st @ [OnMessages ms, x] \<and>
    ((\<exists>c ms. x = Fetched c ms) \<or> (\<exists>c a l. x = ListMessages c a l))"
  using assms by (simp add: resume_task_def Let_def fetch_page_def)

text \<open>
From the REST answer to the application: when the backend answers the page a fetch waits for, every
message of the page is handed, in the order of the page, to each \<open>message\<close> listener of the
session and then to each \<open>message\<close> listener of its conversation object, exactly once.
\<close>

theorem page_reaches_listeners:
  assumes "i < length (chains (s_sync s))"
    and "ch_running (chains (s_sync s) ! i) = Some (Fetching limit frm maxPages page all)"
    and "run_rest (listMessages (rest_env env) (ch_conversation (chains (s_sync s) ! i))
           \<lparr>lo_afterSequence = Some frm, lo_limit = Some limit\<rparr>) s
         = (Inr (Some (JArr (map json_of_message ms))), s1)"
    and "\<forall>l a. se_behaviour env l a = None"
  shows "\<exists>s'. answer_fetch env own i s = Some s' \<and>
    s_calls s' = s_calls s @ concat (map (\<lambda>m. map (\<lambda>l. (l, ArgMessage m))
      (listeners_of (s_listeners s) EvMessage @
       (case map_of (conversations s) (msg_conversation_id m) of
          Some c \<Rightarrow> listeners_of (conv_listeners c) EvMessage
        | None \<Rightarrow> []))) ms)"
proof -
  have frame: "s_sync s1 = s_sync s" "s_listeners s1 = s_listeners s" "conversations s1 = conversations s"
    "s_calls s1 = s_calls s"
    using run_rest_frame [OF assms(3)] by simp_all
  let ?st = "resume_task (se_storage env) i (Inr ms) (s_sync s1)"
  have ans: "answer_fetch env own i s = with_sync env own ?st s1"
    using assms(2,3) by (simp add: answer_fetch_def)
  have calls: "message_calls (s1\<lparr>s_sync := y\<rparr>) = (\<lambda>m. map (\<lambda>l. (l, ArgMessage m))
      (listeners_of (s_listeners s) EvMessage @
       (case map_of (conversations s) (msg_conversation_id m) of
          Some c \<Rightarrow> listeners_of (conv_listeners c) EvMessage | None \<Rightarrow> [])))" for y
    by (simp add: message_calls_def local_listeners_def frame fun_eq_iff)
  show ?thesis
  proof (cases "ms = []")
    case True
    have "outs ?st = outs (s_sync s1) @ [Fetched (ch_conversation (chains (s_sync s) ! i)) all]"
      using assms(1,2) True by (simp add: resume_task_def Let_def frame(1))
    then show ?thesis using True frame by (simp add: ans with_sync_def)
  next
    case False
    obtain x where x: "outs ?st = outs (s_sync s1) @ [OnMessages ms, x]"
        "(\<exists>c ms. x = Fetched c ms) \<or> (\<exists>c a l. x = ListMessages c a l)"
      using resume_reports [OF _ _ False] assms(1,2) frame(1) by metis
    then have "sync_report env own x s' = Some s'" for s' by auto
    then show ?thesis
      using onMessages_silent [OF assms(4)] frame x(1) by (simp add: ans with_sync_def calls)
  qed
qed

text \<open>A session whose backend answers every request with the sample log.\<close>

definition sample_backend :: "(unit, (jstr \<times> jstr) list) session_env" where
  "sample_backend = (sample_env (\<lambda>l a. None))
     \<lparr>se_request := (\<lambda>w rq. (Inr (ok_response (JArr (map json_of_message sample_log))), w))\<rparr>"

definition sample_fetching :: "(unit, (jstr \<times> jstr) list) session" where
  "sample_fetching = sample_session\<lparr>s_sync := start_task memory_storage 0 (fetchFrom [99] no_fetch_options sample_engine)\<rparr>"

lemma sample_fetching_chain:
  "length (chains (s_sync sample_fetching)) = 1" "ch_conversation (chains (s_sync sample_fetching) ! 0) = [99]"
  "ch_running (chains (s_sync sample_fetching) ! 0) = Some (Fetching 200 0 10 0 [])"
  by (simp_all add: sample_fetching_def sync_eval no_fetch_options_def PAGE_LIMIT_def MAX_SYNC_PAGES_def)

lemma encode_sample [simp]: "encodeURIComponent [99] = Some [99]"
  by (rule encodeURIComponent_plain) (simp add: uri_unreserved_def)

lemma request_once_ok:
  "requestOnce env meth path opts st = (Inr v, st1) \<Longrightarrow> request env meth path opts st = (Inr v, st1)"
  by (simp add: request_def)

lemma sample_list_messages:
  "\<exists>s1. run_rest (listMessages (rest_env sample_backend) [99] \<lparr>lo_afterSequence = Some 0, lo_limit = Some 200\<rparr>) s
     = (Inr (Some (JArr (map json_of_message sample_log))), s1)"
proof -
  let ?q = "[(js ''after_sequence'', Some (QNumber 0)), (js ''limit'', Some (QNumber 200))]"
  let ?o = "no_options\<lparr>op_query := Some ?q\<rparr>" and ?h = "s_rest s"
  have "\<exists>u. buildUrl b p (Some ?q) = Some u" for b p
    by (simp add: buildUrl_def encodeURIComponent_show_int) (simp add: js_def encodeURIComponent_plain uri_unreserved_def)
  then obtain u where u: "buildUrl (baseUrl (client ?h)) p (Some ?q) = Some (u p)" for p by metis
  have "fst (requestOnce (rest_env sample_backend) GET p ?o ?h) = Inr (Some (JArr (map json_of_message sample_log)))" for p
    by (simp add: requestOnce_def u rest_env_def sample_backend_def Let_def split_def)
  then have "requestOnce (rest_env sample_backend) GET p ?o ?h =
      (Inr (Some (JArr (map json_of_message sample_log))), snd (requestOnce (rest_env sample_backend) GET p ?o ?h))" for p
    by (intro prod_eqI) simp_all
  from request_once_ok [OF this]
  have "fst (request (rest_env sample_backend) GET p ?o ?h) = Inr (Some (JArr (map json_of_message sample_log)))" for p
    by simp
  then show ?thesis
    by (simp add: run_rest_def listMessages_def request_encoded_def Let_def split_def)
qed

theorem page_reaches_listeners_witness:
  "\<exists>s'. answer_fetch sample_backend False 0 sample_fetching = Some s' \<and>
     s_calls s' = concat (map (\<lambda>m. [(1, ArgMessage m), (2, ArgMessage m)]) sample_log)"
proof -
  obtain s1 where s1: "run_rest (listMessages (rest_env sample_backend) [99] \<lparr>lo_afterSequence = Some 0, lo_limit = Some 200\<rparr>) sample_fetching
     = (Inr (Some (JArr (map json_of_message sample_log))), s1)"
    using sample_list_messages by blast
  have "s_listeners sample_fetching = s_listeners sample_session" "conversations sample_fetching = []" "s_calls sample_fetching = []"
    by (simp_all add: sample_fetching_def sample_session_def)
  then show ?thesis
    using page_reaches_listeners [of 0 sample_fetching 200 0 10 0 "[]" sample_backend sample_log s1 False] s1 sample_fetching_chain
    by (simp add: sample_backend_def sample_env_def)
qed

section \<open>Conversation objects are shared\<close>

lemma conversationFor_cached:
  "conversationFor i kind title s = (c, s1) \<Longrightarrow> map_of (conversations s1) i = Some c"
  by (auto simp: conversationFor_def Let_def AList.update_conv' split: option.splits)

text \<open>
Opening a conversation twice yields one object: once \<open>openConversation\<close> has resolved, opening the same
id again resolves to the same object, changes nothing and sends no request.
\<close>

theorem openConversation_cached:
  assumes "openConversation env i s = (Inr c, s1)"
  shows "openConversation env' i s1 = (Inr c, s1)"
proof -
  have "map_of (conversations s1) i = Some c"
    using assms
    by (auto simp: openConversation_def Let_def split_def split: option.splits prod.splits sum.splits if_splits
        intro: conversationFor_cached [OF surjective_pairing])
  then show ?thesis by (simp add: openConversation_def)
qed

definition sample_group :: "(unit, (jstr \<times> jstr) list) session" where
  "sample_group = rememberKind [99] Group sample_session"

theorem openConversation_cached_witness:
  "\<exists>c s1. openConversation (sample_env sample_beh) [99] sample_group = (Inr c, s1) \<and>
     openConversation (sample_env sample_beh) [99] s1 = (Inr c, s1) \<and> conv_kind c = Group"
proof -
  have "\<exists>c s1. openConversation (sample_env sample_beh) [99] sample_group = (Inr c, s1) \<and> conv_kind c = Group"
    by (simp add: openConversation_def sample_group_def rememberKind_def sample_session_def conversationFor_def Let_def)
  then show ?thesis using openConversation_cached by blast
qed

section \<open>Sending\<close>

text \<open>A default drain of the conversation of an idle chain.\<close>

definition drain_now :: "'s storage_adapter \<Rightarrow> chat_message list \<Rightarrow> nat \<Rightarrow> jstr \<Rightarrow> 's sync_state \<Rightarrow> 's sync_state" where
  "drain_now sa log i c st =
     (serve sa server_page log i ^^ 10) (start_task sa i (fetchFrom c no_fetch_options st))"

definition idle_chain :: "'s sync_state \<Rightarrow> jstr \<Rightarrow> nat \<Rightarrow> bool" where
  "idle_chain st c i \<longleftrightarrow> map_of (queues st) c = Some i \<and> i < length (chains st) \<and>
     ch_conversation (chains st ! i) = c \<and> ch_running (chains st ! i) = None \<and> ch_waiting (chains st ! i) = []"

lemma drain_now_emissions:
  assumes "idle_chain st c i" "sorted_log log"
  shows "emissions (outs (drain_now sa log i c st)) =
    emissions (outs st) @ take 2000 (pending log (lastSequence st c))"
proof -
  let ?st = "fetchFrom c no_fetch_options st"
  have st: "i < length (chains ?st)" "ch_running (chains ?st ! i) = None"
    "ch_waiting (chains ?st ! i) = [FetchTask no_fetch_options]" "ch_conversation (chains ?st ! i) = c"
    "lastSeq ?st = lastSeq st" "outs ?st = outs st"
    using assms(1) by (simp_all add: idle_chain_def fetchFrom_def enqueue_def)
  have o': "fetch_limit no_fetch_options = 200" "fetch_pages no_fetch_options = 10"
    "fetch_start ?st c no_fetch_options = lastSequence st c"
    using lastSequence_cong [OF st(5)]
    by (simp_all add: fetch_limit_def fetch_pages_def fetch_start_def no_fetch_options_def PAGE_LIMIT_def MAX_SYNC_PAGES_def)
  have "drained sa i (lastSequence st c) [] (take (nat 10 * nat 200) (pending log (lastSequence st c)))
      (?st\<lparr>chains := (chains ?st)[i := (chains ?st ! i)\<lparr>ch_waiting := []\<rparr>]\<rparr>)
      ((serve sa server_page log i ^^ nat 10) (start_task sa i ?st))"
    using fetch_drained [OF st(1-3), of log sa] assms(2) unfolding o' st(4) by simp
  then show ?thesis by (simp add: drain_now_def drained_def Let_def st(6))
qed

lemma sendGroupMessage_sync:
  assumes "sendGroupMessage env rnd c content options s = (Inr v, s1)"
  shows "s_sync s1 = track (se_storage env) c (msg_sequence (message_of_json v)) (s_sync s)"
proof -
  obtain r s2 where r: "run_rest (sendMessage (rest_env env) rnd c content options) (rememberKind c Group s) = (r, s2)"
    by force
  have "s_sync s2 = s_sync s" using run_rest_frame [OF r] by (simp add: rememberKind_def)
  then show ?thesis using assms r
    by (auto simp: sendGroupMessage_def track_sent_def split: sum.splits option.splits if_splits)
qed


definition sending_env :: "(unit, (jstr \<times> jstr) list) session_env" where
  "sending_env = (sample_env sample_beh)
     \<lparr>se_request := (\<lambda>w rq. (Inr (ok_response (json_of_message (sample_message 3 5))), w))\<rparr>"

definition idle_session :: "(unit, (jstr \<times> jstr) list) session" where
  "idle_session = sample_session\<lparr>s_sync := resume_task memory_storage 0 (Inr [])
     (start_task memory_storage 0 (fetchFrom [99] no_fetch_options sample_engine))\<rparr>"

lemma sending_ok:
  "\<exists>s1. sendGroupMessage sending_env (0, []) [99] [104] default_send idle_session = (Inr (json_of_message (sample_message 3 5)), s1)"
proof -
  let ?h = "s_rest (rememberKind [99] Group idle_session)"
  have "\<exists>h1. requestOnce (rest_env sending_env) POST (js ''/api/v1/messages'') (post_options k b) ?h =
      (Inr (Some (json_of_message (sample_message 3 5))), h1)" for k b
    by (simp add: requestOnce_def buildUrl_def post_options_def no_options_def rest_env_def sending_env_def
        idle_session_def sample_session_def rememberKind_def)
  then have "\<exists>h1. request (rest_env sending_env) POST (js ''/api/v1/messages'') (post_options k b) ?h =
      (Inr (Some (json_of_message (sample_message 3 5))), h1)" for k b
    using request_once_ok by blast
  then have "\<exists>h1. sendMessage (rest_env sending_env) (0, []) [99] [104] default_send ?h =
      (Inr (Some (json_of_message (sample_message 3 5))), h1)"
    unfolding sendMessage_def postMessage_def by (subst post_loop.simps) (metis (no_types, lifting) case_prod_conv old.sum.simps(6))
  then obtain h1 where "sendMessage (rest_env sending_env) (0, []) [99] [104] default_send ?h =
      (Inr (Some (json_of_message (sample_message 3 5))), h1)" by blast
  moreover have "json_of_message m \<noteq> JNull" for m by (simp add: json_of_message_def)
  ultimately show ?thesis by (simp add: sendGroupMessage_def run_rest_def track_sent_def)
qed


text \<open>
After \<open>disconnect()\<close> the session reports \<open>closed\<close> and is not online, and the application's return
to the foreground does not reconnect it.
\<close>

theorem disconnect_stays_closed:
  assumes "disconnect env s = Some s1" "gateway_of s \<noteq> None"
  shows "connectionStatus s1 = Closed \<and> \<not> isOnline s1 \<and> onShow env thrown s1 = Some (None, s1)"
proof -
  obtain g where g: "gateway_of s = Some g" using assms(2) by blast
  have cb: "gateway_of s' = gateway_of s0 \<and> wantConnected s' = wantConnected s0"
    if "gateway_callbacks env xs s0 = Some s'" "\<forall>x \<in> set xs. \<exists>t k. x \<in> {ClearInterval t, ClearTimeout t, CloseSocket k, OnStatus Closed}"
    for xs s0 s'
    using that
  proof (induction xs arbitrary: s0)
    case (Cons x xs)
    then show ?case by (fastforce simp: emit_def split: bind_splits)
  qed simp
  obtain es where es: "g_effects (gw_close g) = g_effects g @ es"
      "\<forall>x \<in> set es. \<exists>t k. x \<in> {ClearInterval t, ClearTimeout t, CloseSocket k, OnStatus Closed}"
    by (fastforce simp: gw_close_def Let_def split: option.splits)
  obtain s2 where s2: "with_gateway env g (gw_close g) (s\<lparr>wantConnected := False\<rparr>) = Some s2" "s1 = s2\<lparr>s_status := Closed\<rparr>"
    using assms(1) g by (auto simp: disconnect_def split: bind_splits)
  have "gateway_of s2 = Some (gw_close g) \<and> \<not> wantConnected s2"
    using cb [OF s2(1) [unfolded with_gateway_def es(1)]] es(2) by (simp add: set_gateway_def)
  moreover have "\<not> authenticated (gw_close g)" by (auto simp: gw_close_def Let_def)
  ultimately show ?thesis using s2(2) by (simp add: connectionStatus_def isOnline_def gw_isOnline_def onShow_def)
qed

theorem disconnect_stays_closed_witness:
  "\<exists>s1. disconnect (sample_env sample_beh) (set_gateway (Some sample_gateway) sample_session) = Some s1 \<and>
     connectionStatus s1 = Closed \<and> onShow (sample_env sample_beh) None s1 = Some (None, s1)"
proof -
  have gw: "gateway_of (set_gateway (Some sample_gateway) sample_session) = Some sample_gateway"
    by (simp add: set_gateway_def)
  have "g_effects (gw_close sample_gateway) = [OnStatus Closed]" "g_effects sample_gateway = []"
    by (simp_all add: gw_close_def sample_gateway_def newGatewaySocket_def)
  then have "\<exists>s1. disconnect (sample_env sample_beh) (set_gateway (Some sample_gateway) sample_session) = Some s1"
    by (simp add: disconnect_def gw with_gateway_def emit_def) (simp add: set_gateway_def sample_session_def listeners_of_def)
  then show ?thesis using disconnect_stays_closed gw by blast
qed

section \<open>One credential\<close>

definition creds_agree :: "('w \<times> gateway option) hstate \<Rightarrow> bool" where
  "creds_agree h = (case snd (world h) of Some g \<Rightarrow> g_credential g = credential (client h) | None \<Rightarrow> True)"

definition agreeing :: "('w \<times> gateway option, 'a) call \<Rightarrow> bool" where
  "agreeing call \<longleftrightarrow> (\<forall>h r h'. creds_agree h \<longrightarrow> call h = (r, h') \<longrightarrow> creds_agree h')"

lemma requestOnce_world:
  assumes "requestOnce (rest_env env) meth path opts h = (r, h')"
  shows "client h' = client h \<and> snd (world h') = snd (world h)"
  using assms
  by (cases "world h")
     (auto simp: requestOnce_def rest_env_def Let_def split_def split: option.splits sum.splits)

definition fresh_ok :: "('w, 's) session_env \<Rightarrow> bool" where
  "fresh_ok env \<longleftrightarrow> (\<forall>get w. se_getCredential env = Some get \<longrightarrow> fst (get w) \<noteq> Inr [])"

lemma request_agreeing:
  assumes "fresh_ok env"
  shows "agreeing (request (rest_env env) meth path opts)"
  unfolding agreeing_def
proof (intro allI impI)
  fix h r h'
  assume agree: "creds_agree h" and rq: "request (rest_env env) meth path opts h = (r, h')"
  obtain r1 h1 where 1: "requestOnce (rest_env env) meth path opts h = (r1, h1)" by force
  note w1 = requestOnce_world [OF 1]
  have agree1: "creds_agree h1" using agree w1 by (auto simp: creds_agree_def split: option.splits)
  show "creds_agree h'"
  proof (cases "h' = h1")
    case False
    then obtain e get where get: "r1 = Inl e" "se_getCredential env = Some get" "credential (client h1) \<noteq> []"
      using rq 1 by (auto simp: request_def rest_env_def split: sum.splits option.splits if_splits)
    obtain a w where a: "get (fst (world h1)) = (a, w)" by force
    show ?thesis
    proof (cases a)
      case (Inl e')
      then show ?thesis using rq 1 get a agree1 False
        by (cases "world h1") (auto simp: request_def rest_env_def creds_agree_def split: if_splits option.splits)
    next
      case (Inr fresh)
      let ?w = "(w, map_option (gw_setCredential fresh) (snd (world h1)))"
      let ?h2 = "h1\<lparr>world := ?w, client := (client h1)\<lparr>credential := fresh\<rparr>\<rparr>"
      have "fresh \<noteq> []" using assms get(2) a Inr unfolding fresh_ok_def by (metis fst_conv)
      then have "h' = h1\<lparr>world := ?w\<rparr> \<and> fresh = credential (client h1) \<or>
          requestOnce (rest_env env) meth path opts ?h2 = (r, h')"
        using rq 1 get a Inr False
        by (cases "world h1") (auto simp: request_def rest_env_def split: if_splits)
      then show ?thesis
      proof
        assume "requestOnce (rest_env env) meth path opts ?h2 = (r, h')"
        from requestOnce_world [OF this] show ?thesis
          by (cases "snd (world h1)") (simp_all add: creds_agree_def gw_setCredential_def)
      qed (cases "snd (world h1)"; simp add: creds_agree_def gw_setCredential_def)
    qed
  qed (use agree1 in simp)
qed

lemma agreeingD: "agreeing call \<Longrightarrow> creds_agree h \<Longrightarrow> call h = (r, h') \<Longrightarrow> creds_agree h'"
  by (auto simp: agreeing_def)

lemma request_encoded_agreeing: "fresh_ok env \<Longrightarrow> agreeing (request_encoded (rest_env env) meth before segment after opts)"
  using agreeingD [OF request_agreeing] by (auto simp: agreeing_def request_encoded_def split: option.splits)

lemma post_loop_agreeing:
  assumes "fresh_ok env"
  shows "post_loop (rest_env env) path body key maxRetries attempt h = (r, h') \<Longrightarrow> creds_agree h \<Longrightarrow> creds_agree h'"
proof (induction "rest_env env" path body key maxRetries attempt h rule: post_loop.induct)
  case (1 path body key maxRetries attempt h)
  obtain r1 h1 where rq: "request (rest_env env) POST path (post_options key body) h = (r1, h1)" by force
  have "creds_agree h1" using agreeingD [OF request_agreeing [OF assms] 1(3) rq] .
  then show ?case using 1 rq by (auto simp: post_loop.simps [of _ _ _ _ _ _ h] split: sum.splits if_splits)
qed

lemma removeMember_agreeing: "fresh_ok env \<Longrightarrow> agreeing (removeMember (rest_env env) c u)"
  using agreeingD [OF request_agreeing] by (auto simp: agreeing_def removeMember_def split: option.splits)

lemma removeMembers_loop_agreeing:
  assumes "fresh_ok env"
  shows "removeMembers_loop (rest_env env) c us d h = (r, h') \<Longrightarrow> creds_agree h \<Longrightarrow> creds_agree h'"
proof (induction us arbitrary: d h)
  case (Cons u us)
  obtain r1 h1 where 1: "removeMember (rest_env env) c u h = (r1, h1)" by force
  from agreeingD [OF removeMember_agreeing [OF assms] Cons.prems(2) 1] show ?case
    using Cons 1 by (auto split: sum.splits)
qed simp

lemma getDirect_agreeing: "fresh_ok env \<Longrightarrow> agreeing (getDirect (rest_env env) other)"
  using agreeingD [OF request_encoded_agreeing]
  by (fastforce simp: agreeing_def getDirect_def split: prod.splits sum.splits exn.splits if_splits)

text \<open>
The REST client and the gateway keep one credential: if they agree before a REST call, they agree
after it, also when the call had to refresh the credential, provided the host never hands out an
empty one.
\<close>

theorem rest_calls_keep_one_credential:
  assumes "creds_agree h" "\<forall>get w. se_getCredential env = Some get \<longrightarrow> fst (get w) \<noteq> Inr []"
    and "call \<in> {me (rest_env env), listGroups (rest_env env), createDirect (rest_env env) u,
      getDirect (rest_env env) u, createGroup (rest_env env) t us, getConversation (rest_env env) c,
      addMembers (rest_env env) c us, removeMembers (rest_env env) c us,
      listMessages (rest_env env) c lo, sendMessage (rest_env env) rnd c content so}"
  shows "creds_agree (snd (call h))"
proof -
  have ok: "fresh_ok env" using assms(2) by (simp add: fresh_ok_def)
  note rq = request_agreeing [OF ok] request_encoded_agreeing [OF ok]
  have simple: "agreeing (me (rest_env env))" "agreeing (listGroups (rest_env env))" "agreeing (createDirect (rest_env env) u)"
    "agreeing (getDirect (rest_env env) u)" "agreeing (createGroup (rest_env env) t us)"
    "agreeing (getConversation (rest_env env) c)" "agreeing (addMembers (rest_env env) c us)" "agreeing (listMessages (rest_env env) c lo)"
    unfolding me_def listGroups_def createDirect_def createConversation_def createGroup_def getConversation_def
      addMembers_def listMessages_def by (rule rq getDirect_agreeing [OF ok])+
  have "agreeing (sendMessage (rest_env env) rnd c content so)"
    using post_loop_agreeing [OF ok] by (simp add: agreeing_def sendMessage_def postMessage_def)
  moreover have "agreeing (removeMembers (rest_env env) c us)"
    using removeMembers_loop_agreeing [OF ok] agreeingD [OF simple(6)]
    by (auto simp: agreeing_def removeMembers_def split: if_splits)
  ultimately have "agreeing call" using assms(3) simple by blast
  then show ?thesis using agreeingD [OF _ assms(1)] by (metis surjective_pairing)
qed

definition sample_rest :: "(unit \<times> gateway option) hstate" where
  "sample_rest = \<lparr>client = newHttpClient (js ''http://h'') (js ''c1'') None, world = ((), Some sample_gateway), trace = []\<rparr>"

theorem rest_calls_keep_one_credential_witness:
  "creds_agree (snd (me (rest_env (sample_env sample_beh)) sample_rest))"
proof (rule rest_calls_keep_one_credential [where env = "sample_env sample_beh"])
  show "creds_agree sample_rest"
    by (simp add: creds_agree_def sample_rest_def newHttpClient_def sample_gateway_def newGatewaySocket_def)
qed (simp_all add: sample_env_def)

text \<open>
An empty refreshed credential splits the two clients: the REST client keeps its old credential
and reports the failure, the gateway has already been handed the empty one.
\<close>

theorem empty_refresh_splits_credentials:
  assumes "se_getCredential env = Some get" "get w1 = (Inr [], w2)" "world h1 = (w1, Some g)"
    and "requestOnce (rest_env env) meth path opts h = (Inl e, h1)" "exn_is_auth e" "op_auth opts \<noteq> Some False"
    and "credential (client h1) \<noteq> []"
  shows "\<exists>h'. request (rest_env env) meth path opts h = (Inl e, h') \<and> client h' = client h1 \<and>
    (\<exists>g'. snd (world h') = Some g' \<and> g_credential g' = [])"
  using assms by (simp add: request_def rest_env_def gw_setCredential_def)

definition empty_refresh_env :: "(unit, (jstr \<times> jstr) list) session_env" where
  "empty_refresh_env = (sample_env sample_beh)
     \<lparr>se_request := (\<lambda>w rq. (Inr \<lparr>rs_statusCode = 401, rs_data = JNull\<rparr>, w)),
      se_getCredential := Some (\<lambda>w. (Inr [], w))\<rparr>"

theorem empty_refresh_splits_credentials_witness:
  "\<exists>g'. snd (world (snd (me (rest_env empty_refresh_env) sample_rest))) = Some g' \<and> g_credential g' = []"
proof -
  obtain e h1 where once: "requestOnce (rest_env empty_refresh_env) GET (js ''/api/v1/me'') no_options sample_rest = (Inl e, h1)"
      "exn_is_auth e" "world h1 = ((), Some sample_gateway)" "credential (client h1) = js ''c1''"
    by (simp add: requestOnce_def buildUrl_def no_options_def rest_env_def empty_refresh_env_def sample_rest_def
        interpret_response_def envelope_of_def isAuthError_def newHttpClient_def)
  have "se_getCredential empty_refresh_env = Some (\<lambda>w. (Inr [], w))" by (simp add: empty_refresh_env_def)
  from empty_refresh_splits_credentials [OF this refl once(3,1,2)] once(4) show ?thesis
    by (auto simp: me_def no_options_def js_def)
qed

end
