(* ===== verification/Reconnect.thy ===== *)
theory Reconnect
  imports Session
begin

text \<open>
  A reconnection of the session, through all its parts: the gateway client accepts the answer to its
  credential (\<open>gateway.ts\<close>), the session reports the status and asks the engine to resynchronize
  (\<open>session.ts\<close>), the engine queues a fetch for every tracked conversation (\<open>sync.ts\<close>), the REST client lists
  the pages (\<open>http.ts\<close>), and the listeners of the session and of the conversation get what was missed.
\<close>

section \<open>Answering a fetch through the session\<close>

text \<open>The reports of a fetch that does not fail.\<close>

fun plain_report :: "sync_out \<Rightarrow> bool" where
  "plain_report (OnMessages ms) = True"
| "plain_report (ListMessages c a l) = True"
| "plain_report (Fetched c ms) = True"
| "plain_report _ = False"

lemma message_calls_cong:
  "s_listeners s = s_listeners s' \<Longrightarrow> conversations s = conversations s' \<Longrightarrow> message_calls s = message_calls s'"
  by (simp add: message_calls_def local_listeners_def fun_eq_iff)

lemma sync_reports_plain:
  assumes "\<forall>l a. se_behaviour env l a = None" "list_all plain_report xs"
  shows "sync_reports env own xs s = Some (s\<lparr>s_calls := s_calls s @ concat (map (message_calls s) (emissions xs))\<rparr>)"
  using assms(2)
proof (induction xs arbitrary: s)
  case (Cons x xs)
  have "message_calls (s\<lparr>s_calls := cs\<rparr>) = message_calls s" for cs by (rule message_calls_cong) simp_all
  then show ?case using Cons by (cases x) (simp_all add: onMessages_silent [OF assms(1)])
qed simp

text \<open>The session after an engine step that reports \<open>xs\<close>.\<close>

lemma with_sync_plain:
  assumes "\<forall>l a. se_behaviour env l a = None" "outs sy = outs (s_sync s) @ xs" "list_all plain_report xs"
  shows "with_sync env own sy s =
    Some (s\<lparr>s_sync := sy, s_calls := s_calls s @ concat (map (message_calls s) (emissions xs))\<rparr>)"
proof -
  have "message_calls (s\<lparr>s_sync := sy\<rparr>) = message_calls s" by (rule message_calls_cong) simp_all
  then show ?thesis by (simp add: with_sync_def assms(2) sync_reports_plain [OF assms(1,3)])
qed

text \<open>The chain of \<open>c\<close> is idle or waits for a page of a default fetch after sequence \<open>n\<close>.\<close>

definition fetching :: "int \<Rightarrow> jstr \<Rightarrow> nat \<Rightarrow> 's sync_state \<Rightarrow> bool" where
  "fetching n c i st \<longleftrightarrow> i < length (chains st) \<and> ch_conversation (chains st ! i) = c \<and>
     (case ch_running (chains st ! i) of
        None \<Rightarrow> True
      | Some (Fetching limit frm maxPages page all) \<Rightarrow> limit = PAGE_LIMIT \<and> n \<le> frm
      | Some (Reloading event notify) \<Rightarrow> False)"

lemma serve_fetching:
  assumes "fetching n c i st"
  shows "fetching n c i (serve sa server_page log i st)"
    and "\<exists>xs. outs (serve sa server_page log i st) = outs st @ xs \<and> list_all plain_report xs"
proof -
  have last: "a < msg_sequence (last (server_page log a l))" if "server_page log a l \<noteq> []" for a l
  proof -
    obtain k where "server_page log a l = take k (pending log a)" using backend.page_take by blast
    then have "last (server_page log a l) \<in> set (pending log a)" using last_in_set [OF that] in_set_takeD by metis
    then show ?thesis by (simp add: pending_def)
  qed
  show "fetching n c i (serve sa server_page log i st)"
    using assms last by (fastforce simp: fetching_def serve_def resume_task_def fetch_page_def Let_def
      split: option.split frame.split)
  show "\<exists>xs. outs (serve sa server_page log i st) = outs st @ xs \<and> list_all plain_report xs"
    using assms by (auto simp: fetching_def serve_def resume_task_def fetch_page_def Let_def
      split: option.split frame.split)
qed

text \<open>The backend answers the pages of \<open>c\<close> after \<open>n\<close> from \<open>log\<close>, whatever the state of the REST client.\<close>

definition answers_from :: "('w, 's) session_env \<Rightarrow> jstr \<Rightarrow> int \<Rightarrow> chat_message list \<Rightarrow> bool" where
  "answers_from env c n log \<longleftrightarrow> (\<forall>h a. n \<le> a \<longrightarrow>
     fst (listMessages (rest_env env) c \<lparr>lo_afterSequence = Some a, lo_limit = Some PAGE_LIMIT\<rparr> h) =
       Inr (Some (JArr (map json_of_message (server_page log a PAGE_LIMIT)))))"

text \<open>The session's step implements the engine's.\<close>

lemma answer_fetch_serves:
  assumes "answers_from env c n log" "\<forall>l a. se_behaviour env l a = None" "fetching n c i (s_sync s)"
  shows "\<exists>s' xs. answer_fetch env own i s = Some s' \<and>
    s_sync s' = serve (se_storage env) server_page log i (s_sync s) \<and>
    s_listeners s' = s_listeners s \<and> conversations s' = conversations s \<and>
    outs (s_sync s') = outs (s_sync s) @ xs \<and> s_calls s' = s_calls s @ concat (map (message_calls s) (emissions xs))"
proof (cases "ch_running (chains (s_sync s) ! i)")
  case None
  then show ?thesis by (auto simp: answer_fetch_def serve_def)
next
  case (Some f)
  then obtain frm mp p all where f: "f = Fetching PAGE_LIMIT frm mp p all" "n \<le> frm"
    "ch_conversation (chains (s_sync s) ! i) = c"
    using assms(3) by (auto simp: fetching_def split: frame.splits)
  let ?opts = "\<lparr>lo_afterSequence = Some frm, lo_limit = Some PAGE_LIMIT\<rparr>"
  let ?st = "serve (se_storage env) server_page log i (s_sync s)"
  obtain r s1 where r: "run_rest (listMessages (rest_env env) c ?opts) s = (r, s1)" by force
  have "r = Inr (Some (JArr (map json_of_message (server_page log frm PAGE_LIMIT))))"
    using assms(1) f(2) r by (auto simp: answers_from_def run_rest_def split_def Let_def)
  moreover note frame = run_rest_frame [OF r]
  ultimately have ans: "answer_fetch env own i s = with_sync env own ?st s1"
    using Some f r by (simp add: answer_fetch_def serve_def)
  obtain xs where xs: "outs ?st = outs (s_sync s) @ xs" "list_all plain_report xs"
    using serve_fetching(2) [OF assms(3)] by blast
  have "message_calls s1 = message_calls s" by (rule message_calls_cong) (simp_all add: frame)
  then show ?thesis using with_sync_plain [OF assms(2) _ xs(2), of ?st s1 own] xs(1) frame by (simp add: ans)
qed

text \<open>The answers to the first \<open>k\<close> requests of the task that runs on chain \<open>i\<close>.\<close>

fun answer_all :: "('w, 's) session_env \<Rightarrow> bool \<Rightarrow> nat \<Rightarrow> nat \<Rightarrow> ('w, 's) session \<Rightarrow> ('w, 's) session option" where
  "answer_all env own i 0 s = Some s"
| "answer_all env own i (Suc k) s = do { s1 \<leftarrow> answer_fetch env own i s; answer_all env own i k s1 }"

lemma answer_all_serves:
  assumes "answers_from env c n log" "\<forall>l a. se_behaviour env l a = None" "fetching n c i (s_sync s)"
  shows "\<exists>s' xs. answer_all env own i k s = Some s' \<and>
    s_sync s' = (serve (se_storage env) server_page log i ^^ k) (s_sync s) \<and>
    outs (s_sync s') = outs (s_sync s) @ xs \<and> s_calls s' = s_calls s @ concat (map (message_calls s) (emissions xs))"
  using assms(3)
proof (induction k arbitrary: s)
  case (Suc k)
  obtain s1 xs where s1: "answer_fetch env own i s = Some s1"
    "s_sync s1 = serve (se_storage env) server_page log i (s_sync s)"
    "s_listeners s1 = s_listeners s" "conversations s1 = conversations s"
    "outs (s_sync s1) = outs (s_sync s) @ xs" "s_calls s1 = s_calls s @ concat (map (message_calls s) (emissions xs))"
    using answer_fetch_serves [OF assms(1,2) Suc.prems] by blast
  have "fetching n c i (s_sync s1)" using serve_fetching(1) [OF Suc.prems] s1(2) by simp
  then obtain s' ys where "answer_all env own i k s1 = Some s'"
    "s_sync s' = (serve (se_storage env) server_page log i ^^ k) (s_sync s1)"
    "outs (s_sync s') = outs (s_sync s1) @ ys" "s_calls s' = s_calls s1 @ concat (map (message_calls s1) (emissions ys))"
    using Suc.IH by blast
  moreover have "message_calls s1 = message_calls s" by (rule message_calls_cong) (simp_all add: s1)
  ultimately show ?case using s1 by (auto simp: funpow_swap1)
qed simp

section \<open>Resynchronization\<close>

text \<open>Each queue has a chain of its own.\<close>

definition queues_ok :: "'s sync_state \<Rightarrow> bool" where
  "queues_ok st \<longleftrightarrow> (\<forall>c i. map_of (queues st) c = Some i \<longrightarrow> i < length (chains st) \<and> ch_conversation (chains st ! i) = c)"

definition free :: "'s sync_state \<Rightarrow> jstr \<Rightarrow> bool" where
  "free st c \<longleftrightarrow> map_of (queues st) c = None \<or> (\<exists>i. idle_chain st c i)"

definition queued :: "'s sync_state \<Rightarrow> jstr \<Rightarrow> nat \<Rightarrow> bool" where
  "queued st c i \<longleftrightarrow> map_of (queues st) c = Some i \<and> i < length (chains st) \<and> ch_conversation (chains st ! i) = c \<and>
     ch_running (chains st ! i) = None \<and> ch_waiting (chains st ! i) = [FetchTask no_fetch_options]"

lemma fetchFrom_frame:
  "lastSeq (fetchFrom c o' st) = lastSeq st" "outs (fetchFrom c o' st) = outs st"
  by (simp_all add: fetchFrom_def enqueue_def split: option.split)

lemma fetchFrom_queues_ok: "queues_ok st \<Longrightarrow> queues_ok (fetchFrom c o' st)"
  by (cases "map_of (queues st) c")
     (auto simp: queues_ok_def fetchFrom_def enqueue_def nth_append nth_list_update AList.update_conv' less_SucI)

lemma fetchFrom_queued:
  assumes "free st c"
  shows "\<exists>i. queued (fetchFrom c no_fetch_options st) c i"
  using assms by (cases "map_of (queues st) c")
    (auto simp: free_def queued_def idle_chain_def fetchFrom_def enqueue_def AList.update_conv')

text \<open>A fetch of another conversation leaves a queue alone.\<close>

lemma fetchFrom_other:
  assumes "queues_ok st" "d \<noteq> c"
  shows "map_of (queues (fetchFrom c o' st)) d = map_of (queues st) d"
    and "map_of (queues st) d = Some i \<Longrightarrow> chains (fetchFrom c o' st) ! i = chains st ! i"
    and "i < length (chains st) \<Longrightarrow> i < length (chains (fetchFrom c o' st))"
proof -
  show "map_of (queues (fetchFrom c o' st)) d = map_of (queues st) d"
    using assms(2) by (simp add: fetchFrom_def enqueue_def AList.update_conv' split: option.split)
  show "chains (fetchFrom c o' st) ! i = chains st ! i" if "map_of (queues st) d = Some i"
    using assms that
    by (cases "map_of (queues st) c") (auto simp: queues_ok_def fetchFrom_def enqueue_def nth_append nth_list_update)
  show "i < length (chains (fetchFrom c o' st))" if "i < length (chains st)"
    using that by (simp add: fetchFrom_def enqueue_def split: option.split)
qed

lemma fetchFrom_other_free: "queues_ok st \<Longrightarrow> d \<noteq> c \<Longrightarrow> free st d \<Longrightarrow> free (fetchFrom c o' st) d"
  using fetchFrom_other [of st d c] by (auto simp: free_def idle_chain_def)

lemma fetchFrom_other_queued: "queues_ok st \<Longrightarrow> d \<noteq> c \<Longrightarrow> queued st d i \<Longrightarrow> queued (fetchFrom c o' st) d i"
  using fetchFrom_other [of st d c] by (auto simp: queued_def)

lemmas fetchFrom_queue = fetchFrom_queues_ok fetchFrom_frame fetchFrom_queued fetchFrom_other_free fetchFrom_other_queued

lemma resync_queue:
  assumes "queues_ok st" "free st c" "c \<in> set ids" "distinct ids"
  defines "st' \<equiv> foldl (\<lambda>s i. fetchFrom i no_fetch_options s) st ids"
  shows "lastSeq st' = lastSeq st \<and> outs st' = outs st \<and> (\<exists>i. queued st' c i)"
proof -
  have after: "lastSeq (foldl (\<lambda>s i. fetchFrom i no_fetch_options s) st ids) = lastSeq st \<and>
      outs (foldl (\<lambda>s i. fetchFrom i no_fetch_options s) st ids) = outs st \<and>
      (\<exists>i. queued (foldl (\<lambda>s i. fetchFrom i no_fetch_options s) st ids) c i)"
    if "queues_ok st" "queued st c j" "c \<notin> set ids" for st :: "'a sync_state" and ids j
    using that by (induction ids arbitrary: st) (auto simp: fetchFrom_queue)
  show ?thesis unfolding st'_def using assms(1-4)
  proof (induction ids arbitrary: st)
    case (Cons d ids)
    note q = fetchFrom_queues_ok [OF Cons.prems(1)]
    show ?case
    proof (cases "d = c")
      case True
      then obtain j where "queued (fetchFrom d no_fetch_options st) c j" using fetchFrom_queued Cons.prems(2) by blast
      from after [OF q this] show ?thesis using True Cons.prems(4) by (simp add: fetchFrom_frame)
    next
      case False
      then show ?thesis using Cons.IH [OF q fetchFrom_other_free] Cons.prems by (simp add: fetchFrom_frame)
    qed
  qed simp
qed

section \<open>The queued fetch\<close>

lemma queued_fetch_delivers:
  assumes "queued (s_sync s) c i" "seqs_ok (s_sync s)" "\<forall>l a. se_behaviour env l a = None"
    and "answers_from env c (lastSequence (s_sync s) c) log" "sorted_log log"
  defines "missed \<equiv> take 2000 (pending log (lastSequence (s_sync s) c))"
  shows "\<exists>s2 s3. run_next env i s = Some s2 \<and> answer_all env own i 10 s2 = Some s3 \<and>
    ch_running (chains (s_sync s3) ! i) = None \<and> s_calls s3 = s_calls s @ concat (map (message_calls s) missed) \<and>
    lastSequence (s_sync s3) c = upto_seq (lastSequence (s_sync s) c) missed"
proof -
  let ?st = "s_sync s" and ?sa = "se_storage env"
  let ?n = "lastSequence ?st c"
  let ?taken = "?st\<lparr>chains := (chains ?st)[i := (chains ?st ! i)\<lparr>ch_waiting := []\<rparr>]\<rparr>" and ?begun = "start_task ?sa i ?st"
  have q: "i < length (chains ?st)" "ch_running (chains ?st ! i) = None" "ch_conversation (chains ?st ! i) = c"
    "ch_waiting (chains ?st ! i) = [FetchTask no_fetch_options]"
    using assms(1) unfolding queued_def by blast+
  have o': "fetch_limit no_fetch_options = 200" "fetch_pages no_fetch_options = 10"
    "fetch_start ?st c no_fetch_options = ?n"
    by (simp_all add: fetch_limit_def fetch_pages_def fetch_start_def no_fetch_options_def PAGE_LIMIT_def MAX_SYNC_PAGES_def)
  have start: "?begun = suspend i (Fetching 200 ?n 10 0 []) ?n 200 ?taken"
    using start_fetch [OF q(1,2,4)] unfolding q(3) o' by (simp add: fetch_page_def)
  define s2 where "s2 = s\<lparr>s_sync := ?begun\<rparr>"
  have s2: "s_sync s2 = ?begun" "s_calls s2 = s_calls s" "message_calls s2 = message_calls s"
    by (simp_all add: s2_def message_calls_def local_listeners_def fun_eq_iff)
  have "outs ?begun = outs ?st @ [ListMessages c ?n 200]" using q(1,3) by (simp add: start)
  from with_sync_plain [OF assms(3) this] have next_step: "run_next env i s = Some s2" by (simp add: run_next_def s2_def)
  have "fetching ?n c i (s_sync s2)" using q(1,3) by (simp add: s2(1) start fetching_def PAGE_LIMIT_def)
  then obtain s3 xs where s3: "answer_all env own i 10 s2 = Some s3"
    "s_sync s3 = (serve ?sa server_page log i ^^ 10) ?begun" "outs (s_sync s3) = outs ?begun @ xs"
    "s_calls s3 = s_calls s2 @ concat (map (message_calls s2) (emissions xs))"
    using answer_all_serves [OF assms(4,3)] s2(1) by metis
  have d: "drained ?sa i ?n [] missed ?taken (s_sync s3)"
    using fetch_drained [OF q(1,2,4), of log ?sa] assms(5) unfolding o' q(3) by (simp add: s3(2) missed_def)
  have "seqs_ok ?taken" "lastSequence ?taken c = ?n" using assms(2) by (simp_all add: seqs_ok_def lastSequence_def)
  moreover have "lastSeq (s_sync s3) = lastSeq (track ?sa c (upto_seq ?n missed) ?taken)"
    using d q(1,3) by (simp add: drained_def Let_def)
  moreover have "?n \<le> upto_seq ?n missed" unfolding missed_def by (rule upto_seq_ge [OF take_pending_in])
  ultimately have "lastSequence (s_sync s3) c = upto_seq ?n missed"
    using lastSequence_cong lastSequence_track_max [of ?taken ?sa c _ c] by fastforce
  moreover have "emissions xs = missed" using d s3(3) q(1) by (simp add: drained_def Let_def start)
  moreover have "ch_running (chains (s_sync s3) ! i) = None" using d by (simp add: drained_def Let_def)
  ultimately show ?thesis using next_step s2 s3 by simp
qed

section \<open>The reconnection\<close>

text \<open>The effects of the accepted credential: the session ignores those on timers.\<close>

lemma gateway_callbacks_skip:
  "\<forall>x \<in> set xs. \<forall>s. gateway_callback env x s = Some s \<Longrightarrow> gateway_callbacks env (xs @ ys) s = gateway_callbacks env ys s"
  by (induction xs) simp_all

lemma accepted_effects:
  assumes "\<not> authenticated g" "parse text = Some frame" "jget (js ''code'') frame = Some (JNum 0)"
  shows "\<exists>xs. drop (length (g_effects g)) (g_effects (snd (onMessage text g))) = OnStatus Online # xs @ [OnReady] \<and>
    (\<forall>x \<in> set xs. \<forall>s. gateway_callback env x s = Some s)"
proof -
  have "frame \<noteq> JNull" using assms(3) by auto
  moreover have "\<exists>xs. g_effects (startPing h) = g_effects h @ xs \<and> (\<forall>x \<in> set xs. \<forall>s. gateway_callback env x s = Some s)" for h
    by (auto simp: startPing_def stopPing_def setInterval_def clearInterval_def effect_def Let_def split: option.split)
  ultimately show ?thesis
    using assms by (fastforce simp: onMessage_def onAuthReply_def effect_def setStatus_def)
qed

text \<open>What the session does when the gateway accepts its credential.\<close>

lemma accepted_session:
  assumes "gateway_of s = Some g" "\<not> authenticated g" "parse text = Some frame" "jget (js ''code'') frame = Some (JNum 0)"
    and "\<forall>l a. se_behaviour env l a = None" "outs (resyncAll (s_sync s)) = outs (s_sync s)"
  shows "\<exists>s1. with_gateway env g (snd (onMessage text g)) s = Some s1 \<and> s_status s1 = Online \<and>
    s_sync s1 = resyncAll (s_sync s) \<and> s_listeners s1 = s_listeners s \<and> conversations s1 = conversations s \<and>
    s_calls s1 = s_calls s @ map (\<lambda>l. (l, ArgStatus Online)) (listeners_of (s_listeners s) EvStatus)"
proof -
  obtain xs where "drop (length (g_effects g)) (g_effects (snd (onMessage text g))) = OnStatus Online # xs @ [OnReady]"
    "\<forall>x \<in> set xs. \<forall>s. gateway_callback env x s = Some s"
    using accepted_effects [OF assms(2-4), of env] by blast
  then show ?thesis
    using assms(5,6)
    by (simp add: with_gateway_def set_gateway_def emit_def emit_calls_silent with_sync_def gateway_callbacks_skip)
qed

text \<open>
C7: A reconnection heals a gap of up to two thousand messages.  When the gateway accepts the credential, the session reports \<open>online\<close> and
queues a fetch for each tracked conversation.  For a conversation whose queue was free, with listeners that do not throw and a
log that does not change meanwhile: when the backend has answered the ten requests the
fetch makes at most, the first two thousand messages after its last-seen sequence, or all of them when there are
fewer, have been handed in order to every \<open>message\<close> listener of the session and of the
conversation object, exactly once, and the last-seen sequence is that of the last of them.  What lies beyond waits for the next fetch.
\<close>

theorem reconnect_delivers_missed:
  assumes "gateway_of s = Some g" "\<not> authenticated g" "parse text = Some frame" "jget (js ''code'') frame = Some (JNum 0)"
    and "\<forall>l a. se_behaviour env l a = None"
    and "seqs_ok (s_sync s)" "queues_ok (s_sync s)" "free (s_sync s) c" "isTracked (s_sync s) c"
    and "answers_from env c (lastSequence (s_sync s) c) log" "sorted_log log"
  defines "missed \<equiv> take 2000 (pending log (lastSequence (s_sync s) c))"
  shows "\<exists>s1 i s2 s3. with_gateway env g (snd (onMessage text g)) s = Some s1 \<and> s_status s1 = Online \<and>
    map_of (queues (s_sync s1)) c = Some i \<and> run_next env i s1 = Some s2 \<and> answer_all env True i 10 s2 = Some s3 \<and>
    ch_running (chains (s_sync s3) ! i) = None \<and>
    s_calls s3 = s_calls s @ map (\<lambda>l. (l, ArgStatus Online)) (listeners_of (s_listeners s) EvStatus) @
      concat (map (\<lambda>m. map (\<lambda>l. (l, ArgMessage m))
        (listeners_of (s_listeners s) EvMessage @
         (case map_of (conversations s) (msg_conversation_id m) of
            Some o' \<Rightarrow> listeners_of (conv_listeners o') EvMessage | None \<Rightarrow> []))) missed) \<and>
    lastSequence (s_sync s3) c = upto_seq (lastSequence (s_sync s) c) missed"
proof -
  let ?st = "s_sync s" and ?st1 = "resyncAll (s_sync s)"
  have "c \<in> set (map fst (lastSeq ?st))" using assms(9) by (auto simp: isTracked_def dest: map_of_SomeD intro: rev_image_eqI)
  then obtain i where resync: "lastSeq ?st1 = lastSeq ?st" "outs ?st1 = outs ?st" "queued ?st1 c i"
    using resync_queue [OF assms(7,8), of "map fst (lastSeq ?st)"] assms(6) by (auto simp: resyncAll_def seqs_ok_def)
  obtain s1 where s1: "with_gateway env g (snd (onMessage text g)) s = Some s1" "s_status s1 = Online"
    "s_sync s1 = ?st1" "s_listeners s1 = s_listeners s" "conversations s1 = conversations s"
    "s_calls s1 = s_calls s @ map (\<lambda>l. (l, ArgStatus Online)) (listeners_of (s_listeners s) EvStatus)"
    using accepted_session [OF assms(1-5) resync(2)] by blast
  have "lastSequence ?st1 c = lastSequence ?st c" "seqs_ok ?st1"
    using resync(1) assms(6) by (simp_all add: lastSequence_def seqs_ok_def)
  then obtain s2 s3 where "run_next env i s1 = Some s2" "answer_all env True i 10 s2 = Some s3"
    "ch_running (chains (s_sync s3) ! i) = None" "s_calls s3 = s_calls s1 @ concat (map (message_calls s1) missed)"
    "lastSequence (s_sync s3) c = upto_seq (lastSequence ?st c) missed"
    using queued_fetch_delivers [of s1 c i env log True] resync(3) assms(5,10,11) s1(3) unfolding missed_def by metis
  moreover have "map_of (queues (s_sync s1)) c = Some i" using resync(3) s1(3) by (simp add: queued_def)
  ultimately show ?thesis
    using s1 message_calls_cong [OF s1(4,5)] by (auto simp: message_calls_def [abs_def] local_listeners_def)
qed

text \<open>
  A backend that reads the starting point of a page from the URL of the request, and a session that has
  seen the first message of the sample conversation and waits for the answer of the gateway.
\<close>

definition after_of :: "jstr \<Rightarrow> int" where
  "after_of url = (case parse (rev (takeWhile (\<lambda>x. 48 \<le> x \<and> x \<le> 57) (drop 10 (rev url)))) of Some (JNum n) \<Rightarrow> n | _ \<Rightarrow> 0)"

definition paging_backend :: "(unit, (jstr \<times> jstr) list) session_env" where
  "paging_backend = (sample_env (\<lambda>l a. None))
     \<lparr>se_request := (\<lambda>w rq. (Inr (ok_response (JArr (map json_of_message (server_page sample_log (after_of (rq_url rq)) PAGE_LIMIT)))), w))\<rparr>"

definition offline_session :: "(unit, (jstr \<times> jstr) list) session" where
  "offline_session = set_gateway (Some sample_connected) (sample_session\<lparr>s_sync := track memory_storage [99] 1 sample_engine\<rparr>)"

lemma show_nonneg_digits: "0 \<le> a \<Longrightarrow> list_all (\<lambda>x. 48 \<le> x \<and> x \<le> 57) (show_int a)"
  using show_nat_digits by (auto simp: show_int_def list_all_iff)

lemma after_of_url:
  assumes "0 \<le> a"
  shows "after_of (u @ js ''/messages?after_sequence='' @ show_int a @ js ''&limit=200'') = a"
proof -
  have r: "length (rev (js ''&limit=200'')) = 10" by (simp add: js_def)
  have d: "rev (u @ js ''/messages?after_sequence='' @ show_int a @ js ''&limit=200'') =
      rev (js ''&limit=200'') @ rev (show_int a) @ 61 # rev (u @ js ''/messages?after_sequence'')"
    by (simp add: js_def)
  have "takeWhile (\<lambda>x. 48 \<le> x \<and> x \<le> 57) (rev (show_int a) @ 61 # rev (u @ js ''/messages?after_sequence'')) = rev (show_int a)"
    using show_nonneg_digits [OF assms] by (subst takeWhile_append2) (auto simp: list_all_iff)
  then have "rev (takeWhile (\<lambda>x. 48 \<le> x \<and> x \<le> 57) (drop 10 (rev (u @ js ''/messages?after_sequence='' @ show_int a @ js ''&limit=200''))))
      = stringify (JNum a)"
    unfolding d using r by simp
  then show ?thesis unfolding after_of_def by (simp only: parse_stringify json_ok.simps) simp
qed

lemma request_answered:
  "fst (requestOnce env meth path opts st) = Inr v \<Longrightarrow> fst (request env meth path opts st) = Inr v"
  by (cases "requestOnce env meth path opts st") (simp add: request_def)

lemma paging_backend_answers: "answers_from paging_backend [99] 0 sample_log"
proof -
  have "fst (listMessages (rest_env paging_backend) [99] \<lparr>lo_afterSequence = Some a, lo_limit = Some PAGE_LIMIT\<rparr> h) =
      Inr (Some (JArr (map json_of_message (server_page sample_log a PAGE_LIMIT))))" if "0 \<le> a" for h a
  proof -
    let ?o = "no_options\<lparr>op_query := Some [(js ''after_sequence'', Some (QNumber a)), (js ''limit'', Some (QNumber 200))]\<rparr>"
    let ?p = "js ''/api/v1/conversations/'' @ [99] @ js ''/messages''"
    let ?u = "(trim_end_slashes (baseUrl (client h)) @ js ''/api/v1/conversations/'' @ [99]) @
        js ''/messages?after_sequence='' @ show_int a @ js ''&limit=200''"
    have "js ''&limit=200'' = js ''&limit='' @ show_int 200" by (simp add: show_eval)
    then have u: "buildUrl (baseUrl (client h)) ?p (op_query ?o) = Some ?u"
      using build_messages_url [of "baseUrl (client h)" "[99]" a 200] by simp
    have "after_of ?u = a" by (rule after_of_url [OF that])
    with u have "fst (requestOnce (rest_env paging_backend) GET ?p ?o h) =
        Inr (Some (JArr (map json_of_message (server_page sample_log a PAGE_LIMIT))))"
      by (simp add: requestOnce_def rest_env_def paging_backend_def Let_def split_def)
    then have "fst (request (rest_env paging_backend) GET ?p ?o h) =
        Inr (Some (JArr (map json_of_message (server_page sample_log a PAGE_LIMIT))))"
      by (rule request_answered)
    then show ?thesis by (simp add: listMessages_def request_encoded_def PAGE_LIMIT_def)
  qed
  then show ?thesis by (simp add: answers_from_def)
qed

theorem reconnect_delivers_missed_witness:
  "\<exists>s1 i s2 s3. with_gateway paging_backend sample_connected (snd (onMessage online_frame sample_connected)) offline_session = Some s1 \<and>
     map_of (queues (s_sync s1)) [99] = Some i \<and>
     run_next paging_backend i s1 = Some s2 \<and> answer_all paging_backend True i 10 s2 = Some s3 \<and>
     s_calls s3 = [(1, ArgMessage (sample_message 2 2)), (2, ArgMessage (sample_message 2 2)),
       (1, ArgMessage (sample_message 3 5)), (2, ArgMessage (sample_message 3 5))]"
proof -
  let ?sy = "track memory_storage [99] 1 sample_engine"
  have sy: "s_sync offline_session = ?sy" "lastSequence ?sy [99] = 1" "isTracked ?sy [99]" "queues ?sy = []" "seqs_ok ?sy"
    "gateway_of offline_session = Some sample_connected" "conversations offline_session = []"
    "s_listeners offline_session = s_listeners sample_session" "s_calls offline_session = []"
    by (simp_all add: offline_session_def set_gateway_def sync_eval isTracked_def seqs_ok_def sample_session_def)
  have ok: "queues_ok ?sy" "free ?sy [99]" "\<not> authenticated sample_connected"
    "listeners_of (s_listeners sample_session) EvStatus = []" "\<forall>l a. se_behaviour paging_backend l a = None"
    using sy(4) by (simp_all add: queues_ok_def free_def sample_defs sample_session_def listeners_of_def paging_backend_def sample_env_def)
  have ans: "answers_from paging_backend [99] 1 sample_log" using paging_backend_answers by (simp add: answers_from_def)
  have log: "sorted_log sample_log" "take 2000 (pending sample_log 1) = [sample_message 2 2, sample_message 3 5]"
    by (simp_all add: sorted_log_def pending_def sample_log_def)
  show ?thesis
    using reconnect_delivers_missed [of offline_session sample_connected online_frame _ paging_backend "[99]" sample_log]
      sy ok ans log by auto
qed

end
