(* ===== verification/Session_Runs.thy ===== *)
theory Session_Runs
  imports Session
begin

text \<open>
  Every run of a session (\<open>sdk/ts/src/session.ts\<close>): the application calls any operation, the gateway client
  reacts to the runtime, the tasks of the engine start, are answered or fail, and the backend stores
  messages, in any order.  A session step is a sequence of engine steps (\<open>sync_step\<close>), and what a
  \<open>message\<close> listener hears is what the engine emits; so the promise of the engine, that each message is
  emitted once and in order, becomes a promise to the application.
\<close>

section \<open>Runs\<close>

text \<open>The operations of \<open>AirwayIM\<close> and of the conversation objects that change the session.\<close>

datatype session_call =
    CallOn event_name nat
  | CallOff event_name nat
  | CallConnect "exn option"
  | CallDisconnect
  | CallShow "exn option"
  | CallSetCredential jstr
  | CallMe
  | CallListGroups
  | CallCreateDirect jstr
  | CallGetDirect jstr
  | CallCreateGroup "jstr option" "jstr list"
  | CallOpen jstr
  | CallAddMembers jstr "jstr list"
  | CallRemoveMembers jstr "jstr list"
  | CallHistory jstr "int option" "int option"
  | CallListMessages jstr list_options
  | CallSendGroup "nat \<times> nat list" jstr jstr send_options
  | CallSendDirect "nat \<times> nat list" jstr jstr send_options
  | CallForget jstr
  | CallUpload file_input "jstr option"
  | CallConversationOn jstr event_name nat
  | CallConversationOff jstr event_name nat
  | CallConversationSend "nat \<times> nat list" conversation jstr send_options
  | CallDetails conversation

fun run_call :: "('w, 's) session_env \<Rightarrow> session_call \<Rightarrow> ('w, 's) session \<Rightarrow> ('w, 's) session option" where
  "run_call env (CallOn ev l) s = Some (session_on ev l s)"
| "run_call env (CallOff ev l) s = Some (session_off ev l s)"
| "run_call env (CallConnect thrown) s = map_option snd (session_connect env thrown s)"
| "run_call env CallDisconnect s = disconnect env s"
| "run_call env (CallShow thrown) s = map_option snd (onShow env thrown s)"
| "run_call env (CallSetCredential c) s = Some (session_setCredential c s)"
| "run_call env CallMe s = Some (snd (session_me env s))"
| "run_call env CallListGroups s = Some (snd (session_listGroups env s))"
| "run_call env (CallCreateDirect u) s = Some (snd (session_createDirect env u s))"
| "run_call env (CallGetDirect u) s = Some (snd (session_getDirect env u s))"
| "run_call env (CallCreateGroup title us) s = Some (snd (session_createGroup env title us s))"
| "run_call env (CallOpen c) s = Some (snd (openConversation env c s))"
| "run_call env (CallAddMembers c us) s = Some (snd (session_addMembers env c us s))"
| "run_call env (CallRemoveMembers c us) s = Some (snd (session_removeMembers env c us s))"
| "run_call env (CallHistory c frm limit) s = Some (history c frm limit s)"
| "run_call env (CallListMessages c o') s = Some (snd (session_listMessages env c o' s))"
| "run_call env (CallSendGroup rnd c content o') s = Some (snd (sendGroupMessage env rnd c content o' s))"
| "run_call env (CallSendDirect rnd u content o') s = Some (snd (session_sendDirectMessage env rnd u content o' s))"
| "run_call env (CallForget c) s = Some (forgetConversation env c s)"
| "run_call env (CallUpload f dir) s = Some (snd (session_uploadFile env f dir s))"
| "run_call env (CallConversationOn c ev l) s = Some (conversation_on c ev l s)"
| "run_call env (CallConversationOff c ev l) s = Some (conversation_off c ev l s)"
| "run_call env (CallConversationSend rnd c content o') s = Some (snd (conversation_send env rnd c content o' s))"
| "run_call env (CallDetails c) s = Some (snd (details env c s))"

text \<open>The conversation whose cursor a send raises.\<close>

fun sent_to :: "('w, 's) session_env \<Rightarrow> session_call \<Rightarrow> ('w, 's) session \<Rightarrow> jstr option" where
  "sent_to env (CallSendGroup rnd c content o') s = Some c"
| "sent_to env (CallSendDirect rnd u content o') s =
     (case fst (session_createDirect env u s) of Inl e \<Rightarrow> None | Inr c \<Rightarrow> Some (conv_id c))"
| "sent_to env _ s = None"

text \<open>The gateway steps that the runtime makes; the others are calls of the session.\<close>

fun runtime_label :: "gateway_label \<Rightarrow> bool" where
  "runtime_label (Connect stale ex) = False"
| "runtime_label UserClose = False"
| "runtime_label (SetCredential c) = False"
| "runtime_label (Refreshed late answer) = False"
| "runtime_label _ = True"

text \<open>The messages of the answer of a \<open>listMessages\<close> call.\<close>

definition listed :: "exn + json option \<Rightarrow> exn + chat_message list" where
  "listed r = (case r of Inl e \<Rightarrow> Inl e | Inr v \<Rightarrow> messages_of_json v)"

datatype session_label =
    StoredMessage jstr chat_message
  | Called session_call "jstr option"
  | GatewayMoved gateway_label
  | CredentialRefreshed
  | TaskStarted nat
  | TaskAnswered nat nat
  | TaskFailed jstr nat exn bool

text \<open>
  The backend answers a task with a page of the log as it was when the backend read it, or the
  call fails.  A step in which an emission does not return is no step.
\<close>

inductive session_step ::
  "('w, 's) session_env \<Rightarrow> session_label \<Rightarrow> ('w, 's) session \<times> (jstr \<Rightarrow> chat_message list)
   \<Rightarrow> ('w, 's) session \<times> (jstr \<Rightarrow> chat_message list) \<Rightarrow> bool"
  for env :: "('w, 's) session_env" where
  ss_stored: "msg_conversation_id m = c \<Longrightarrow> 0 < msg_sequence m \<Longrightarrow> \<forall>x \<in> set (logs c). msg_sequence x < msg_sequence m \<Longrightarrow>
    session_step env (StoredMessage c m) (s, logs) (s, logs(c := logs c @ [m]))"
| ss_called: "run_call env k s = Some s' \<Longrightarrow> session_step env (Called k (sent_to env k s)) (s, logs) (s', logs)"
| ss_gateway: "gateway_of s = Some g \<Longrightarrow> gw_step l g g' \<Longrightarrow> runtime_label l \<Longrightarrow> with_gateway env g g' s = Some s' \<Longrightarrow>
    session_step env (GatewayMoved l) (s, logs) (s', logs)"
| ss_refreshed: "gateway_of s = Some g \<Longrightarrow> 0 < g_refreshing g \<Longrightarrow> gateway_refresh env s = Some s' \<Longrightarrow>
    session_step env CredentialRefreshed (s, logs) (s', logs)"
| ss_started: "i < length (chains (s_sync s)) \<Longrightarrow> run_next env i s = Some s' \<Longrightarrow>
    session_step env (TaskStarted i) (s, logs) (s', logs)"
| ss_answered: "i < length (chains (s_sync s)) \<Longrightarrow> ch_running (chains (s_sync s) ! i) = Some f \<Longrightarrow>
    frame_request f = (after, limit) \<Longrightarrow> c = ch_conversation (chains (s_sync s) ! i) \<Longrightarrow>
    listed (fst (run_rest (listMessages (rest_env env) c \<lparr>lo_afterSequence = Some after, lo_limit = Some limit\<rparr>) s))
      = Inr (server_page (take n (logs c)) after limit) \<Longrightarrow>
    answer_fetch env own i s = Some s' \<Longrightarrow> session_step env (TaskAnswered i n) (s, logs) (s', logs)"
| ss_failed: "i < length (chains (s_sync s)) \<Longrightarrow> ch_running (chains (s_sync s) ! i) = Some f \<Longrightarrow>
    frame_request f = (after, limit) \<Longrightarrow> c = ch_conversation (chains (s_sync s) ! i) \<Longrightarrow>
    listed (fst (run_rest (listMessages (rest_env env) c \<lparr>lo_afterSequence = Some after, lo_limit = Some limit\<rparr>) s)) = Inl e \<Longrightarrow>
    answer_fetch env own i s = Some s' \<Longrightarrow> session_step env (TaskFailed c i e (frame_emitted f)) (s, logs) (s', logs)"

section \<open>What a listener hears\<close>

definition messages_to :: "nat \<Rightarrow> (nat \<times> event_arg) list \<Rightarrow> chat_message list" where
  "messages_to l calls = concat (map (\<lambda>(k, a). if k = l then (case a of ArgMessage m \<Rightarrow> [m] | _ \<Rightarrow> []) else []) calls)"

definition heard :: "nat \<Rightarrow> ('w, 's) session \<Rightarrow> chat_message list" where
  "heard l s = messages_to l (s_calls s)"

text \<open>Listener \<open>l\<close> is registered once, for \<open>message\<close> on the session, and nowhere else.\<close>

definition tuned :: "nat \<Rightarrow> ('w, 's) session \<Rightarrow> bool" where
  "tuned l s \<longleftrightarrow> distinct (listeners_of (s_listeners s) EvMessage) \<and> l \<in> set (listeners_of (s_listeners s) EvMessage) \<and>
     (\<forall>ev. ev \<noteq> EvMessage \<longrightarrow> l \<notin> set (listeners_of (s_listeners s) ev)) \<and>
     (\<forall>c ev. l \<notin> set (local_listeners s c ev))"

text \<open>Between \<open>s\<close> and \<open>s'\<close> the listener hears \<open>ms\<close>; listeners and engine stay as they are.\<close>

definition hears :: "nat \<Rightarrow> chat_message list \<Rightarrow> ('w, 's) session \<Rightarrow> ('w, 's) session \<Rightarrow> bool" where
  "hears l ms s s' \<longleftrightarrow> s_listeners s' = s_listeners s \<and> conversations s' = conversations s \<and> s_sync s' = s_sync s \<and>
     heard l s' = heard l s @ ms"

lemma messages_to_append [simp]: "messages_to l (xs @ ys) = messages_to l xs @ messages_to l ys"
  by (simp add: messages_to_def)

lemma messages_to_simps [simp]:
  "messages_to l [] = []"
  "messages_to l ((k, a) # cs) = (if k = l then (case a of ArgMessage m \<Rightarrow> [m] | _ \<Rightarrow> []) else []) @ messages_to l cs"
  by (simp_all add: messages_to_def)

lemma tuned_cong: "s_listeners s' = s_listeners s \<Longrightarrow> conversations s' = conversations s \<Longrightarrow> tuned l s' = tuned l s"
  by (simp add: tuned_def local_listeners_def)

lemma hears_tuned: "hears l ms s s' \<Longrightarrow> tuned l s' = tuned l s"
  by (rule tuned_cong) (simp_all add: hears_def)

lemma hears_trans: "hears l ms s s' \<Longrightarrow> hears l ns s' t \<Longrightarrow> hears l (ms @ ns) s t"
  by (simp add: hears_def)

lemma emit_calls_heard:
  "emit_calls beh ls n xs a = Some calls \<Longrightarrow>
   messages_to l calls = concat (map (\<lambda>k. if k = l then (case a of ArgMessage m \<Rightarrow> [m] | _ \<Rightarrow> []) else []) xs)"
proof (induction beh ls n xs a arbitrary: calls rule: emit_calls.induct)
  case (2 beh ls n k xs a)
  show ?case
  proof (cases "beh k a")
    case None
    then show ?thesis using 2 by (auto split: bind_splits)
  next
    case (Some e)
    then obtain m errs rest where m: "n = Suc m" "emit_calls beh ls m (listeners_of ls EvError) (ArgError e) = Some errs"
      "emit_calls beh ls (Suc m) xs a = Some rest" "calls = (k, a) # errs @ rest"
      using "2.prems" by (auto split: nat.splits bind_splits)
    have "messages_to l errs = []" using "2.IH"(2) [OF Some m(1,2)] by auto
    then show ?thesis using "2.IH"(3) [OF Some m(1), of errs rest] m by simp
  qed
qed simp

lemma emit_hears:
  assumes "emit env ev a s = Some s'" "tuned l s"
  shows "hears l (case a of ArgMessage m \<Rightarrow> if ev = EvMessage then [m] else [] | _ \<Rightarrow> []) s s'"
proof -
  let ?xs = "listeners_of (s_listeners s) ev"
  obtain calls where calls: "emit_calls (se_behaviour env) (s_listeners s) (se_stack env) ?xs a = Some calls"
    "s' = s\<lparr>s_calls := s_calls s @ calls\<rparr>"
    using assms(1) by (auto simp: emit_def split: bind_splits)
  have once: "concat (map (\<lambda>k. if k = l then ys else []) xs) = (if l \<in> set xs then ys else [])"
    if "distinct xs" for xs and ys :: "chat_message list"
    using that by (induction xs) auto
  have none: "concat (map (\<lambda>k. if k = l then ys else []) xs) = []" if "l \<notin> set xs" for xs and ys :: "chat_message list"
    using that by (induction xs) auto
  show ?thesis using emit_calls_heard [OF calls(1), of l] calls(2) assms(2) once none
    by (cases "ev = EvMessage") (auto simp: hears_def heard_def tuned_def split: event_arg.split)
qed

lemma emitLocal_loop_hears:
  "emitLocal_loop env xs a s = Some s' \<Longrightarrow> tuned l s \<Longrightarrow> l \<notin> set xs \<Longrightarrow> hears l [] s s'"
proof (induction xs arbitrary: s)
  case (Cons k xs)
  let ?s = "s\<lparr>s_calls := s_calls s @ [(k, a)]\<rparr>"
  have k: "hears l [] s ?s" using Cons.prems(3) by (simp add: hears_def heard_def)
  show ?case
  proof (cases "se_behaviour env k a")
    case None
    then show ?thesis using Cons k hears_tuned [OF k] hears_trans [OF k] by fastforce
  next
    case (Some e)
    then obtain s2 where s2: "emit env EvError (ArgError e) ?s = Some s2" "emitLocal_loop env xs a s2 = Some s'"
      using Cons.prems(1) by (auto simp: reportError_def split: bind_splits)
    have "hears l [] ?s s2" using emit_hears [OF s2(1)] hears_tuned [OF k] Cons.prems(2) by simp
    then have "hears l [] s s2" using hears_trans [OF k] by fastforce
    moreover from this have "hears l [] s2 s'" using Cons.IH [OF s2(2)] Cons.prems hears_tuned by fastforce
    ultimately show ?thesis using hears_trans by fastforce
  qed
qed (simp add: hears_def)

lemma emitLocal_hears:
  assumes "emitLocal env c ev a s = Some s'" "tuned l s"
  shows "hears l [] s s'"
proof (cases "map_of (conversations s) c")
  case (Some conv)
  have "l \<notin> set (local_listeners s c ev)" using assms(2) by (simp add: tuned_def)
  then show ?thesis using assms Some emitLocal_loop_hears by (fastforce simp: emitLocal_def local_listeners_def)
qed (use assms in \<open>simp add: emitLocal_def hears_def\<close>)

lemma emit_both_hears:
  assumes "emit_both env c ev a s = Some s'" "tuned l s"
  shows "hears l (case a of ArgMessage m \<Rightarrow> if ev = EvMessage then [m] else [] | _ \<Rightarrow> []) s s'"
proof -
  obtain s1 where s1: "emit env ev a s = Some s1" "emitLocal env c ev a s1 = Some s'"
    using assms(1) by (auto simp: emit_both_def split: bind_splits)
  note h = emit_hears [OF s1(1) assms(2)]
  have "hears l [] s1 s'" using emitLocal_hears [OF s1(2)] hears_tuned [OF h] assms(2) by simp
  then show ?thesis using hears_trans [OF h] by fastforce
qed

lemma onMessages_hears: "onMessages env ms s = Some s' \<Longrightarrow> tuned l s \<Longrightarrow> hears l ms s s'"
proof (induction ms arbitrary: s)
  case (Cons m ms)
  then obtain s1 where s1: "emit_both env (msg_conversation_id m) EvMessage (ArgMessage m) s = Some s1" "onMessages env ms s1 = Some s'"
    by (auto split: bind_splits)
  have h: "hears l [m] s s1" using emit_both_hears [OF s1(1) Cons.prems(2)] by simp
  then show ?case using hears_trans [OF h Cons.IH [OF s1(2)]] hears_tuned [OF h] Cons.prems(2) by simp
qed (simp add: hears_def)

lemma sync_report_hears:
  assumes "sync_report env own x s = Some s'" "tuned l s"
  shows "hears l (emissions [x]) s s'"
proof (cases x)
  case (OnMessages ms)
  then show ?thesis using assms onMessages_hears [OF _ assms(2)] by simp
next
  case (OnMessageUpdated m)
  then show ?thesis using assms emit_both_hears [OF _ assms(2)] by (fastforce simp: onMessageUpdated_def)
next
  case (Rejected c e)
  then show ?thesis using assms emit_hears [OF _ assms(2)] by (fastforce simp: hears_def split: if_splits)
qed (use assms in \<open>simp_all add: hears_def\<close>)

lemma sync_reports_hears: "sync_reports env own xs s = Some s' \<Longrightarrow> tuned l s \<Longrightarrow> hears l (emissions xs) s s'"
proof (induction xs arbitrary: s)
  case (Cons x xs)
  then obtain s1 where s1: "sync_report env own x s = Some s1" "sync_reports env own xs s1 = Some s'"
    by (auto split: bind_splits)
  note h = sync_report_hears [OF s1(1) Cons.prems(2)]
  have "hears l (emissions [x] @ emissions xs) s s'"
    using hears_trans [OF h Cons.IH [OF s1(2)]] hears_tuned [OF h] Cons.prems(2) by simp
  then show ?case by (simp flip: emissions_append)
qed (simp add: hears_def)

section \<open>A session step is a sequence of engine steps\<close>

text \<open>The listener has heard what the engine has emitted.\<close>

definition in_step :: "nat \<Rightarrow> ('w, 's) session \<Rightarrow> bool" where
  "in_step l s \<longleftrightarrow> tuned l s \<and> heard l s = emissions (outs (s_sync s))"

text \<open>
  The session moves from \<open>s\<close> to \<open>s'\<close> by engine steps that are clean for \<open>d\<close>, and a listener that was in step with the
  engine still is.
\<close>

definition carries :: "('w, 's) session_env \<Rightarrow> nat \<Rightarrow> jstr \<Rightarrow> (jstr \<Rightarrow> chat_message list) \<Rightarrow> ('w, 's) session \<Rightarrow> ('w, 's) session \<Rightarrow> bool" where
  "carries env l d logs s s' \<longleftrightarrow> in_step l s \<longrightarrow> in_step l s' \<and>
     lreach (sync_step (se_storage env)) (clean d) (s_sync s, logs) (s_sync s', logs)"

lemma carries_refl: "carries env l d logs s s"
  by (auto simp: carries_def)

lemma carries_trans: "carries env l d logs s s' \<Longrightarrow> carries env l d logs s' t \<Longrightarrow> carries env l d logs s t"
  by (auto simp: carries_def intro: lreach_trans)

text \<open>A step of the session that leaves the engine and the listeners alone.\<close>

lemma carries_hears: "(tuned l s \<Longrightarrow> hears l [] s s') \<Longrightarrow> carries env l d logs s s'"
  by (auto simp: carries_def in_step_def hears_tuned) (auto simp: hears_def)

lemma carries_frame:
  "s_listeners s' = s_listeners s \<Longrightarrow> conversations s' = conversations s \<Longrightarrow> s_sync s' = s_sync s \<Longrightarrow>
   s_calls s' = s_calls s \<Longrightarrow> carries env l d logs s s'"
  by (rule carries_hears) (simp add: hears_def heard_def)

lemma carries_emit:
  assumes "emit env ev a s = Some s'" "\<And>m. a \<noteq> ArgMessage m"
  shows "carries env l d logs s s'"
  using emit_hears [OF assms(1)] assms(2) by (intro carries_hears) (cases a, auto)

lemma carries_emit_both:
  assumes "emit_both env c ev a s = Some s'" "\<And>m. a \<noteq> ArgMessage m"
  shows "carries env l d logs s s'"
  using emit_both_hears [OF assms(1)] assms(2) by (intro carries_hears) (cases a, auto)

text \<open>The engine only adds to its reports.\<close>

lemma outs_fetch_page: "\<exists>xs. outs (fetch_page sa i l f mp p all st) = outs st @ xs"
  by (simp add: fetch_page_def)

lemma outs_start_task: "\<exists>xs. outs (start_task sa i st) = outs st @ xs"
proof (cases "i < length (chains st) \<and> ch_running (chains st ! i) = None \<and> ch_waiting (chains st ! i) \<noteq> []")
  case True
  then obtain t ts where t: "ch_waiting (chains st ! i) = t # ts" by (cases "ch_waiting (chains st ! i)") auto
  let ?st = "st\<lparr>chains := (chains st)[i := (chains st ! i)\<lparr>ch_waiting := ts\<rparr>]\<rparr>"
  show ?thesis
  proof (cases t)
    case (FetchTask o')
    then show ?thesis using True t outs_fetch_page [of sa i _ _ _ 0 "[]" ?st] by (simp add: start_task_def Let_def)
  qed (use True t in \<open>simp add: start_task_def Let_def split: option.split\<close>)
qed (auto simp: start_task_def)

lemma outs_resume_task: "\<exists>xs. outs (resume_task sa i answer st) = outs st @ xs"
proof (cases "i < length (chains st)")
  case True
  show ?thesis
  proof (cases "ch_running (chains st ! i)")
    case (Some f)
    show ?thesis
    proof (cases answer)
      case (Inr ms)
      then show ?thesis using True Some outs_fetch_page [of sa i _ _ _ _ _ "out (OnMessages ms) st"]
        by (cases f) (force simp: resume_task_def Let_def split: option.split)+
    qed (use True Some in \<open>simp add: resume_task_def Let_def\<close>)
  qed (simp add: resume_task_def)
qed (simp add: resume_task_def)

lemma resync_outs: "outs (foldl (\<lambda>s i. fetchFrom i o' s) st ids) = outs st"
  by (induction ids arbitrary: st) (simp_all add: fetchFrom_def enqueue_def split: option.split)

lemma carries_with_sync:
  assumes "with_sync env own sy s = Some s'" "outs sy = outs (s_sync s) @ xs"
    and "sync_step (se_storage env) lab (s_sync s, logs) (sy, logs)" "clean d lab"
  shows "carries env l d logs s s'"
  unfolding carries_def
proof
  assume s: "in_step l s"
  have "tuned l (s\<lparr>s_sync := sy\<rparr>)" using s tuned_cong [of "s\<lparr>s_sync := sy\<rparr>" s] by (simp add: in_step_def)
  then have h: "hears l (emissions xs) (s\<lparr>s_sync := sy\<rparr>) s'"
    using assms(1,2) sync_reports_hears by (fastforce simp: with_sync_def)
  then have "s_sync s' = sy" "heard l s' = heard l s @ emissions xs" by (simp_all add: hears_def heard_def)
  then show "in_step l s' \<and> lreach (sync_step (se_storage env)) (clean d) (s_sync s, logs) (s_sync s', logs)"
    using s assms(2-4) hears_tuned [OF h] \<open>tuned l (s\<lparr>s_sync := sy\<rparr>)\<close> by (auto simp: in_step_def intro: lreach_single)
qed

lemma carries_handleEvent:
  assumes "handleEvent env event s0 = Some s'"
  shows "carries env l d logs s0 s'"
proof -
  obtain s where s: "emit env EvEvent (ArgEvent event) s0 = Some s"
    using assms by (auto simp: handleEvent_def split: bind_splits)
  let ?k = "rememberKind (ev_conversation_id event) Group s"
  have enq: "outs (handleMessageEvent event (s_sync s)) = outs (s_sync s) @ []"
    "outs (handleMessageModeratedEvent event (s_sync s)) = outs (s_sync s) @ []"
    by (simp_all add: handleMessageEvent_def handleMessageModeratedEvent_def fetchFrom_def reloadMessage_def enqueue_def Let_def
        split: option.split)
  have created: "with_sync env False (handleMessageEvent event (s_sync s)) s = Some s' \<Longrightarrow> carries env l d logs s s'"
    using carries_with_sync [OF _ enq(1) step_created] by simp
  have moderated: "with_sync env True (handleMessageModeratedEvent event (s_sync s)) s = Some s' \<Longrightarrow> carries env l d logs s s'"
    using carries_with_sync [OF _ enq(2) step_moderated] by simp
  have k: "carries env l d logs s ?k" by (rule carries_frame) (simp_all add: rememberKind_def)
  have added: "emit_both env c ev (ArgAdded c us e) ?k = Some s' \<Longrightarrow> carries env l d logs s s'" for c ev us e
    using carries_trans [OF k carries_emit_both] by simp
  have removed: "emit_both env c ev (ArgRemoved c u e) ?k = Some s' \<Longrightarrow> carries env l d logs s s'" for c ev u e
    using carries_trans [OF k carries_emit_both] by simp
  have "carries env l d logs s s'"
    using assms s k carries_refl unfolding handleEvent_def Let_def
    by (auto split: if_split_asm option.split_asm dest: created moderated added removed)
  then show ?thesis using carries_trans [OF carries_emit [OF s]] by simp
qed

lemma carries_gateway_callback:
  assumes "gateway_callback env x s = Some s'"
  shows "carries env l d logs s s'"
proof (cases x)
  case (OnStatus st)
  have "carries env l d logs s (s\<lparr>s_status := st\<rparr>)" by (rule carries_frame) simp_all
  moreover have "carries env l d logs (s\<lparr>s_status := st\<rparr>) s'" using assms OnStatus by (auto intro: carries_emit)
  ultimately show ?thesis by (rule carries_trans)
next
  case OnReady
  then show ?thesis using assms
    by (intro carries_with_sync [of env True "resyncAll (s_sync s)" s s' "[]" Resync])
       (simp_all add: resyncAll_def resync_outs step_resync [unfolded resyncAll_def])
next
  case (OnEvent frame)
  then show ?thesis using assms by (auto intro: carries_handleEvent)
next
  case (OnError m)
  then show ?thesis using assms by (auto intro: carries_emit)
qed (use assms carries_refl in auto)

lemma carries_with_gateway:
  assumes "with_gateway env g g' s = Some s'"
  shows "carries env l d logs s s'"
proof -
  have "gateway_callbacks env xs s = Some s' \<Longrightarrow> carries env l d logs s s'" for xs s
    by (induction xs arbitrary: s)
       (auto simp: carries_refl split: bind_splits intro: carries_trans carries_gateway_callback)
  moreover have "carries env l d logs s (set_gateway (Some g') s)"
    by (rule carries_frame) (simp_all add: set_gateway_def)
  ultimately show ?thesis using assms carries_trans unfolding with_gateway_def by blast
qed

lemma carries_gateway_refresh:
  assumes "gateway_refresh env s = Some s'"
  shows "carries env l d logs s s'"
proof -
  have "carries env l d logs s (s\<lparr>s_rest := h\<rparr>)" for h by (rule carries_frame) simp_all
  then have via: "with_gateway env g g' (s\<lparr>s_rest := h\<rparr>) = Some s' \<Longrightarrow> carries env l d logs s s'" for g g' h
    using carries_trans carries_with_gateway by blast
  show ?thesis using assms carries_refl
    by (auto simp: gateway_refresh_def Let_def split: option.splits prod.splits sum.splits dest: via)
qed

lemma carries_run_rest: "carries env l d logs s (snd (run_rest call s))"
  by (rule carries_frame) (simp_all add: run_rest_def split_def Let_def)

lemma carries_answer:
  assumes "answer_fetch env own i s = Some s'" "i < length (chains (s_sync s))" "ch_running (chains (s_sync s) ! i) = Some f"
    and "frame_request f = (after, limit)" "c = ch_conversation (chains (s_sync s) ! i)"
    and "listed (fst (run_rest (listMessages (rest_env env) c \<lparr>lo_afterSequence = Some after, lo_limit = Some limit\<rparr>) s)) = answer"
    and "sync_step (se_storage env) lab (s_sync s, logs) (resume_task (se_storage env) i answer (s_sync s), logs)" "clean d lab"
  shows "carries env l d logs s s'"
proof -
  let ?call = "listMessages (rest_env env) c \<lparr>lo_afterSequence = Some after, lo_limit = Some limit\<rparr>"
  obtain r s1 where r: "run_rest ?call s = (r, s1)" by force
  have sync: "s_sync s1 = s_sync s" using run_rest_frame [OF r] by simp
  have "with_sync env own (resume_task (se_storage env) i answer (s_sync s)) s1 = Some s'"
    using assms(1,3-6) r sync by (simp add: answer_fetch_def listed_def Let_def)
  moreover obtain xs where "outs (resume_task (se_storage env) i answer (s_sync s)) = outs (s_sync s) @ xs"
    using outs_resume_task by blast
  ultimately have "carries env l d logs s1 s'" using assms(7,8) sync by (intro carries_with_sync) auto
  moreover have "carries env l d logs s s1" using carries_run_rest [of env l d logs s ?call] r by simp
  ultimately show ?thesis using carries_trans by blast
qed

section \<open>The operations\<close>

text \<open>Operations that neither move the engine nor change a listener.\<close>

definition same_ears :: "('w, 's) session \<Rightarrow> ('w, 's) session \<Rightarrow> bool" where
  "same_ears s s' \<longleftrightarrow> s_sync s' = s_sync s \<and> s_calls s' = s_calls s \<and> s_listeners s' = s_listeners s \<and>
     (\<forall>c ev. local_listeners s' c ev = local_listeners s c ev)"

lemma same_ears_refl: "same_ears s s"
  by (simp add: same_ears_def)

lemma same_ears_trans: "same_ears s s' \<Longrightarrow> same_ears s' t \<Longrightarrow> same_ears s t"
  by (simp add: same_ears_def)

lemma carries_wiring:
  "s_sync s' = s_sync s \<Longrightarrow> s_calls s' = s_calls s \<Longrightarrow> (tuned l s \<Longrightarrow> tuned l s') \<Longrightarrow> carries env l d logs s s'"
  by (auto simp: carries_def in_step_def heard_def)

lemma same_ears_carries: "same_ears s s' \<Longrightarrow> carries env l d logs s s'"
  by (rule carries_wiring) (simp_all add: same_ears_def tuned_def)

lemma same_ears_frame:
  "s_sync s' = s_sync s \<Longrightarrow> s_calls s' = s_calls s \<Longrightarrow> s_listeners s' = s_listeners s \<Longrightarrow>
   conversations s' = conversations s \<Longrightarrow> same_ears s s'"
  by (simp add: same_ears_def local_listeners_def)

lemma same_ears_run_rest: "same_ears s (snd (run_rest call s))"
  by (rule same_ears_frame) (simp_all add: run_rest_def split_def Let_def)

lemma same_ears_rememberKind: "same_ears s (rememberKind c kind s)"
  by (rule same_ears_frame) (simp_all add: rememberKind_def)

lemma same_ears_conversationFor: "same_ears s (snd (conversationFor i kind title s))"
  by (auto simp: same_ears_def conversationFor_def local_listeners_def AList.update_conv' listeners_of_def Let_def split: option.split)

lemma same_ears_conversation_of_answer: "same_ears (snd rs) (snd (conversation_of_answer kind title rs))"
proof (cases rs)
  case (Pair r s)
  show ?thesis
  proof (cases r)
    case (Inr v)
    have "same_ears s (snd (conversationFor i kind title (rememberKind i kind s)))" for i
      by (rule same_ears_trans [OF same_ears_rememberKind same_ears_conversationFor])
    then show ?thesis using Pair Inr same_ears_refl
      by (auto simp: conversation_of_answer_def Let_def split_def split: sum.split)
  qed (simp add: Pair conversation_of_answer_def same_ears_refl)
qed

lemmas same_ears_intros = same_ears_refl same_ears_run_rest same_ears_rememberKind same_ears_conversationFor
  same_ears_conversation_of_answer

lemma same_ears_answer: "same_ears s (snd (conversation_of_answer kind title (run_rest call s)))"
  by (rule same_ears_trans [OF same_ears_run_rest same_ears_conversation_of_answer])

lemma same_ears_rest_after: "same_ears s (snd (run_rest call (rememberKind c kind s)))"
  by (rule same_ears_trans [OF same_ears_rememberKind same_ears_run_rest])

lemma same_ears_listGroups: "same_ears s (snd (session_listGroups env s))"
proof -
  have fold: "same_ears s (foldl (\<lambda>s v. rememberKind (f v) Group s) s vs)" for s :: "('w, 's) session" and f and vs :: "json list"
  proof (induction vs arbitrary: s)
    case (Cons v vs)
    then show ?case using same_ears_trans [OF same_ears_rememberKind [of s "f v" Group]] by simp
  qed (simp add: same_ears_refl)
  obtain r s1 where r: "run_rest (listGroups (rest_env env)) s = (r, s1)" by force
  have s1: "same_ears s s1" using same_ears_run_rest [of s "listGroups (rest_env env)"] r by simp
  then show ?thesis using same_ears_trans [OF s1 fold] r
    by (auto simp: session_listGroups_def split: sum.split option.split json.split)
qed

lemma same_ears_getDirect: "same_ears s (snd (session_getDirect env u s))"
proof -
  obtain r s1 where r: "run_rest (getDirect (rest_env env) u) s = (r, s1)" by force
  have s1: "same_ears s s1" using same_ears_run_rest [of s "getDirect (rest_env env) u"] r by simp
  have "same_ears s (snd (conversation_of_answer Direct None (Inr v, s1)))" for v
    using same_ears_trans [OF s1] same_ears_conversation_of_answer [of "(Inr v, s1)"] by simp
  then show ?thesis using s1 r
    by (auto simp: session_getDirect_def split: sum.split option.split prod.split) (metis snd_conv)+
qed

lemma same_ears_createGroup: "same_ears s (snd (session_createGroup env title us s))"
proof -
  obtain r s1 where r: "run_rest (createGroup (rest_env env) title us) s = (r, s1)" by force
  then have "same_ears s s1" using same_ears_run_rest [of s "createGroup (rest_env env) title us"] by simp
  then show ?thesis using same_ears_trans same_ears_conversation_of_answer [of "(r, s1)"] r
    by (fastforce simp: session_createGroup_def)
qed

lemma same_ears_open: "same_ears s (snd (openConversation env c s))"
proof -
  obtain r s1 where r: "run_rest (getConversation (rest_env env) c) s = (r, s1)" by force
  have s1: "same_ears s s1" using same_ears_run_rest [of s "getConversation (rest_env env) c"] r by simp
  have "same_ears s (snd (conversationFor c kind None (rememberKind i kind s1)))" for i kind
    using same_ears_trans [OF s1] same_ears_trans [OF same_ears_rememberKind same_ears_conversationFor] by blast
  then show ?thesis using s1 r same_ears_refl same_ears_conversationFor
    by (auto simp: openConversation_def Let_def split_def split: sum.split option.split)
qed

text \<open>Registering another listener.\<close>

lemma listeners_of_update:
  "listeners_of (AList.update ev xs ls) ev' = (if ev' = ev then xs else listeners_of ls ev')"
  by (simp add: listeners_of_def AList.update_conv')

lemma tuned_session_on:
  assumes "tuned l s" "k \<noteq> l"
  shows "tuned l (session_on ev k s)"
proof -
  have "listeners_of (s_listeners (session_on ev k s)) ev' =
      (if ev' = ev then set_add k (listeners_of (s_listeners s) ev) else listeners_of (s_listeners s) ev')" for ev'
    by (simp add: session_on_def listeners_of_update)
  moreover have "local_listeners (session_on ev k s) = local_listeners s"
    by (simp add: session_on_def local_listeners_def fun_eq_iff)
  ultimately show ?thesis using assms by (auto simp: tuned_def)
qed

lemma tuned_session_off:
  assumes "tuned l s" "k \<noteq> l"
  shows "tuned l (session_off ev k s)"
proof (cases "map_of (s_listeners s) ev")
  case (Some xs)
  then have xs: "xs = listeners_of (s_listeners s) ev" by (simp add: listeners_of_def)
  have "listeners_of (s_listeners (session_off ev k s)) ev' =
      (if ev' = ev then set_delete k (listeners_of (s_listeners s) ev) else listeners_of (s_listeners s) ev')" for ev'
    using Some xs by (simp add: session_off_def listeners_of_update)
  moreover have "local_listeners (session_off ev k s) = local_listeners s"
    using Some by (simp add: session_off_def local_listeners_def fun_eq_iff)
  ultimately show ?thesis using assms by (auto simp: tuned_def set_delete_def)
qed (simp add: session_off_def assms)

lemma session_on_off_frame [simp]:
  "s_sync (session_on ev k s) = s_sync s" "s_calls (session_on ev k s) = s_calls s"
  "s_sync (session_off ev k s) = s_sync s" "s_calls (session_off ev k s) = s_calls s"
  by (simp_all add: session_on_def session_off_def split: option.split)

text \<open>An engine step without reports.\<close>

lemma carries_quiet:
  assumes "sync_step (se_storage env) lab (s_sync s, logs) (sy, logs)" "clean d lab" "outs sy = outs (s_sync s)"
    and "s_sync s' = sy" "s_calls s' = s_calls s" "s_listeners s' = s_listeners s" "conversations s' = conversations s"
  shows "carries env l d logs s s'"
  using assms tuned_cong [of s' s l] lreach_single [of "clean d" lab "sync_step (se_storage env)", OF assms(2,1)]
  by (auto simp: carries_def in_step_def heard_def)

lemma carries_history:
  assumes "c = d \<longrightarrow> frm = None"
  shows "carries env l d logs s (history c frm limit s)"
  by (rule carries_quiet [OF step_history [of _ c "\<lparr>fo_fromSequence = frm, fo_limit = limit, fo_maxPages = None\<rparr>"]])
     (use assms in \<open>simp_all add: history_def fetchFrom_def enqueue_def split: option.split\<close>)

lemma carries_forget: "c \<noteq> d \<Longrightarrow> carries env l d logs s (forgetConversation env c s)"
  by (rule carries_quiet [OF step_forget [of _ c]]) (simp_all add: forgetConversation_def forget_def)

lemma carries_track_sent:
  assumes "c \<noteq> d"
  shows "carries env l d logs (snd rs) (snd (track_sent env c rs))"
proof -
  have "carries env l d logs s (s\<lparr>s_sync := track (se_storage env) c n (s_sync s)\<rparr>)" for s :: "('a, 'b) session" and n
    by (rule carries_quiet [OF step_track [of _ c n]]) (simp_all add: assms)
  then show ?thesis using carries_refl by (auto simp: track_sent_def split: prod.split sum.split option.split)
qed

lemma carries_sendGroup:
  "c \<noteq> d \<Longrightarrow> carries env l d logs s (snd (sendGroupMessage env rnd c content o' s))"
  unfolding sendGroupMessage_def
  by (rule carries_trans [OF same_ears_carries [OF same_ears_rest_after] carries_track_sent])

lemma carries_sendDirect:
  assumes "sent_to env (CallSendDirect rnd u content o') s \<noteq> Some d"
  shows "carries env l d logs s (snd (session_sendDirectMessage env rnd u content o' s))"
proof (cases "session_createDirect env u s")
  case (Pair r s1)
  have s1: "carries env l d logs s s1"
    using same_ears_carries [OF same_ears_answer] Pair by (metis session_createDirect_def snd_conv)
  show ?thesis
  proof (cases r)
    case (Inr c)
    then have "conv_id c \<noteq> d" using assms Pair by simp
    from carries_trans [OF s1 carries_trans [OF carries_run_rest carries_track_sent [OF this]]]
    show ?thesis using Pair Inr by (simp add: session_sendDirectMessage_def)
  qed (use Pair s1 in \<open>simp add: session_sendDirectMessage_def\<close>)
qed

lemma carries_ensureTracked: "carries env l d logs s (ensureTracked c s)"
  using carries_refl by (auto simp: ensureTracked_def intro: carries_history)

text \<open>The listeners of the conversation objects.\<close>

lemma tuned_local:
  assumes "tuned l s" "s_listeners s' = s_listeners s"
    and "\<And>c ev. l \<in> set (local_listeners s' c ev) \<Longrightarrow> l \<in> set (local_listeners s c ev)"
  shows "tuned l s'"
  using assms by (auto simp: tuned_def)

lemma carries_conversation_on:
  assumes "k \<noteq> l"
  shows "carries env l d logs s (conversation_on i ev k s)"
proof (cases "map_of (conversations s) i")
  case (Some c)
  let ?c = "c\<lparr>conv_listeners := AList.update ev (set_add k (listeners_of (conv_listeners c) ev)) (conv_listeners c)\<rparr>"
  let ?s = "s\<lparr>conversations := AList.update i ?c (conversations s)\<rparr>"
  have "l \<in> set (local_listeners ?s d ev') \<Longrightarrow> l \<in> set (local_listeners s d ev')" for d ev'
    using assms Some by (auto simp: local_listeners_def AList.update_conv' listeners_of_update split: if_splits)
  then have "carries env l d logs s ?s" by (intro carries_wiring) (auto intro: tuned_local)
  then show ?thesis using Some carries_trans [OF _ carries_ensureTracked] by (auto simp: conversation_on_def Let_def)
qed (simp add: conversation_on_def carries_refl)

lemma carries_conversation_off: "carries env l d logs s (conversation_off i ev k s)"
proof (cases "map_of (conversations s) i")
  case (Some c)
  show ?thesis
  proof (cases "map_of (conv_listeners c) ev")
    case xs: (Some xs)
    let ?c = "c\<lparr>conv_listeners := AList.update ev (set_delete k xs) (conv_listeners c)\<rparr>"
    let ?s = "s\<lparr>conversations := AList.update i ?c (conversations s)\<rparr>"
    have "l \<in> set (local_listeners ?s d ev') \<Longrightarrow> l \<in> set (local_listeners s d ev')" for d ev'
      using xs Some by (auto simp: local_listeners_def AList.update_conv' listeners_of_update listeners_of_def set_delete_def split: if_splits)
    then have "carries env l d logs s ?s" by (intro carries_wiring) (auto intro: tuned_local)
    then show ?thesis using Some xs by (simp add: conversation_off_def)
  qed (simp add: conversation_off_def Some carries_refl)
qed (simp add: conversation_off_def carries_refl)

lemma carries_connect:
  assumes "map_option snd (session_connect env thrown s) = Some s'"
  shows "carries env l d logs s s'"
proof -
  have "carries env l d logs s (s\<lparr>wantConnected := True\<rparr>)" by (rule carries_frame) simp_all
  then have via: "with_gateway env g g' (s\<lparr>wantConnected := True\<rparr>) = Some s' \<Longrightarrow> carries env l d logs s s'" for g g'
    using carries_trans carries_with_gateway by blast
  show ?thesis using assms
    by (auto simp: session_connect_def split_def Let_def split: option.splits bind_splits intro: carries_emit dest: via)
qed

lemma carries_disconnect:
  assumes "disconnect env s = Some s'"
  shows "carries env l d logs s s'"
proof -
  have want: "carries env l d logs s (s\<lparr>wantConnected := False\<rparr>)" by (rule carries_frame) simp_all
  show ?thesis
  proof (cases "gateway_of s")
    case (Some g)
    then obtain s1 where s1: "with_gateway env g (gw_close g) (s\<lparr>wantConnected := False\<rparr>) = Some s1" "s' = s1\<lparr>s_status := Closed\<rparr>"
      using assms by (auto simp: disconnect_def split: bind_splits)
    have "carries env l d logs s1 s'" unfolding s1(2) by (rule carries_frame) simp_all
    then show ?thesis using carries_trans [OF carries_trans [OF want carries_with_gateway [OF s1(1)]]] by blast
  qed (use assms want in \<open>simp add: disconnect_def\<close>)
qed

lemma carries_show: "map_option snd (onShow env thrown s) = Some s' \<Longrightarrow> carries env l d logs s s'"
  by (auto simp: onShow_def split_def Let_def carries_refl split: option.splits if_splits bind_splits intro: carries_with_gateway)

lemma carries_setCredential: "carries env l d logs s (session_setCredential c s)"
  by (rule carries_frame) (simp_all add: session_setCredential_def set_gateway_def)

section \<open>Every run\<close>

text \<open>
  The calls that keep the promise to listener \<open>l\<close> for conversation \<open>d\<close>: the listener is not registered
  again or removed, and the conversation is not forgotten or read from a named starting point.
\<close>

fun call_ok :: "nat \<Rightarrow> jstr \<Rightarrow> session_call \<Rightarrow> bool" where
  "call_ok l d (CallOn ev k) = (k \<noteq> l)"
| "call_ok l d (CallOff ev k) = (k \<noteq> l)"
| "call_ok l d (CallConversationOn c ev k) = (k \<noteq> l)"
| "call_ok l d (CallHistory c frm limit) = (c = d \<longrightarrow> frm = None)"
| "call_ok l d (CallForget c) = (c \<noteq> d)"
| "call_ok l d _ = True"

fun clean_for :: "nat \<Rightarrow> jstr \<Rightarrow> session_label \<Rightarrow> bool" where
  "clean_for l d (Called k sent) = (call_ok l d k \<and> sent \<noteq> Some d)"
| "clean_for l d (TaskFailed c i e later) = (c = d \<longrightarrow> \<not> later)"
| "clean_for l d _ = True"

lemmas carries_calls = carries_refl carries_connect carries_disconnect carries_show carries_setCredential carries_run_rest
  carries_history carries_forget carries_sendGroup carries_sendDirect carries_conversation_on carries_conversation_off
  same_ears_carries [OF same_ears_listGroups] same_ears_carries [OF same_ears_answer] same_ears_carries [OF same_ears_getDirect]
  same_ears_carries [OF same_ears_createGroup] same_ears_carries [OF same_ears_open] same_ears_carries [OF same_ears_rest_after]

lemma carries_call:
  assumes "run_call env k s = Some s'" "call_ok l d k" "sent_to env k s \<noteq> Some d"
  shows "carries env l d logs s s'"
proof (cases k)
  case (CallOn ev n)
  then show ?thesis using assms by (auto intro!: carries_wiring tuned_session_on)
next
  case (CallOff ev n)
  then show ?thesis using assms by (auto intro!: carries_wiring tuned_session_off)
next
  case (CallConnect thrown)
  then show ?thesis using assms(1) by (intro carries_connect) simp
next
  case (CallShow thrown)
  then show ?thesis using assms(1) by (intro carries_show) simp
qed (use assms in \<open>auto intro: carries_calls simp: session_me_def session_createDirect_def session_addMembers_def
    session_removeMembers_def session_listMessages_def session_uploadFile_def conversation_send_def details_def\<close>)

inductive_cases session_step_cases: "session_step env l w w'"

definition session_inv :: "nat \<Rightarrow> jstr \<Rightarrow> int \<Rightarrow> ('w, 's) session \<times> (jstr \<Rightarrow> chat_message list) \<Rightarrow> bool" where
  "session_inv l d a = (\<lambda>(s, logs). in_step l s \<and> sync_inv d a (s_sync s, logs))"

lemma carries_inv: "carries env l d logs s s' \<Longrightarrow> session_inv l d a (s, logs) \<Longrightarrow> session_inv l d a (s', logs)"
  using engine.inv_reach by (auto simp: carries_def session_inv_def)

lemma session_step_carries:
  assumes "session_step env lab (s, logs) (s', logs')" "clean_for l d lab" "\<And>c m. lab \<noteq> StoredMessage c m"
  shows "carries env l d logs s s' \<and> logs' = logs"
  using assms(1)
proof (cases rule: session_step.cases)
  case (ss_called k)
  then show ?thesis using assms(2) carries_call [of env k s s' l d] by simp
next
  case ss_gateway
  then show ?thesis using carries_with_gateway by auto
next
  case ss_refreshed
  then show ?thesis using carries_gateway_refresh by auto
next
  case (ss_started i)
  obtain xs where "outs (start_task (se_storage env) i (s_sync s)) = outs (s_sync s) @ xs" using outs_start_task by blast
  with ss_started show ?thesis by (auto simp: run_next_def intro: carries_with_sync [OF _ _ step_start])
next
  case (ss_answered i f after limit c n own)
  then show ?thesis
    by (auto intro!: carries_answer [OF _ _ _ _ refl, where lab = "Answer i n"] step_answer)
next
  case (ss_failed i f after limit c e own)
  then show ?thesis using assms(2)
    by (auto intro!: carries_answer [OF _ _ _ _ refl, where lab = "Fail c i e (frame_emitted f)"] step_fail)
qed (use assms(3) in auto)

interpretation session: inductive_invariant "session_step env" "clean_for l d" "session_inv l d a"
proof
  fix w lab w'
  assume inv: "session_inv l d a w" and ok: "clean_for l d lab" and step: "session_step env lab w w'"
  obtain s logs s' logs' where w: "w = (s, logs)" "w' = (s', logs')" by fastforce
  show "session_inv l d a w'"
  proof (cases "\<exists>c m. lab = StoredMessage c m")
    case True
    then show ?thesis using step inv unfolding w by (auto elim!: session_step_cases simp: session_inv_def intro: append_inv)
  next
    case False
    then show ?thesis using session_step_carries [OF step [unfolded w] ok] inv carries_inv unfolding w by fastforce
  qed
qed

text \<open>
C1: Take a new session without \<open>autoConnect\<close>, whose stored sequence of a conversation is not beyond the backend's log, and register
a \<open>message\<close> listener.  In every run in which
the listener is not registered again or removed, the conversation is not forgotten, the application does not send to it (an answered send raises the cursor), no history call for it
names a starting point, and none of its fetches fails after its first page, the messages of
the conversation the listener was called with are, in the order of the backend's log, exactly those
after the stored sequence and up to the cursor.  Within these bounds the application may call any operation, the socket open,
close, deliver frames and reconnect, listeners throw, REST calls fail, the backend store messages, and the tasks of all conversations
interleave.  The bounds are needed: \<open>Delivery.failed_page_is_emitted_again\<close> and \<open>Session.send_hides_unseen_messages\<close> are runs outside of them.
\<close>

theorem listener_hears_once:
  assumes "newAirwayIM env options storage thrown w = Some (Inr s0)" "\<not> io_autoConnect options"
    and "lreach (session_step env) (clean_for l c) (session_on EvMessage l s0, logs0) (s, logs)"
    and "\<forall>c. log_ok c (logs0 c)" "session_lastSequence s0 c \<le> upto_seq 0 (logs0 c)"
  shows "filter (\<lambda>m. msg_conversation_id m = c) (heard l s) =
      between (logs c) (session_lastSequence s0 c) (cursor (session_lastSequence s c) (run_of (s_sync s) c)) \<and>
    session_lastSequence s c \<le> cursor (session_lastSequence s c) (run_of (s_sync s) c) \<and>
    sorted_wrt (<) (map msg_sequence (filter (\<lambda>m. msg_conversation_id m = c) (heard l s)))"
proof -
  obtain st where st: "s_sync s0 = newSyncEngine (se_storage env) st None" "s_listeners s0 = []" "s_calls s0 = []"
    "conversations s0 = []"
    using assms(1,2) by (auto simp: newAirwayIM_def Let_def split: if_splits)
  then have "in_step l (session_on EvMessage l s0)"
    by (simp add: in_step_def tuned_def heard_def session_on_def listeners_of_def local_listeners_def newSyncEngine_frame)
  then have "session_inv l c (session_lastSequence s0 c) (session_on EvMessage l s0, logs0)"
    using newSyncEngine_inv [OF assms(4)] assms(5) st(1) by (simp add: session_inv_def session_lastSequence_def)
  from session.inv_reach [OF assms(3) this]
  have heard: "heard l s = emissions (outs (s_sync s))" and inv: "sync_inv c (session_lastSequence s0 c) (s_sync s, logs)"
    by (simp_all add: session_inv_def in_step_def)
  show ?thesis using sync_inv_emitted [OF inv] unfolding heard emitted_def session_lastSequence_def by blast
qed

definition sample_options :: im_options where
  "sample_options = \<lparr>io_apiUrl = js ''http://h'', io_wsUrl = None, io_credential = js ''c'', io_adapter = True,
     io_timeoutMs = None, io_pingIntervalMs = None, io_persistSequences = None, io_autoConnect = False\<rparr>"

theorem listener_hears_once_witness:
  "\<exists>s0 s. newAirwayIM sample_backend sample_options None None () = Some (Inr s0) \<and>
     lreach (session_step sample_backend) (clean_for 7 [99]) (session_on EvMessage 7 s0, sample_logs) (s, sample_logs) \<and>
     session_lastSequence s [99] = 5 \<and> filter (\<lambda>m. msg_conversation_id m = [99]) (heard 7 s) = sample_log"
proof -
  obtain s0 where s0: "newAirwayIM sample_backend sample_options None None () = Some (Inr s0)"
    "s_sync s0 = sample_engine"
    by (simp add: newAirwayIM_def sample_options_def sample_engine_def sample_backend_def sample_env_def)
  let ?s1 = "session_on EvMessage 7 s0"
  let ?s2 = "history [99] None None ?s1"
  define sy where "sy = start_task memory_storage 0 (s_sync ?s2)"
  have s2: "s_sync ?s2 = fetchFrom [99] no_fetch_options sample_engine"
    using s0(2) by (simp add: history_def no_fetch_options_def)
  have sy: "length (chains (s_sync ?s2)) = 1" "length (chains sy) = 1" "ch_conversation (chains sy ! 0) = [99]"
    "ch_running (chains sy ! 0) = Some (Fetching 200 0 10 0 [])" "outs (s_sync ?s2) = []" "outs sy = [ListMessages [99] 0 200]"
    by (simp_all add: sy_def s2 sync_eval no_fetch_options_def PAGE_LIMIT_def MAX_SYNC_PAGES_def)
  obtain s3 where s3: "run_next sample_backend 0 ?s2 = Some s3" "s_sync s3 = sy"
    using sy by (simp add: run_next_def with_sync_def sy_def [symmetric] sample_backend_def sample_env_def)
  obtain t where t: "run_rest (listMessages (rest_env sample_backend) [99] \<lparr>lo_afterSequence = Some 0, lo_limit = Some 200\<rparr>) s3
      = (Inr (Some (JArr (map json_of_message sample_log))), t)" using sample_list_messages by blast
  have frame: "s_sync t = sy" using run_rest_frame [OF t] s3(2) by simp
  define sz where "sz = resume_task memory_storage 0 (Inr sample_log) sy"
  have sz: "outs sz = outs sy @ [OnMessages sample_log, Fetched [99] sample_log]" "lastSequence sz [99] = 5" "run_of sz [99] = None"
    by (simp_all add: sz_def sy_def s2 sync_eval no_fetch_options_def PAGE_LIMIT_def MAX_SYNC_PAGES_def run_of_def)
  have "answer_fetch sample_backend False 0 s3 = with_sync sample_backend False sz t"
    using sy(3,4) t s3(2) frame by (simp add: answer_fetch_def sz_def sample_backend_def sample_env_def)
  moreover have "\<exists>s'. with_sync sample_backend False sz t = Some s' \<and> s_sync s' = sz"
    using sz(1) frame onMessages_silent [of sample_backend] by (simp add: with_sync_def sample_backend_def sample_env_def)
  ultimately have "\<exists>s'. answer_fetch sample_backend False 0 s3 = Some s' \<and> lastSequence (s_sync s') [99] = 5 \<and> run_of (s_sync s') [99] = None"
    using sz(2,3) by auto
  then obtain s4 where s4: "answer_fetch sample_backend False 0 s3 = Some s4"
    "session_lastSequence s4 [99] = 5" "run_of (s_sync s4) [99] = None"
    by (auto simp: session_lastSequence_def)
  have page: "server_page (take 3 (sample_logs [99])) 0 200 = sample_log"
    by (simp add: server_page_def sample_logs_def sample_log_def)
  have steps: "session_step sample_backend (Called (CallHistory [99] None None) None) (?s1, sample_logs) (?s2, sample_logs)"
    "session_step sample_backend (TaskStarted 0) (?s2, sample_logs) (s3, sample_logs)"
    "session_step sample_backend (TaskAnswered 0 3) (s3, sample_logs) (s4, sample_logs)"
    using ss_called [of sample_backend "CallHistory [99] None None" ?s1 ?s2] ss_started [OF _ s3(1)] sy s3(2)
      ss_answered [of 0 s3 "Fetching 200 0 10 0 []" 0 200 "[99]" sample_backend 3 sample_logs, OF _ _ _ _ _ s4(1)] t page
    by (simp_all add: listed_def)
  have reach: "lreach (session_step sample_backend) (clean_for 7 [99]) (?s1, sample_logs) (s4, sample_logs)"
    using lreach.more [OF lreach.more [OF lreach.more [OF lreach.start]], where step = "session_step sample_backend"
        and allowed = "clean_for 7 [99]", OF _ steps(1) _ steps(2) _ steps(3)] by simp
  have logs: "\<forall>c. log_ok c (sample_logs c)" by (simp add: sample_logs_ok)
  have "session_lastSequence s0 [99] \<le> upto_seq 0 (sample_logs [99])"
    "\<not> io_autoConnect sample_options"
    using s0(2) by (simp_all add: session_lastSequence_def upto_seq_def sample_logs_def sample_log_def sample_options_def)
  with listener_hears_once [OF s0(1) _ reach logs] s4(2,3) s0(2)
  have "filter (\<lambda>m. msg_conversation_id m = [99]) (heard 7 s4) = sample_log"
    by (simp add: session_lastSequence_def between_def sample_logs_def sample_log_def)
  then show ?thesis using s0(1) reach s4(2) by blast
qed

end
