(* ===== verification/Backend.thy ===== *)
theory Backend
  imports Session
begin

text \<open>
  The message API of the backend: \<open>CreateMessage\<close>, \<open>CreateConversationMessage\<close> and \<open>ListMessages\<close> of
  \<open>app/api/im_api/messages.go\<close> and \<open>MarkMessageIllegal\<close> of \<open>app/api/admin_api/conversations.go\<close>, over the tables of
  \<open>host/db/migrate\<close>.

  The handlers run concurrently: \<open>createMessage\<close> reads the idempotency key before its transaction, so its model has a
  part before (\<open>create_check\<close>) and the transaction (\<open>create_commit\<close>), and other requests may run in between.
  A transaction is atomic; it may fail, and it may succeed although the handler sees an error (\<open>fate\<close>).  A unique index
  makes an insertion fail.  Not modelled: the authentication of the user, reads that
  fail, bodies beyond 65 KiB and sequences beyond 64 bits.  The request hash is an argument (\<open>sha256\<close> of the JSON of the request), and so are new ids and the clock.
\<close>

section \<open>Tables\<close>

record message_row =
  mr_id :: jstr
  mr_conversation_id :: jstr
  mr_sender_id :: int
  mr_content :: jstr
  mr_content_type :: jstr
  mr_sequence :: int
  mr_created_at :: jstr
  mr_is_illegal :: bool

record outbox_event =
  ob_id :: jstr
  ob_topic :: jstr
  ob_aggregate_id :: jstr
  ob_payload :: json

text \<open>
  Of \<open>conversations\<close> the column \<open>next_sequence\<close>; of \<open>conversation_members\<close> the rows whose \<open>left_at\<close> is null; of
  \<open>message_idempotency\<close> the hash and the message for each user and key.
\<close>

record database =
  db_users :: "(int \<times> sender) list"
  db_next_sequence :: "(jstr \<times> int) list"
  db_members :: "(jstr \<times> int) list"
  db_messages :: "message_row list"
  db_idempotency :: "((int \<times> jstr) \<times> jstr \<times> jstr) list"
  db_outbox :: "outbox_event list"

section \<open>Responses\<close>

definition respond :: "int \<Rightarrow> json \<Rightarrow> http_response" where
  "respond status data = \<lparr>rs_statusCode = status,
     rs_data = JObj [(js ''code'', JNum 0), (js ''data'', data), (js ''message'', JNull)]\<rparr>"

definition respondError :: "int \<Rightarrow> int \<Rightarrow> string \<Rightarrow> http_response" where
  "respondError status code message = \<lparr>rs_statusCode = status,
     rs_data = JObj [(js ''code'', JNum code), (js ''data'', JNull), (js ''message'', JStr (js message))]\<rparr>"

text \<open>\<open>messageRow.response\<close>: a moderated message is masked.\<close>

definition row_response :: "sender \<Rightarrow> message_row \<Rightarrow> chat_message" where
  "row_response user row =
     \<lparr>msg_id = mr_id row, msg_conversation_id = mr_conversation_id row, msg_sender = user,
      msg_content = (if mr_is_illegal row then js ''***'' else mr_content row),
      msg_content_type = (if mr_content_type row = js ''text/plain'' then TextPlain else TextMarkdown),
      msg_created_at = mr_created_at row, msg_sequence = mr_sequence row\<rparr>"

text \<open>\<open>FROM messages m JOIN users u ON u.id = m.sender_id\<close>.\<close>

definition joined :: "database \<Rightarrow> message_row list \<Rightarrow> chat_message list" where
  "joined db rows = concat (map (\<lambda>r. case map_of (db_users db) (mr_sender_id r) of
     Some u \<Rightarrow> [row_response u r] | None \<Rightarrow> []) rows)"

definition loadMessage :: "database \<Rightarrow> jstr \<Rightarrow> chat_message option" where
  "loadMessage db messageID =
     (case joined db (filter (\<lambda>r. mr_id r = messageID) (db_messages db)) of m # _ \<Rightarrow> Some m | [] \<Rightarrow> None)"

definition activeMember :: "database \<Rightarrow> jstr \<Rightarrow> int \<Rightarrow> bool" where
  "activeMember db conversationID userID \<longleftrightarrow>
     length (filter (\<lambda>r. r = (conversationID, userID)) (db_members db)) = 1"

section \<open>ListMessages\<close>

definition clamp_limit :: "int \<Rightarrow> int" where
  "clamp_limit limit = (if limit < 1 \<or> limit > 200 then 100 else limit)"

definition selected :: "database \<Rightarrow> jstr \<Rightarrow> int \<Rightarrow> int \<Rightarrow> chat_message list" where
  "selected db conversationID after limit =
     take (nat limit) (sort_key msg_sequence (filter (\<lambda>m. after < msg_sequence m)
       (joined db (filter (\<lambda>r. mr_conversation_id r = conversationID) (db_messages db)))))"

definition ListMessages :: "database \<Rightarrow> int \<Rightarrow> jstr \<Rightarrow> int \<Rightarrow> int \<Rightarrow> http_response" where
  "ListMessages db userID conversationID after limit =
     (if \<not> activeMember db conversationID userID then respondError 403 10005 ''Permission denied''
      else respond 200 (JArr (map json_of_message (selected db conversationID after (clamp_limit limit)))))"

section \<open>createMessage\<close>

record createMessageRequest =
  cq_conversation_id :: jstr
  cq_content :: jstr
  cq_content_type :: jstr

text \<open>Go's \<open>encoding/json\<close> matches the names of the fields without regard to case, and refuses unknown ones here.\<close>

definition fold_unit :: "nat \<Rightarrow> nat" where
  "fold_unit c = (if 65 \<le> c \<and> c \<le> 90 then c + 32 else if c = 383 then 115 else if c = 8490 then 107 else c)"

definition set_field :: "jstr \<times> json \<Rightarrow> createMessageRequest \<Rightarrow> createMessageRequest option" where
  "set_field kv r =
     (let k = map fold_unit (fst kv)
      in if k \<notin> set [js ''conversation_id'', js ''content'', js ''content_type''] then None
         else case snd kv of
             JNull \<Rightarrow> Some r
           | JStr s \<Rightarrow> Some (if k = js ''conversation_id'' then r\<lparr>cq_conversation_id := s\<rparr>
               else if k = js ''content'' then r\<lparr>cq_content := s\<rparr> else r\<lparr>cq_content_type := s\<rparr>)
           | _ \<Rightarrow> None)"

fun set_fields :: "(jstr \<times> json) list \<Rightarrow> createMessageRequest \<Rightarrow> createMessageRequest option" where
  "set_fields [] r = Some r"
| "set_fields (kv # kvs) r = (case set_field kv r of None \<Rightarrow> None | Some r' \<Rightarrow> set_fields kvs r')"

fun decodeJSONBody :: "json \<Rightarrow> createMessageRequest option" where
  "decodeJSONBody (JObj kvs) = set_fields kvs \<lparr>cq_conversation_id = [], cq_content = [], cq_content_type = []\<rparr>"
| "decodeJSONBody JNull = Some \<lparr>cq_conversation_id = [], cq_content = [], cq_content_type = []\<rparr>"
| "decodeJSONBody _ = None"

text \<open>\<open>strings.TrimSpace\<close>, \<open>strings.ReplaceAll\<close> of the line ends, and the length of a string in bytes.\<close>

definition go_space :: "nat \<Rightarrow> bool" where
  "go_space c \<longleftrightarrow> c \<in> set [9, 10, 11, 12, 13, 32, 133, 160, 5760, 8232, 8233, 8239, 8287, 12288] \<or> 8192 \<le> c \<and> c \<le> 8202"

definition TrimSpace :: "jstr \<Rightarrow> jstr" where
  "TrimSpace s = rev (dropWhile go_space (rev (dropWhile go_space s)))"

fun replace_crlf :: "jstr \<Rightarrow> jstr" where
  "replace_crlf (c # d # r) = (if c = 13 \<and> d = 10 then 10 # replace_crlf r else c # replace_crlf (d # r))"
| "replace_crlf r = r"

definition line_ends :: "jstr \<Rightarrow> jstr" where
  "line_ends s = map (\<lambda>c. if c = 13 then 10 else c) (replace_crlf s)"

fun byte_length :: "jstr \<Rightarrow> nat" where
  "byte_length (c # d # r) =
     (if high_surrogate c \<and> low_surrogate d then 4 + byte_length r else length (utf8 c) + byte_length (d # r))"
| "byte_length [c] = length (utf8 c)"
| "byte_length [] = 0"

definition normalized :: "createMessageRequest \<Rightarrow> createMessageRequest" where
  "normalized r =
     \<lparr>cq_conversation_id = TrimSpace (cq_conversation_id r), cq_content = line_ends (cq_content r),
      cq_content_type = (if cq_content_type r = [] then js ''text/markdown'' else cq_content_type r)\<rparr>"

definition valid_request :: "createMessageRequest \<Rightarrow> bool" where
  "valid_request r \<longleftrightarrow>
     byte_length (cq_conversation_id r) = 26 \<and> TrimSpace (cq_content r) \<noteq> [] \<and> byte_length (cq_content r) \<le> 32 * 1024 \<and>
     (cq_content_type r = js ''text/markdown'' \<or> cq_content_type r = js ''text/plain'')"

text \<open>What the handler holds when it reaches its transaction.\<close>

record pending_create =
  pc_user :: int
  pc_sender :: sender
  pc_request :: createMessageRequest
  pc_key :: jstr
  pc_hash :: jstr

definition lookupIdempotency :: "database \<Rightarrow> int \<Rightarrow> jstr \<Rightarrow> (jstr \<times> jstr) option" where
  "lookupIdempotency db userID k = map_of (db_idempotency db) (userID, k)"

definition create_check ::
  "(createMessageRequest \<Rightarrow> jstr) \<Rightarrow> database \<Rightarrow> int \<times> sender \<Rightarrow> jstr \<Rightarrow> createMessageRequest \<Rightarrow> http_response + pending_create" where
  "create_check requestHash db user header raw =
     (let r = normalized raw; hash = requestHash r; k = TrimSpace header;
          userID = fst user;
          go = Inr \<lparr>pc_user = userID, pc_sender = snd user, pc_request = r, pc_key = k, pc_hash = hash\<rparr>
      in if \<not> valid_request r then Inl (respondError 400 10003 ''Invalid message fields'')
         else if \<not> activeMember db (cq_conversation_id r) userID then Inl (respondError 403 10005 ''Permission denied'')
         else if k = [] then go
         else if byte_length k > 128 then Inl (respondError 400 10003 ''Idempotency key is too long'')
         else case lookupIdempotency db userID k of
             None \<Rightarrow> go
           | Some (storedHash, messageID) \<Rightarrow>
               if storedHash \<noteq> hash then
                 Inl (respondError 409 11002 ''Idempotency key was reused with a different request'')
               else (case loadMessage db messageID of
                   None \<Rightarrow> Inl (respondError 500 10000 ''Could not load message'')
                 | Some m \<Rightarrow> Inl (respond 200 (json_of_message m))))"

datatype tx_error = NoRows | TxFailed

definition targets_of :: "database \<Rightarrow> jstr \<Rightarrow> jstr list" where
  "targets_of db conversationID =
     concat (map (\<lambda>(c, u). case map_of (db_users db) u of Some s \<Rightarrow> if c = conversationID then [snd_uuid s] else [] | None \<Rightarrow> [])
       (db_members db))"

definition event_payload :: "string \<Rightarrow> jstr \<Rightarrow> jstr \<Rightarrow> jstr \<Rightarrow> int \<Rightarrow> jstr list \<Rightarrow> json" where
  "event_payload event eventID messageID conversationID sequence targets =
     JObj [(js ''event_id'', JStr eventID), (js ''event'', JStr (js event)), (js ''message_id'', JStr messageID),
       (js ''conversation_id'', JStr conversationID), (js ''sequence'', JNum sequence),
       (js ''targets'', JObj [(js ''user_uuids'', json_strings targets)])]"

text \<open>The statements of the transaction, in their order.\<close>

definition bump_sequence :: "jstr \<Rightarrow> database \<Rightarrow> tx_error + int \<times> database" where
  "bump_sequence conversationID db =
     (case map_of (db_next_sequence db) conversationID of
        None \<Rightarrow> Inl NoRows
      | Some n \<Rightarrow> Inr (n, db\<lparr>db_next_sequence := AList.update conversationID (n + 1) (db_next_sequence db)\<rparr>))"

definition insert_message :: "message_row \<Rightarrow> database \<Rightarrow> tx_error + database" where
  "insert_message row db =
     (if list_ex (\<lambda>r. mr_id r = mr_id row \<or>
          mr_conversation_id r = mr_conversation_id row \<and> mr_sequence r = mr_sequence row) (db_messages db) then Inl TxFailed
      else Inr (db\<lparr>db_messages := db_messages db @ [row]\<rparr>))"

definition insert_idempotency :: "int \<Rightarrow> jstr \<Rightarrow> jstr \<Rightarrow> jstr \<Rightarrow> database \<Rightarrow> tx_error + database" where
  "insert_idempotency userID k hash messageID db =
     (case map_of (db_idempotency db) (userID, k) of
        Some _ \<Rightarrow> Inl TxFailed
      | None \<Rightarrow> Inr (db\<lparr>db_idempotency := db_idempotency db @ [((userID, k), hash, messageID)]\<rparr>))"

definition insert_outbox :: "outbox_event \<Rightarrow> database \<Rightarrow> tx_error + database" where
  "insert_outbox e db =
     (if list_ex (\<lambda>o'. ob_id o' = ob_id e) (db_outbox db) then Inl TxFailed
      else Inr (db\<lparr>db_outbox := db_outbox db @ [e]\<rparr>))"

definition tx_then :: "tx_error + 'a \<Rightarrow> ('a \<Rightarrow> tx_error + 'b) \<Rightarrow> tx_error + 'b" where
  "tx_then r f = (case r of Inl e \<Rightarrow> Inl e | Inr x \<Rightarrow> f x)"

definition create_tx :: "jstr \<Rightarrow> jstr \<Rightarrow> jstr \<Rightarrow> pending_create \<Rightarrow> database \<Rightarrow> tx_error + message_row \<times> database" where
  "create_tx messageID eventID now p db =
     (let r = pc_request p; c = cq_conversation_id r
      in tx_then (bump_sequence c db) (\<lambda>(sequence, db1).
         let row = \<lparr>mr_id = messageID, mr_conversation_id = c, mr_sender_id = pc_user p, mr_content = cq_content r,
               mr_content_type = cq_content_type r, mr_sequence = sequence, mr_created_at = now, mr_is_illegal = False\<rparr>
         in tx_then (insert_message row db1) (\<lambda>db2.
            tx_then (if pc_key p = [] then Inr db2 else insert_idempotency (pc_user p) (pc_key p) (pc_hash p) messageID db2) (\<lambda>db3.
            tx_then (insert_outbox \<lparr>ob_id = eventID, ob_topic = js ''message.created'', ob_aggregate_id = messageID,
                ob_payload = event_payload ''message.created'' eventID messageID c sequence (targets_of db3 c)\<rparr> db3) (\<lambda>db4.
            Inr (row, db4))))))"

datatype fate = Committed | RolledBack | Unacknowledged

text \<open>The transaction and the answer; \<open>ids\<close> is \<open>None\<close> when \<open>NewULID\<close> fails.\<close>

definition create_commit ::
  "(jstr \<times> jstr) option \<Rightarrow> jstr \<Rightarrow> fate \<Rightarrow> pending_create \<Rightarrow> database \<Rightarrow> http_response \<times> database" where
  "create_commit ids now f p db =
     (case ids of
        None \<Rightarrow> (respondError 500 10000 ''Could not create message'', db)
      | Some (messageID, eventID) \<Rightarrow>
          (case create_tx messageID eventID now p db of
             Inl NoRows \<Rightarrow> (respondError 404 11001 ''Conversation not found'', db)
           | Inl TxFailed \<Rightarrow> (respondError 500 10000 ''Could not create message'', db)
           | Inr (row, db') \<Rightarrow>
               (case f of
                  RolledBack \<Rightarrow> (respondError 500 10000 ''Could not create message'', db)
                | Unacknowledged \<Rightarrow> (respondError 500 10000 ''Could not create message'', db')
                | Committed \<Rightarrow> (respond 201 (json_of_message (row_response (pc_sender p) row)), db'))))"

text \<open>The parts of the handlers of the two routes that come before \<open>createMessage\<close>.\<close>

definition CreateMessage ::
  "(createMessageRequest \<Rightarrow> jstr) \<Rightarrow> database \<Rightarrow> int \<times> sender \<Rightarrow> jstr \<Rightarrow> json \<Rightarrow> http_response + pending_create" where
  "CreateMessage requestHash db user header body =
     (case decodeJSONBody body of
        None \<Rightarrow> Inl (respondError 400 10003 ''Invalid JSON body'')
      | Some r \<Rightarrow> create_check requestHash db user header r)"

text \<open>The other route takes the conversation from its path; its body has no \<open>conversation_id\<close>.\<close>

definition CreateConversationMessage ::
  "(createMessageRequest \<Rightarrow> jstr) \<Rightarrow> database \<Rightarrow> int \<times> sender \<Rightarrow> jstr \<Rightarrow> jstr \<Rightarrow> json \<Rightarrow> http_response + pending_create" where
  "CreateConversationMessage requestHash db user header conversationID body =
     (case body of
        JObj kvs \<Rightarrow>
          if list_ex (\<lambda>kv. map fold_unit (fst kv) = js ''conversation_id'') kvs then
            Inl (respondError 400 10003 ''Invalid JSON body'')
          else (case decodeJSONBody body of
              None \<Rightarrow> Inl (respondError 400 10003 ''Invalid JSON body'')
            | Some r \<Rightarrow> create_check requestHash db user header (r\<lparr>cq_conversation_id := conversationID\<rparr>))
      | _ \<Rightarrow> (case decodeJSONBody body of
            None \<Rightarrow> Inl (respondError 400 10003 ''Invalid JSON body'')
          | Some r \<Rightarrow> create_check requestHash db user header (r\<lparr>cq_conversation_id := conversationID\<rparr>)))"

section \<open>MarkMessageIllegal\<close>

definition moderate_tx :: "jstr \<Rightarrow> message_row \<Rightarrow> database \<Rightarrow> tx_error + database" where
  "moderate_tx eventID row db =
     (if \<not> list_ex (\<lambda>r. mr_id r = mr_id row \<and> \<not> mr_is_illegal r) (db_messages db) then Inr db
      else
        let db1 = db\<lparr>db_messages := map (\<lambda>r. if mr_id r = mr_id row then r\<lparr>mr_is_illegal := True\<rparr> else r) (db_messages db)\<rparr>
        in insert_outbox \<lparr>ob_id = eventID, ob_topic = js ''message.moderated'', ob_aggregate_id = mr_id row,
             ob_payload = event_payload ''message.moderated'' eventID (mr_id row) (mr_conversation_id row) (mr_sequence row)
               (targets_of db1 (mr_conversation_id row))\<rparr> db1)"

text \<open>The handler: its status and what it leaves in the database; the rows it reads do not change but for the flag.\<close>

definition MarkMessageIllegal :: "jstr option \<Rightarrow> fate \<Rightarrow> jstr \<Rightarrow> database \<Rightarrow> int \<times> database" where
  "MarkMessageIllegal eventID f messageID db =
     (case filter (\<lambda>r. mr_id r = messageID \<and> map_of (db_users db) (mr_sender_id r) \<noteq> None) (db_messages db) of
        [] \<Rightarrow> (404, db)
      | row # _ \<Rightarrow>
          if mr_is_illegal row then (200, db)
          else (case eventID of
              None \<Rightarrow> (500, db)
            | Some e \<Rightarrow>
                (case moderate_tx e row db of
                   Inl _ \<Rightarrow> (500, db)
                 | Inr db' \<Rightarrow>
                     (case f of RolledBack \<Rightarrow> (500, db) | Unacknowledged \<Rightarrow> (500, db') | Committed \<Rightarrow> (200, db')))))"

section \<open>Runs\<close>

text \<open>
  The handlers interleave; meanwhile users are registered or change their profile, conversations are created and
  members come and go.  A request that arrives has been authenticated as one of the users.
\<close>

datatype backend_label =
    ReqArrived int jstr json
  | ReqCommitted nat "(jstr \<times> jstr) option" jstr fate
  | Moderation jstr "jstr option" fate
  | UserRegistered int sender
  | ProfileChanged int sender
  | ConversationCreated jstr
  | MembersChanged "(jstr \<times> int) list"

inductive backend_step ::
  "(createMessageRequest \<Rightarrow> jstr) \<Rightarrow> backend_label \<Rightarrow> database \<times> pending_create list \<Rightarrow> database \<times> pending_create list \<Rightarrow> bool"
  for hash :: "createMessageRequest \<Rightarrow> jstr" where
  be_arrived: "map_of (db_users db) u = Some who \<Longrightarrow> CreateMessage hash db (u, who) header body = Inr p \<Longrightarrow>
    backend_step hash (ReqArrived u header body) (db, ps) (db, ps @ [p])"
| be_refused: "map_of (db_users db) u = Some who \<Longrightarrow> CreateMessage hash db (u, who) header body = Inl res \<Longrightarrow>
    backend_step hash (ReqArrived u header body) (db, ps) (db, ps)"
| be_committed: "i < length ps \<Longrightarrow> create_commit ids now f (ps ! i) db = (res, db') \<Longrightarrow>
    backend_step hash (ReqCommitted i ids now f) (db, ps) (db', take i ps @ drop (Suc i) ps)"
| be_moderated: "MarkMessageIllegal e f m db = (status, db') \<Longrightarrow>
    backend_step hash (Moderation m e f) (db, ps) (db', ps)"
| be_registered: "map_of (db_users db) u = None \<Longrightarrow>
    backend_step hash (UserRegistered u who) (db, ps) (db\<lparr>db_users := AList.update u who (db_users db)\<rparr>, ps)"
| be_profile: "map_of (db_users db) u \<noteq> None \<Longrightarrow>
    backend_step hash (ProfileChanged u who) (db, ps) (db\<lparr>db_users := AList.update u who (db_users db)\<rparr>, ps)"
| be_conversation: "c \<notin> fst ` set (db_next_sequence db) \<Longrightarrow>
    backend_step hash (ConversationCreated c) (db, ps) (db\<lparr>db_next_sequence := db_next_sequence db @ [(c, 1)]\<rparr>, ps)"
| be_members: "backend_step hash (MembersChanged ms) (db, ps) (db\<lparr>db_members := ms\<rparr>, ps)"

definition empty_db :: database where
  "empty_db = \<lparr>db_users = [], db_next_sequence = [], db_members = [], db_messages = [], db_idempotency = [], db_outbox = []\<rparr>"

text \<open>The log of a conversation as the clients see it.\<close>

definition log_of :: "database \<Rightarrow> jstr \<Rightarrow> chat_message list" where
  "log_of db c = joined db (filter (\<lambda>r. mr_conversation_id r = c) (db_messages db))"

section \<open>The invariant of the tables\<close>

definition rows_of :: "database \<Rightarrow> jstr \<Rightarrow> message_row list" where
  "rows_of db c = filter (\<lambda>r. mr_conversation_id r = c) (db_messages db)"

definition next_of :: "database \<Rightarrow> jstr \<Rightarrow> int" where
  "next_of db c = (case map_of (db_next_sequence db) c of Some n \<Rightarrow> n | None \<Rightarrow> 1)"

text \<open>
  The sequences of a conversation are 1, 2, 3 and so on up to the next one; ids are unique; senders are users;
  each idempotency key stands for one message of its user, and no two keys for the same.
\<close>

definition db_inv :: "database \<Rightarrow> bool" where
  "db_inv db \<longleftrightarrow>
     (\<forall>c. map mr_sequence (rows_of db c) = [1..next_of db c - 1] \<and> 1 \<le> next_of db c) \<and>
     distinct (map mr_id (db_messages db)) \<and>
     (\<forall>r \<in> set (db_messages db). map_of (db_users db) (mr_sender_id r) \<noteq> None) \<and>
     distinct (map fst (db_idempotency db)) \<and> distinct (map (snd \<circ> snd) (db_idempotency db)) \<and>
     (\<forall>((u, k), h, m) \<in> set (db_idempotency db). \<exists>r \<in> set (db_messages db). mr_id r = m \<and> mr_sender_id r = u)"

lemma db_inv_empty: "db_inv empty_db"
  by (simp add: db_inv_def empty_db_def rows_of_def next_of_def)

text \<open>Neither the content nor the moderation of a message matters.\<close>

definition row_core :: "message_row \<Rightarrow> jstr \<times> jstr \<times> int \<times> int" where
  "row_core r = (mr_id r, mr_conversation_id r, mr_sender_id r, mr_sequence r)"

lemma db_inv_core:
  "db_inv db \<longleftrightarrow>
     (\<forall>c. map (\<lambda>(i, k, u, n). n) (filter (\<lambda>(i, k, u, n). k = c) (map row_core (db_messages db))) = [1..next_of db c - 1] \<and>
        1 \<le> next_of db c) \<and>
     distinct (map fst (map row_core (db_messages db))) \<and>
     (\<forall>(i, k, u, n) \<in> set (map row_core (db_messages db)). map_of (db_users db) u \<noteq> None) \<and>
     distinct (map fst (db_idempotency db)) \<and> distinct (map (snd \<circ> snd) (db_idempotency db)) \<and>
     (\<forall>((u, k), h, m) \<in> set (db_idempotency db). \<exists>(i, c, v, n) \<in> set (map row_core (db_messages db)). i = m \<and> v = u)"
  unfolding db_inv_def rows_of_def by (simp add: row_core_def filter_map comp_def)

lemma db_inv_cong:
  assumes "db_inv db" "map row_core (db_messages db') = map row_core (db_messages db)" "db_idempotency db' = db_idempotency db"
    and "\<And>c. next_of db' c = next_of db c" "\<And>u. map_of (db_users db) u \<noteq> None \<Longrightarrow> map_of (db_users db') u \<noteq> None"
  shows "db_inv db'"
proof -
  have "\<forall>(i, k, u, n) \<in> set (map row_core (db_messages db)). map_of (db_users db) u \<noteq> None"
    using assms(1) unfolding db_inv_core by (elim conjE) assumption
  then have "\<forall>(i, k, u, n) \<in> set (map row_core (db_messages db)). map_of (db_users db') u \<noteq> None"
    using assms(5) unfolding split_beta by blast
  then show ?thesis using assms(1) unfolding db_inv_core assms(2-4) by (elim conjE) (intro conjI; assumption)
qed

text \<open>What a committed creation has added.\<close>

lemma create_tx_Inr:
  assumes "create_tx messageID eventID now p db = Inr (row, db')"
  defines "c \<equiv> cq_conversation_id (pc_request p)"
  shows "\<exists>n. map_of (db_next_sequence db) c = Some n \<and> row = \<lparr>mr_id = messageID, mr_conversation_id = c,
      mr_sender_id = pc_user p, mr_content = cq_content (pc_request p), mr_content_type = cq_content_type (pc_request p),
      mr_sequence = n, mr_created_at = now, mr_is_illegal = False\<rparr> \<and>
    (\<forall>r \<in> set (db_messages db). mr_id r \<noteq> messageID \<and> \<not> (mr_conversation_id r = c \<and> mr_sequence r = n)) \<and>
    (pc_key p \<noteq> [] \<longrightarrow> map_of (db_idempotency db) (pc_user p, pc_key p) = None) \<and>
    db_users db' = db_users db \<and> db_members db' = db_members db \<and>
    db_next_sequence db' = AList.update c (n + 1) (db_next_sequence db) \<and> db_messages db' = db_messages db @ [row] \<and>
    db_idempotency db' = db_idempotency db @ (if pc_key p = [] then [] else [((pc_user p, pc_key p), pc_hash p, messageID)])"
  using assms(1) unfolding c_def
  by (auto simp: create_tx_def tx_then_def bump_sequence_def insert_message_def insert_idempotency_def insert_outbox_def Let_def
      list_ex_iff split: option.splits sum.splits if_splits)

lemma next_of_update: "map_of (db_next_sequence db) c = Some n \<Longrightarrow> db_next_sequence db' = AList.update c (n + 1) (db_next_sequence db) \<Longrightarrow>
    next_of db' e = (if e = c then next_of db c + 1 else next_of db e)"
  by (simp add: next_of_def AList.update_conv')

lemma create_tx_inv:
  assumes "db_inv db" "create_tx messageID eventID now p db = Inr (row, db')" "map_of (db_users db) (pc_user p) \<noteq> None"
  shows "db_inv db'"
proof -
  obtain n where n: "map_of (db_next_sequence db) (cq_conversation_id (pc_request p)) = Some n"
    and row: "mr_id row = messageID" "mr_conversation_id row = cq_conversation_id (pc_request p)" "mr_sender_id row = pc_user p" "mr_sequence row = n"
    and new: "\<forall>r \<in> set (db_messages db). mr_id r \<noteq> messageID" "pc_key p \<noteq> [] \<longrightarrow> map_of (db_idempotency db) (pc_user p, pc_key p) = None"
    and db': "db_users db' = db_users db" "db_messages db' = db_messages db @ [row]"
      "db_next_sequence db' = AList.update (cq_conversation_id (pc_request p)) (n + 1) (db_next_sequence db)"
      "db_idempotency db' = db_idempotency db @ (if pc_key p = [] then [] else [((pc_user p, pc_key p), pc_hash p, messageID)])"
    using create_tx_Inr [OF assms(2)] by auto
  have seq: "map mr_sequence (rows_of db' e) = [1..next_of db' e - 1] \<and> 1 \<le> next_of db' e" for e
  proof (cases "e = mr_conversation_id row")
    case True
    have "next_of db e = n" "1 \<le> n" using n True row(2) assms(1) by (auto simp: db_inv_def next_of_def split: option.splits)
    moreover have "[1..n] = [1..n - 1] @ [n]" using \<open>1 \<le> n\<close> upto_rec2 [of 1 n] by simp
    ultimately show ?thesis using True assms(1) row next_of_update [OF n db'(3), of e] by (simp add: db_inv_def rows_of_def db'(2))
  next
    case False
    then show ?thesis using assms(1) row next_of_update [OF n db'(3), of e] by (simp add: db_inv_def rows_of_def db'(2))
  qed
  have ids: "m \<noteq> messageID" if "((u, k), h, m) \<in> set (db_idempotency db)" for u k h m
    using assms(1) that new(1) by (fastforce simp: db_inv_def)
  have "distinct (map fst (db_idempotency db'))" "distinct (map (snd \<circ> snd) (db_idempotency db'))"
    using assms(1) new(2) db'(4) by (auto simp: db_inv_def map_of_eq_None_iff dest: ids)
  moreover have "distinct (map mr_id (db_messages db'))" using assms(1) new(1) row(1) by (auto simp: db_inv_def db'(2))
  moreover have "\<forall>r \<in> set (db_messages db'). map_of (db_users db') (mr_sender_id r) \<noteq> None"
    using assms(1,3) row(3) by (auto simp: db_inv_def db'(1,2))
  moreover have "\<forall>((u, k), h, m) \<in> set (db_idempotency db'). \<exists>r \<in> set (db_messages db'). mr_id r = m \<and> mr_sender_id r = u"
    using assms(1) row by (fastforce simp: db_inv_def db'(2,4) split: if_splits)
  ultimately show ?thesis using seq by (simp add: db_inv_def)
qed

lemma create_commit_inv:
  assumes "db_inv db" "create_commit ids now f p db = (res, db')" "map_of (db_users db) (pc_user p) \<noteq> None"
  shows "db_inv db' \<and> db_users db' = db_users db"
  using assms create_tx_inv [OF assms(1) _ assms(3)] create_tx_Inr [of _ _ now p db]
  by (auto simp: create_commit_def split: option.splits prod.splits sum.splits tx_error.splits fate.splits) blast+

lemma moderated_inv:
  assumes "db_inv db" "MarkMessageIllegal e f m db = (status, db')"
  shows "db_inv db' \<and> db_users db' = db_users db"
proof -
  let ?flag = "\<lambda>i r. if mr_id r = i then r\<lparr>mr_is_illegal := True\<rparr> else r"
  have "db_users db' = db_users db \<and> db_next_sequence db' = db_next_sequence db \<and> db_idempotency db' = db_idempotency db \<and>
      (\<exists>i. db_messages db' = map (?flag i) (db_messages db)) \<or> db' = db"
    using assms(2)
    by (auto simp: MarkMessageIllegal_def moderate_tx_def insert_outbox_def Let_def
        split: list.splits if_splits option.splits sum.splits fate.splits)
  then have "db_users db' = db_users db" "\<And>c. next_of db' c = next_of db c" "db_idempotency db' = db_idempotency db"
    "map row_core (db_messages db') = map row_core (db_messages db)"
    by (auto simp: next_of_def row_core_def)
  then show ?thesis using db_inv_cong [OF assms(1), of db'] by simp
qed

text \<open>The requests that wait for their transaction have users, too.\<close>

definition backend_inv :: "database \<times> pending_create list \<Rightarrow> bool" where
  "backend_inv = (\<lambda>(db, ps). db_inv db \<and> (\<forall>p \<in> set ps. map_of (db_users db) (pc_user p) \<noteq> None))"

lemma CreateMessage_pending:
  assumes "CreateMessage hash db user header body = Inr p"
  shows "pc_user p = fst user \<and> pc_sender p = snd user \<and> pc_key p = TrimSpace header \<and> valid_request (pc_request p) \<and>
    pc_hash p = hash (pc_request p) \<and> (pc_key p \<noteq> [] \<longrightarrow> byte_length (pc_key p) \<le> 128)"
  using assms by (auto simp: CreateMessage_def create_check_def Let_def split: option.splits if_splits)

lemma backend_inv_user:
  assumes "backend_inv (db, ps)"
  shows "backend_inv (db\<lparr>db_users := AList.update u who (db_users db)\<rparr>, ps)"
proof -
  have "db_inv (db\<lparr>db_users := AList.update u who (db_users db)\<rparr>)"
    by (rule db_inv_cong [of db])
       (use assms in \<open>simp_all add: backend_inv_def next_of_def AList.update_conv' split: if_splits\<close>)
  then show ?thesis using assms by (simp add: backend_inv_def AList.update_conv')
qed

lemma backend_inv_step:
  assumes "backend_inv w" "backend_step hash l w w'"
  shows "backend_inv w'"
  using assms(2,1)
proof (induction rule: backend_step.induct)
  case (be_arrived db u who header body p ps)
  then show ?case using CreateMessage_pending [OF be_arrived(2)] by (auto simp: backend_inv_def)
next
  case (be_committed i ps ids now f db res db')
  then have "map_of (db_users db) (pc_user (ps ! i)) \<noteq> None" by (simp add: backend_inv_def)
  then have "db_inv db' \<and> db_users db' = db_users db"
    using create_commit_inv [OF _ be_committed(2)] be_committed(3) by (simp add: backend_inv_def)
  moreover have "set (take i ps @ drop (Suc i) ps) \<subseteq> set ps" using set_take_subset set_drop_subset by fastforce
  ultimately show ?case using be_committed(3) unfolding backend_inv_def by auto
next
  case (be_moderated e f m db status db' ps)
  then show ?case using moderated_inv [OF _ be_moderated(1)] by (simp add: backend_inv_def)
next
  case (be_registered db u who ps)
  then show ?case using backend_inv_user by blast
next
  case (be_profile db u who ps)
  then show ?case using backend_inv_user by blast
next
  case (be_conversation c db ps)
  have "next_of (db\<lparr>db_next_sequence := db_next_sequence db @ [(c, 1)]\<rparr>) e = next_of db e" for e
    using be_conversation(1) map_of_eq_None_iff [of "db_next_sequence db" c]
    by (auto simp: next_of_def map_add_def split: option.splits)
  then show ?case using be_conversation(2) db_inv_cong [of db "db\<lparr>db_next_sequence := db_next_sequence db @ [(c, 1)]\<rparr>"]
    by (simp add: backend_inv_def)
next
  case (be_members ms db ps)
  then show ?case using db_inv_cong [of db "db\<lparr>db_members := ms\<rparr>"] by (simp add: backend_inv_def next_of_def)
qed simp

interpretation backend: inductive_invariant "backend_step hash" "\<lambda>l. True" backend_inv
  by unfold_locales (rule backend_inv_step)

section \<open>The log the clients read\<close>

lemma joined_users:
  "\<forall>r \<in> set rows. map_of (db_users db) (mr_sender_id r) \<noteq> None \<Longrightarrow>
   joined db rows = map (\<lambda>r. row_response (the (map_of (db_users db) (mr_sender_id r))) r) rows"
  by (induction rows) (auto simp: joined_def)

lemma row_response_simps [simp]:
  "msg_sequence (row_response u r) = mr_sequence r" "msg_conversation_id (row_response u r) = mr_conversation_id r"
  "msg_id (row_response u r) = mr_id r"
  by (simp_all add: row_response_def)

lemma log_of_rows:
  assumes "db_inv db"
  shows "log_of db c = map (\<lambda>r. row_response (the (map_of (db_users db) (mr_sender_id r))) r) (rows_of db c)"
  unfolding log_of_def rows_of_def [symmetric]
  by (rule joined_users) (use assms in \<open>auto simp: db_inv_def rows_of_def\<close>)

lemma log_of_sequences:
  assumes "db_inv db"
  shows "map msg_sequence (log_of db c) = [1..int (length (log_of db c))]" "log_ok c (log_of db c)"
    "next_of db c = int (length (log_of db c)) + 1"
proof -
  have seq: "map msg_sequence (log_of db c) = [1..next_of db c - 1]" "1 \<le> next_of db c"
    using assms by (simp_all add: log_of_rows [OF assms] comp_def db_inv_def)
  from arg_cong [OF seq(1), of length] seq(2) show n: "next_of db c = int (length (log_of db c)) + 1" by simp
  show "map msg_sequence (log_of db c) = [1..int (length (log_of db c))]" using seq(1) n by simp
  have "sorted_wrt (<) (map msg_sequence (log_of db c))" unfolding seq(1) by (rule sorted_wrt_upto)
  moreover have "msg_conversation_id m = c" if "m \<in> set (log_of db c)" for m
    using that by (auto simp: log_of_rows [OF assms] rows_of_def)
  moreover have "0 < msg_sequence m" if "m \<in> set (log_of db c)" for m
  proof -
    have "msg_sequence m \<in> set (map msg_sequence (log_of db c))" using that by simp
    then show ?thesis unfolding seq(1) by simp
  qed
  ultimately show "log_ok c (log_of db c)" by (simp add: log_ok_def sorted_log_def sorted_wrt_map)
qed

text \<open>The query of \<open>ListMessages\<close> selects the page of the log.\<close>

lemma ListMessages_page:
  assumes "db_inv db" "activeMember db c u"
  shows "ListMessages db u c after limit = respond 200 (JArr (map json_of_message (server_page (log_of db c) after limit)))"
proof -
  have "sorted (map msg_sequence (log_of db c))"
    using log_of_sequences(2) [OF assms(1)] by (simp add: log_ok_def sorted_log_def sorted_wrt_map sorted_wrt_mono_rel [of _ "\<lambda>x y. msg_sequence x < msg_sequence y"])
  then have "sort_key msg_sequence (filter (\<lambda>m. after < msg_sequence m) (log_of db c)) = filter (\<lambda>m. after < msg_sequence m) (log_of db c)"
    by (intro sort_key_id_if_sorted sorted_filter)
  then show ?thesis using assms(2)
    by (simp add: ListMessages_def selected_def log_of_def [symmetric] server_page_def clamp_limit_def)
qed

text \<open>
C10: The log of every conversation is gapless.  Whatever requests arrive, interleave, fail half-way or commit without
being acknowledged, and whatever happens to users and members meanwhile, the messages of a conversation
have the sequences 1, 2, 3 and so on in the order of their creation, their ids are unique, and \<open>ListMessages\<close>
answers a member with the page of that log after the given sequence.
\<close>

theorem backend_log_gapless:
  assumes "lreach (backend_step hash) (\<lambda>l. True) (empty_db, []) (db, ps)"
  shows "map msg_sequence (log_of db c) = [1..int (length (log_of db c))] \<and>
    distinct (map mr_id (db_messages db)) \<and>
    (activeMember db c u \<longrightarrow>
       ListMessages db u c after limit = respond 200 (JArr (map json_of_message (server_page (log_of db c) after limit))))"
proof -
  have "backend_inv (empty_db, [])" by (simp add: backend_inv_def db_inv_empty)
  from backend.inv_reach [OF assms this] have "db_inv db" by (simp add: backend_inv_def)
  then show ?thesis using log_of_sequences(1) ListMessages_page by (auto simp: db_inv_def)
qed

text \<open>Storing a message is an \<open>Append\<close> step of the world that the engine of the SDK lives in.\<close>

lemma create_tx_appends:
  assumes "db_inv db" "create_tx messageID eventID now p db = Inr (row, db')" "map_of (db_users db) (pc_user p) \<noteq> None"
  shows "\<exists>c m. log_of db' = (log_of db)(c := log_of db c @ [m]) \<and> msg_conversation_id m = c \<and> 0 < msg_sequence m \<and>
    (\<forall>x \<in> set (log_of db c). msg_sequence x < msg_sequence m)"
proof -
  obtain n where n: "map_of (db_next_sequence db) (mr_conversation_id row) = Some n" "mr_sequence row = n" "mr_sender_id row = pc_user p"
      "db_users db' = db_users db" "db_messages db' = db_messages db @ [row]"
    using create_tx_Inr [OF assms(2)] by auto
  let ?c = "mr_conversation_id row" and ?m = "row_response (the (map_of (db_users db) (pc_user p))) row"
  have inv': "db_inv db'" by (rule create_tx_inv [OF assms])
  have "log_of db' = (log_of db)(?c := log_of db ?c @ [?m])"
    using n by (auto simp: fun_eq_iff log_of_rows [OF inv'] log_of_rows [OF assms(1)] rows_of_def)
  moreover have "next_of db ?c = n" using n(1) by (simp add: next_of_def)
  then have len: "n = int (length (log_of db ?c)) + 1" using log_of_sequences(3) [OF assms(1), of ?c] by simp
  have "msg_sequence x < n" if "x \<in> set (log_of db ?c)" for x
  proof -
    have "msg_sequence x \<in> set (map msg_sequence (log_of db ?c))" using that by simp
    then show ?thesis unfolding log_of_sequences(1) [OF assms(1)] len by simp
  qed
  ultimately show ?thesis using n(2) len by (intro exI [of _ ?c] exI [of _ ?m]) simp
qed

text \<open>The steps that change no message that is stored already.\<close>

fun keeps_log :: "backend_label \<Rightarrow> bool" where
  "keeps_log (Moderation m e f) = False"
| "keeps_log (ProfileChanged u who) = False"
| "keeps_log l = True"

lemma backend_step_log:
  assumes "backend_step hash l w w'" "backend_inv w" "keeps_log l"
  shows "log_of (fst w') = log_of (fst w) \<or>
    (\<exists>c m. log_of (fst w') = (log_of (fst w))(c := log_of (fst w) c @ [m]) \<and> msg_conversation_id m = c \<and> 0 < msg_sequence m \<and>
      (\<forall>x \<in> set (log_of (fst w) c). msg_sequence x < msg_sequence m))"
  using assms
proof (induction rule: backend_step.induct)
  case (be_committed i ps ids now f db res db')
  then have p: "db_inv db" "map_of (db_users db) (pc_user (ps ! i)) \<noteq> None" by (simp_all add: backend_inv_def)
  have "db' = db \<or> (\<exists>messageID eventID row. create_tx messageID eventID now (ps ! i) db = Inr (row, db'))"
    using be_committed(2) by (auto simp: create_commit_def split: option.splits prod.splits sum.splits tx_error.splits fate.splits)
  then show ?case unfolding fst_conv using create_tx_appends [OF p(1) _ p(2)] by blast
next
  case (be_registered db u who ps)
  have "joined (db\<lparr>db_users := AList.update u who (db_users db)\<rparr>) rows = joined db rows" if "set rows \<subseteq> set (db_messages db)" for rows
    using that be_registered by (induction rows) (auto simp: joined_def backend_inv_def db_inv_def AList.update_conv')
  then show ?case by (simp add: log_of_def fun_eq_iff)
qed (simp_all add: log_of_def joined_def fun_eq_iff)

text \<open>
C8: The backend implements the log that the synchronization engine is proved against: from any state of the backend,
as long as nothing stored is moderated and no profile changes, every run of the handlers is, for the engine, a
sequence of \<open>Append\<close> steps that store messages with increasing sequences.
\<close>

theorem backend_drives_engine:
  assumes "lreach (backend_step hash) (\<lambda>l. True) (empty_db, []) (db0, ps0)"
    and "lreach (backend_step hash) keeps_log (db0, ps0) (db, ps)"
  shows "lreach (sync_step sa) (\<lambda>l. \<exists>c m. l = Append c m) (st, log_of db0) (st, log_of db)"
proof -
  have "backend_inv (empty_db, [])" by (simp add: backend_inv_def db_inv_empty)
  from backend.inv_reach [OF assms(1) this] have inv0: "backend_inv (db0, ps0)" .
  have "backend_inv w \<and> lreach (sync_step sa) (\<lambda>l. \<exists>c m. l = Append c m) (st, log_of db0) (st, log_of (fst w))"
    if "lreach (backend_step hash) keeps_log (db0, ps0) w" for w
    using that
  proof (induction rule: lreach.induct)
    case (more w l w')
    from backend_step_log [OF more(3) _ more(2)] more(4) consider "log_of (fst w') = log_of (fst w)"
      | c m where "log_of (fst w') = (log_of (fst w))(c := log_of (fst w) c @ [m])" "msg_conversation_id m = c" "0 < msg_sequence m"
        "\<forall>x \<in> set (log_of (fst w) c). msg_sequence x < msg_sequence m" by blast
    then show ?case
    proof cases
      case 2
      have "lreach (sync_step sa) (\<lambda>l. \<exists>c m. l = Append c m) (st, log_of db0) (st, log_of (fst w'))"
        by (rule lreach.more [where l = "Append c m"]) (use more(4) 2 step_append [of m c "log_of (fst w)", OF 2(2-4)] in auto)
      then show ?thesis using more(4) backend_inv_step [OF _ more(3)] by blast
    qed (use more(4) backend_inv_step [OF _ more(3)] in auto)
  qed (use inv0 in auto)
  from this [OF assms(2)] show ?thesis by simp
qed

section \<open>An example\<close>

lemma byte_length_ascii: "\<forall>c \<in> set s. c < 128 \<Longrightarrow> byte_length s = length s"
  by (induction s rule: byte_length.induct) (auto simp: utf8_def high_surrogate_def)

lemma TrimSpace_id: "\<forall>c \<in> set s. \<not> go_space c \<Longrightarrow> TrimSpace s = s"
  unfolding TrimSpace_def by (metis dropWhile_eq_self_iff hd_in_set rev_rev_ident set_rev)

definition sample_conversation :: jstr where
  "sample_conversation = replicate 26 97"

definition sample_sender :: sender where
  "sample_sender = \<lparr>snd_uuid = [117], snd_username = [118], snd_nickname = None, snd_avatar_url = None\<rparr>"

definition sample_db :: database where
  "sample_db = empty_db\<lparr>db_users := [(1, sample_sender)], db_next_sequence := [(sample_conversation, 1)],
     db_members := [(sample_conversation, 1)]\<rparr>"

definition sample_create :: json where
  "sample_create = JObj [(js ''conversation_id'', JStr sample_conversation), (js ''content'', JStr [104])]"

definition sample_pending :: pending_create where
  "sample_pending = \<lparr>pc_user = 1, pc_sender = sample_sender,
     pc_request = \<lparr>cq_conversation_id = sample_conversation, cq_content = [104], cq_content_type = js ''text/markdown''\<rparr>,
     pc_key = [107], pc_hash = []\<rparr>"

lemma sample_check: "CreateMessage (\<lambda>_. []) sample_db (1, sample_sender) [107] sample_create = Inr sample_pending"
proof -
  have body: "decodeJSONBody sample_create = Some \<lparr>cq_conversation_id = sample_conversation, cq_content = [104], cq_content_type = []\<rparr>"
    by (simp add: sample_create_def set_field_def fold_unit_def Let_def js_eval)
  have norm: "normalized \<lparr>cq_conversation_id = sample_conversation, cq_content = [104], cq_content_type = []\<rparr> = pc_request sample_pending"
    by (simp add: normalized_def sample_pending_def line_ends_def sample_conversation_def TrimSpace_id go_space_def)
  have "valid_request (pc_request sample_pending)"
    by (simp add: valid_request_def sample_pending_def sample_conversation_def byte_length_ascii utf8_def TrimSpace_id go_space_def)
  then show ?thesis
    by (simp add: CreateMessage_def body create_check_def norm Let_def TrimSpace_id go_space_def utf8_def lookupIdempotency_def)
       (simp add: sample_pending_def sample_db_def empty_db_def activeMember_def)
qed

definition sample_stored :: database where
  "sample_stored = snd (create_commit (Some ([109], [101])) [] Committed sample_pending sample_db)"

lemma sample_reach: "lreach (backend_step (\<lambda>_. [])) (\<lambda>l. True) (empty_db, []) (sample_db, [])"
proof -
  let ?db1 = "empty_db\<lparr>db_users := [(1, sample_sender)]\<rparr>"
  let ?db2 = "?db1\<lparr>db_next_sequence := [(sample_conversation, 1)]\<rparr>"
  have "backend_step (\<lambda>_. []) (UserRegistered 1 sample_sender) (empty_db, []) (?db1, [])"
    "backend_step (\<lambda>_. []) (ConversationCreated sample_conversation) (?db1, []) (?db2, [])"
    "backend_step (\<lambda>_. []) (MembersChanged [(sample_conversation, 1)]) (?db2, []) (sample_db, [])"
    using be_registered [of empty_db 1 "\<lambda>_. []" sample_sender "[]"]
      be_conversation [of sample_conversation ?db1 "\<lambda>_. []" "[]"]
      be_members [of "\<lambda>_. []" "[(sample_conversation, 1)]" ?db2 "[]"]
    by (simp_all add: empty_db_def sample_db_def)
  then show ?thesis using lreach.more [OF lreach.more [OF lreach.more [OF lreach.start]], where step = "backend_step (\<lambda>_. [])"
      and allowed = "\<lambda>l. True"] by blast
qed

lemma sample_run: "lreach (backend_step (\<lambda>_. [])) keeps_log (sample_db, []) (sample_stored, [])"
proof -
  have "backend_step (\<lambda>_. []) (ReqArrived 1 [107] sample_create) (sample_db, []) (sample_db, [sample_pending])"
    using be_arrived [OF _ sample_check, of "[]"] by (simp add: sample_db_def)
  moreover have "backend_step (\<lambda>_. []) (ReqCommitted 0 (Some ([109], [101])) [] Committed) (sample_db, [sample_pending]) (sample_stored, [])"
    using be_committed [of 0 "[sample_pending]" "Some ([109], [101])" "[]" Committed sample_db _ sample_stored "\<lambda>_. []"]
    by (simp add: sample_stored_def prod_eq_iff)
  ultimately show ?thesis using lreach.more [OF lreach.more [OF lreach.start], where step = "backend_step (\<lambda>_. [])"
      and allowed = keeps_log] by (metis keeps_log.simps(3,4))
qed

lemma sample_stored_log: "length (log_of sample_stored sample_conversation) = 1" "activeMember sample_stored sample_conversation 1"
  by (simp_all add: sample_stored_def create_commit_def create_tx_def tx_then_def bump_sequence_def insert_message_def
      insert_idempotency_def insert_outbox_def Let_def log_of_def joined_def activeMember_def sample_pending_def sample_db_def empty_db_def)

theorem backend_log_gapless_witness:
  "map msg_sequence (log_of sample_stored sample_conversation) = [1] \<and>
   ListMessages sample_stored 1 sample_conversation 0 100 =
     respond 200 (JArr (map json_of_message (server_page (log_of sample_stored sample_conversation) 0 100)))"
proof -
  have "lreach (backend_step (\<lambda>_. [])) (\<lambda>l. True) (sample_db, []) (sample_stored, [])"
    using sample_run by (induction rule: lreach.induct) (auto intro: lreach.more)
  from backend_log_gapless [OF lreach_trans [OF this sample_reach], of sample_conversation 1 0 100] sample_stored_log
  show ?thesis by simp
qed

theorem backend_drives_engine_witness:
  "lreach (sync_step memory_storage) (\<lambda>l. \<exists>c m. l = Append c m) (sample_engine, log_of sample_db) (sample_engine, log_of sample_stored)
   \<and> length (log_of sample_stored sample_conversation) = 1"
  using backend_drives_engine [OF sample_reach sample_run] sample_stored_log(1) by blast

end
