(* ===== verification/Backend_Send.thy ===== *)
theory Backend_Send
  imports Backend
begin

text \<open>
  A send of the SDK (\<open>sendMessage\<close> of \<open>http.ts\<close>) against the message API of the backend (\<open>messages.go\<close>) over a
  network that loses requests and answers.  A request may be lost, its handler may still be waiting for its
  transaction when the client has given up and tries again, transactions may fail or commit unnoticed,
  and the answer may be lost; \<open>exchange\<close> says what happens to one request.  Requests to other routes are an argument.
\<close>

section \<open>The network\<close>

text \<open>Whether the request arrives, which waiting transactions run before the client's timeout, and whether it is answered.\<close>

record exchange =
  ex_arrives :: bool
  ex_commits :: "(nat \<times> (jstr \<times> jstr) option \<times> jstr \<times> fate) list"
  ex_answered :: bool

record server =
  sv_db :: database
  sv_pending :: "pending_create option list"
  sv_plan :: "exchange list"

text \<open>The transaction of handler \<open>i\<close>; its answer is for the request of handler \<open>own\<close>.\<close>

fun commit_one ::
  "nat \<Rightarrow> nat \<times> (jstr \<times> jstr) option \<times> jstr \<times> fate \<Rightarrow> database \<times> pending_create option list \<times> http_response option
   \<Rightarrow> database \<times> pending_create option list \<times> http_response option" where
  "commit_one own (i, ids, now, f) (db, ps, answer) =
     (if i < length ps then
        (case ps ! i of
           None \<Rightarrow> (db, ps, answer)
         | Some p \<Rightarrow>
             (case create_commit ids now f p db of
                (res, db') \<Rightarrow> (db', ps[i := None], if i = own then Some res else answer)))
      else (db, ps, answer))"

definition arrive ::
  "(createMessageRequest \<Rightarrow> jstr) \<Rightarrow> int \<times> sender \<Rightarrow> http_request \<Rightarrow> database \<times> pending_create option list
   \<Rightarrow> database \<times> pending_create option list \<times> http_response option" where
  "arrive hash user rq = (\<lambda>(db, ps).
     let header = (case map_of (rq_headers rq) (js ''Idempotency-Key'') of Some k \<Rightarrow> k | None \<Rightarrow> [])
     in case rq_data rq of
          None \<Rightarrow> (db, ps, Some (respondError 400 10003 ''Invalid JSON body''))
        | Some body \<Rightarrow>
            (case CreateMessage hash db user header body of
               Inl res \<Rightarrow> (db, ps, Some res)
             | Inr p \<Rightarrow> (db, ps @ [Some p], None)))"

definition exchanged ::
  "(createMessageRequest \<Rightarrow> jstr) \<Rightarrow> int \<times> sender \<Rightarrow> http_request \<Rightarrow> server \<Rightarrow> (jstr option + http_response) \<times> server" where
  "exchanged hash user rq sv =
     (case sv_plan sv of
        [] \<Rightarrow> (Inl None, sv)
      | ex # plan \<Rightarrow>
          let s0 = (if ex_arrives ex then arrive hash user rq (sv_db sv, sv_pending sv) else (sv_db sv, sv_pending sv, None))
          in case foldl (\<lambda>s c. commit_one (length (sv_pending sv)) c s) s0 (ex_commits ex) of
               (db, ps, answer) \<Rightarrow>
                 (case answer of Some res \<Rightarrow> if ex_answered ex then Inr res else Inl None | None \<Rightarrow> Inl None,
                  \<lparr>sv_db = db, sv_pending = ps, sv_plan = plan\<rparr>))"

definition is_send :: "http_request \<Rightarrow> bool" where
  "is_send rq \<longleftrightarrow> rq_method rq = POST \<and>
     drop (length (rq_url rq) - length (js ''/api/v1/messages'')) (rq_url rq) = js ''/api/v1/messages''"

text \<open>The world of the client: the host's part, for its credential callback, and the backend.\<close>

definition lossy_env ::
  "(createMessageRequest \<Rightarrow> jstr) \<Rightarrow> int \<times> sender \<Rightarrow> (http_request \<Rightarrow> 'x \<times> server \<Rightarrow> (jstr option + http_response) \<times> 'x \<times> server)
   \<Rightarrow> ('x \<Rightarrow> (exn + jstr) \<times> 'x) option \<Rightarrow> ('x \<times> server) env" where
  "lossy_env hash user other get =
     \<lparr>env_request = (\<lambda>(x, sv) rq.
        if is_send rq then (case exchanged hash user rq sv of (r, sv') \<Rightarrow> (r, (x, sv'))) else other rq (x, sv)),
      env_getCredential = map_option (\<lambda>g (x, sv). case g x of (r, x') \<Rightarrow> (r, (x', sv))) get,
      env_upload = None\<rparr>"

section \<open>What a call leaves in its world\<close>

lemma requestOnce_keeps:
  assumes "requestOnce env meth path opts st = (r, st')" "P (world st)"
    and "\<And>w rq. P w \<Longrightarrow> attempt_of (client st) meth path opts rq \<Longrightarrow> P (snd (env_request env w rq)) \<and>
      (\<forall>res v. fst (env_request env w rq) = Inr res \<longrightarrow> interpret_response res = Inr v \<longrightarrow> R v (snd (env_request env w rq)))"
  shows "P (world st') \<and> (\<forall>v. r = Inr v \<longrightarrow> R v (world st'))"
proof (cases "buildUrl (baseUrl (client st)) path (op_query opts)")
  case (Some url)
  let ?rq = "built_request (client st) meth url opts"
  have "attempt_of (client st) meth path opts ?rq"
    unfolding attempt_of_def using Some by (intro exI [of _ url] exI [of _ "credential (client st)"]) simp
  from assms(3) [OF assms(2) this] show ?thesis using assms(1) Some
    by (auto simp: requestOnce_def Let_def split_def built_request_def split: sum.splits)
qed (use assms(1,2) in \<open>auto simp: requestOnce_def\<close>)

lemma request_world:
  assumes "request env meth path opts st = (r, st')" "P (world st)"
    and "\<And>w rq. P w \<Longrightarrow> attempt_of (client st) meth path opts rq \<Longrightarrow> P (snd (env_request env w rq)) \<and>
      (\<forall>res v. fst (env_request env w rq) = Inr res \<longrightarrow> interpret_response res = Inr v \<longrightarrow> R v (snd (env_request env w rq)))"
    and "\<And>g w. env_getCredential env = Some g \<Longrightarrow> P w \<Longrightarrow> P (snd (g w))"
  shows "P (world st') \<and> (\<forall>v. r = Inr v \<longrightarrow> R v (world st'))"
proof -
  obtain r1 st1 where 1: "requestOnce env meth path opts st = (r1, st1)" by force
  note once = requestOnce_keeps [OF 1, of P R, OF assms(2,3)]
  have cl: "client st1 = client st" by (rule requestOnce_client [OF 1])
  show ?thesis
  proof (cases r1)
    case (Inl e)
    have again: "P (world st') \<and> (\<forall>v. r = Inr v \<longrightarrow> R v (world st'))"
      if "requestOnce env meth path opts (st1\<lparr>world := w, client := (client st1)\<lparr>credential := c\<rparr>\<rparr>) = (r, st')" "P w" for w c
      using requestOnce_keeps [OF that(1), of P R] that(2) assms(3) cl by simp
    show ?thesis
    proof (cases "env_getCredential env")
      case (Some g)
      obtain c w where c: "g (world st1) = (c, w)" by force
      have "P w" using assms(4) [OF Some, of "world st1"] once c by simp
      then show ?thesis using assms(1) 1 Inl Some c once again
        by (auto simp: request_def split: if_splits sum.splits)
    qed (use assms(1) 1 Inl once in \<open>auto simp: request_def\<close>)
  qed (use assms(1) 1 once in \<open>auto simp: request_def\<close>)
qed

lemma post_loop_world:
  assumes "post_loop env path body key maxRetries attempt st = (r, st')" "P (world st)"
    and "\<And>w rq. P w \<Longrightarrow> attempt_of (client st) POST path (post_options key body) rq \<Longrightarrow> P (snd (env_request env w rq)) \<and>
      (\<forall>res v. fst (env_request env w rq) = Inr res \<longrightarrow> interpret_response res = Inr v \<longrightarrow> R v (snd (env_request env w rq)))"
    and "\<And>g w. env_getCredential env = Some g \<Longrightarrow> P w \<Longrightarrow> P (snd (g w))"
  shows "P (world st') \<and> (\<forall>v. r = Inr v \<longrightarrow> R v (world st'))"
  using assms
proof (induction env path body key maxRetries attempt st rule: post_loop.induct)
  case (1 env path body key maxRetries attempt st)
  obtain r1 st1 where 2: "request env POST path (post_options key body) st = (r1, st1)" by force
  have once: "P (world st1) \<and> (\<forall>v. r1 = Inr v \<longrightarrow> R v (world st1))"
    by (rule request_world [OF 2]) (use "1.prems"(2-4) in blast)+
  show ?case
  proof (cases "\<exists>e. r1 = Inl e \<and> exn_status e = Some 0 \<and> attempt + 1 \<le> maxRetries")
    case True
    then obtain e where e: "r1 = Inl e" "exn_status e = Some 0" "attempt + 1 \<le> maxRetries" by auto
    have loop: "post_loop env path body key maxRetries (attempt + 1) st1 = (r, st')"
      using "1.prems"(1) 2 e by (simp add: post_loop.simps [of env path body key maxRetries attempt st])
    obtain x where "client st1 = (client st)\<lparr>credential := x\<rparr>"
      using request_base [OF 2] by (metis http_client_same)
    then have "attempt_of (client st1) = attempt_of (client st)" by (intro ext) simp
    then show ?thesis using "1.IH" [OF 2 [symmetric] e(1) _ loop] e once "1.prems"(3,4) by simp
  next
    case False
    then have "r = r1 \<and> st' = st1"
      using "1.prems"(1) 2 by (auto simp: post_loop.simps [of env path body key maxRetries attempt st] split: sum.splits if_splits)
    then show ?thesis using once by simp
  qed
qed

section \<open>One send\<close>

text \<open>The message \<open>m\<close> of the key is stored, after the messages \<open>ms0\<close>.\<close>

definition stored :: "message_row list \<Rightarrow> int \<Rightarrow> jstr \<Rightarrow> message_row \<Rightarrow> database \<Rightarrow> bool" where
  "stored ms0 u k m db \<longleftrightarrow> db_messages db = ms0 @ [m] \<and> mr_sender_id m = u \<and>
     (\<exists>h. map_of (db_idempotency db) (u, k) = Some (h, mr_id m))"

definition send_inv :: "message_row list \<Rightarrow> int \<Rightarrow> sender \<Rightarrow> jstr \<Rightarrow> database \<Rightarrow> pending_create option list \<Rightarrow> bool" where
  "send_inv ms0 u who k db ps \<longleftrightarrow>
     db_inv db \<and> map_of (db_users db) u = Some who \<and>
     (\<forall>p. Some p \<in> set ps \<longrightarrow> pc_user p = u \<and> pc_sender p = who \<and> pc_key p = k) \<and>
     (db_messages db = ms0 \<and> map_of (db_idempotency db) (u, k) = None \<or> (\<exists>m. stored ms0 u k m db))"

text \<open>An answer that the client takes for a success shows the stored message.\<close>

definition answer_ok :: "message_row list \<Rightarrow> int \<Rightarrow> sender \<Rightarrow> jstr \<Rightarrow> database \<Rightarrow> http_response option \<Rightarrow> bool" where
  "answer_ok ms0 u who k db answer \<longleftrightarrow>
     (\<forall>res v. answer = Some res \<longrightarrow> interpret_response res = Inr v \<longrightarrow>
        (\<exists>m. stored ms0 u k m db \<and> v = Some (json_of_message (row_response who m))))"

lemma interpret_respond: "200 \<le> status \<Longrightarrow> status < 300 \<Longrightarrow> interpret_response (respond status v) = Inr (Some v)"
  by (simp add: interpret_response_def respond_def envelope_of_def Let_def)

lemma interpret_refused: "300 \<le> rs_statusCode res \<Longrightarrow> interpret_response res \<noteq> Inr v"
  by (simp add: interpret_response_def Let_def split: option.split)

lemma status_simps [simp]: "rs_statusCode (respond status v) = status" "rs_statusCode (respondError status code message) = status"
  by (simp_all add: respond_def respondError_def)

lemma answer_ok_refused [simp]:
  "answer_ok ms0 u who k db None" "300 \<le> rs_statusCode res \<Longrightarrow> answer_ok ms0 u who k db (Some res)"
  by (simp_all add: answer_ok_def interpret_refused)

text \<open>A transaction that does not store its message.\<close>

lemma create_commit_refused:
  assumes "create_commit ids now f p db = (res, db')"
    and "\<And>messageID eventID row. ids = Some (messageID, eventID) \<Longrightarrow> create_tx messageID eventID now p db \<noteq> Inr (row, db')"
  shows "db' = db \<and> 300 \<le> rs_statusCode res"
  using assms by (auto simp: create_commit_def split: option.splits prod.splits sum.splits tx_error.splits fate.splits)

lemma stored_no_tx:
  assumes "stored ms0 u k m db" "pc_user p = u" "pc_key p = k" "k \<noteq> []"
  shows "create_tx messageID eventID now p db \<noteq> Inr (row, db')"
  using create_tx_Inr [of messageID eventID now p db row db'] assms by (auto simp: stored_def)

lemma create_commit_stores:
  assumes "send_inv ms0 u who k db ps" "Some p \<in> set ps" "k \<noteq> []" "create_commit ids now f p db = (res, db')"
  shows "send_inv ms0 u who k db' ps \<and> answer_ok ms0 u who k db' (Some res)"
proof -
  have p: "db_inv db" "map_of (db_users db) u = Some who" "pc_user p = u" "pc_sender p = who" "pc_key p = k"
    using assms(1,2) by (auto simp: send_inv_def)
  note inv' = create_commit_inv [OF p(1) assms(4)]
  show ?thesis
  proof (cases "\<exists>messageID eventID row. create_tx messageID eventID now p db = Inr (row, db') \<and> ids = Some (messageID, eventID)")
    case True
    then obtain messageID eventID row where tx: "create_tx messageID eventID now p db = Inr (row, db')" "ids = Some (messageID, eventID)" by blast
    have fresh: "db_messages db = ms0" "map_of (db_idempotency db) (u, k) = None"
      using assms(1) stored_no_tx [OF _ p(3,5) assms(3)] tx(1) by (auto simp: send_inv_def)
    then have st: "stored ms0 u k row db'" using create_tx_Inr [OF tx(1)] p assms(3) by (auto simp: stored_def map_add_def)
    moreover have "answer_ok ms0 u who k db' (Some res)"
    proof (cases f)
      case Committed
      then have "res = respond 201 (json_of_message (row_response who row))" using assms(4) tx p(4) by (simp add: create_commit_def)
      then show ?thesis using st by (auto simp: answer_ok_def interpret_respond)
    qed (use assms(4) tx in \<open>auto simp: create_commit_def\<close>)
    ultimately show ?thesis using assms(1) inv' p by (auto simp: send_inv_def)
  next
    case False
    then have "db' = db \<and> 300 \<le> rs_statusCode res" using create_commit_refused [OF assms(4)] by blast
    then show ?thesis using assms(1) by simp
  qed
qed

lemma stored_commit:
  assumes "stored ms0 u k m db" "pc_user p = u" "pc_key p = k" "k \<noteq> []"
  shows "snd (create_commit ids now f p db) = db"
  using create_commit_refused [of ids now f p db, OF prod.collapse [symmetric]] stored_no_tx [OF assms] by blast

lemma commit_one_stores:
  assumes "send_inv ms0 u who k db ps" "answer_ok ms0 u who k db answer" "k \<noteq> []" "commit_one own c (db, ps, answer) = (db', ps', answer')"
  shows "send_inv ms0 u who k db' ps' \<and> answer_ok ms0 u who k db' answer'"
proof (cases c)
  case (fields i ids now f)
  show ?thesis
  proof (cases "i < length ps \<and> ps ! i \<noteq> None")
    case True
    then obtain p where p: "i < length ps" "ps ! i = Some p" by auto
    then have mem: "Some p \<in> set ps" by (metis nth_mem)
    obtain res where res: "create_commit ids now f p db = (res, db')" "ps' = ps[i := None]" "answer' = (if i = own then Some res else answer)"
      using assms(4) p fields by (auto split: prod.splits)
    have "send_inv ms0 u who k db' ps" and a: "answer_ok ms0 u who k db' (Some res)"
      using create_commit_stores [OF assms(1) mem assms(3) res(1)] by simp_all
    moreover have "set (ps[i := None]) \<subseteq> insert None (set ps)" by (rule set_update_subset_insert)
    moreover have "answer_ok ms0 u who k db' answer"
      using assms(1,2) stored_commit [OF _ _ _ assms(3), of ms0 u _ db p ids now f] mem res(1)
      by (fastforce simp: answer_ok_def send_inv_def)
    ultimately show ?thesis using res(2,3) by (auto simp: send_inv_def)
  qed (use assms fields in \<open>auto split: if_splits\<close>)
qed

lemma commits_store:
  "send_inv ms0 u who k db ps \<Longrightarrow> answer_ok ms0 u who k db answer \<Longrightarrow> k \<noteq> [] \<Longrightarrow>
   foldl (\<lambda>s c. commit_one own c s) (db, ps, answer) cs = (db', ps', answer') \<Longrightarrow>
   send_inv ms0 u who k db' ps' \<and> answer_ok ms0 u who k db' answer'"
proof (induction cs arbitrary: db ps answer)
  case (Cons c cs)
  obtain db1 ps1 a1 where 1: "commit_one own c (db, ps, answer) = (db1, ps1, a1)" by (metis prod_cases3)
  have "send_inv ms0 u who k db1 ps1" "answer_ok ms0 u who k db1 a1" using commit_one_stores [OF Cons.prems(1-3) 1] by simp_all
  from Cons.IH [OF this Cons.prems(3)] show ?case using Cons.prems(4) 1 by simp
qed simp


lemma loadMessage_stored:
  assumes "db_inv db" "map_of (db_users db) u = Some who" "stored ms0 u k m db"
  shows "loadMessage db (mr_id m) = Some (row_response who m)"
proof -
  have "distinct (map mr_id (ms0 @ [m]))" using assms(1,3) by (simp add: db_inv_def stored_def)
  then have "filter (\<lambda>r. mr_id r = mr_id m) ms0 = []" by (auto simp: filter_empty_conv image_iff)
  then show ?thesis using assms(2,3) by (simp add: loadMessage_def stored_def joined_def)
qed

lemma arrive_stores:
  assumes "send_inv ms0 u who k db ps" "arrive hash (u, who) rq (db, ps) = (db', ps', answer)"
    and "map_of (rq_headers rq) (js ''Idempotency-Key'') = Some header" "TrimSpace header = k" "k \<noteq> []"
  shows "send_inv ms0 u who k db' ps' \<and> answer_ok ms0 u who k db' answer"
proof (cases "rq_data rq")
  case None
  then show ?thesis using assms(1,2) by (auto simp: arrive_def)
next
  case (Some body)
  show ?thesis
  proof (cases "CreateMessage hash db (u, who) header body")
    case (Inr p)
    then have "pc_user p = u \<and> pc_sender p = who \<and> pc_key p = k" using CreateMessage_pending [OF Inr] assms(4) by simp
    then show ?thesis using assms(1-3) Some Inr by (auto simp: arrive_def send_inv_def)
  next
    case (Inl res)
    have "answer_ok ms0 u who k db (Some res)"
    proof (cases "300 \<le> rs_statusCode res")
      case False
      then obtain h messageID m where m: "map_of (db_idempotency db) (u, k) = Some (h, messageID)" "loadMessage db messageID = Some m"
        "res = respond 200 (json_of_message m)"
        using Inl assms(4) by (auto simp: CreateMessage_def create_check_def Let_def lookupIdempotency_def split: option.splits if_splits)
      then obtain row where row: "stored ms0 u k row db" using assms(1) by (auto simp: send_inv_def)
      moreover have "m = row_response who row"
        using loadMessage_stored [OF _ _ row] assms(1) m(1,2) row by (auto simp: send_inv_def stored_def)
      ultimately show ?thesis using m(3) by (auto simp: answer_ok_def interpret_respond)
    qed simp
    then show ?thesis using assms(1-3) Some Inl by (auto simp: arrive_def)
  qed
qed

lemma exchanged_stores:
  assumes "send_inv ms0 u who k (sv_db sv) (sv_pending sv)" "exchanged hash (u, who) rq sv = (r, sv')"
    and "map_of (rq_headers rq) (js ''Idempotency-Key'') = Some header" "TrimSpace header = k" "k \<noteq> []"
  shows "send_inv ms0 u who k (sv_db sv') (sv_pending sv') \<and>
    (\<forall>res v. r = Inr res \<longrightarrow> interpret_response res = Inr v \<longrightarrow>
       (\<exists>m. stored ms0 u k m (sv_db sv') \<and> v = Some (json_of_message (row_response who m))))"
proof (cases "sv_plan sv")
  case (Cons ex plan)
  let ?s0 = "if ex_arrives ex then arrive hash (u, who) rq (sv_db sv, sv_pending sv) else (sv_db sv, sv_pending sv, None)"
  obtain db0 ps0 a0 where s0: "?s0 = (db0, ps0, a0)" by (metis prod_cases3)
  obtain db ps a where s: "foldl (\<lambda>s c. commit_one (length (sv_pending sv)) c s) (db0, ps0, a0) (ex_commits ex) = (db, ps, a)"
    by (metis prod_cases3)
  have "send_inv ms0 u who k db0 ps0 \<and> answer_ok ms0 u who k db0 a0"
    using s0 assms(1) arrive_stores [OF assms(1) _ assms(3-5), of hash db0 ps0 a0] by (auto split: if_splits)
  then have "send_inv ms0 u who k db ps \<and> answer_ok ms0 u who k db a" using commits_store [OF _ _ assms(5) s] by blast
  moreover have "sv' = \<lparr>sv_db = db, sv_pending = ps, sv_plan = plan\<rparr>"
    "r = (case a of Some res \<Rightarrow> if ex_answered ex then Inr res else Inl None | None \<Rightarrow> Inl None)"
    using assms(2) Cons s0 s by (simp_all add: exchanged_def Let_def)
  ultimately show ?thesis by (auto simp: answer_ok_def split: option.splits if_splits)
qed (use assms(1,2) in \<open>auto simp: exchanged_def\<close>)

lemma is_send_attempt:
  assumes "attempt_of c POST (js ''/api/v1/messages'') (post_options k body) rq"
  shows "is_send rq" "map_of (rq_headers rq) (js ''Idempotency-Key'') = Some k"
proof -
  have url: "rq_url rq = joinUrl (baseUrl c) (js ''/api/v1/messages'')" "rq_method rq = POST"
    and "map_of (rq_headers rq) (js ''Idempotency-Key'') = Some k"
    using assms by (auto simp: attempt_of_def built_request_def request_headers_key post_options_def no_options_def buildUrl_def)
  moreover have "joinUrl b (js ''/api/v1/messages'') = trim_end_slashes b @ js ''/api/v1/messages''" for b
    by (simp add: joinUrl_def trim_start_slashes_def js_eval)
  ultimately show "is_send rq" "map_of (rq_headers rq) (js ''Idempotency-Key'') = Some k" by (simp_all add: is_send_def)
qed

text \<open>
C2: A send whose idempotency key is not blank and was not used by this user before stores its message at most once, however
unreliable the network and the database are.  The client retries with one key; requests and answers get lost, handlers of earlier attempts commit late or twice, and
transactions fail or commit unnoticed.  After the call the table of messages has grown by at most one
row; when the call has succeeded it has grown by exactly one, and the call returns that very message.
\<close>

theorem send_stores_once:
  assumes "db_inv (sv_db sv)" "sv_pending sv = []" "map_of (db_users (sv_db sv)) u = Some who"
    and "k = (case so_idempotencyKey options of Some k \<Rightarrow> k | None \<Rightarrow> randomId (fst rnd) (snd rnd))"
    and "TrimSpace k \<noteq> []" "lookupIdempotency (sv_db sv) u (TrimSpace k) = None"
    and "world st = (x, sv)"
    and "sendMessage (lossy_env hash (u, who) other get) rnd conversationId content options st = (r, st')"
  shows "\<exists>rows. db_messages (sv_db (snd (world st'))) = db_messages (sv_db sv) @ rows \<and> length rows \<le> 1 \<and>
    (\<forall>v. r = Inr v \<longrightarrow> (\<exists>row. rows = [row] \<and> v = Some (json_of_message (row_response who row))))"
proof -
  let ?env = "lossy_env hash (u, who) other get" and ?ms = "db_messages (sv_db sv)" and ?k = "TrimSpace k"
  let ?path = "js ''/api/v1/messages''" and ?body = "message_body (Some (JStr conversationId)) content options"
  let ?P = "\<lambda>w :: 'a \<times> server. send_inv ?ms u who ?k (sv_db (snd w)) (sv_pending (snd w))"
  let ?R = "\<lambda>v (w :: 'a \<times> server). \<exists>m. stored ?ms u ?k m (sv_db (snd w)) \<and> v = Some (json_of_message (row_response who m))"
  have loop: "post_loop ?env ?path ?body k (case so_retries options of Some n \<Rightarrow> n | None \<Rightarrow> 1) 0 st = (r, st')"
    using assms(4,8) by (simp add: sendMessage_def postMessage_def)
  have start: "?P (world st)"
    using assms(1-3,6,7) by (simp add: send_inv_def lookupIdempotency_def)
  have "?P (world st') \<and> (\<forall>v. r = Inr v \<longrightarrow> ?R v (world st'))"
  proof (rule post_loop_world [OF loop, of ?P ?R])
    show "?P (world st)" by (rule start)
  next
    fix w :: "'a \<times> server" and rq
    assume w: "?P w" and rq: "attempt_of (client st) POST ?path (post_options k ?body) rq"
    obtain r' sv' where r': "exchanged hash (u, who) rq (snd w) = (r', sv')" by force
    then have "env_request ?env w rq = (r', (fst w, sv'))" using is_send_attempt(1) [OF rq] by (simp add: lossy_env_def split_def)
    then show "?P (snd (env_request ?env w rq)) \<and> (\<forall>res v. fst (env_request ?env w rq) = Inr res \<longrightarrow>
        interpret_response res = Inr v \<longrightarrow> ?R v (snd (env_request ?env w rq)))"
      using exchanged_stores [OF w r' is_send_attempt(2) [OF rq] refl assms(5)] by simp
  next
    fix g and w :: "'a \<times> server"
    assume "env_getCredential ?env = Some g" "?P w"
    then show "?P (snd (g w))" by (auto simp: lossy_env_def split: prod.splits)
  qed
  then show ?thesis by (auto simp: send_inv_def stored_def)
qed

section \<open>Examples\<close>

text \<open>The first request is stored but its answer is lost; the second is answered.\<close>

definition lost_answer :: server where
  "lost_answer = \<lparr>sv_db = sample_db, sv_pending = [],
     sv_plan = [\<lparr>ex_arrives = True, ex_commits = [(0, Some ([109], [101]), [], Committed)], ex_answered = False\<rparr>,
                \<lparr>ex_arrives = True, ex_commits = [(1, Some ([110], [102]), [], Committed)], ex_answered = True\<rparr>]\<rparr>"

definition send_with_key :: "jstr \<Rightarrow> (exn + json option) \<times> (unit \<times> server) hstate" where
  "send_with_key k = sendMessage (lossy_env (\<lambda>_. []) (1, sample_sender) (\<lambda>rq w. (Inl None, w)) None) (0, []) sample_conversation [104]
     (default_send\<lparr>so_idempotencyKey := Some k\<rparr>) (start_state (js ''http://h'') (js ''t'') ((), lost_answer))"

lemma sample_db_inv: "db_inv sample_db"
  using backend.inv_reach [OF sample_reach] db_inv_empty by (simp add: backend_inv_def)

theorem send_stores_once_witness:
  "length (db_messages (sv_db (snd (world (snd (send_with_key [107])))))) \<le> 1"
proof -
  obtain r st' where r: "send_with_key [107] = (r, st')" by force
  have "TrimSpace [107] = [107]" by (simp add: TrimSpace_id go_space_def)
  from send_stores_once [of lost_answer 1 sample_sender "[107]" "(0, [])" "default_send\<lparr>so_idempotencyKey := Some [107]\<rparr>"
      "start_state (js ''http://h'') (js ''t'') ((), lost_answer)" "()" "\<lambda>_. []" "\<lambda>rq w. (Inl None, w)" None sample_conversation "[104]" r st']
  obtain rows where "db_messages (sv_db (snd (world st'))) = db_messages sample_db @ rows" "length rows \<le> 1"
    using r sample_db_inv \<open>TrimSpace [107] = [107]\<close>
    by (auto simp: send_with_key_def lost_answer_def start_state_def lookupIdempotency_def sample_db_def empty_db_def)
  then show ?thesis using r by (simp add: sample_db_def empty_db_def)
qed

lemma send_check:
  assumes "activeMember db sample_conversation 1" "so_contentType options = None" "TrimSpace k = []"
  shows "CreateMessage (\<lambda>_. []) db (1, sample_sender) k (message_body (Some (JStr sample_conversation)) [104] options)
    = Inr (sample_pending\<lparr>pc_key := []\<rparr>)"
proof -
  let ?r = "\<lparr>cq_conversation_id = sample_conversation, cq_content = [104], cq_content_type = js ''text/markdown''\<rparr>"
  have body: "decodeJSONBody (message_body (Some (JStr sample_conversation)) [104] options) = Some ?r"
    using assms(2) by (simp add: message_body_def set_field_def fold_unit_def Let_def js_eval)
  have norm: "normalized ?r = ?r"
    by (simp add: normalized_def line_ends_def sample_conversation_def TrimSpace_id go_space_def js_eval)
  have "valid_request ?r"
    by (simp add: valid_request_def sample_conversation_def byte_length_ascii utf8_def TrimSpace_id go_space_def)
  then show ?thesis using assms(1,3)
    by (simp add: CreateMessage_def body create_check_def norm Let_def sample_pending_def)
qed

text \<open>One request for a send: the backend's exchange decides the outcome; only a rejected credential would be refreshed.\<close>

lemma send_once:
  assumes "world st = (x, sv)" "exchanged hash user (built_request (client st) POST (joinUrl (baseUrl (client st)) (js ''/api/v1/messages''))
      (post_options key body)) sv = (r, sv')"
  shows "\<exists>st'. world st' = (x, sv') \<and> requestOnce (lossy_env hash user other get) POST (js ''/api/v1/messages'') (post_options key body) st =
    (case r of Inl m \<Rightarrow> Inl (IMErr (IMError (-1) (case m of Some s \<Rightarrow> s | None \<Rightarrow> js ''network error'') 0)) | Inr res \<Rightarrow> interpret_response res, st')"
proof -
  let ?rq = "built_request (client st) POST (joinUrl (baseUrl (client st)) (js ''/api/v1/messages'')) (post_options key body)"
  have "attempt_of (client st) POST (js ''/api/v1/messages'') (post_options key body) ?rq"
    unfolding attempt_of_def by (intro exI [of _ "credential (client st)"] exI [of _ "joinUrl (baseUrl (client st)) (js ''/api/v1/messages'')"])
      (simp add: buildUrl_def post_options_def no_options_def)
  then show ?thesis using is_send_attempt(1) assms
    by (auto simp: requestOnce_def lossy_env_def buildUrl_def post_options_def no_options_def built_request_def Let_def split: prod.splits sum.splits)
qed

lemma send_request:
  assumes "world st = (x, sv)" "\<And>rq. rq_data rq = Some body \<Longrightarrow> map_of (rq_headers rq) (js ''Idempotency-Key'') = Some key \<Longrightarrow> exchanged hash user rq sv = (r, sv')"
  shows "r = Inl m \<Longrightarrow> \<exists>e st'. request (lossy_env hash user other get) POST (js ''/api/v1/messages'') (post_options key body) st = (Inl e, st') \<and>
      exn_status e = Some 0 \<and> world st' = (x, sv')"
    and "r = Inr res \<Longrightarrow> interpret_response res = Inr v \<Longrightarrow>
      \<exists>st'. request (lossy_env hash user other get) POST (js ''/api/v1/messages'') (post_options key body) st = (Inr v, st') \<and> world st' = (x, sv')"
proof -
  let ?rq = "built_request (client st) POST (joinUrl (baseUrl (client st)) (js ''/api/v1/messages'')) (post_options key body)"
  have "exchanged hash user ?rq sv = (r, sv')"
    by (rule assms(2)) (simp_all add: built_request_def post_options_def no_options_def request_headers_key)
  from send_once [OF assms(1) this, of other get] obtain st' where st': "world st' = (x, sv')"
    "requestOnce (lossy_env hash user other get) POST (js ''/api/v1/messages'') (post_options key body) st =
      (case r of Inl m \<Rightarrow> Inl (IMErr (IMError (-1) (case m of Some s \<Rightarrow> s | None \<Rightarrow> js ''network error'') 0)) | Inr res \<Rightarrow> interpret_response res, st')"
    by blast
  show "r = Inl m \<Longrightarrow> \<exists>e st'. request (lossy_env hash user other get) POST (js ''/api/v1/messages'') (post_options key body) st = (Inl e, st') \<and>
      exn_status e = Some 0 \<and> world st' = (x, sv')"
    using st' by (auto simp: request_def isAuthError_def ErrorCode_InvalidCredential_def split: option.split)
  show "r = Inr res \<Longrightarrow> interpret_response res = Inr v \<Longrightarrow>
      \<exists>st'. request (lossy_env hash user other get) POST (js ''/api/v1/messages'') (post_options key body) st = (Inr v, st') \<and> world st' = (x, sv')"
    using st' by (simp add: request_def)
qed

text \<open>A transaction without a key that nothing prevents, and the check of the same request after it.\<close>

lemma unkeyed_commit:
  assumes "db_inv db" "map_of (db_next_sequence db) (cq_conversation_id (pc_request p)) = Some n" "pc_key p = []"
    and "m \<notin> mr_id ` set (db_messages db)" "e \<notin> ob_id ` set (db_outbox db)" "f \<noteq> RolledBack"
  shows "\<exists>row db'. create_commit (Some (m, e)) now f p db = (if f = Committed then respond 201 (json_of_message (row_response (pc_sender p) row))
        else respondError 500 10000 ''Could not create message'', db') \<and>
      db_messages db' = db_messages db @ [row] \<and> mr_id row = m \<and> mr_sender_id row = pc_user p \<and> mr_content row = cq_content (pc_request p) \<and>
      mr_conversation_id row = cq_conversation_id (pc_request p) \<and> db_members db' = db_members db \<and> ob_id ` set (db_outbox db') = insert e (ob_id ` set (db_outbox db)) \<and>
      map_of (db_next_sequence db') (cq_conversation_id (pc_request p)) = Some (n + 1)"
proof -
  let ?c = "cq_conversation_id (pc_request p)"
  have "map mr_sequence (rows_of db ?c) = [1..n - 1]" using assms(1,2) by (simp add: db_inv_def next_of_def)
  then have "n \<notin> mr_sequence ` set (rows_of db ?c)" by (metis atLeastAtMost_iff diff_gt_0_iff_gt linorder_not_le set_map set_upto zle_diff1_eq order_less_irrefl)
  then have fresh: "\<not> list_ex (\<lambda>r. mr_id r = m \<or> mr_conversation_id r = ?c \<and> mr_sequence r = n) (db_messages db)"
    "\<not> list_ex (\<lambda>o'. ob_id o' = e) (db_outbox db)"
    using assms(4,5) by (auto simp: list_ex_iff rows_of_def)
  show ?thesis using assms(2,3,6) fresh
    by (cases f) (simp_all add: create_commit_def create_tx_def tx_then_def bump_sequence_def insert_message_def insert_outbox_def Let_def AList.update_conv')
qed

lemma unkeyed_check_again:
  "CreateMessage hash db user key body = Inr p \<Longrightarrow> TrimSpace key = [] \<Longrightarrow> db_members db' = db_members db \<Longrightarrow> CreateMessage hash db' user key body = Inr p"
  by (auto simp: CreateMessage_def create_check_def activeMember_def Let_def split: option.splits if_splits)

text \<open>
C39: An empty or blank idempotency key, which the client passes on as it is, turns the protection off: when the transaction of
the first request commits but its answer is lost, and the retry reaches the backend and is answered, the message is stored twice, under two ids, and the
call succeeds with the second one.
\<close>

theorem empty_key_duplicates:
  fixes sv :: server
  assumes "so_idempotencyKey options = Some k" "TrimSpace k = []" "so_retries options \<noteq> Some 0" "\<forall>n. so_retries options = Some n \<longrightarrow> 0 \<le> n"
    and "db_inv (sv_db sv)" "map_of (db_users (sv_db sv)) u = Some who" "sv_pending sv = []"
    and "CreateMessage hash (sv_db sv) (u, who) k (message_body (Some (JStr conversationId)) content options) = Inr p"
    and "map_of (db_next_sequence (sv_db sv)) (cq_conversation_id (pc_request p)) = Some n"
    and "m1 \<noteq> m2" "{m1, m2} \<inter> mr_id ` set (db_messages (sv_db sv)) = {}" "e1 \<noteq> e2" "{e1, e2} \<inter> ob_id ` set (db_outbox (sv_db sv)) = {}"
    and "sv_plan sv = \<lparr>ex_arrives = True, ex_commits = [(0, Some (m1, e1), now1, Committed)], ex_answered = False\<rparr> #
           \<lparr>ex_arrives = True, ex_commits = [(1, Some (m2, e2), now2, Committed)], ex_answered = True\<rparr> # plan"
    and "world st = (x, sv)"
    and "sendMessage (lossy_env hash (u, who) other get) rnd conversationId content options st = (r, st')"
  shows "\<exists>row1 row2. db_messages (sv_db (snd (world st'))) = db_messages (sv_db sv) @ [row1, row2] \<and> mr_id row1 \<noteq> mr_id row2 \<and>
      mr_content row1 = mr_content row2 \<and> mr_conversation_id row1 = mr_conversation_id row2 \<and> mr_sender_id row1 = u \<and> mr_sender_id row2 = u \<and>
      r = Inr (Some (json_of_message (row_response who row2)))"
proof -
  let ?body = "message_body (Some (JStr conversationId)) content options" and ?path = "js ''/api/v1/messages''"
  let ?env = "lossy_env hash (u, who) other get"
  have p: "pc_user p = u" "pc_sender p = who" "pc_key p = []" using CreateMessage_pending [OF assms(8)] assms(2) by simp_all
  from unkeyed_commit [OF assms(5,9) p(3), of m1 e1 Committed now1] obtain row1 db1 where
    1: "create_commit (Some (m1, e1)) now1 Committed p (sv_db sv) = (respond 201 (json_of_message (row_response who row1)), db1)"
      "db_messages db1 = db_messages (sv_db sv) @ [row1]" "mr_id row1 = m1" "mr_sender_id row1 = u" "mr_content row1 = cq_content (pc_request p)"
      "mr_conversation_id row1 = cq_conversation_id (pc_request p)" "db_members db1 = db_members (sv_db sv)"
      "ob_id ` set (db_outbox db1) = insert e1 (ob_id ` set (db_outbox (sv_db sv)))" "map_of (db_next_sequence db1) (cq_conversation_id (pc_request p)) = Some (n + 1)"
    using assms(11,13) p by auto
  have db1: "db_inv db1" using create_commit_inv [OF assms(5) 1(1)] assms(6) p by simp
  from unkeyed_commit [OF db1 1(9) p(3), of m2 e2 Committed now2] obtain row2 db2 where
    2: "create_commit (Some (m2, e2)) now2 Committed p db1 = (respond 201 (json_of_message (row_response who row2)), db2)"
      "db_messages db2 = db_messages db1 @ [row2]" "mr_id row2 = m2" "mr_sender_id row2 = u" "mr_content row2 = cq_content (pc_request p)"
      "mr_conversation_id row2 = cq_conversation_id (pc_request p)"
    using assms(10-13) 1(2,3,8) p by auto
  define mid where "mid = \<lparr>sv_db = db1, sv_pending = [None], sv_plan = tl (sv_plan sv)\<rparr>"
  define sv2 where "sv2 = \<lparr>sv_db = db2, sv_pending = [None, None], sv_plan = plan\<rparr>"
  have ex1: "exchanged hash (u, who) rq sv = (Inl None, mid)" and ex2: "exchanged hash (u, who) rq mid = (Inr (respond 201 (json_of_message (row_response who row2))), sv2)"
    if "rq_data rq = Some ?body" "map_of (rq_headers rq) (js ''Idempotency-Key'') = Some k" for rq
    using that assms(7,8,14) unkeyed_check_again [OF assms(8,2) 1(7)] 1(1) 2(1)
    by (simp_all add: exchanged_def arrive_def mid_def sv2_def)
  from send_request(1) [OF assms(15) ex1 refl, where other = other and get = get] obtain e st1 where
    3: "request ?env POST ?path (post_options k ?body) st = (Inl e, st1)" "exn_status e = Some 0" "world st1 = (x, mid)" by blast
  from send_request(2) [OF 3(3) ex2 refl interpret_respond, where other = other and get = get] obtain st2 where
    4: "request ?env POST ?path (post_options k ?body) st1 = (Inr (Some (json_of_message (row_response who row2))), st2)" "world st2 = (x, sv2)" by auto
  have "0 + 1 \<le> (case so_retries options of Some n \<Rightarrow> n | None \<Rightarrow> 1)" using assms(3,4) by (auto split: option.split)
  then have "(r, st') = (Inr (Some (json_of_message (row_response who row2))), st2)"
    using assms(1,16) 3(1,2) 4(1) by (simp add: sendMessage_def postMessage_def post_loop.simps [of _ _ _ _ _ 0] post_loop.simps [of _ _ _ _ _ 1])
  then show ?thesis using 1 2 4(2) assms(10) by (auto simp: sv2_def)
qed

theorem empty_key_duplicates_witness:
  "length (db_messages (sv_db (snd (world (snd (send_with_key [])))))) = 2 \<and> \<not> isl (fst (send_with_key []))"
proof -
  let ?opts = "default_send\<lparr>so_idempotencyKey := Some []\<rparr>" and ?p = "sample_pending\<lparr>pc_key := []\<rparr>"
  let ?st = "start_state (js ''http://h'') (js ''t'') ((), lost_answer)"
  obtain r st' where r: "send_with_key [] = (r, st')" by force
  have check: "CreateMessage (\<lambda>_. []) (sv_db lost_answer) (1, sample_sender) [] (message_body (Some (JStr sample_conversation)) [104] ?opts) = Inr ?p"
    by (rule send_check) (simp_all add: lost_answer_def sample_db_def empty_db_def activeMember_def default_send_def TrimSpace_def)
  have "\<exists>row1 row2. db_messages (sv_db (snd (world st'))) = db_messages (sv_db lost_answer) @ [row1, row2] \<and> mr_id row1 \<noteq> mr_id row2 \<and>
      mr_content row1 = mr_content row2 \<and> mr_conversation_id row1 = mr_conversation_id row2 \<and> mr_sender_id row1 = 1 \<and> mr_sender_id row2 = 1 \<and>
      r = Inr (Some (json_of_message (row_response sample_sender row2)))"
  proof (rule empty_key_duplicates [where options = ?opts and k = "[]" and p = ?p and st = ?st and x = "()" and ?m1.0 = "[109]" and ?m2.0 = "[110]"])
    show "CreateMessage (\<lambda>_. []) (sv_db lost_answer) (1, sample_sender) [] (message_body (Some (JStr sample_conversation)) [104] ?opts) = Inr ?p" by (rule check)
    show "sendMessage (lossy_env (\<lambda>_. []) (1, sample_sender) (\<lambda>rq w. (Inl None, w)) None) (0, []) sample_conversation [104] ?opts ?st = (r, st')"
      using r by (simp add: send_with_key_def)
    show "sv_plan lost_answer = \<lparr>ex_arrives = True, ex_commits = [(0, Some ([109], [101]), [], Committed)], ex_answered = False\<rparr> #
        \<lparr>ex_arrives = True, ex_commits = [(1, Some ([110], [102]), [], Committed)], ex_answered = True\<rparr> # []" by (simp add: lost_answer_def)
    show "db_inv (sv_db lost_answer)" by (simp add: lost_answer_def sample_db_inv)
  qed (simp_all add: lost_answer_def sample_db_def empty_db_def sample_pending_def default_send_def TrimSpace_def start_state_def)
  then show ?thesis using r by (auto simp: lost_answer_def sample_db_def empty_db_def)
qed

end
