(* ===== verification/Hub.thy ===== *)
theory Hub
  imports Backend
begin

text \<open>
  The WebSocket gateway service, \<open>deps/im/gateway/main.go\<close>: the connections with their bounded send queues, the index of
  the authenticated ones (\<open>hub.users\<close>), the read and write loops, and the internal endpoints \<open>deliver\<close> and \<open>kick\<close>.

  The service runs a reader and a writer goroutine per connection and one per internal request.  \<open>hub_step\<close> interleaves
  them at the points where they touch shared state: the lock of the hub and the send channels.  A connection is its
  position in \<open>h_conns\<close>; a call of \<open>deliver\<close> that is under way is a \<open>job\<close>.  A frame carries its JSON value and whether it is
  a reply or an event.  Not modelled: deadlines and pings (the end of a connection may come at any time), close frames,
  and objects that repeat a member name.
\<close>

section \<open>State\<close>

datatype out_frame = Reply json | Push json

fun frame_json :: "out_frame \<Rightarrow> json" where
  "frame_json (Reply v) = v"
| "frame_json (Push v) = v"

text \<open>Where \<open>readLoop\<close> stands: at \<open>ReadMessage\<close>, in \<open>authenticate\<close>, between \<open>hub.add\<close> and its reply, or returned.\<close>

datatype reader = Reading | Verifying jstr | Admitted | Returned

record connection =
  userUUID :: jstr
  send_queue :: "out_frame list"
  written :: "out_frame list"
  conn_open :: bool
  conn_reader :: reader
  conn_writing :: bool

record hub_metrics =
  m_accepted :: nat
  m_authenticated :: nat
  m_authFailed :: nat
  m_closed :: nat
  m_delivered :: nat
  m_slowConsumers :: nat

text \<open>A call of \<open>hub.deliver\<close>: the connections it has collected and those it has still to serve.\<close>

record job =
  jb_payload :: json
  jb_clients :: "nat list"
  jb_left :: "nat list"
  jb_delivered :: nat
  jb_answered :: bool

record hub =
  h_conns :: "connection list"
  h_users :: "(jstr \<times> nat list) list"
  h_jobs :: "job list"
  h_metrics :: hub_metrics

record gateway_config =
  gc_secret :: jstr
  gc_origins :: "jstr list"

definition new_hub :: hub where
  "new_hub = \<lparr>h_conns = [], h_users = [], h_jobs = [], h_metrics = \<lparr>m_accepted = 0, m_authenticated = 0, m_authFailed = 0,
     m_closed = 0, m_delivered = 0, m_slowConsumers = 0\<rparr>\<rparr>"

definition update_conn :: "nat \<Rightarrow> (connection \<Rightarrow> connection) \<Rightarrow> hub \<Rightarrow> hub" where
  "update_conn i f h = h\<lparr>h_conns := (h_conns h)[i := f (h_conns h ! i)]\<rparr>"

definition conn :: "hub \<Rightarrow> nat \<Rightarrow> connection" where
  "conn h i = h_conns h ! i"

text \<open>\<open>h.users[userUUID]\<close>, empty when there is no entry.\<close>

definition registered :: "hub \<Rightarrow> jstr \<Rightarrow> nat list" where
  "registered h u = (case map_of (h_users h) u of Some cs \<Rightarrow> cs | None \<Rightarrow> [])"

section \<open>Decoding\<close>

text \<open>
  \<open>encoding/json\<close> into a struct: members are matched without regard to case, absent ones and \<open>null\<close> leave the zero value,
  a value of another type is an error.
\<close>

fun go_find :: "string \<Rightarrow> json \<Rightarrow> json option" where
  "go_find name (JObj kvs) =
     (case filter (\<lambda>kv. map fold_unit (fst kv) = js name) kvs of [] \<Rightarrow> None | kv # r \<Rightarrow> Some (snd (last (kv # r))))"
| "go_find name _ = None"

definition go_member :: "string \<Rightarrow> json \<Rightarrow> json" where
  "go_member name v = (case go_find name v of None \<Rightarrow> JNull | Some x \<Rightarrow> x)"

fun go_struct :: "json \<Rightarrow> bool" where
  "go_struct (JObj _) = True"
| "go_struct JNull = True"
| "go_struct _ = False"

fun go_string :: "json \<Rightarrow> jstr option" where
  "go_string (JStr s) = Some s"
| "go_string JNull = Some []"
| "go_string _ = None"

fun go_list :: "json \<Rightarrow> json list option" where
  "go_list (JArr vs) = Some vs"
| "go_list JNull = Some []"
| "go_list _ = None"

definition decode_command :: "json \<Rightarrow> (jstr \<times> json list) option" where
  "decode_command v =
     (if go_struct v then
        (case (go_string (go_member ''cmd'' v), go_list (go_member ''opts'' v)) of
           (Some cmd, Some opts) \<Rightarrow> Some (cmd, opts)
         | _ \<Rightarrow> None)
      else None)"

text \<open>The answer of \<open>/internal/v1/auth\<close>; an error and an empty user lead to the same refusal.\<close>

definition authenticate :: "http_response option \<Rightarrow> jstr" where
  "authenticate response =
     (case response of
        None \<Rightarrow> []
      | Some r \<Rightarrow>
          if rs_statusCode r \<noteq> 200 \<or> \<not> go_struct (rs_data r) \<or> \<not> go_struct (go_member ''data'' (rs_data r)) then []
          else (case go_string (go_member ''user_uuid'' (go_member ''data'' (rs_data r))) of None \<Rightarrow> [] | Some u \<Rightarrow> u))"

text \<open>\<open>routing.Targets.UserUUIDs\<close> of a payload.\<close>

definition routing_targets :: "json \<Rightarrow> jstr list option" where
  "routing_targets payload =
     (if go_struct payload \<and> go_struct (go_member ''targets'' payload) then
        (case go_list (go_member ''user_uuids'' (go_member ''targets'' payload)) of
           None \<Rightarrow> None
         | Some vs \<Rightarrow> those (map go_string vs))
      else None)"

section \<open>Connections\<close>

definition maxFrameBytes :: nat where
  "maxFrameBytes = 64 * 1024"

definition secretOK :: "jstr \<Rightarrow> jstr \<Rightarrow> bool" where
  "secretOK want got \<longleftrightarrow> want \<noteq> [] \<and> want = got"

definition CheckOrigin :: "gateway_config \<Rightarrow> jstr \<Rightarrow> bool" where
  "CheckOrigin cfg origin \<longleftrightarrow> origin = [] \<or> origin \<in> set (gc_origins cfg)"

text \<open>The select on the send channel, which holds 256 frames: a full channel closes the connection.\<close>

definition offer :: "out_frame \<Rightarrow> connection \<Rightarrow> bool \<times> connection" where
  "offer f c = (if length (send_queue c) < 256 then (True, c\<lparr>send_queue := send_queue c @ [f]\<rparr>) else (False, c\<lparr>conn_open := False\<rparr>))"

definition envelope :: "int \<Rightarrow> json \<Rightarrow> string \<Rightarrow> json" where
  "envelope code data message =
     JObj ([(js ''code'', JNum code), (js ''data'', data)] @ (if message = [] then [] else [(js ''message'', JStr (js message))]))"

definition sendResponse :: "nat \<Rightarrow> json \<Rightarrow> hub \<Rightarrow> hub" where
  "sendResponse i response h = update_conn i (\<lambda>c. snd (offer (Reply response) c)) h"

definition hub_accept :: "hub \<Rightarrow> hub" where
  "hub_accept h = h\<lparr>h_conns := h_conns h @ [\<lparr>userUUID = [], send_queue = [], written = [], conn_open = True,
       conn_reader = Reading, conn_writing = True\<rparr>],
     h_metrics := (h_metrics h)\<lparr>m_accepted := Suc (m_accepted (h_metrics h))\<rparr>\<rparr>"

definition hub_add :: "nat \<Rightarrow> hub \<Rightarrow> hub" where
  "hub_add i h = (let u = userUUID (conn h i) in h\<lparr>h_users := AList.update u (set_add i (registered h u)) (h_users h)\<rparr>)"

text \<open>The deferred \<open>remove\<close>, which ends the read loop.\<close>

definition hub_remove :: "nat \<Rightarrow> hub \<Rightarrow> hub" where
  "hub_remove i h =
     (let u = userUUID (conn h i); cs = set_delete i (registered h u);
          users = (case map_of (h_users h) u of
              None \<Rightarrow> h_users h
            | Some _ \<Rightarrow> if cs = [] then AList.delete u (h_users h) else AList.update u cs (h_users h))
      in update_conn i (\<lambda>c. c\<lparr>conn_open := False, conn_reader := Returned\<rparr>)
           (h\<lparr>h_users := users, h_metrics := (h_metrics h)\<lparr>m_closed := Suc (m_closed (h_metrics h))\<rparr>\<rparr>))"

definition authFailure :: "nat \<Rightarrow> hub \<Rightarrow> hub" where
  "authFailure i h = sendResponse i (envelope 10001 JNull ''Invalid bearer token'')
     (h\<lparr>h_metrics := (h_metrics h)\<lparr>m_authFailed := Suc (m_authFailed (h_metrics h))\<rparr>\<rparr>)"

text \<open>A frame from the client: binary, or text that is JSON or not.\<close>

datatype client_frame = BinaryFrame | TextFrame "json option"

text \<open>One turn of \<open>readLoop\<close> up to the call of \<open>authenticate\<close>.\<close>

definition read_frame :: "nat \<Rightarrow> client_frame \<Rightarrow> hub \<Rightarrow> hub" where
  "read_frame i w h =
     (case w of
        BinaryFrame \<Rightarrow> sendResponse i (envelope 10003 JNull ''Text JSON frames are required'') h
      | TextFrame v \<Rightarrow>
          (case Option.bind v decode_command of
             None \<Rightarrow> sendResponse i (envelope 10003 JNull ''Invalid command'') h
           | Some (cmd, opts) \<Rightarrow>
               if cmd = [] then sendResponse i (envelope 10003 JNull ''Invalid command'') h
               else if userUUID (conn h i) = [] then
                 (if cmd \<noteq> js ''auth'' \<or> length opts \<noteq> 1 then
                    hub_remove i (sendResponse i (envelope 10002 JNull ''Authentication required'') h)
                  else case hd opts of
                      JStr token \<Rightarrow>
                        if token = [] then hub_remove i (authFailure i h)
                        else update_conn i (\<lambda>c. c\<lparr>conn_reader := Verifying token\<rparr>) h
                    | _ \<Rightarrow> hub_remove i (authFailure i h))
               else sendResponse i (if cmd = js ''ping'' then envelope 0 (JStr (js ''PONG'')) []
                      else envelope 10003 JNull ''Unknown command'') h))"

text \<open>The rest of the turn: \<open>hub.add\<close> comes first, the reply to the client after it.\<close>

definition admit :: "nat \<Rightarrow> http_response option \<Rightarrow> hub \<Rightarrow> hub" where
  "admit i response h =
     (let u = authenticate response
      in if u = [] then hub_remove i (authFailure i h)
         else (hub_add i (update_conn i (\<lambda>c. c\<lparr>userUUID := u, conn_reader := Admitted\<rparr>) h))
                \<lparr>h_metrics := (h_metrics h)\<lparr>m_authenticated := Suc (m_authenticated (h_metrics h))\<rparr>\<rparr>)"

definition greet_client :: "nat \<Rightarrow> hub \<Rightarrow> hub" where
  "greet_client i h = update_conn i (\<lambda>c. c\<lparr>conn_reader := Reading\<rparr>) (sendResponse i (envelope 0 (JStr (js ''OK'')) []) h)"

text \<open>\<open>writeLoop\<close> takes a frame from the channel and returns when it cannot be written.\<close>

definition write_frame :: "nat \<Rightarrow> bool \<Rightarrow> hub \<Rightarrow> hub" where
  "write_frame i ok h = update_conn i (\<lambda>c. if ok then c\<lparr>send_queue := tl (send_queue c), written := written c @ [hd (send_queue c)]\<rparr>
     else c\<lparr>send_queue := tl (send_queue c), conn_writing := False\<rparr>) h"

section \<open>Internal endpoints\<close>

record service_request =
  ir_post :: bool
  ir_secret :: jstr
  ir_bytes :: nat
  ir_body :: "json option"

text \<open>The part of \<open>deliver\<close> before \<open>hub.deliver\<close>: a status, or the targets and the payload.\<close>

definition deliver_check :: "gateway_config \<Rightarrow> service_request \<Rightarrow> int + jstr list \<times> json" where
  "deliver_check cfg r =
     (if \<not> ir_post r \<or> \<not> secretOK (gc_secret cfg) (ir_secret r) then Inl 401
      else case ir_body r of
          None \<Rightarrow> Inl 400
        | Some body \<Rightarrow>
            if maxFrameBytes < ir_bytes r \<or> \<not> go_struct body then Inl 400
            else (case go_find ''payload'' body of
                None \<Rightarrow> Inl 400
              | Some payload \<Rightarrow>
                  (case routing_targets payload of None \<Rightarrow> Inl 400 | Some targets \<Rightarrow> Inr (targets, payload))))"

definition deliver_start :: "jstr list \<Rightarrow> json \<Rightarrow> hub \<Rightarrow> hub" where
  "deliver_start targets payload h =
     (let clients = remdups (concat (map (registered h) targets))
      in h\<lparr>h_jobs := h_jobs h @ [\<lparr>jb_payload = payload, jb_clients = clients, jb_left = clients, jb_delivered = 0, jb_answered = False\<rparr>]\<rparr>)"

definition update_job :: "nat \<Rightarrow> (job \<Rightarrow> job) \<Rightarrow> hub \<Rightarrow> hub" where
  "update_job k f h = h\<lparr>h_jobs := (h_jobs h)[k := f (h_jobs h ! k)]\<rparr>"

definition deliver_one :: "nat \<Rightarrow> nat \<Rightarrow> hub \<Rightarrow> hub" where
  "deliver_one k i h =
     (let ok = fst (offer (Push (jb_payload (h_jobs h ! k))) (conn h i));
          h1 = update_conn i (\<lambda>c. snd (offer (Push (jb_payload (h_jobs h ! k))) c)) h;
          h2 = update_job k (\<lambda>j. j\<lparr>jb_left := remove1 i (jb_left j), jb_delivered := jb_delivered j + (if ok then 1 else 0)\<rparr>) h1
      in if ok then h2 else h2\<lparr>h_metrics := (h_metrics h2)\<lparr>m_slowConsumers := Suc (m_slowConsumers (h_metrics h2))\<rparr>\<rparr>)"

definition deliver_answer :: "nat \<Rightarrow> hub \<Rightarrow> hub" where
  "deliver_answer k h = (update_job k (\<lambda>j. j\<lparr>jb_answered := True\<rparr>) h)
     \<lparr>h_metrics := (h_metrics h)\<lparr>m_delivered := m_delivered (h_metrics h) + jb_delivered (h_jobs h ! k)\<rparr>\<rparr>"

text \<open>\<open>kick\<close>: the user it names, and the closing of the connections the hub knows for that user.\<close>

definition kick_check :: "gateway_config \<Rightarrow> service_request \<Rightarrow> int + jstr" where
  "kick_check cfg r =
     (if \<not> ir_post r \<or> \<not> secretOK (gc_secret cfg) (ir_secret r) then Inl 401
      else case ir_body r of
          None \<Rightarrow> Inl 400
        | Some body \<Rightarrow>
            if maxFrameBytes < ir_bytes r \<or> \<not> go_struct body then Inl 400
            else (case go_string (go_member ''user_uuid'' body) of
                None \<Rightarrow> Inl 400
              | Some u \<Rightarrow> if u = [] then Inl 400 else Inr u))"

definition hub_kick :: "jstr \<Rightarrow> hub \<Rightarrow> nat \<times> hub" where
  "hub_kick u h = (length (registered h u), fold (\<lambda>i. update_conn i (\<lambda>c. c\<lparr>conn_open := False\<rparr>)) (registered h u) h)"

text \<open>\<open>online\<close>, but for the order of its list.\<close>

definition online_users :: "hub \<Rightarrow> jstr list" where
  "online_users h = map fst (h_users h)"

section \<open>Runs\<close>

datatype hub_label =
    Upgraded jstr
  | FrameRead nat client_frame
  | ReadFailed nat
  | Verified nat "http_response option"
  | Greeted nat
  | FrameWritten nat bool
  | DeliverCalled service_request
  | Delivered nat nat
  | DeliverAnswered nat
  | KickCalled service_request

inductive hub_step :: "gateway_config \<Rightarrow> hub_label \<Rightarrow> hub \<Rightarrow> hub \<Rightarrow> bool" for cfg :: gateway_config where
  hs_upgraded: "CheckOrigin cfg origin \<Longrightarrow> hub_step cfg (Upgraded origin) h (hub_accept h)"
| hs_read: "i < length (h_conns h) \<Longrightarrow> conn_reader (conn h i) = Reading \<Longrightarrow>
    hub_step cfg (FrameRead i w) h (read_frame i w h)"
| hs_failed: "i < length (h_conns h) \<Longrightarrow> conn_reader (conn h i) = Reading \<Longrightarrow>
    hub_step cfg (ReadFailed i) h (hub_remove i h)"
| hs_verified: "i < length (h_conns h) \<Longrightarrow> conn_reader (conn h i) = Verifying token \<Longrightarrow>
    hub_step cfg (Verified i response) h (admit i response h)"
| hs_greeted: "i < length (h_conns h) \<Longrightarrow> conn_reader (conn h i) = Admitted \<Longrightarrow>
    hub_step cfg (Greeted i) h (greet_client i h)"
| hs_written: "i < length (h_conns h) \<Longrightarrow> conn_writing (conn h i) \<Longrightarrow> send_queue (conn h i) \<noteq> [] \<Longrightarrow> (ok \<Longrightarrow> conn_open (conn h i)) \<Longrightarrow>
    hub_step cfg (FrameWritten i ok) h (write_frame i ok h)"
| hs_deliver: "deliver_check cfg r = Inr (targets, payload) \<Longrightarrow>
    hub_step cfg (DeliverCalled r) h (deliver_start targets payload h)"
| hs_refused: "deliver_check cfg r = Inl status \<Longrightarrow> hub_step cfg (DeliverCalled r) h h"
| hs_delivered: "k < length (h_jobs h) \<Longrightarrow> i \<in> set (jb_left (h_jobs h ! k)) \<Longrightarrow>
    hub_step cfg (Delivered k i) h (deliver_one k i h)"
| hs_answered: "k < length (h_jobs h) \<Longrightarrow> jb_left (h_jobs h ! k) = [] \<Longrightarrow> \<not> jb_answered (h_jobs h ! k) \<Longrightarrow>
    hub_step cfg (DeliverAnswered k) h (deliver_answer k h)"
| hs_kicked: "kick_check cfg r = Inr u \<Longrightarrow> hub_step cfg (KickCalled r) h (snd (hub_kick u h))"
| hs_kick_refused: "kick_check cfg r = Inl status \<Longrightarrow> hub_step cfg (KickCalled r) h h"

inductive_cases hub_step_cases: "hub_step cfg l h h'"

section \<open>The invariant\<close>

text \<open>The connections of a user that are being served.\<close>

definition live :: "hub \<Rightarrow> jstr \<Rightarrow> nat \<Rightarrow> bool" where
  "live h u i \<longleftrightarrow> i < length (h_conns h) \<and> userUUID (conn h i) = u \<and> u \<noteq> [] \<and> conn_reader (conn h i) \<noteq> Returned"

text \<open>The index holds exactly the live connections and no empty entry.\<close>

definition index_ok :: "hub \<Rightarrow> bool" where
  "index_ok h \<longleftrightarrow> distinct (map fst (h_users h)) \<and> (\<forall>u. map_of (h_users h) u \<noteq> Some []) \<and> (\<forall>u i. i \<in> set (registered h u) \<longleftrightarrow> live h u i)"

definition frames_of :: "connection \<Rightarrow> out_frame list" where
  "frames_of c = written c @ send_queue c"

definition addressed :: "json \<Rightarrow> connection \<Rightarrow> bool" where
  "addressed payload c \<longleftrightarrow> userUUID c \<noteq> [] \<and> (\<exists>ts. routing_targets payload = Some ts \<and> userUUID c \<in> set ts)"

definition conn_ok :: "connection \<Rightarrow> bool" where
  "conn_ok c \<longleftrightarrow> length (send_queue c) \<le> 256 \<and> (\<forall>p. Push p \<in> set (frames_of c) \<longrightarrow> addressed p c) \<and>
     (\<forall>token. conn_reader c = Verifying token \<longrightarrow> userUUID c = []) \<and> (conn_reader c = Admitted \<longrightarrow> userUUID c \<noteq> [])"

text \<open>The connection has the event, or is finished.\<close>

definition got :: "json \<Rightarrow> connection \<Rightarrow> bool" where
  "got payload c \<longleftrightarrow> Push payload \<in> set (frames_of c) \<or> \<not> conn_open c \<or> \<not> conn_writing c"

definition job_ok :: "hub \<Rightarrow> job \<Rightarrow> bool" where
  "job_ok h j \<longleftrightarrow> set (jb_left j) \<subseteq> set (jb_clients j) \<and> (jb_answered j \<longrightarrow> jb_left j = []) \<and>
     (\<forall>i \<in> set (jb_clients j). i < length (h_conns h) \<and> addressed (jb_payload j) (conn h i) \<and>
        (i \<notin> set (jb_left j) \<longrightarrow> got (jb_payload j) (conn h i)))"

definition hub_ok :: "hub \<Rightarrow> bool" where
  "hub_ok h \<longleftrightarrow> index_ok h \<and> (\<forall>c \<in> set (h_conns h). conn_ok c) \<and> (\<forall>j \<in> set (h_jobs h). job_ok h j)"

text \<open>
  How a connection may change: it keeps its user once it has one, loses no frame but by a failed write, is not opened or
  written again, and stays well-formed.
\<close>

definition conn_grows :: "connection \<Rightarrow> connection \<Rightarrow> bool" where
  "conn_grows c c' \<longleftrightarrow> (userUUID c \<noteq> [] \<longrightarrow> userUUID c' = userUUID c) \<and> (\<forall>p. got p c \<longrightarrow> got p c') \<and> (conn_ok c \<longrightarrow> conn_ok c')"

lemma conn_grows_refl [simp]: "conn_grows c c"
  by (simp add: conn_grows_def)

lemma conn_grows_trans: "conn_grows a b \<Longrightarrow> conn_grows b c \<Longrightarrow> conn_grows a c"
  unfolding conn_grows_def by metis

lemma conn_update [simp]: "conn (update_conn i f h) k = (if k = i \<and> i < length (h_conns h) then f (conn h i) else conn h k)"
  by (cases "i < length (h_conns h)") (auto simp: update_conn_def conn_def nth_list_update list_update_beyond not_less)

lemma update_conn_simps [simp]:
  "h_users (update_conn i f h) = h_users h" "h_jobs (update_conn i f h) = h_jobs h" "length (h_conns (update_conn i f h)) = length (h_conns h)"
  "registered (update_conn i f h) u = registered h u"
  by (simp_all add: update_conn_def registered_def)

lemma addressed_grows: "addressed p c \<Longrightarrow> conn_grows c c' \<Longrightarrow> addressed p c'"
  by (auto simp: addressed_def conn_grows_def)

text \<open>A step that lets every connection grow keeps the jobs and the connections well-formed.\<close>

lemma hub_ok_grows:
  assumes "hub_ok h" "h_jobs h' = h_jobs h" "length (h_conns h') = length (h_conns h)"
    and "\<And>i. i < length (h_conns h) \<Longrightarrow> conn_grows (conn h i) (conn h' i)" and "index_ok h'"
  shows "hub_ok h'"
proof -
  have "conn_ok (conn h' i)" if "i < length (h_conns h')" for i
    using assms(1,3) assms(4) [of i] that by (auto simp: hub_ok_def conn_grows_def conn_def)
  moreover have "job_ok h' j" if "j \<in> set (h_jobs h)" for j
  proof -
    have j: "job_ok h j" using assms(1) that by (simp add: hub_ok_def)
    then have "i < length (h_conns h)" "conn_grows (conn h i) (conn h' i)" if "i \<in> set (jb_clients j)" for i
      using that assms(4) by (auto simp: job_ok_def)
    with j show ?thesis unfolding job_ok_def assms(3) by (blast intro: addressed_grows dest: conn_grows_def [THEN iffD1])
  qed
  ultimately show ?thesis using assms(2,5) by (auto simp: hub_ok_def in_set_conv_nth conn_def)
qed

lemma index_ok_same:
  assumes "index_ok h" "h_users h' = h_users h" "length (h_conns h') = length (h_conns h)"
    and "\<And>i. i < length (h_conns h) \<Longrightarrow> userUUID (conn h' i) = userUUID (conn h i) \<and> (conn_reader (conn h' i) = Returned \<longleftrightarrow> conn_reader (conn h i) = Returned)"
  shows "index_ok h'"
proof -
  have "live h' u i \<longleftrightarrow> live h u i" for u i using assms(3,4) by (auto simp: live_def)
  moreover have "registered h' = registered h" using assms(2) by (simp add: registered_def fun_eq_iff)
  ultimately show ?thesis using assms(1,2) by (simp add: index_ok_def)
qed

text \<open>A change of one connection that concerns neither its user nor the end of its reader.\<close>

lemma hub_ok_update:
  assumes "hub_ok h" "conn_grows (conn h i) (f (conn h i))" "userUUID (f (conn h i)) = userUUID (conn h i)"
    and "conn_reader (f (conn h i)) = Returned \<longleftrightarrow> conn_reader (conn h i) = Returned"
  shows "hub_ok (update_conn i f h)"
proof (rule hub_ok_grows [OF assms(1)])
  show "index_ok (update_conn i f h)" by (rule index_ok_same [of h]) (use assms in \<open>auto simp: hub_ok_def\<close>)
qed (use assms(2) in auto)

lemma offer_reply_grows: "conn_grows c (snd (offer (Reply v) c))"
  by (auto simp: conn_grows_def offer_def got_def conn_ok_def frames_of_def addressed_def)

lemma offer_push_grows: "addressed p c \<Longrightarrow> conn_grows c (snd (offer (Push p) c))"
  by (auto simp: conn_grows_def offer_def got_def conn_ok_def frames_of_def addressed_def)

lemma offer_push_got: "got p (snd (offer (Push p) c))"
  by (auto simp: offer_def got_def frames_of_def)

lemma offer_keeps [simp]: "userUUID (snd (offer f c)) = userUUID c" "conn_reader (snd (offer f c)) = conn_reader c"
  by (auto simp: offer_def)

lemma close_grows: "conn_grows c (c\<lparr>conn_open := False\<rparr>)"
  by (auto simp: conn_grows_def got_def conn_ok_def frames_of_def addressed_def)

lemma return_grows: "conn_grows c (c\<lparr>conn_open := False, conn_reader := Returned\<rparr>)"
  by (auto simp: conn_grows_def got_def conn_ok_def frames_of_def addressed_def)

lemma sendResponse_ok: "hub_ok h \<Longrightarrow> hub_ok (sendResponse i v h)"
  unfolding sendResponse_def by (rule hub_ok_update) (simp_all add: offer_reply_grows)

lemma metrics_irrelevant [simp]:
  "conn (h\<lparr>h_metrics := m\<rparr>) = conn h" "registered (h\<lparr>h_metrics := m\<rparr>) = registered h" "live (h\<lparr>h_metrics := m\<rparr>) = live h"
  "job_ok (h\<lparr>h_metrics := m\<rparr>) = job_ok h" "hub_ok (h\<lparr>h_metrics := m\<rparr>) = hub_ok h"
  by (simp_all add: fun_eq_iff conn_def registered_def live_def job_ok_def hub_ok_def index_ok_def)

lemma registered_remove: "registered (hub_remove i h) v = (if v = userUUID (conn h i) then set_delete i (registered h v) else registered h v)"
  by (auto simp: hub_remove_def Let_def registered_def AList.delete_conv' AList.update_conv' set_delete_def split: option.splits)

lemma hub_remove_ok:
  assumes "hub_ok h" "i < length (h_conns h)"
  shows "hub_ok (hub_remove i h)"
proof (rule hub_ok_grows [OF assms(1)])
  have n: "length (h_conns (hub_remove i h)) = length (h_conns h)" by (simp add: hub_remove_def Let_def)
  have c: "conn (hub_remove i h) k = (if k = i then (conn h i)\<lparr>conn_open := False, conn_reader := Returned\<rparr> else conn h k)" for k
    using assms(2) by (simp add: hub_remove_def Let_def conn_def) (simp add: update_conn_def)
  have ix: "index_ok h" using assms(1) by (simp add: hub_ok_def)
  then have "distinct (map fst (h_users (hub_remove i h)))"
    by (auto simp: index_ok_def hub_remove_def Let_def intro: AList.distinct_delete AList.distinct_update split: option.splits)
  moreover have "map_of (h_users (hub_remove i h)) u \<noteq> Some []" for u
    using ix by (auto simp: index_ok_def hub_remove_def Let_def AList.delete_conv' AList.update_conv' split: option.splits)
  moreover have "k \<in> set (registered (hub_remove i h) u) \<longleftrightarrow> live (hub_remove i h) u k" for u k
    using ix n by (auto simp: index_ok_def registered_remove live_def c set_delete_def)
  ultimately show "index_ok (hub_remove i h)" by (simp add: index_ok_def)
  show "conn_grows (conn h k) (conn (hub_remove i h) k)" for k by (simp add: c return_grows)
qed (simp_all add: hub_remove_def Let_def)

lemma authFailure_ok: "hub_ok h \<Longrightarrow> hub_ok (authFailure i h)"
  by (simp add: authFailure_def sendResponse_ok)

lemma sendResponse_length [simp]: "length (h_conns (sendResponse i v h)) = length (h_conns h)" "length (h_conns (authFailure i h)) = length (h_conns h)"
  by (simp_all add: sendResponse_def authFailure_def)

text \<open>Every step keeps the invariant.\<close>

lemma hub_accept_ok:
  assumes "hub_ok h"
  shows "hub_ok (hub_accept h)"
proof -
  let ?h = "hub_accept h"
  have c: "conn ?h i = conn h i" if "i < length (h_conns h)" for i
    using that by (simp add: hub_accept_def conn_def nth_append)
  have "live ?h u i \<longleftrightarrow> live h u i" for u i
    by (auto simp: live_def c less_Suc_eq hub_accept_def) (auto simp: conn_def nth_append)
  moreover have "registered ?h = registered h" "h_users ?h = h_users h" by (simp_all add: registered_def hub_accept_def fun_eq_iff)
  ultimately have "index_ok ?h" using assms by (simp add: hub_ok_def index_ok_def)
  moreover have "job_ok ?h j" if "job_ok h j" for j
    using that by (auto simp: job_ok_def c) (simp_all add: hub_accept_def less_Suc_eq)
  ultimately show ?thesis using assms by (auto simp: hub_ok_def) (auto simp: hub_accept_def conn_ok_def frames_of_def)
qed

lemma read_frame_ok:
  assumes "hub_ok h" "i < length (h_conns h)" "conn_reader (conn h i) = Reading"
  shows "hub_ok (read_frame i w h)"
proof -
  have "hub_ok (update_conn i (\<lambda>c. c\<lparr>conn_reader := Verifying token\<rparr>) h)" if "userUUID (conn h i) = []" for token
    by (rule hub_ok_update [OF assms(1)])
      (use that assms(3) in \<open>auto simp: conn_grows_def got_def conn_ok_def frames_of_def addressed_def\<close>)
  then show ?thesis
    using assms by (auto simp: read_frame_def sendResponse_ok hub_remove_ok authFailure_ok split: client_frame.splits option.splits json.splits)
qed

lemma set_add_ne: "set_add x xs \<noteq> []"
  by (auto simp: set_add_def)

lemma registered_add: "registered (hub_add i h) v = (if v = userUUID (conn h i) then set_add i (registered h v) else registered h v)"
  by (simp add: hub_add_def Let_def registered_def AList.update_conv')

lemma admit_ok:
  assumes "hub_ok h" "i < length (h_conns h)" "conn_reader (conn h i) = Verifying token"
  shows "hub_ok (admit i response h)"
proof (cases "authenticate response = []")
  case True
  then show ?thesis using assms by (simp add: admit_def hub_remove_ok authFailure_ok)
next
  case False
  define u where "u = authenticate response"
  let ?h1 = "update_conn i (\<lambda>c. c\<lparr>userUUID := u, conn_reader := Admitted\<rparr>) h"
  let ?h = "hub_add i ?h1"
  have ok: "conn_ok (conn h i)" using assms(1,2) by (auto simp: hub_ok_def conn_def)
  then have none: "userUUID (conn h i) = []" using assms(3) by (simp add: conn_ok_def)
  have c: "conn ?h k = (if k = i then (conn h i)\<lparr>userUUID := u, conn_reader := Admitted\<rparr> else conn h k)" for k
    using assms(2) conn_update [of i "\<lambda>c. c\<lparr>userUUID := u, conn_reader := Admitted\<rparr>" h k]
    by (simp add: hub_add_def Let_def conn_def)
  have n: "length (h_conns ?h) = length (h_conns h)" by (simp add: hub_add_def Let_def)
  have ix: "index_ok h" using assms(1) by (simp add: hub_ok_def)
  have u: "userUUID (conn ?h1 i) = u" using assms(2) by simp
  have "k \<in> set (registered ?h v) \<longleftrightarrow> live ?h v k" for v k
    using ix False none assms(2) unfolding registered_add u live_def c n
    by (auto simp: index_ok_def set_add_def live_def u_def)
  moreover have "distinct (map fst (h_users ?h))" "map_of (h_users ?h) v \<noteq> Some []" for v
    using ix by (auto simp: hub_add_def Let_def index_ok_def AList.update_conv' set_add_ne intro: AList.distinct_update)
  ultimately have "index_ok ?h" by (simp add: index_ok_def)
  moreover have "conn_grows (conn h k) (conn ?h k)" for k
    unfolding c using none ok False by (auto simp: conn_grows_def got_def conn_ok_def frames_of_def addressed_def u_def)
  ultimately have "hub_ok ?h" by (intro hub_ok_grows [OF assms(1)]) (simp_all add: n, simp add: hub_add_def Let_def)
  then show ?thesis using False by (simp add: admit_def u_def Let_def)
qed

lemma greet_client_ok:
  assumes "hub_ok h" "conn_reader (conn h i) = Admitted"
  shows "hub_ok (greet_client i h)"
  unfolding greet_client_def by (rule hub_ok_update [OF sendResponse_ok [OF assms(1)]])
    (use assms(2) in \<open>auto simp: sendResponse_def conn_grows_def got_def conn_ok_def frames_of_def addressed_def\<close>)

lemma write_frame_ok:
  assumes "hub_ok h" "send_queue (conn h i) \<noteq> []"
  shows "hub_ok (write_frame i ok h)"
proof -
  have "frames_of ((conn h i)\<lparr>send_queue := tl (send_queue (conn h i)), written := written (conn h i) @ [hd (send_queue (conn h i))]\<rparr>)
      = frames_of (conn h i)"
    using assms(2) by (simp add: frames_of_def)
  then have "conn_grows (conn h i) ((conn h i)\<lparr>send_queue := tl (send_queue (conn h i)), written := written (conn h i) @ [hd (send_queue (conn h i))]\<rparr>)"
    by (auto simp: conn_grows_def got_def conn_ok_def addressed_def)
  moreover have "conn_grows (conn h i) ((conn h i)\<lparr>send_queue := tl (send_queue (conn h i)), conn_writing := False\<rparr>)"
    using list.set_sel(2) [OF assms(2)] by (auto simp: conn_grows_def got_def conn_ok_def frames_of_def addressed_def)
  ultimately show ?thesis unfolding write_frame_def by (intro hub_ok_update [OF assms(1)]) auto
qed

lemma deliver_check_Inr: "deliver_check cfg r = Inr (targets, payload) \<Longrightarrow> routing_targets payload = Some targets"
  by (auto simp: deliver_check_def split: if_splits option.splits)

lemma deliver_start_ok:
  assumes "hub_ok h" "routing_targets payload = Some targets"
  shows "hub_ok (deliver_start targets payload h)"
proof -
  let ?h = "deliver_start targets payload h"
  have same: "conn ?h = conn h" "registered ?h = registered h" "live ?h = live h" "h_users ?h = h_users h" "h_conns ?h = h_conns h"
    by (simp_all add: deliver_start_def Let_def conn_def registered_def live_def fun_eq_iff)
  have job: "job_ok ?h j \<longleftrightarrow> job_ok h j" for j by (simp add: job_ok_def same)
  have "live h u i" if "i \<in> set (registered h u)" for u i using assms(1) that by (simp add: hub_ok_def index_ok_def)
  then have "job_ok h \<lparr>jb_payload = payload, jb_clients = remdups (concat (map (registered h) targets)),
      jb_left = remdups (concat (map (registered h) targets)), jb_delivered = 0, jb_answered = False\<rparr>"
    using assms(2) by (auto simp: job_ok_def addressed_def live_def)
  then have "\<forall>j \<in> set (h_jobs ?h). job_ok h j" using assms(1) by (auto simp: deliver_start_def Let_def hub_ok_def)
  then show ?thesis using assms(1) by (simp add: hub_ok_def job index_ok_def same)
qed

lemma update_job_simps [simp]:
  "h_conns (update_job k f h) = h_conns h" "h_users (update_job k f h) = h_users h" "conn (update_job k f h) = conn h"
  "length (h_jobs (update_job k f h)) = length (h_jobs h)" "index_ok (update_job k f h) = index_ok h" "job_ok (update_job k f h) = job_ok h"
  by (simp_all add: update_job_def conn_def index_ok_def registered_def live_def job_ok_def fun_eq_iff)

lemma update_job_ok:
  assumes "hub_ok h" "k < length (h_jobs h)" "job_ok h (f (h_jobs h ! k))"
  shows "hub_ok (update_job k f h)"
  using assms set_update_subset_insert [of "h_jobs h" k "f (h_jobs h ! k)"] by (auto simp: hub_ok_def) (auto simp: update_job_def)

lemma deliver_one_ok:
  assumes "hub_ok h" "k < length (h_jobs h)" "i \<in> set (jb_left (h_jobs h ! k))"
  shows "hub_ok (deliver_one k i h)"
proof -
  let ?j = "h_jobs h ! k" and ?f = "\<lambda>c. snd (offer (Push (jb_payload (h_jobs h ! k))) c)"
  let ?h1 = "update_conn i ?f h"
  have "job_ok h ?j" using assms(1,2) by (simp add: hub_ok_def)
  then have i: "i < length (h_conns h)" "addressed (jb_payload ?j) (conn h i)" using assms(3) by (auto simp: job_ok_def)
  have h1: "hub_ok ?h1" by (rule hub_ok_update [OF assms(1)]) (simp_all add: offer_push_grows i(2))
  then have j: "job_ok ?h1 ?j" using assms(2) by (simp add: hub_ok_def)
  have "job_ok ?h1 (?j\<lparr>jb_left := remove1 i (jb_left ?j), jb_delivered := n\<rparr>)" for n
  proof -
    have "got (jb_payload ?j) (conn ?h1 c)" if "c \<in> set (jb_clients ?j)" "c \<notin> set (remove1 i (jb_left ?j))" for c
    proof (cases "c = i")
      case True
      then show ?thesis using i(1) by (simp add: offer_push_got)
    next
      case False
      then have "c \<notin> set (jb_left ?j)" using that(2) by simp
      then show ?thesis using j that(1) unfolding job_ok_def by blast
    qed
    moreover have "set (remove1 i (jb_left ?j)) \<subseteq> set (jb_clients ?j)" using j set_remove1_subset [of i "jb_left ?j"] by (auto simp: job_ok_def)
    ultimately show ?thesis using j by (auto simp: job_ok_def)
  qed
  then have "hub_ok (update_job k (\<lambda>j. j\<lparr>jb_left := remove1 i (jb_left j), jb_delivered := jb_delivered j + n\<rparr>) ?h1)" for n
    by (intro update_job_ok [OF h1]) (use assms(2) in simp_all)
  from this [of 0] this [of 1] show ?thesis by (simp add: deliver_one_def Let_def)
qed

lemma deliver_answer_ok:
  assumes "hub_ok h" "k < length (h_jobs h)" "jb_left (h_jobs h ! k) = []"
  shows "hub_ok (deliver_answer k h)"
proof -
  have "job_ok h (h_jobs h ! k)" using assms(1,2) by (simp add: hub_ok_def)
  then have "hub_ok (update_job k (\<lambda>j. j\<lparr>jb_answered := True\<rparr>) h)"
    by (intro update_job_ok [OF assms(1,2)]) (use assms(3) in \<open>simp add: job_ok_def\<close>)
  then show ?thesis by (simp add: deliver_answer_def)
qed

lemma hub_kick_ok:
  assumes "hub_ok h"
  shows "hub_ok (snd (hub_kick u h))"
proof -
  have "hub_ok (update_conn i (\<lambda>c. c\<lparr>conn_open := False\<rparr>) h)" if "hub_ok h" for i h
    by (rule hub_ok_update [OF that]) (simp_all add: close_grows)
  then have "hub_ok (fold (\<lambda>i. update_conn i (\<lambda>c. c\<lparr>conn_open := False\<rparr>)) is h)" if "hub_ok h" for "is" h
    using that by (induction "is" arbitrary: h) simp_all
  then show ?thesis using assms by (simp add: hub_kick_def)
qed

lemma hub_step_ok: "hub_ok h \<Longrightarrow> hub_step cfg l h h' \<Longrightarrow> hub_ok h'"
  by (erule hub_step_cases)
    (simp_all add: hub_accept_ok read_frame_ok hub_remove_ok admit_ok greet_client_ok write_frame_ok deliver_start_ok [OF _ deliver_check_Inr]
      deliver_one_ok deliver_answer_ok hub_kick_ok)

interpretation hub_runs: inductive_invariant "hub_step cfg" "\<lambda>l. True" hub_ok
  by unfold_locales (rule hub_step_ok)

lemma new_hub_ok: "hub_ok new_hub"
  by (simp add: hub_ok_def index_ok_def new_hub_def registered_def live_def)

section \<open>A run\<close>

text \<open>
  One client connects and authenticates; a message for its user is delivered after \<open>hub.add\<close> and before the reply to the
  client, and the two frames are written in the order of the channel.
\<close>

definition early_config :: gateway_config where
  "early_config = \<lparr>gc_secret = [115], gc_origins = []\<rparr>"

definition early_event :: json where
  "early_event = event_payload ''message.created'' [101] [109] [99] 1 [[117]]"

definition early_client :: gateway where
  "early_client = onOpen 1 (snd (gw_connect None (newGatewaySocket (js ''wss://h'') (js ''c1'') None False)))"

definition early_response :: http_response where
  "early_response = respond 200 (JObj [(js ''user_uuid'', JStr [117])])"

definition early_request :: service_request where
  "early_request = \<lparr>ir_post = True, ir_secret = [115], ir_bytes = 300,
     ir_body = Some (JObj [(js ''id'', JStr [101]), (js ''payload'', early_event), (js ''topic'', JStr (js ''message.created''))])\<rparr>"

lemma fold_ascii: "list_all (\<lambda>c. \<not> (65 \<le> c \<and> c \<le> 90) \<and> c < 128) (js name) \<Longrightarrow> map fold_unit (js name) = js name"
  by (rule map_idI) (auto simp: list_all_iff fold_unit_def)

lemma go_names [simp]: "map fold_unit (js ''cmd'') = js ''cmd''" "map fold_unit (js ''opts'') = js ''opts''" "map fold_unit (js ''data'') = js ''data''"
  "map fold_unit (js ''code'') = js ''code''" "map fold_unit (js ''message'') = js ''message''" "map fold_unit (js ''user_uuid'') = js ''user_uuid''"
  "map fold_unit (js ''event_id'') = js ''event_id''" "map fold_unit (js ''event'') = js ''event''" "map fold_unit (js ''message_id'') = js ''message_id''"
  "map fold_unit (js ''conversation_id'') = js ''conversation_id''" "map fold_unit (js ''sequence'') = js ''sequence''"
  "map fold_unit (js ''targets'') = js ''targets''" "map fold_unit (js ''user_uuids'') = js ''user_uuids''" "map fold_unit (js ''id'') = js ''id''"
  "map fold_unit (js ''payload'') = js ''payload''" "map fold_unit (js ''topic'') = js ''topic''"
  by (rule fold_ascii, simp add: js_def)+

text \<open>The events of the backend are routed to the members it has listed.\<close>

lemma those_strings: "those (map go_string (map JStr us)) = Some us"
  by (induction us) simp_all

lemma routing_event_payload: "routing_targets (event_payload event e m c n us) = Some us"
  using those_strings [of us] by (simp add: routing_targets_def event_payload_def go_member_def json_strings_def)

lemma decode_auth: "decode_command (JObj [(js ''cmd'', JStr (js ''auth'')), (js ''opts'', JArr [JStr cred])]) = Some (js ''auth'', [JStr cred])"
  by (simp add: decode_command_def go_member_def)

lemma early_answers: "authenticate (Some early_response) = [117]" "deliver_check early_config early_request = Inr ([[117]], early_event)"
  by (simp_all add: authenticate_def early_response_def respond_def go_member_def deliver_check_def early_request_def early_config_def secretOK_def
      maxFrameBytes_def early_event_def routing_event_payload)

text \<open>The states of the run.\<close>

definition early_connection :: connection where
  "early_connection = \<lparr>userUUID = [117], send_queue = [], written = [Push early_event, Reply (envelope 0 (JStr (js ''OK'')) [])],
     conn_open = True, conn_reader = Reading, conn_writing = True\<rparr>"

definition waiting_connection :: connection where
  "waiting_connection = \<lparr>userUUID = [117], send_queue = [], written = [], conn_open = True, conn_reader = Admitted, conn_writing = True\<rparr>"

lemma early_admitted: "\<exists>h. lreach (hub_step early_config) (\<lambda>l. True) new_hub h \<and> h_conns h = [waiting_connection] \<and> h_users h = [([117], [0])] \<and> h_jobs h = []"
proof -
  let ?auth = "TextFrame (parse (auth_frame (js ''c1'')))"
  have auth: "parse (auth_frame (js ''c1'')) = Some (JObj [(js ''cmd'', JStr (js ''auth'')), (js ''opts'', JArr [JStr (js ''c1'')])])"
    unfolding auth_frame_def by (rule parse_stringify) (simp add: js_def)
  define h1 where "h1 = hub_accept new_hub"
  define h2 where "h2 = read_frame 0 ?auth h1"
  define h3 where "h3 = admit 0 (Some early_response) h2"
  have c1: "h_conns h1 = [\<lparr>userUUID = [], send_queue = [], written = [], conn_open = True, conn_reader = Reading, conn_writing = True\<rparr>]" "h_users h1 = []" "h_jobs h1 = []"
    by (simp_all add: h1_def hub_accept_def new_hub_def)
  have c2: "h_conns h2 = [\<lparr>userUUID = [], send_queue = [], written = [], conn_open = True, conn_reader = Verifying (js ''c1''), conn_writing = True\<rparr>]"
      "h_users h2 = []" "h_jobs h2 = []"
    by (simp_all add: h2_def read_frame_def auth decode_auth conn_def update_conn_def c1)
  have c3: "h_conns h3 = [waiting_connection]" "h_users h3 = [([117], [0])]" "h_jobs h3 = []"
    by (simp_all add: h3_def admit_def Let_def early_answers hub_add_def registered_def set_add_def conn_def update_conn_def c2 waiting_connection_def)
  have steps: "hub_step early_config (Upgraded []) new_hub h1" "hub_step early_config (FrameRead 0 ?auth) h1 h2"
    "hub_step early_config (Verified 0 (Some early_response)) h2 h3"
    using hs_upgraded [of early_config "[]" new_hub, folded h1_def] hs_read [of 0 h1 early_config ?auth, folded h2_def]
      hs_verified [of 0 h2 "js ''c1''" early_config "Some early_response", folded h3_def]
    by (simp_all add: CheckOrigin_def conn_def c1 c2)
  note go = lreach_next [where step = "hub_step early_config"]
  note go [OF go [OF go [OF lreach.start steps(1)] steps(2)] steps(3)]
  then show ?thesis using c3 by blast
qed

lemma early_run: "\<exists>h. lreach (hub_step early_config) (\<lambda>l. True) new_hub h \<and> h_conns h = [early_connection] \<and> h_users h = [([117], [0])]"
proof -
  obtain h3 where h3: "lreach (hub_step early_config) (\<lambda>l. True) new_hub h3" and c3: "h_conns h3 = [waiting_connection]" "h_users h3 = [([117], [0])]" "h_jobs h3 = []"
    using early_admitted by blast
  define h4 where "h4 = deliver_start [[117]] early_event h3"
  define h5 where "h5 = deliver_one 0 0 h4"
  define h6 where "h6 = greet_client 0 h5"
  define h7 where "h7 = write_frame 0 True h6"
  define h8 where "h8 = write_frame 0 True h7"
  note w = waiting_connection_def
  have c4: "h_conns h4 = h_conns h3" "h_jobs h4 = [\<lparr>jb_payload = early_event, jb_clients = [0], jb_left = [0], jb_delivered = 0, jb_answered = False\<rparr>]"
    by (simp_all add: h4_def deliver_start_def Let_def registered_def c3)
  have c5: "h_conns h5 = [waiting_connection\<lparr>send_queue := [Push early_event]\<rparr>]"
    by (simp add: h5_def deliver_one_def Let_def offer_def update_conn_def c4 c3 w)
  have c6: "h_conns h6 = [waiting_connection\<lparr>send_queue := [Push early_event, Reply (envelope 0 (JStr (js ''OK'')) [])], conn_reader := Reading\<rparr>]"
    by (simp add: h6_def greet_client_def sendResponse_def offer_def update_conn_def c5 w)
  have c8: "h_conns h8 = [early_connection]" and c7: "h_conns h7 = [early_connection\<lparr>send_queue := [Reply (envelope 0 (JStr (js ''OK'')) [])], written := [Push early_event]\<rparr>]"
    by (simp_all add: h8_def h7_def write_frame_def update_conn_def c6 conn_def early_connection_def w)
  have steps: "hub_step early_config (DeliverCalled early_request) h3 h4" "hub_step early_config (Delivered 0 0) h4 h5" "hub_step early_config (Greeted 0) h5 h6"
    "hub_step early_config (FrameWritten 0 True) h6 h7" "hub_step early_config (FrameWritten 0 True) h7 h8"
    using hs_deliver [of early_config early_request "[[117]]" early_event h3, folded h4_def] hs_delivered [of 0 h4 0 early_config, folded h5_def]
      hs_greeted [of 0 h5 early_config, folded h6_def] hs_written [of 0 h6 True early_config, folded h7_def]
      hs_written [of 0 h7 True early_config, folded h8_def]
    by (simp_all add: conn_def c3 c4 c5 c6 c7 early_answers early_connection_def w)
  note go = lreach_next [where step = "hub_step early_config"]
  note go [OF go [OF go [OF go [OF go [OF h3 steps(1)] steps(2)] steps(3)] steps(4)] steps(5)]
  moreover have "h_users h8 = [([117], [0])]"
    by (simp add: h8_def h7_def h6_def h5_def h4_def write_frame_def greet_client_def sendResponse_def deliver_one_def deliver_start_def Let_def c3)
  ultimately show ?thesis using c8 by blast
qed

section \<open>Properties\<close>

text \<open>
C5: In every interleaving of the gateway's goroutines the index holds, for every user, exactly the connections that were
authenticated as that user and have not been removed; an event is queued or written only on a connection authenticated as one
of the users it is addressed to, and a queue never exceeds 256 frames.
\<close>

theorem events_reach_targets_only:
  assumes "lreach (hub_step cfg) (\<lambda>l. True) new_hub h"
  shows "(\<forall>u i. i \<in> set (registered h u) \<longleftrightarrow> i < length (h_conns h) \<and> userUUID (conn h i) = u \<and> u \<noteq> [] \<and> conn_reader (conn h i) \<noteq> Returned)
    \<and> (\<forall>c \<in> set (h_conns h). length (send_queue c) \<le> 256 \<and> (\<forall>p. Push p \<in> set (written c @ send_queue c) \<longrightarrow>
        userUUID c \<noteq> [] \<and> (\<exists>ts. routing_targets p = Some ts \<and> userUUID c \<in> set ts)))"
  using hub_runs.inv_reach [OF assms new_hub_ok]
  by (auto simp: hub_ok_def index_ok_def live_def conn_ok_def frames_of_def addressed_def)

theorem events_reach_targets_only_witness:
  "\<exists>h. h_conns h = [early_connection] \<and> set (registered h [117]) = {0} \<and> Push early_event \<in> set (written early_connection) \<and>
     (\<exists>ts. routing_targets early_event = Some ts \<and> userUUID early_connection \<in> set ts)"
proof -
  obtain h where h: "lreach (hub_step early_config) (\<lambda>l. True) new_hub h" "h_conns h = [early_connection]" using early_run by blast
  note ok = events_reach_targets_only [OF h(1)]
  have "i \<in> set (registered h [117]) \<longleftrightarrow> i = 0" for i
    using ok h(2) by (auto simp: conn_def early_connection_def)
  then have "set (registered h [117]) = {0}" by auto
  moreover have p: "Push early_event \<in> set (written early_connection)" by (simp add: early_connection_def)
  ultimately show ?thesis using ok h(2) by auto
qed

text \<open>
A connection whose credential is being verified is not in the index, so that \<open>kick\<close> passes it over: when the answer was
given before the revocation, the connection is registered after it and stays open.
\<close>

theorem kick_misses_pending_connection:
  assumes "hub_ok h" "i < length (h_conns h)" "conn_reader (conn h i) = Verifying token" "conn_open (conn h i)" "authenticate response = u" "u \<noteq> []"
  shows "let h' = admit i response (snd (hub_kick u h)) in i \<in> set (registered h' u) \<and> conn_open (conn h' i)"
proof -
  have "conn_ok (conn h i)" using assms(1,2) by (auto simp: hub_ok_def conn_def)
  then have "i \<notin> set (registered h u)" using assms by (auto simp: hub_ok_def index_ok_def live_def conn_ok_def)
  then have kick: "conn (fold (\<lambda>k. update_conn k f) (registered h u) h) i = conn h i" for f
  proof -
    have "i \<notin> set ks \<Longrightarrow> conn (fold (\<lambda>k. update_conn k f) ks g) i = conn g i" for ks g
      by (induction ks arbitrary: g) auto
    then show ?thesis using \<open>i \<notin> set (registered h u)\<close> by blast
  qed
  have "length (h_conns (fold (\<lambda>k. update_conn k f) ks g)) = length (h_conns g)" for f ks g
    by (induction ks arbitrary: g) auto
  then have n: "i < length (h_conns (snd (hub_kick u h)))" using assms(2) by (simp add: hub_kick_def)
  let ?h1 = "update_conn i (\<lambda>c. c\<lparr>userUUID := u, conn_reader := Admitted\<rparr>) (snd (hub_kick u h))"
  have "userUUID (conn ?h1 i) = u" "conn_open (conn ?h1 i)" using n assms(4) kick by (simp_all add: hub_kick_def)
  moreover have "conn (hub_add i ?h1) = conn ?h1" by (simp add: hub_add_def Let_def conn_def fun_eq_iff)
  ultimately show ?thesis using assms(5,6) by (simp add: admit_def Let_def registered_add set_add_def)
qed

text \<open>The frames a connection gets when an event is offered to it between its registration and the reply.\<close>

lemma early_frames:
  assumes "hub_ok h" "i < length (h_conns h)" "conn_reader (conn h i) = Admitted" "conn_open (conn h i)" "conn_writing (conn h i)"
    and "written (conn h i) = []" "send_queue (conn h i) = []"
    and "deliver_check cfg r = Inr (targets, event)" "userUUID (conn h i) \<in> set targets"
  shows "\<exists>h'. lreach (hub_step cfg) (\<lambda>l. True) h h' \<and> written (conn h' i) = [Push event, Reply (envelope 0 (JStr (js ''OK'')) [])]"
proof -
  define k h1 h2 h3 h4 h5 where defs: "k = length (h_jobs h)" "h1 = deliver_start targets event h" "h2 = deliver_one k i h1"
    "h3 = greet_client i h2" "h4 = write_frame i True h3" "h5 = write_frame i True h4"
  have "conn_ok (conn h i)" using assms(1,2) by (auto simp: hub_ok_def conn_def)
  then have "i \<in> set (registered h (userUUID (conn h i)))"
    using assms(1-3) by (auto simp: hub_ok_def index_ok_def live_def conn_ok_def)
  then have 1: "k < length (h_jobs h1)" "jb_payload (h_jobs h1 ! k) = event" "i \<in> set (jb_left (h_jobs h1 ! k))" "h_conns h1 = h_conns h"
    using assms(9) by (auto simp: defs deliver_start_def Let_def nth_append)
  then have c1: "conn h1 = conn h" by (simp add: conn_def fun_eq_iff)
  have cu: "conn (update_job k f g) = conn g" "h_conns (update_job k f g) = h_conns g" for f g by (simp_all add: update_job_def conn_def fun_eq_iff)
  have c2: "conn h2 i = (conn h i)\<lparr>send_queue := [Push event]\<rparr>" "length (h_conns h2) = length (h_conns h)"
    using assms(2,7) 1 c1 by (simp_all add: defs(3) deliver_one_def Let_def offer_def cu)
  have c3: "conn h3 i = (conn h i)\<lparr>send_queue := [Push event, Reply (envelope 0 (JStr (js ''OK'')) [])], conn_reader := Reading\<rparr>"
    "length (h_conns h3) = length (h_conns h)"
    using assms(2) c2 by (simp_all add: defs(4) greet_client_def sendResponse_def offer_def)
  have c4: "conn h4 i = (conn h i)\<lparr>send_queue := [Reply (envelope 0 (JStr (js ''OK'')) [])], written := [Push event], conn_reader := Reading\<rparr>"
    "length (h_conns h4) = length (h_conns h)"
    using assms(2,6) c3 by (simp_all add: defs(5) write_frame_def)
  have "written (conn h5 i) = [Push event, Reply (envelope 0 (JStr (js ''OK'')) [])]"
    using assms(2) c4 by (simp add: defs(6) write_frame_def)
  moreover have steps: "hub_step cfg (DeliverCalled r) h h1" "hub_step cfg (Delivered k i) h1 h2" "hub_step cfg (Greeted i) h2 h3"
    "hub_step cfg (FrameWritten i True) h3 h4" "hub_step cfg (FrameWritten i True) h4 h5"
    using hs_deliver [OF assms(8), of h, folded defs] hs_delivered [of k h1 i cfg, folded defs] hs_greeted [of i h2 cfg, folded defs]
      hs_written [of i h3 True cfg, folded defs] hs_written [of i h4 True cfg, folded defs] assms(2-5) 1 c2 c3 c4 by simp_all
  note go = lreach_next [where step = "hub_step cfg"]
  note go [OF go [OF go [OF go [OF go [OF lreach.start steps(1)] steps(2)] steps(3)] steps(4)] steps(5)]
  ultimately show ?thesis by blast
qed

text \<open>What an authenticated client keeps, whatever frames it gets.\<close>

definition client_keeps :: "gateway \<Rightarrow> gateway \<Rightarrow> bool" where
  "client_keeps g g' \<longleftrightarrow> authenticated g' = authenticated g \<and> authRejected g' = authRejected g \<and> closedByUser g' = closedByUser g \<and>
     g_getCredential g' = g_getCredential g \<and> refreshedFor g' = refreshedFor g \<and> g_credential g' = g_credential g \<and> g_timeouts g' = g_timeouts g"

lemma later_frames: "authenticated g \<Longrightarrow> client_keeps g (fold (\<lambda>t g. snd (onMessage t g)) texts g)"
proof (induction texts arbitrary: g)
  case (Cons t texts)
  have "client_keeps g (snd (onMessage t g))"
    using Cons.prems by (auto simp: client_keeps_def onMessage_def onEventFrame_def Let_def split: option.splits)
  moreover from this have "client_keeps (snd (onMessage t g)) (fold (\<lambda>t g. snd (onMessage t g)) texts (snd (onMessage t g)))"
    using Cons.prems by (intro Cons.IH) (simp add: client_keeps_def)
  ultimately show ?case by (simp add: client_keeps_def)
qed (simp add: client_keeps_def)

text \<open>The client takes the event for a rejection and the reply for an acceptance.\<close>

lemma event_then_ok:
  assumes "json_ok event" "event \<noteq> JNull" "jget (js ''code'') event \<noteq> Some (JNum 0)" "\<not> authenticated g"
  defines "online \<equiv> fold (\<lambda>t g. snd (onMessage t g)) [stringify event, stringify (envelope 0 (JStr (js ''OK'')) [])] g"
  shows "authenticated online" "authRejected online" "last_status online = Some Online" "delivered online = delivered g"
    "closedByUser online = closedByUser g" "g_getCredential online = g_getCredential g" "refreshedFor online = refreshedFor g"
    "g_credential online = g_credential g" "g_timeouts online = g_timeouts g"
proof -
  let ?ok = "envelope 0 (JStr (js ''OK'')) []"
  have ok: "parse (stringify ?ok) = Some ?ok" by (rule parse_stringify) (simp add: envelope_def js_def)
  have code: "jget (js ''code'') ?ok = Some (JNum 0)" "?ok \<noteq> JNull" by (simp_all add: envelope_def)
  have "online = onAuthReply (stringify ?ok) ?ok (onAuthReply (stringify event) event g)"
    using assms(2-4) parse_stringify [OF assms(1)] ok code by (simp add: online_def onMessage_def onAuthReply_def)
  then have *: "online = effect OnReady (startPing (setStatus Online ((onAuthReply (stringify event) event g)\<lparr>authenticated := True, reconnectDelayMs := 500\<rparr>)))"
    using code by (simp add: onAuthReply_def)
  have r: "authRejected (onAuthReply (stringify event) event g)" "delivered (onAuthReply (stringify event) event g) = delivered g"
    "closedByUser (onAuthReply (stringify event) event g) = closedByUser g" "g_getCredential (onAuthReply (stringify event) event g) = g_getCredential g"
    "refreshedFor (onAuthReply (stringify event) event g) = refreshedFor g" "g_credential (onAuthReply (stringify event) event g) = g_credential g"
    "g_timeouts (onAuthReply (stringify event) event g) = g_timeouts g"
    using assms(3) by (auto simp: onAuthReply_def delivered_def)
  show "authenticated online" "authRejected online" "closedByUser online = closedByUser g" "g_getCredential online = g_getCredential g"
    "refreshedFor online = refreshedFor g" "g_credential online = g_credential g" "g_timeouts online = g_timeouts g"
    unfolding * using r by simp_all
  show "last_status online = Some Online" "delivered online = delivered g"
    unfolding * using r(2) by (auto simp: last_status_def next_status_def delivered_def split: option.split)
qed

text \<open>
C35: The gateway registers a connection before it answers \<open>OK\<close>: from every reachable state of the gateway with such a connection, to
which nothing was written yet, a delivery to its user can make the event the first frame its client gets and \<open>OK\<close> the second.  A client that waits for
the reply takes the event for a rejection: it drops the event and remembers the rejection, although the reply makes it online.  When that
connection drops, after whatever further frames, the client sets no timer to reconnect: without \<open>getCredential\<close>, or when it was refreshed for
this credential already, it goes \<open>offline\<close>; otherwise it asks for another credential although its own was accepted.
\<close>

theorem early_event_stops_reconnect:
  assumes "lreach (hub_step cfg) (\<lambda>l. True) new_hub h" "i < length (h_conns h)" "conn_reader (conn h i) = Admitted"
    and "conn_open (conn h i)" "conn_writing (conn h i)" "written (conn h i) = []" "send_queue (conn h i) = []"
    and "deliver_check cfg r = Inr (targets, event)" "userUUID (conn h i) \<in> set targets"
    and "json_ok event" "event \<noteq> JNull" "jget (js ''code'') event \<noteq> Some (JNum 0)"
    and "\<not> authenticated g" "\<not> closedByUser g"
  shows "\<exists>h'. lreach (hub_step cfg) (\<lambda>l. True) h h' \<and> written (conn h' i) = [Push event, Reply (envelope 0 (JStr (js ''OK'')) [])] \<and>
     (let hears = fold (\<lambda>t g. snd (onMessage t g)); online = hears (map (stringify \<circ> frame_json) (written (conn h' i))) g;
          dropped = onClose k (hears later online)
      in last_status online = Some Online \<and> delivered online = delivered g \<and> g_socket dropped = None \<and> g_timeouts dropped = g_timeouts g \<and>
         (if g_getCredential g \<and> refreshedFor g \<noteq> Some (g_credential g) then last (g_effects dropped) = GetCredential
          else last_status dropped = Some Offline))"
proof -
  have "hub_ok h" by (rule hub_runs.inv_reach [OF assms(1) new_hub_ok])
  from early_frames [OF this assms(2-9)] obtain h' where h': "lreach (hub_step cfg) (\<lambda>l. True) h h'"
    "written (conn h' i) = [Push event, Reply (envelope 0 (JStr (js ''OK'')) [])]" by blast
  define hears where "hears = fold (\<lambda>t g. snd (onMessage t g))"
  define online where "online = hears (map (stringify \<circ> frame_json) (written (conn h' i))) g"
  note on = event_then_ok [OF assms(10-13)]
  have o: "online = fold (\<lambda>t g. snd (onMessage t g)) [stringify event, stringify (envelope 0 (JStr (js ''OK'')) [])] g"
    using h'(2) by (simp add: online_def hears_def)
  define dropped where "dropped = onClose k (hears later online)"
  have "client_keeps online (hears later online)" unfolding hears_def by (rule later_frames) (use on(1) o in simp)
  then have "authRejected (hears later online)" "\<not> closedByUser (hears later online)" "g_getCredential (hears later online) = g_getCredential g"
    "refreshedFor (hears later online) = refreshedFor g" "g_credential (hears later online) = g_credential g" "g_timeouts (hears later online) = g_timeouts g"
    using on [folded o] assms(14) by (auto simp: client_keeps_def)
  then have "g_socket dropped = None \<and> g_timeouts dropped = g_timeouts g \<and>
      (if g_getCredential g \<and> refreshedFor g \<noteq> Some (g_credential g) then last (g_effects dropped) = GetCredential
       else last_status dropped = Some Offline)"
    by (simp add: dropped_def onClose_def Let_def last_status_def next_status_def)
  with h' on(3,4) [folded o] show ?thesis
    unfolding Let_def hears_def [symmetric] online_def [symmetric] dropped_def [symmetric]
    by (intro exI [of _ h'] conjI) (fold online_def, fold dropped_def, blast+)
qed

text \<open>The run of one client, and a client with and one without a way to ask for another credential.\<close>

theorem early_event_stops_reconnect_witness:
  "(\<exists>h'. written (conn h' 0) = [Push early_event, Reply (envelope 0 (JStr (js ''OK'')) [])] \<and>
     (let online = fold (\<lambda>t g. snd (onMessage t g)) (map (stringify \<circ> frame_json) (written (conn h' 0))) early_client
      in last_status online = Some Online \<and> g_socket (onClose 1 online) = None \<and> last_status (onClose 1 online) = Some Offline)) \<and>
   (\<exists>h'. written (conn h' 0) = [Push early_event, Reply (envelope 0 (JStr (js ''OK'')) [])] \<and>
     (let online = fold (\<lambda>t g. snd (onMessage t g)) (map (stringify \<circ> frame_json) (written (conn h' 0))) (early_client\<lparr>g_getCredential := True\<rparr>)
      in last_status online = Some Online \<and> last (g_effects (onClose 1 online)) = GetCredential))"
proof -
  obtain h where h: "lreach (hub_step early_config) (\<lambda>l. True) new_hub h" "h_conns h = [waiting_connection]" using early_admitted by blast
  have c: "conn h 0 = waiting_connection" using h by (simp add: conn_def)
  have e: "json_ok early_event" "early_event \<noteq> JNull" "jget (js ''code'') early_event \<noteq> Some (JNum 0)"
    by (simp_all add: early_event_def event_payload_def json_strings_def js_def)
  have g: "\<not> authenticated early_client" "\<not> closedByUser early_client" "\<not> g_getCredential early_client" "refreshedFor early_client = None"
    by (simp_all add: early_client_def sample_defs)
  note stops = early_event_stops_reconnect [OF h(1), of 0 early_request "[[117]]" early_event _ 1 "[]"]
  have "\<exists>h'. written (conn h' 0) = [Push early_event, Reply (envelope 0 (JStr (js ''OK'')) [])] \<and>
     (let online = fold (\<lambda>t g. snd (onMessage t g)) (map (stringify \<circ> frame_json) (written (conn h' 0))) early_client
      in last_status online = Some Online \<and> g_socket (onClose 1 online) = None \<and> last_status (onClose 1 online) = Some Offline)"
    using stops [of early_client] h(2) c e g early_answers(2) by (auto simp: waiting_connection_def Let_def)
  moreover have "\<exists>h'. written (conn h' 0) = [Push early_event, Reply (envelope 0 (JStr (js ''OK'')) [])] \<and>
     (let online = fold (\<lambda>t g. snd (onMessage t g)) (map (stringify \<circ> frame_json) (written (conn h' 0))) (early_client\<lparr>g_getCredential := True\<rparr>)
      in last_status online = Some Online \<and> last (g_effects (onClose 1 online)) = GetCredential)"
    using stops [of "early_client\<lparr>g_getCredential := True\<rparr>"] h(2) c e g early_answers(2) by (auto simp: waiting_connection_def Let_def)
  ultimately show ?thesis by blast
qed

end
