(* ===== verification/Delivery_Worker.thy ===== *)
theory Delivery_Worker
  imports Hub "HOL-Library.Multiset"
begin

text \<open>
  The delivery worker, \<open>deps/im/delivery/main.go\<close>, between the outbox of the backend (\<open>Outbox\<close> and \<open>AckOutbox\<close> of
  \<open>app/api/internal_api/actions.go\<close>) and the gateway's \<open>deliver\<close>.

  \<open>push_step\<close> interleaves the worker's loop with the backend, which adds rows, and with everything the gateway does.  Each of
  the worker's requests may be lost, its answer may be lost or late, and the database may return rows of the same time in any
  order (\<open>RowsMoved\<close>).  One worker runs.  Not modelled: the clock of the acknowledgement and the polling interval.
\<close>

section \<open>The outbox of the backend\<close>

record outbox_row =
  ow_event :: outbox_event
  ow_created_at :: int
  ow_published :: bool
  ow_attempts :: nat

text \<open>The payload is decoded into a map; what is not an object is replaced.\<close>

fun served_payload :: "json \<Rightarrow> json" where
  "served_payload (JObj kvs) = JObj kvs"
| "served_payload JNull = JNull"
| "served_payload _ = JObj [(js ''invalid_payload'', JBool True)]"

definition served :: "outbox_row \<Rightarrow> outbox_event" where
  "served r = (ow_event r)\<lparr>ob_payload := served_payload (ob_payload (ow_event r))\<rparr>"

definition row_id :: "outbox_row \<Rightarrow> jstr" where
  "row_id r = ob_id (ow_event r)"

definition Outbox :: "int \<Rightarrow> outbox_row list \<Rightarrow> outbox_event list" where
  "Outbox limit rows =
     map served (take (nat (if limit < 1 \<or> 500 < limit then 100 else limit)) (sort_key ow_created_at (filter (\<lambda>r. \<not> ow_published r) rows)))"

definition AckOutbox :: "jstr \<Rightarrow> outbox_row list \<Rightarrow> int \<times> outbox_row list" where
  "AckOutbox k rows =
     (if list_ex (\<lambda>r. row_id r = k \<and> \<not> ow_published r) rows then
        (200, map (\<lambda>r. if row_id r = k \<and> \<not> ow_published r then r\<lparr>ow_published := True, ow_attempts := Suc (ow_attempts r)\<rparr> else r) rows)
      else (404, rows))"

section \<open>The request to the gateway\<close>

text \<open>
  The length of \<open>json.Marshal\<close> in bytes: quotes, backslashes and the named control characters take two, other control
  characters, the characters of HTML and the line separators six, a lone surrogate is replaced.
\<close>

definition unit_size :: "nat \<Rightarrow> nat" where
  "unit_size c = (if c \<in> set [8, 9, 10, 12, 13, 34, 92] then 2 else if c < 32 \<or> c \<in> set [38, 60, 62, 8232, 8233] then 6
     else length (utf8 c))"

fun text_size :: "jstr \<Rightarrow> nat" where
  "text_size (c # d # r) = (if high_surrogate c \<and> low_surrogate d then 4 + text_size r else unit_size c + text_size (d # r))"
| "text_size [c] = unit_size c"
| "text_size [] = 0"

fun marshal_size :: "json \<Rightarrow> nat" where
  "marshal_size JNull = 4"
| "marshal_size (JBool b) = (if b then 4 else 5)"
| "marshal_size (JNum n) = length (show_int n)"
| "marshal_size (JStr s) = 2 + text_size s"
| "marshal_size (JArr vs) = 2 + (length vs - 1) + sum_list (map marshal_size vs)"
| "marshal_size (JObj kvs) = 2 + (length kvs - 1) + sum_list (map (\<lambda>kv. 2 + text_size (fst kv) + 1 + marshal_size (snd kv)) kvs)"

definition publish_body :: "outbox_event \<Rightarrow> json" where
  "publish_body e = JObj [(js ''id'', JStr (ob_id e)), (js ''payload'', ob_payload e), (js ''topic'', JStr (ob_topic e))]"

definition publish_request :: "jstr \<Rightarrow> outbox_event \<Rightarrow> service_request" where
  "publish_request secret e = \<lparr>ir_post = True, ir_secret = secret, ir_bytes = marshal_size (publish_body e), ir_body = Some (publish_body e)\<rparr>"

section \<open>The worker\<close>

text \<open>Where \<open>poll\<close> stands: between two polls, before \<open>publish\<close>, waiting for the gateway's call number \<open>k\<close>, or before \<open>ack\<close>.\<close>

datatype phase = Idle | ToPublish | Awaiting nat | ToAck

record worker =
  w_batch :: "outbox_event list"
  w_phase :: phase
  w_polled :: nat
  w_published :: nat
  w_failures :: nat

record system =
  sy_rows :: "outbox_row list"
  sy_worker :: worker
  sy_hub :: hub

definition poll_page :: "system \<Rightarrow> system" where
  "poll_page s =
     (let page = Outbox 100 (sy_rows s); w = sy_worker s
      in s\<lparr>sy_worker := w\<lparr>w_batch := page, w_phase := (if page = [] then Idle else ToPublish), w_polled := w_polled w + length page\<rparr>\<rparr>)"

text \<open>\<open>poll\<close> returns an error, which \<open>run\<close> counts.\<close>

definition poll_error :: "system \<Rightarrow> system" where
  "poll_error s = (let w = sy_worker s in s\<lparr>sy_worker := w\<lparr>w_batch := [], w_phase := Idle, w_failures := Suc (w_failures w)\<rparr>\<rparr>)"

definition set_phase :: "phase \<Rightarrow> system \<Rightarrow> system" where
  "set_phase p s = s\<lparr>sy_worker := (sy_worker s)\<lparr>w_phase := p\<rparr>\<rparr>"

text \<open>The gateway gets the request of \<open>publish\<close>.\<close>

definition publish :: "gateway_config \<Rightarrow> jstr \<Rightarrow> system \<Rightarrow> system" where
  "publish cfg secret s =
     (case deliver_check cfg (publish_request secret (hd (w_batch (sy_worker s)))) of
        Inl status \<Rightarrow> poll_error s
      | Inr (targets, payload) \<Rightarrow>
          set_phase (Awaiting (length (h_jobs (sy_hub s)))) (s\<lparr>sy_hub := deliver_start targets payload (sy_hub s)\<rparr>))"

text \<open>The backend gets the request of \<open>ack\<close>; its answer may be lost.\<close>

definition ack :: "bool \<Rightarrow> system \<Rightarrow> system" where
  "ack lost s =
     (let w = sy_worker s; (status, rows) = AckOutbox (ob_id (hd (w_batch w))) (sy_rows s); s1 = s\<lparr>sy_rows := rows\<rparr>
      in if lost \<or> status \<noteq> 200 then poll_error s1
         else s1\<lparr>sy_worker := w\<lparr>w_batch := tl (w_batch w), w_phase := (if tl (w_batch w) = [] then Idle else ToPublish),
                w_published := Suc (w_published w)\<rparr>\<rparr>)"

datatype push_label =
    RowAdded outbox_row
  | RowsMoved "outbox_row list"
  | Polled
  | PollFailed
  | PublishSent
  | PublishLost
  | PublishAnswered
  | PublishTimeout
  | AckSent bool
  | AckLost
  | HubRuns hub_label

inductive push_step :: "gateway_config \<Rightarrow> jstr \<Rightarrow> push_label \<Rightarrow> system \<Rightarrow> system \<Rightarrow> bool" for cfg :: gateway_config and secret :: jstr where
  ps_added: "\<not> ow_published r \<Longrightarrow> row_id r \<notin> row_id ` set (sy_rows s) \<Longrightarrow>
    push_step cfg secret (RowAdded r) s (s\<lparr>sy_rows := sy_rows s @ [r]\<rparr>)"
| ps_moved: "mset rows = mset (sy_rows s) \<Longrightarrow> push_step cfg secret (RowsMoved rows) s (s\<lparr>sy_rows := rows\<rparr>)"
| ps_polled: "w_phase (sy_worker s) = Idle \<Longrightarrow> push_step cfg secret Polled s (poll_page s)"
| ps_failed: "w_phase (sy_worker s) = Idle \<Longrightarrow> push_step cfg secret PollFailed s (poll_error s)"
| ps_publish: "w_phase (sy_worker s) = ToPublish \<Longrightarrow> push_step cfg secret PublishSent s (publish cfg secret s)"
| ps_publish_lost: "w_phase (sy_worker s) = ToPublish \<Longrightarrow> push_step cfg secret PublishLost s (poll_error s)"
| ps_answered: "w_phase (sy_worker s) = Awaiting k \<Longrightarrow> jb_answered (h_jobs (sy_hub s) ! k) \<Longrightarrow>
    push_step cfg secret PublishAnswered s (set_phase ToAck s)"
| ps_timeout: "w_phase (sy_worker s) = Awaiting k \<Longrightarrow> push_step cfg secret PublishTimeout s (poll_error s)"
| ps_ack: "w_phase (sy_worker s) = ToAck \<Longrightarrow> push_step cfg secret (AckSent lost) s (ack lost s)"
| ps_ack_lost: "w_phase (sy_worker s) = ToAck \<Longrightarrow> push_step cfg secret AckLost s (poll_error s)"
| ps_hub: "hub_step cfg l (sy_hub s) h \<Longrightarrow> push_step cfg secret (HubRuns l) s (s\<lparr>sy_hub := h\<rparr>)"

inductive_cases push_step_cases: "push_step cfg secret l s s'"

definition start_system :: "outbox_row list \<Rightarrow> system" where
  "start_system rows = \<lparr>sy_rows = rows, sy_worker = \<lparr>w_batch = [], w_phase = Idle, w_polled = 0, w_published = 0, w_failures = 0\<rparr>, sy_hub = new_hub\<rparr>"

section \<open>Nothing is acknowledged that was not pushed\<close>

definition answered_job :: "hub \<Rightarrow> json \<Rightarrow> bool" where
  "answered_job h p \<longleftrightarrow> (\<exists>j \<in> set (h_jobs h). jb_payload j = p \<and> jb_answered j)"

text \<open>The calls of \<open>deliver\<close> are never forgotten, keep their payload and stay answered.\<close>

definition jobs_grow :: "hub \<Rightarrow> hub \<Rightarrow> bool" where
  "jobs_grow h h' \<longleftrightarrow> length (h_jobs h) \<le> length (h_jobs h') \<and> (\<forall>k < length (h_jobs h).
     jb_payload (h_jobs h' ! k) = jb_payload (h_jobs h ! k) \<and> (jb_answered (h_jobs h ! k) \<longrightarrow> jb_answered (h_jobs h' ! k)))"

lemma jobs_grow_same: "h_jobs h' = h_jobs h \<Longrightarrow> jobs_grow h h'"
  by (simp add: jobs_grow_def)

lemma jobs_grow_update: "(\<And>j. jb_payload (f j) = jb_payload j \<and> (jb_answered j \<longrightarrow> jb_answered (f j))) \<Longrightarrow> h_jobs h' = (h_jobs h)[k := f (h_jobs h ! k)] \<Longrightarrow> jobs_grow h h'"
  by (cases "k < length (h_jobs h)") (auto simp: jobs_grow_def nth_list_update list_update_beyond not_less)

lemma read_frame_jobs: "h_jobs (read_frame i w h) = h_jobs h"
  by (auto simp: read_frame_def sendResponse_def hub_remove_def authFailure_def Let_def split: client_frame.splits option.splits json.splits)

lemma hub_kick_jobs: "h_jobs (snd (hub_kick u h)) = h_jobs h"
proof -
  have "h_jobs (fold (\<lambda>i. update_conn i f) is h) = h_jobs h" for f "is" h by (induction "is" arbitrary: h) simp_all
  then show ?thesis by (simp add: hub_kick_def)
qed

lemma deliver_start_grows: "jobs_grow h (deliver_start targets payload h)"
  by (simp add: jobs_grow_def deliver_start_def Let_def nth_append)

lemma hub_step_jobs: "hub_step cfg l h h' \<Longrightarrow> jobs_grow h h'"
proof (erule hub_step_cases)
  fix k i
  assume "h' = deliver_one k i h"
  then show "jobs_grow h h'"
    by (intro jobs_grow_update [where k = k and f = "\<lambda>j. j\<lparr>jb_left := remove1 i (jb_left j), jb_delivered := jb_delivered j +
        (if fst (offer (Push (jb_payload (h_jobs h ! k))) (conn h i)) then 1 else 0)\<rparr>"])
      (simp_all add: deliver_one_def Let_def update_job_def)
next
  fix k
  assume "h' = deliver_answer k h"
  then show "jobs_grow h h'"
    by (intro jobs_grow_update [where k = k and f = "\<lambda>j. j\<lparr>jb_answered := True\<rparr>"]) (simp_all add: deliver_answer_def update_job_def)
qed (simp_all add: jobs_grow_same read_frame_jobs hub_kick_jobs deliver_start_grows hub_accept_def hub_remove_def authFailure_def sendResponse_def admit_def
    hub_add_def greet_client_def write_frame_def Let_def)

lemma answered_grows: "answered_job h p \<Longrightarrow> jobs_grow h h' \<Longrightarrow> answered_job h' p"
  unfolding answered_job_def jobs_grow_def by (metis (no_types, lifting) in_set_conv_nth order_less_le_trans)

text \<open>The state of the worker and of the outbox.\<close>

definition outbox_ok :: "system \<Rightarrow> bool" where
  "outbox_ok s \<longleftrightarrow> distinct (map row_id (sy_rows s)) \<and> (\<forall>e \<in> set (w_batch (sy_worker s)). e \<in> served ` set (sy_rows s)) \<and>
     (w_phase (sy_worker s) = Idle \<longleftrightarrow> w_batch (sy_worker s) = [])"

fun phase_ok :: "hub \<Rightarrow> worker \<Rightarrow> phase \<Rightarrow> bool" where
  "phase_ok h w (Awaiting k) \<longleftrightarrow> k < length (h_jobs h) \<and> jb_payload (h_jobs h ! k) = ob_payload (hd (w_batch w))"
| "phase_ok h w ToAck \<longleftrightarrow> answered_job h (ob_payload (hd (w_batch w)))"
| "phase_ok h w _ \<longleftrightarrow> True"

definition push_ok :: "system \<Rightarrow> bool" where
  "push_ok s \<longleftrightarrow> outbox_ok s \<and> hub_ok (sy_hub s) \<and> phase_ok (sy_hub s) (sy_worker s) (w_phase (sy_worker s)) \<and>
     (\<forall>r \<in> set (sy_rows s). ow_published r \<longrightarrow> answered_job (sy_hub s) (ob_payload (served r)))"

lemma phase_grows: "phase_ok h w p \<Longrightarrow> jobs_grow h h' \<Longrightarrow> phase_ok h' w p"
  by (cases p) (auto simp: jobs_grow_def intro: answered_grows [unfolded jobs_grow_def])

text \<open>What an acknowledgement does to a row.\<close>

definition mark :: "jstr \<Rightarrow> outbox_row \<Rightarrow> outbox_row" where
  "mark k r = (if row_id r = k \<and> \<not> ow_published r then r\<lparr>ow_published := True, ow_attempts := Suc (ow_attempts r)\<rparr> else r)"

lemma mark_simps [simp]: "ow_event (mark k r) = ow_event r" "ow_created_at (mark k r) = ow_created_at r" "row_id (mark k r) = row_id r"
  "served (mark k r) = served r" "ow_published (mark k r) \<longleftrightarrow> ow_published r \<or> row_id r = k"
  by (auto simp: mark_def row_id_def served_def)

lemma AckOutbox_rows: "snd (AckOutbox k rows) = map (mark k) rows"
proof (cases "list_ex (\<lambda>r. row_id r = k \<and> \<not> ow_published r) rows")
  case True
  then show ?thesis by (simp add: AckOutbox_def mark_def fun_eq_iff)
next
  case False
  then have "map (mark k) rows = rows" by (intro map_idI) (auto simp: mark_def list_ex_iff)
  with False show ?thesis by (simp add: AckOutbox_def)
qed

lemma served_id [simp]: "ob_id (served r) = row_id r"
  by (simp add: served_def row_id_def)

lemma served_inj: "distinct (map row_id rows) \<Longrightarrow> r \<in> set rows \<Longrightarrow> r' \<in> set rows \<Longrightarrow> row_id r = row_id r' \<Longrightarrow> r = r'"
  by (auto simp: distinct_map inj_on_def)

lemma Outbox_served: "set (Outbox limit rows) \<subseteq> served ` {r \<in> set rows. \<not> ow_published r}"
  unfolding Outbox_def by (auto dest!: in_set_takeD)

lemma poll_error_ok: "outbox_ok s \<Longrightarrow> outbox_ok (poll_error s)"
  by (simp add: outbox_ok_def poll_error_def Let_def)

lemma poll_error_simps [simp]: "sy_rows (poll_error s) = sy_rows s" "sy_hub (poll_error s) = sy_hub s" "w_phase (sy_worker (poll_error s)) = Idle"
  "w_batch (sy_worker (poll_error s)) = []"
  by (simp_all add: poll_error_def Let_def)

lemma push_ok_error: "push_ok s \<Longrightarrow> push_ok (poll_error s)"
  by (simp add: push_ok_def poll_error_ok)

lemma push_ok_added: "push_ok s \<Longrightarrow> \<not> ow_published r \<Longrightarrow> row_id r \<notin> row_id ` set (sy_rows s) \<Longrightarrow> push_ok (s\<lparr>sy_rows := sy_rows s @ [r]\<rparr>)"
  by (auto simp: push_ok_def outbox_ok_def)

lemma push_ok_moved:
  assumes "push_ok s" "mset rows = mset (sy_rows s)"
  shows "push_ok (s\<lparr>sy_rows := rows\<rparr>)"
proof -
  have "mset (map row_id rows) = mset (map row_id (sy_rows s))" using assms(2) by simp
  from mset_eq_imp_distinct_iff [OF this] mset_eq_setD [OF assms(2)] show ?thesis using assms(1) by (simp add: push_ok_def outbox_ok_def)
qed

lemma push_ok_polled: "push_ok s \<Longrightarrow> push_ok (poll_page s)"
  using Outbox_served [of 100 "sy_rows s"] by (auto simp: push_ok_def outbox_ok_def poll_page_def Let_def)

lemma push_ok_publish:
  assumes "push_ok s" "w_phase (sy_worker s) = ToPublish"
  shows "push_ok (publish cfg secret s)"
proof (cases "deliver_check cfg (publish_request secret (hd (w_batch (sy_worker s))))")
  case (Inl status)
  then show ?thesis using push_ok_error [OF assms(1)] by (simp add: publish_def)
next
  case (Inr tp)
  obtain targets payload where tp: "tp = (targets, payload)" by force
  have "payload = ob_payload (hd (w_batch (sy_worker s)))"
    using Inr tp by (auto simp: deliver_check_def publish_request_def publish_body_def split: if_splits option.splits)
  moreover have "hub_ok (deliver_start targets payload (sy_hub s))"
    using assms(1) deliver_start_ok deliver_check_Inr Inr tp by (auto simp: push_ok_def)
  moreover have "h_jobs (deliver_start targets payload (sy_hub s)) ! length (h_jobs (sy_hub s)) =
      \<lparr>jb_payload = payload, jb_clients = remdups (concat (map (registered (sy_hub s)) targets)),
        jb_left = remdups (concat (map (registered (sy_hub s)) targets)), jb_delivered = 0, jb_answered = False\<rparr>"
    "length (h_jobs (deliver_start targets payload (sy_hub s))) = Suc (length (h_jobs (sy_hub s)))"
    by (simp_all add: deliver_start_def Let_def nth_append)
  ultimately show ?thesis
    using assms Inr tp answered_grows [OF _ deliver_start_grows, of "sy_hub s" _ targets payload]
    by (simp add: publish_def set_phase_def push_ok_def outbox_ok_def)
qed

lemma push_ok_ack:
  assumes "push_ok s" "w_phase (sy_worker s) = ToAck"
  shows "push_ok (ack lost s)"
proof -
  let ?w = "sy_worker s"
  let ?k = "ob_id (hd (w_batch ?w))" and ?s1 = "s\<lparr>sy_rows := map (mark (ob_id (hd (w_batch (sy_worker s))))) (sy_rows s)\<rparr>"
  have ne: "w_batch ?w \<noteq> []" using assms by (auto simp: push_ok_def outbox_ok_def)
  have "answered_job (sy_hub s) (ob_payload (served r))" if "r \<in> set (sy_rows s)" "row_id r = ?k" for r
  proof -
    have "hd (w_batch ?w) \<in> served ` set (sy_rows s)" using assms(1) ne by (auto simp: push_ok_def outbox_ok_def)
    then obtain q where q: "q \<in> set (sy_rows s)" "hd (w_batch ?w) = served q" by blast
    then have "r = q" using that assms(1) by (intro served_inj [of "sy_rows s"]) (auto simp: push_ok_def outbox_ok_def)
    with q assms show ?thesis by (simp add: push_ok_def)
  qed
  then have s1: "push_ok ?s1"
    using assms(1) by (auto simp: push_ok_def outbox_ok_def image_image comp_def)
  have "push_ok (?s1\<lparr>sy_worker := ?w\<lparr>w_batch := tl (w_batch ?w), w_phase := (if tl (w_batch ?w) = [] then Idle else ToPublish), w_published := n\<rparr>\<rparr>)" for n
    using s1 list.set_sel(2) [OF ne] by (auto simp: push_ok_def outbox_ok_def)
  then show ?thesis using push_ok_error [OF s1] AckOutbox_rows [of ?k "sy_rows s"]
    by (auto simp: ack_def Let_def split: prod.splits)
qed

lemma push_step_ok:
  assumes "push_ok s" "push_step cfg secret l s s'"
  shows "push_ok s'"
  using assms(2)
proof (cases rule: push_step.cases)
  case (ps_answered k)
  then have "answered_job (sy_hub s) (ob_payload (hd (w_batch (sy_worker s))))"
    using assms(1) by (auto simp: push_ok_def answered_job_def intro!: bexI [of _ "h_jobs (sy_hub s) ! k"])
  then show ?thesis using assms(1) ps_answered by (auto simp: push_ok_def outbox_ok_def set_phase_def)
next
  case (ps_hub l' h)
  note grow = hub_step_jobs [OF ps_hub(3)]
  show ?thesis using assms(1) ps_hub hub_step_ok [OF _ ps_hub(3)] phase_grows [OF _ grow] answered_grows [OF _ grow]
    by (auto simp: push_ok_def outbox_ok_def)
qed (use assms(1) in \<open>simp_all add: push_ok_added push_ok_moved push_ok_polled push_ok_error push_ok_publish push_ok_ack\<close>)

interpretation push_runs: inductive_invariant "push_step cfg secret" "\<lambda>l. True" push_ok
  by unfold_locales (rule push_step_ok)

subsection \<open>How a delivery began\<close>

text \<open>A step keeps the payload and the connections of every call of \<open>deliver\<close>, or it begins one more.\<close>

definition calls_kept :: "hub \<Rightarrow> hub \<Rightarrow> bool" where
  "calls_kept h h' \<longleftrightarrow> length (h_jobs h') = length (h_jobs h) \<and> (\<forall>k < length (h_jobs h).
     jb_payload (h_jobs h' ! k) = jb_payload (h_jobs h ! k) \<and> jb_clients (h_jobs h' ! k) = jb_clients (h_jobs h ! k))"

definition call_begins :: "hub \<Rightarrow> hub \<Rightarrow> bool" where
  "call_begins h h' \<longleftrightarrow> (\<exists>targets payload. routing_targets payload = Some targets \<and> h' = deliver_start targets payload h)"

lemma calls_kept_same: "h_jobs h' = h_jobs h \<Longrightarrow> calls_kept h h'"
  by (simp add: calls_kept_def)

lemma calls_kept_update:
  "h_jobs h' = (h_jobs h)[k := f (h_jobs h ! k)] \<Longrightarrow> (\<And>j. jb_payload (f j) = jb_payload j \<and> jb_clients (f j) = jb_clients j) \<Longrightarrow> calls_kept h h'"
  by (cases "k < length (h_jobs h)") (auto simp: calls_kept_def nth_list_update list_update_beyond not_less)

lemma hub_step_calls: "hub_step cfg l h h' \<Longrightarrow> calls_kept h h' \<or> call_begins h h'"
proof (erule hub_step_cases)
  fix k i
  assume "h' = deliver_one k i h"
  then have "calls_kept h h'"
    by (intro calls_kept_update [where k = k and f = "\<lambda>j. j\<lparr>jb_left := remove1 i (jb_left j), jb_delivered := jb_delivered j +
        (if fst (offer (Push (jb_payload (h_jobs h ! k))) (conn h i)) then 1 else 0)\<rparr>"])
      (simp_all add: deliver_one_def Let_def update_job_def)
  then show "calls_kept h h' \<or> call_begins h h'" ..
next
  fix k
  assume "h' = deliver_answer k h"
  then have "calls_kept h h'"
    by (intro calls_kept_update [where k = k and f = "\<lambda>j. j\<lparr>jb_answered := True\<rparr>"]) (simp_all add: deliver_answer_def update_job_def)
  then show "calls_kept h h' \<or> call_begins h h'" ..
next
  fix r targets payload
  assume "h' = deliver_start targets payload h" "deliver_check cfg r = Inr (targets, payload)"
  then show "calls_kept h h' \<or> call_begins h h'" unfolding call_begins_def by (blast dest: deliver_check_Inr)
qed (simp_all add: calls_kept_same read_frame_jobs hub_kick_jobs hub_accept_def hub_remove_def authFailure_def sendResponse_def admit_def
    hub_add_def greet_client_def write_frame_def Let_def)

lemma push_step_calls: "push_step cfg secret l s t \<Longrightarrow> calls_kept (sy_hub s) (sy_hub t) \<or> call_begins (sy_hub s) (sy_hub t)"
proof (induction rule: push_step.induct)
  case (ps_publish s)
  show ?case
    by (auto simp: publish_def set_phase_def calls_kept_same call_begins_def dest: deliver_check_Inr split: sum.splits prod.splits)
next
  case (ps_hub l s h)
  then show ?case using hub_step_calls by simp
qed (simp_all add: calls_kept_same poll_page_def set_phase_def ack_def Let_def split: prod.split)

lemma deliver_start_job:
  assumes "routing_targets payload = Some targets"
  shows "\<exists>j. h_jobs (deliver_start targets payload h) = h_jobs h @ [j] \<and> routing_targets (jb_payload j) = Some targets \<and>
    set (jb_clients j) = (\<Union>u \<in> set targets. set (registered h u))"
  using assms by (auto simp: deliver_start_def Let_def)

text \<open>Every call goes back to a state of the run in which it began, with the connections that were registered there.\<close>

lemma call_began:
  assumes "lreach (push_step cfg secret) (\<lambda>l. True) s0 s" "h_jobs (sy_hub s0) = []" "k < length (h_jobs (sy_hub s))"
  shows "\<exists>a l b us. lreach (push_step cfg secret) (\<lambda>l. True) s0 a \<and> push_step cfg secret l a b \<and> lreach (push_step cfg secret) (\<lambda>l. True) b s \<and>
    length (h_jobs (sy_hub a)) = k \<and> length (h_jobs (sy_hub b)) = Suc k \<and> routing_targets (jb_payload (h_jobs (sy_hub s) ! k)) = Some us \<and>
    set (jb_clients (h_jobs (sy_hub s) ! k)) = (\<Union>u \<in> set us. set (registered (sy_hub a) u))"
  using assms
proof (induction rule: lreach.induct)
  case (more s l t)
  let ?R = "lreach (push_step cfg secret) (\<lambda>l. True)"
  have old: ?case if less: "k < length (h_jobs (sy_hub s))"
    and same: "jb_payload (h_jobs (sy_hub t) ! k) = jb_payload (h_jobs (sy_hub s) ! k)" "jb_clients (h_jobs (sy_hub t) ! k) = jb_clients (h_jobs (sy_hub s) ! k)"
  proof -
    obtain a l' b us where *: "?R s0 a" "push_step cfg secret l' a b" "?R b s" "length (h_jobs (sy_hub a)) = k" "length (h_jobs (sy_hub b)) = Suc k"
      "routing_targets (jb_payload (h_jobs (sy_hub s) ! k)) = Some us"
      "set (jb_clients (h_jobs (sy_hub s) ! k)) = (\<Union>u \<in> set us. set (registered (sy_hub a) u))"
      using more.IH [OF more.prems(1) less] by blast
    have "?R b t" by (rule lreach_next [OF *(3) more.hyps(3)])
    with * same show ?thesis by metis
  qed
  from push_step_calls [OF more.hyps(3)] show ?case
  proof
    assume "calls_kept (sy_hub s) (sy_hub t)"
    then show ?thesis using old more.prems(2) by (auto simp: calls_kept_def)
  next
    assume "call_begins (sy_hub s) (sy_hub t)"
    then obtain us payload where p: "routing_targets payload = Some us" "sy_hub t = deliver_start us payload (sy_hub s)"
      by (auto simp: call_begins_def)
    then obtain j where j: "h_jobs (sy_hub t) = h_jobs (sy_hub s) @ [j]" "routing_targets (jb_payload j) = Some us"
      "set (jb_clients j) = (\<Union>u \<in> set us. set (registered (sy_hub s) u))"
      using deliver_start_job [OF p(1), of "sy_hub s"] by auto
    show ?thesis
    proof (cases "k < length (h_jobs (sy_hub s))")
      case True
      then show ?thesis using old j(1) by (simp add: nth_append)
    next
      case False
      then have "k = length (h_jobs (sy_hub s))" using more.prems(2) j(1) by simp
      then show ?thesis using more.hyps(1,3) j by (intro exI [of _ s] exI [of _ l] exI [of _ t] exI [of _ us]) auto
    qed
  qed
qed simp

section \<open>An event the gateway refuses\<close>

text \<open>Row \<open>x\<close> waits, what comes after it in the batch is behind it, and no row newer than it but those of \<open>P\<close> was published.\<close>

definition behind :: "outbox_row \<Rightarrow> outbox_row list \<Rightarrow> outbox_event list \<Rightarrow> bool" where
  "behind x rows batch \<longleftrightarrow> (\<forall>k < length batch. \<forall>r \<in> set rows. row_id r = ob_id (batch ! k) \<and> ow_created_at x < ow_created_at r \<longrightarrow>
     served x \<in> set (take k batch))"

definition blocked :: "outbox_row \<Rightarrow> jstr set \<Rightarrow> system \<Rightarrow> bool" where
  "blocked x P s \<longleftrightarrow> outbox_ok s \<and> x \<in> set (sy_rows s) \<and> \<not> ow_published x \<and>
     (\<forall>r \<in> set (sy_rows s). ow_published r \<and> ow_created_at x < ow_created_at r \<longrightarrow> row_id r \<in> P) \<and>
     behind x (sy_rows s) (w_batch (sy_worker s)) \<and>
     (w_phase (sy_worker s) \<in> {Idle, ToPublish} \<or> hd (w_batch (sy_worker s)) \<noteq> served x)"

lemma behind_Nil [simp]: "behind x rows []"
  by (simp add: behind_def)

lemma behind_tl:
  assumes "behind x rows batch" "hd batch \<noteq> served x"
  shows "behind x rows (tl batch)"
proof (cases batch)
  case (Cons e es)
  have "served x \<in> set (take k es)" if "k < length es" "r \<in> set rows" "row_id r = ob_id (es ! k)" "ow_created_at x < ow_created_at r" for k r
    using assms that Cons unfolding behind_def by (auto dest!: spec [of _ "Suc k"])
  then show ?thesis by (simp add: behind_def Cons)
qed simp

lemma behind_page:
  assumes "distinct (map row_id rows)" "x \<in> set rows" "\<not> ow_published x"
  shows "behind x rows (Outbox 100 rows)"
proof -
  let ?xs = "sort_key ow_created_at (filter (\<lambda>r. \<not> ow_published r) rows)"
  obtain j where j: "j < length ?xs" "?xs ! j = x" using assms(2,3) in_set_conv_nth [of x ?xs] by auto
  have "served x \<in> set (take k (Outbox 100 rows))"
    if k: "k < length (Outbox 100 rows)" "r \<in> set rows" "row_id r = ob_id (Outbox 100 rows ! k)" "ow_created_at x < ow_created_at r" for k r
  proof -
    have k': "k < length ?xs" "k < 100" using k(1) by (auto simp: Outbox_def)
    have "?xs ! k \<in> set rows" using nth_mem [OF k'(1)] by simp
    moreover have "row_id r = row_id (?xs ! k)" using k' k(3) by (simp add: Outbox_def)
    ultimately have "r = ?xs ! k" using served_inj [OF assms(1) k(2)] by blast
    have "j < k"
    proof (rule ccontr)
      assume "\<not> j < k"
      then have "map ow_created_at ?xs ! k \<le> map ow_created_at ?xs ! j" using j(1) by (intro sorted_nth_mono) simp_all
      then show False using k(4) \<open>r = ?xs ! k\<close> j k'(1) by simp
    qed
    then have "take k (Outbox 100 rows) ! j = served x" "j < length (take k (Outbox 100 rows))" using j k' by (simp_all add: Outbox_def)
    then show ?thesis by (metis nth_mem)
  qed
  then show ?thesis by (simp add: behind_def)
qed

lemma behind_cong: "behind x rows batch \<Longrightarrow> (\<And>r. r \<in> set rows' \<Longrightarrow> row_id r \<in> ob_id ` set batch \<Longrightarrow> \<exists>q \<in> set rows. row_id q = row_id r \<and> ow_created_at q = ow_created_at r) \<Longrightarrow>
    behind x rows' batch"
  unfolding behind_def by (metis image_eqI nth_mem)

lemma batch_rows: "outbox_ok s \<Longrightarrow> e \<in> set (w_batch (sy_worker s)) \<Longrightarrow> \<exists>q \<in> set (sy_rows s). e = served q"
  unfolding outbox_ok_def by blast

lemma blocked_error: "blocked x P s \<Longrightarrow> blocked x P (poll_error s)"
  by (simp add: blocked_def poll_error_ok)

lemma blocked_added:
  assumes "blocked x P s" "\<not> ow_published r" "row_id r \<notin> row_id ` set (sy_rows s)"
  shows "blocked x P (s\<lparr>sy_rows := sy_rows s @ [r]\<rparr>)"
proof -
  have ok: "outbox_ok s" using assms(1) by (simp add: blocked_def)
  have new: "row_id r \<notin> ob_id ` set (w_batch (sy_worker s))" using batch_rows [OF ok] assms(3) by fastforce
  have "behind x (sy_rows s @ [r]) (w_batch (sy_worker s))"
    by (rule behind_cong [of x "sy_rows s"]) (use assms(1) new in \<open>auto simp: blocked_def\<close>)
  moreover have "outbox_ok (s\<lparr>sy_rows := sy_rows s @ [r]\<rparr>)" using ok assms(3) by (auto simp: outbox_ok_def)
  ultimately show ?thesis using assms(1,2) by (simp add: blocked_def)
qed

lemma blocked_moved:
  assumes "blocked x P s" "mset rows = mset (sy_rows s)"
  shows "blocked x P (s\<lparr>sy_rows := rows\<rparr>)"
proof -
  have "mset (map row_id rows) = mset (map row_id (sy_rows s))" using assms(2) by simp
  from mset_eq_imp_distinct_iff [OF this] mset_eq_setD [OF assms(2)] show ?thesis
    using assms(1) by (auto simp: blocked_def outbox_ok_def behind_def)
qed

lemma blocked_polled: "blocked x P s \<Longrightarrow> blocked x P (poll_page s)"
  using behind_page [of "sy_rows s" x] Outbox_served [of 100 "sy_rows s"]
  by (auto simp: blocked_def outbox_ok_def poll_page_def Let_def)

lemma blocked_ack:
  assumes "blocked x P s" "w_phase (sy_worker s) = ToAck"
  shows "blocked x P (ack lost s)"
proof -
  let ?w = "sy_worker s"
  let ?e = "hd (w_batch ?w)" and ?s1 = "s\<lparr>sy_rows := map (mark (ob_id (hd (w_batch (sy_worker s))))) (sy_rows s)\<rparr>"
  have ne: "w_batch ?w \<noteq> []" and other: "?e \<noteq> served x" and x: "x \<in> set (sy_rows s)"
    using assms by (auto simp: blocked_def outbox_ok_def)
  then obtain q where q: "q \<in> set (sy_rows s)" "?e = served q" using assms(1) batch_rows [OF _ hd_in_set [OF ne]] by (auto simp: blocked_def)
  have id: "row_id x \<noteq> ob_id ?e"
    using q other x assms(1) served_inj [of "sy_rows s" x q] by (auto simp: blocked_def outbox_ok_def)
  then have "mark (ob_id ?e) x = x" by (simp add: mark_def)
  moreover have "\<not> ow_created_at x < ow_created_at r" if "r \<in> set (sy_rows s)" "row_id r = ob_id ?e" for r
    using assms(1) ne that by (auto simp: blocked_def behind_def hd_conv_nth)
  moreover have "behind x (map (mark (ob_id ?e)) (sy_rows s)) (w_batch ?w)"
    by (rule behind_cong [of x "sy_rows s"]) (use assms(1) in \<open>auto simp: blocked_def\<close>)
  ultimately have s1: "blocked x P ?s1"
    using assms(1) x by (auto simp: blocked_def outbox_ok_def image_image comp_def intro: rev_image_eqI)
  then have "behind x (sy_rows ?s1) (tl (w_batch ?w))" using other by (intro behind_tl) (simp_all add: blocked_def)
  then have "blocked x P (?s1\<lparr>sy_worker := ?w\<lparr>w_batch := tl (w_batch ?w), w_phase := (if tl (w_batch ?w) = [] then Idle else ToPublish), w_published := n\<rparr>\<rparr>)" for n
    using s1 list.set_sel(2) [OF ne] by (auto simp: blocked_def outbox_ok_def)
  then show ?thesis using blocked_error [OF s1] AckOutbox_rows [of "ob_id ?e" "sy_rows s"]
    by (auto simp: ack_def Let_def split: prod.splits)
qed

lemma oversized_refused:
  assumes "maxFrameBytes < marshal_size (publish_body e)"
  shows "\<exists>status. deliver_check cfg (publish_request secret e) = Inl status"
  using assms by (simp add: deliver_check_def publish_request_def)

lemma blocked_publish:
  assumes "blocked x P s" "w_phase (sy_worker s) = ToPublish" "maxFrameBytes < marshal_size (publish_body (served x))"
  shows "blocked x P (publish cfg secret s)"
proof (cases "deliver_check cfg (publish_request secret (hd (w_batch (sy_worker s))))")
  case (Inl status)
  then show ?thesis using blocked_error [OF assms(1)] by (simp add: publish_def)
next
  case (Inr tp)
  then have "hd (w_batch (sy_worker s)) \<noteq> served x" using oversized_refused [OF assms(3), of cfg secret] by auto
  then show ?thesis using Inr assms(1,2) by (auto simp: publish_def set_phase_def blocked_def outbox_ok_def split: prod.splits)
qed

lemma blocked_step:
  assumes "blocked x P s" "push_step cfg secret l s s'" "maxFrameBytes < marshal_size (publish_body (served x))"
  shows "blocked x P s'"
  using assms(2)
proof (cases rule: push_step.cases)
  case (ps_answered k)
  then show ?thesis using assms(1) by (auto simp: blocked_def outbox_ok_def set_phase_def)
next
  case (ps_hub l' h)
  then show ?thesis using assms(1) by (auto simp: blocked_def outbox_ok_def)
qed (use assms in \<open>simp_all add: blocked_added blocked_moved blocked_polled blocked_error blocked_publish blocked_ack\<close>)

interpretation blocked_runs: inductive_invariant "push_step cfg secret" "\<lambda>l. True"
    "\<lambda>s. blocked x P s \<and> maxFrameBytes < marshal_size (publish_body (served x))"
  by unfold_locales (blast intro: blocked_step)

text \<open>The size of a string is at least its length, so that a long list of members makes a long request.\<close>

lemma unit_size_pos: "1 \<le> unit_size c"
  by (auto simp: unit_size_def utf8_def)

lemma text_size_length: "length s \<le> text_size s"
proof (induction s rule: text_size.induct)
  case (1 c d r)
  then show ?case using unit_size_pos [of c] by auto
next
  case (2 c)
  then show ?case using unit_size_pos [of c] by simp
qed simp

lemma sum_list_const_le: "(\<And>x. x \<in> set xs \<Longrightarrow> n \<le> f x) \<Longrightarrow> length xs * n \<le> sum_list (map f xs)" for n :: nat
  using sum_list_mono [of xs "\<lambda>x. n" f] by (simp add: sum_list_triv)

lemma large_group_size:
  assumes "ob_payload e = event_payload ev i m c n us" "1700 \<le> length us" "\<And>u. u \<in> set us \<Longrightarrow> 36 \<le> length u"
  shows "maxFrameBytes < marshal_size (publish_body e)"
proof -
  have "38 \<le> marshal_size (JStr u)" if "u \<in> set us" for u using text_size_length [of u] assms(3) [OF that] by simp
  then have "length us * 38 \<le> sum_list (map (marshal_size \<circ> JStr) us)" by (intro sum_list_const_le) simp
  then have "length us - 1 + length us * 38 \<le> marshal_size (json_strings us)" by (simp add: json_strings_def)
  then have "66299 \<le> marshal_size (json_strings us)" using assms(2) by linarith
  then show ?thesis using assms(1) by (simp add: publish_body_def event_payload_def maxFrameBytes_def)
qed

section \<open>Two runs\<close>

definition sample_row :: outbox_row where
  "sample_row = \<lparr>ow_event = \<lparr>ob_id = [101], ob_topic = js ''message.created'', ob_aggregate_id = [109], ob_payload = early_event\<rparr>,
     ow_created_at = 2, ow_published = False, ow_attempts = 0\<rparr>"

definition large_members :: "jstr list" where
  "large_members = map (\<lambda>n. replicate 36 n) [0..<1700]"

lemma large_members: "length large_members = 1700" "\<forall>u \<in> set large_members. 36 \<le> length u"
  by (auto simp: large_members_def)

definition large_row :: outbox_row where
  "large_row = \<lparr>ow_event = \<lparr>ob_id = [102], ob_topic = js ''message.created'', ob_aggregate_id = [109],
       ob_payload = event_payload ''message.created'' [102] [109] [99] 1 large_members\<rparr>,
     ow_created_at = 1, ow_published = False, ow_attempts = 0\<rparr>"

lemma served_sample: "served sample_row = ow_event sample_row"
  by (simp add: served_def sample_row_def early_event_def event_payload_def)

lemma sample_accepted: "deliver_check early_config (publish_request [115] (ow_event sample_row)) = Inr ([[117]], early_event)"
proof -
  have "marshal_size (publish_body (ow_event sample_row)) \<le> maxFrameBytes"
    by (simp add: publish_body_def sample_row_def early_event_def event_payload_def json_strings_def maxFrameBytes_def js_def unit_size_def utf8_def show_int_def
        high_surrogate_def) (simp add: show_nat_def to_radix_def radix_digits.simps)
  then show ?thesis
    by (simp add: deliver_check_def publish_request_def early_config_def secretOK_def publish_body_def sample_row_def early_event_def routing_event_payload)
qed

lemma hub_run_lifted: "lreach (hub_step cfg) (\<lambda>l. True) h h' \<Longrightarrow> lreach (push_step cfg secret) (\<lambda>l. True) (s\<lparr>sy_hub := h\<rparr>) (s\<lparr>sy_hub := h'\<rparr>)"
proof (induction rule: lreach.induct)
  case (more t l u)
  have "push_step cfg secret (HubRuns l) (s\<lparr>sy_hub := t\<rparr>) (s\<lparr>sy_hub := t\<rparr>\<lparr>sy_hub := u\<rparr>)" by (rule ps_hub) (simp add: more)
  then show ?case using more.IH by (auto intro: lreach.more)
qed (rule lreach.start)

text \<open>The event of the row is pushed to the connected client and acknowledged.\<close>

lemma pushed_run:
  "\<exists>s. lreach (push_step early_config [115]) (\<lambda>l. True) (start_system [sample_row]) s \<and>
     sy_rows s = [sample_row\<lparr>ow_published := True, ow_attempts := 1\<rparr>]"
proof -
  let ?step = "push_step early_config [115]"
  obtain h where h: "lreach (hub_step early_config) (\<lambda>l. True) new_hub h" "h_conns h = [early_connection]" "h_users h = [([117], [0])]"
    using early_run by (elim exE conjE) (rule that)
  define s1 where "s1 = (start_system [sample_row])\<lparr>sy_hub := h\<rparr>"
  have r1: "lreach ?step (\<lambda>l. True) (start_system [sample_row]) s1"
    using hub_run_lifted [OF h(1), of "[115]" "start_system [sample_row]"] by (simp add: s1_def start_system_def)
  let ?k = "length (h_jobs h)" and ?job = "\<lparr>jb_payload = early_event, jb_clients = [0], jb_left = [0], jb_delivered = 0, jb_answered = False\<rparr>"
  define s2 where "s2 = publish early_config [115] (poll_page s1)"
  have polled: "w_batch (sy_worker (poll_page s1)) = [ow_event sample_row]" "w_phase (sy_worker (poll_page s1)) = ToPublish"
    "sy_hub (poll_page s1) = h" "sy_rows (poll_page s1) = [sample_row]"
    by (simp_all add: poll_page_def s1_def start_system_def Outbox_def served_sample Let_def) (simp_all add: sample_row_def)
  have s2: "w_phase (sy_worker s2) = Awaiting ?k" "w_batch (sy_worker s2) = [ow_event sample_row]" "sy_rows s2 = [sample_row]" "sy_hub s2 = h\<lparr>h_jobs := h_jobs h @ [?job]\<rparr>"
    by (simp_all add: s2_def publish_def polled sample_accepted set_phase_def deliver_start_def Let_def registered_def h(3))
  define h3 where "h3 = deliver_answer ?k (deliver_one ?k 0 (sy_hub s2))"
  define s4 where "s4 = set_phase ToAck (s2\<lparr>sy_hub := h3\<rparr>)"
  have "hub_step early_config (Delivered ?k 0) (sy_hub s2) (deliver_one ?k 0 (sy_hub s2))" by (rule hs_delivered) (simp_all add: s2(4) nth_append)
  moreover have "hub_step early_config (DeliverAnswered ?k) (deliver_one ?k 0 (sy_hub s2)) h3"
    unfolding h3_def by (rule hs_answered) (simp_all add: s2(4) deliver_one_def Let_def update_job_def update_conn_def nth_append)
  ultimately have "lreach (hub_step early_config) (\<lambda>l. True) (sy_hub s2) h3" by (blast intro: lreach.intros)
  note r3 = hub_run_lifted [OF this, of "[115]" s2, simplified]
  have "jb_answered (h_jobs h3 ! ?k)" by (simp add: h3_def deliver_answer_def deliver_one_def Let_def update_job_def update_conn_def s2(4))
  then have answered: "?step PublishAnswered (s2\<lparr>sy_hub := h3\<rparr>) s4" unfolding s4_def by (intro ps_answered [of _ ?k]) (simp_all add: s2(1))
  have "?step Polled s1 (poll_page s1)" by (rule ps_polled) (simp add: s1_def start_system_def)
  note r1 = lreach_next [where step = ?step, OF r1 this]
  have "?step PublishSent (poll_page s1) s2" unfolding s2_def by (rule ps_publish) (rule polled(2))
  note r2 = lreach_trans [OF r3 lreach_next [where step = ?step, OF r1 this]]
  have "?step (AckSent False) s4 (ack False s4)" by (rule ps_ack) (simp add: s4_def set_phase_def)
  note lreach_next [where step = ?step, OF lreach_next [where step = ?step, OF r2 answered] this]
  moreover have "sy_rows (ack False s4) = [sample_row\<lparr>ow_published := True, ow_attempts := 1\<rparr>]"
    by (simp add: ack_def Let_def s4_def set_phase_def s2(2,3) AckOutbox_def row_id_def) (simp add: sample_row_def)
  ultimately show ?thesis by blast
qed

text \<open>The poll fails at the first row.\<close>

lemma large_run:
  "\<exists>s. lreach (push_step cfg secret) (\<lambda>l. True) (start_system [sample_row, large_row]) s \<and> w_failures (sy_worker s) = 1 \<and>
     sy_rows s = [sample_row, large_row]"
proof -
  let ?s = "start_system [sample_row, large_row]"
  have "ow_created_at sample_row = 2" "ow_created_at large_row = 1" "\<not> ow_published sample_row" "\<not> ow_published large_row"
    by (simp_all add: sample_row_def large_row_def)
  then have batch: "w_batch (sy_worker (poll_page ?s)) = [served large_row, served sample_row]" "w_phase (sy_worker (poll_page ?s)) = ToPublish"
    by (simp_all add: poll_page_def start_system_def Outbox_def Let_def)
  have "ob_payload (served large_row) = event_payload ''message.created'' [102] [109] [99] 1 large_members"
    by (simp add: served_def large_row_def event_payload_def)
  from large_group_size [OF this] have "maxFrameBytes < marshal_size (publish_body (served large_row))" using large_members by simp
  then obtain status where "deliver_check cfg (publish_request secret (served large_row)) = Inl status"
    using oversized_refused by blast
  then have "publish cfg secret (poll_page ?s) = poll_error (poll_page ?s)" by (simp add: publish_def batch)
  moreover have "push_step cfg secret Polled ?s (poll_page ?s)" by (rule ps_polled) (simp add: start_system_def)
  moreover have "push_step cfg secret PublishSent (poll_page ?s) (publish cfg secret (poll_page ?s))" by (rule ps_publish) (rule batch)
  ultimately have "lreach (push_step cfg secret) (\<lambda>l. True) ?s (poll_error (poll_page ?s))"
    using lreach_next [where step = "push_step cfg secret"] lreach.start by metis
  then show ?thesis by (intro exI [of _ "poll_error (poll_page ?s)"]) (simp, simp add: poll_error_def poll_page_def start_system_def Let_def)
qed

section \<open>Properties\<close>

text \<open>
C3: Nothing is acknowledged that was not pushed: whatever requests, answers and connections are lost and however the worker,
the backend and the gateway interleave, when a row of the outbox is marked as published, the gateway has finished a delivery
of its payload.  It goes back to a step of the run that began it, and every connection that was registered just before that step for one of the
payload's targets has the event queued or written, or is closed or without a writer.
\<close>

theorem published_means_pushed:
  assumes "lreach (push_step cfg secret) (\<lambda>l. True) (start_system rows) s" "distinct (map row_id rows)" "\<forall>r \<in> set rows. \<not> ow_published r"
    and "r \<in> set (sy_rows s)" "ow_published r"
  defines "payload \<equiv> served_payload (ob_payload (ow_event r))"
  shows "\<exists>before l after k us.
    lreach (push_step cfg secret) (\<lambda>l. True) (start_system rows) before \<and> push_step cfg secret l before after \<and>
    lreach (push_step cfg secret) (\<lambda>l. True) after s \<and>
    length (h_jobs (sy_hub before)) = k \<and> length (h_jobs (sy_hub after)) = Suc k \<and>
    jb_payload (h_jobs (sy_hub s) ! k) = payload \<and> jb_answered (h_jobs (sy_hub s) ! k) \<and> routing_targets payload = Some us \<and>
    (\<forall>u \<in> set us. \<forall>i \<in> set (registered (sy_hub before) u).
       Push payload \<in> set (written (conn (sy_hub s) i) @ send_queue (conn (sy_hub s) i)) \<or>
       \<not> conn_open (conn (sy_hub s) i) \<or> \<not> conn_writing (conn (sy_hub s) i))"
proof -
  have "push_ok (start_system rows)"
    using assms(2,3) by (auto simp: push_ok_def outbox_ok_def start_system_def new_hub_ok)
  then have ok: "push_ok s" by (rule push_runs.inv_reach [OF assms(1)])
  then obtain j where "j \<in> set (h_jobs (sy_hub s))" "jb_payload j = payload" "jb_answered j"
    using assms(4,5) by (auto simp: push_ok_def answered_job_def served_def payload_def)
  then obtain k where k: "k < length (h_jobs (sy_hub s))" "jb_payload (h_jobs (sy_hub s) ! k) = payload" "jb_answered (h_jobs (sy_hub s) ! k)"
    by (auto simp: in_set_conv_nth)
  then have "job_ok (sy_hub s) (h_jobs (sy_hub s) ! k)" using ok by (simp add: push_ok_def hub_ok_def)
  then have got: "\<forall>i \<in> set (jb_clients (h_jobs (sy_hub s) ! k)). got payload (conn (sy_hub s) i)" using k(2,3) by (auto simp: job_ok_def)
  have "h_jobs (sy_hub (start_system rows)) = []" by (simp add: start_system_def new_hub_def)
  from call_began [OF assms(1) this k(1)] got k(2,3) show ?thesis
    unfolding got_def frames_of_def by (elim exE conjE) (intro exI conjI, assumption+, simp_all)
qed

theorem published_means_pushed_witness:
  "\<exists>s k before after. lreach (push_step early_config [115]) (\<lambda>l. True) (start_system [sample_row]) s \<and> (\<exists>r \<in> set (sy_rows s). ow_published r) \<and>
     lreach (push_step early_config [115]) (\<lambda>l. True) (start_system [sample_row]) before \<and>
     lreach (push_step early_config [115]) (\<lambda>l. True) after s \<and> length (h_jobs (sy_hub before)) = k \<and> length (h_jobs (sy_hub after)) = Suc k \<and>
     jb_payload (h_jobs (sy_hub s) ! k) = early_event \<and> jb_answered (h_jobs (sy_hub s) ! k)"
proof -
  obtain s where s: "lreach (push_step early_config [115]) (\<lambda>l. True) (start_system [sample_row]) s"
    "sy_rows s = [sample_row\<lparr>ow_published := True, ow_attempts := 1\<rparr>]" using pushed_run by blast
  let ?r = "sample_row\<lparr>ow_published := True, ow_attempts := 1\<rparr>"
  have row: "\<not> ow_published sample_row" "served_payload (ob_payload (ow_event ?r)) = early_event" "?r \<in> set (sy_rows s)" "ow_published ?r"
    using served_sample s(2) by (simp_all add: sample_row_def early_event_def event_payload_def)
  have "distinct (map row_id [sample_row])" "\<forall>r \<in> set [sample_row]. \<not> ow_published r" using row(1) by simp_all
  from published_means_pushed [OF s(1) this row(3,4), unfolded row(2)] s(1) row(3,4) show ?thesis
    by (elim exE conjE) (intro exI conjI, assumption+, rule bexI, assumption+)
qed

text \<open>
C36: A message in a group of at least 1700 members, each with a uuid of at least 36 characters, stops the whole outbox: the request for its event exceeds the 64 KiB the gateway
reads, the gateway refuses it, and each poll ends at this event.  In every continuation of the run, whatever the services answer,
the event stays unpublished, and so does every event of any conversation that is newer than it.
\<close>

theorem large_group_blocks_outbox:
  assumes "lreach (push_step cfg secret) (\<lambda>l. True) (start_system rows) s" "distinct (map row_id rows)" "\<forall>r \<in> set rows. \<not> ow_published r"
    and "w_phase (sy_worker s) = Idle" "x \<in> set (sy_rows s)" "\<not> ow_published x"
    and "ob_payload (ow_event x) = event_payload ev e m c n us" "1700 \<le> length us" "\<forall>u \<in> set us. 36 \<le> length u"
    and "lreach (push_step cfg secret) (\<lambda>l. True) s s'"
  shows "x \<in> set (sy_rows s') \<and>
    (\<forall>r \<in> set (sy_rows s'). ow_published r \<and> ow_created_at x < ow_created_at r \<longrightarrow> (\<exists>q \<in> set (sy_rows s). row_id q = row_id r \<and> ow_published q))"
proof -
  have "push_ok (start_system rows)"
    using assms(2,3) by (auto simp: push_ok_def outbox_ok_def start_system_def new_hub_ok)
  then have "outbox_ok s" using push_runs.inv_reach [OF assms(1)] by (simp add: push_ok_def)
  moreover define P where "P = row_id ` {q \<in> set (sy_rows s). ow_published q}"
  ultimately have "blocked x P s" using assms(4-6) by (auto simp: blocked_def outbox_ok_def)
  moreover have "maxFrameBytes < marshal_size (publish_body (served x))"
    by (rule large_group_size [of "served x" ev e m c n us]) (use assms(7-9) in \<open>simp_all add: served_def event_payload_def\<close>)
  ultimately have "blocked x P s'" using blocked_runs.inv_reach [OF assms(10)] by blast
  then show ?thesis by (fastforce simp: blocked_def P_def)
qed

theorem large_group_blocks_outbox_witness:
  "\<exists>s. lreach (push_step early_config [115]) (\<lambda>l. True) (start_system [sample_row, large_row]) s \<and> w_failures (sy_worker s) = 1 \<and>
     large_row \<in> set (sy_rows s) \<and> \<not> (\<exists>r \<in> set (sy_rows s). 1 < ow_created_at r \<and> ow_published r)"
proof -
  let ?start = "start_system [sample_row, large_row]"
  obtain s where s: "lreach (push_step early_config [115]) (\<lambda>l. True) ?start s" "w_failures (sy_worker s) = 1" using large_run by blast
  have x: "ob_payload (ow_event large_row) = event_payload ''message.created'' [102] [109] [99] 1 large_members"
    "\<not> ow_published large_row" "\<not> ow_published sample_row" "ow_created_at large_row = 1" "row_id large_row \<noteq> row_id sample_row"
    by (simp_all add: large_row_def sample_row_def row_id_def)
  have "sy_rows ?start = [sample_row, large_row]" "w_phase (sy_worker ?start) = Idle" by (simp_all add: start_system_def)
  then have "large_row \<in> set (sy_rows s) \<and> (\<forall>r \<in> set (sy_rows s). ow_published r \<and> ow_created_at large_row < ow_created_at r \<longrightarrow>
      (\<exists>q \<in> set (sy_rows ?start). row_id q = row_id r \<and> ow_published q))"
    using x large_members by (intro large_group_blocks_outbox [OF lreach.start _ _ _ _ _ x(1) _ _ s(1)]) auto
  then show ?thesis using s x \<open>sy_rows ?start = [sample_row, large_row]\<close> by auto
qed

end
