(* ===== verification/Outbox_Progress.thy ===== *)
theory Outbox_Progress
  imports Delivery_Worker
begin

text \<open>
  Progress of the outbox: as long as no request is lost and the gateway accepts the events, the worker cannot get stuck, and every
  run of the worker and of the gateway's deliveries publishes all rows.
\<close>

section \<open>The rows of a batch are unpublished\<close>

definition fresh :: "system \<Rightarrow> bool" where
  "fresh s \<longleftrightarrow> outbox_ok s \<and> distinct (map ob_id (w_batch (sy_worker s))) \<and>
     (\<forall>e \<in> set (w_batch (sy_worker s)). \<exists>r \<in> set (sy_rows s). served r = e \<and> \<not> ow_published r)"

lemma Outbox_distinct:
  assumes "distinct (map row_id rows)"
  shows "distinct (map ob_id (Outbox limit rows))"
proof -
  have "distinct (map row_id (sort_key ow_created_at (filter (\<lambda>r. \<not> ow_published r) rows)))"
    using assms by (simp add: distinct_map inj_on_def)
  moreover have "map ob_id (Outbox limit rows) =
      take (nat (if limit < 1 \<or> 500 < limit then 100 else limit)) (map row_id (sort_key ow_created_at (filter (\<lambda>r. \<not> ow_published r) rows)))"
    by (simp add: Outbox_def take_map)
  ultimately show ?thesis by (metis distinct_take)
qed

lemma fresh_polled: "fresh s \<Longrightarrow> fresh (poll_page s)"
  using Outbox_served [of 100 "sy_rows s"] Outbox_distinct [of "sy_rows s" 100]
  by (auto simp: fresh_def outbox_ok_def poll_page_def Let_def)

lemma fresh_error: "fresh s \<Longrightarrow> fresh (poll_error s)"
  by (simp add: fresh_def poll_error_ok)

lemma fresh_phase: "fresh s \<Longrightarrow> w_phase (sy_worker s) \<noteq> Idle \<Longrightarrow> p \<noteq> Idle \<Longrightarrow> fresh (set_phase p (s\<lparr>sy_hub := h\<rparr>))"
  by (simp add: fresh_def outbox_ok_def set_phase_def)

lemma fresh_publish: "fresh s \<Longrightarrow> w_phase (sy_worker s) = ToPublish \<Longrightarrow> fresh (publish cfg secret s)"
  by (auto simp: publish_def fresh_error fresh_phase split: sum.splits)

text \<open>An acknowledgement finds its row unpublished, and marks no other row of the batch.\<close>

lemma ack_status:
  assumes "fresh s" "w_batch (sy_worker s) \<noteq> []"
  shows "fst (AckOutbox (ob_id (hd (w_batch (sy_worker s)))) (sy_rows s)) = 200"
proof -
  from assms obtain r where "r \<in> set (sy_rows s)" "served r = hd (w_batch (sy_worker s))" "\<not> ow_published r"
    by (auto simp: fresh_def dest: hd_in_set)
  moreover from this have "row_id r = ob_id (hd (w_batch (sy_worker s)))" by (metis served_id)
  ultimately show ?thesis by (auto simp: AckOutbox_def list_ex_iff)
qed

lemma ack_False:
  assumes "fresh s" "w_phase (sy_worker s) = ToAck"
  defines "w \<equiv> sy_worker s"
  shows "ack False s = s\<lparr>sy_rows := map (mark (ob_id (hd (w_batch w)))) (sy_rows s), sy_worker := w\<lparr>w_batch := tl (w_batch w),
      w_phase := (if tl (w_batch w) = [] then Idle else ToPublish), w_published := Suc (w_published w)\<rparr>\<rparr>"
proof -
  have "w_batch w \<noteq> []" using assms by (auto simp: fresh_def outbox_ok_def)
  then show ?thesis using ack_status [OF assms(1)] AckOutbox_rows [of "ob_id (hd (w_batch w))" "sy_rows s"]
    by (auto simp: ack_def w_def Let_def split: prod.splits)
qed

lemma fresh_marked:
  assumes "fresh s" "w_phase (sy_worker s) = ToAck"
  shows "fresh (ack False s)"
proof -
  let ?w = "sy_worker s"
  obtain e es where b: "w_batch ?w = e # es" using assms by (cases "w_batch ?w") (auto simp: fresh_def outbox_ok_def)
  have "\<exists>r \<in> set (sy_rows s). served r = d \<and> \<not> ow_published (mark (ob_id e) r)" if d: "d \<in> set es" for d
  proof -
    obtain r where r: "r \<in> set (sy_rows s)" "served r = d" "\<not> ow_published r" using assms(1) b d by (auto simp: fresh_def)
    moreover have "ob_id d \<noteq> ob_id e" using assms(1) b d by (force simp: fresh_def)
    then have "row_id r \<noteq> ob_id e" using r(2) by auto
    ultimately show ?thesis by auto
  qed
  then show ?thesis using assms(1) b
    unfolding ack_False [OF assms] by (auto simp: fresh_def outbox_ok_def comp_def image_image)
qed

lemma fresh_ack:
  assumes "fresh s" "w_phase (sy_worker s) = ToAck"
  shows "fresh (ack lost s)"
proof (cases lost)
  case True
  have "fresh (poll_error (s\<lparr>sy_rows := map (mark k) (sy_rows s)\<rparr>))" for k
    using assms(1) by (simp add: fresh_def outbox_ok_def comp_def)
  then show ?thesis using True AckOutbox_rows [of "ob_id (hd (w_batch (sy_worker s)))" "sy_rows s"]
    by (auto simp: ack_def Let_def split: prod.splits)
next
  case False
  then show ?thesis using fresh_marked [OF assms] by simp
qed

lemma fresh_added: "fresh s \<Longrightarrow> row_id r \<notin> row_id ` set (sy_rows s) \<Longrightarrow> fresh (s\<lparr>sy_rows := sy_rows s @ [r]\<rparr>)"
  by (auto simp: fresh_def outbox_ok_def)

lemma fresh_moved:
  assumes "fresh s" "mset rows = mset (sy_rows s)"
  shows "fresh (s\<lparr>sy_rows := rows\<rparr>)"
proof -
  have "mset (map row_id rows) = mset (map row_id (sy_rows s))" using assms(2) by simp
  from mset_eq_imp_distinct_iff [OF this] mset_eq_setD [OF assms(2)] show ?thesis using assms(1) by (simp add: fresh_def outbox_ok_def)
qed

lemma fresh_step:
  assumes "fresh s" "push_step cfg secret l s s'"
  shows "fresh s'"
  using assms(2)
proof (cases rule: push_step.cases)
  case (ps_answered k)
  then show ?thesis using fresh_phase [OF assms(1), of ToAck "sy_hub s"] by simp
next
  case (ps_hub l' h)
  then show ?thesis using assms(1) by (simp add: fresh_def outbox_ok_def)
qed (use assms(1) in \<open>simp_all add: fresh_added fresh_moved fresh_polled fresh_error fresh_publish fresh_ack\<close>)

interpretation fresh_runs: inductive_invariant "push_step cfg secret" "\<lambda>l. True" fresh
  by unfold_locales (rule fresh_step)

section \<open>Runs without losses\<close>

text \<open>The steps of the worker and of the deliveries, without losses.\<close>

fun lossless :: "push_label \<Rightarrow> bool" where
  "lossless Polled = True"
| "lossless PublishSent = True"
| "lossless PublishAnswered = True"
| "lossless (AckSent lost) = (\<not> lost)"
| "lossless (HubRuns (Delivered k i)) = True"
| "lossless (HubRuns (DeliverAnswered k)) = True"
| "lossless _ = False"

definition unsent :: "system \<Rightarrow> bool" where
  "unsent s \<longleftrightarrow> (\<exists>r \<in> set (sy_rows s). \<not> ow_published r)"

definition deliverable :: "gateway_config \<Rightarrow> jstr \<Rightarrow> system \<Rightarrow> bool" where
  "deliverable cfg secret s \<longleftrightarrow> (\<forall>r \<in> set (sy_rows s). \<not> ow_published r \<longrightarrow> \<not> isl (deliver_check cfg (publish_request secret (served r))))"

text \<open>The measure of a lossless run: the rows to publish, the phase of the worker, and what the gateway has to do.\<close>

definition unpublished :: "system \<Rightarrow> nat" where
  "unpublished s = length (filter (\<lambda>r. \<not> ow_published r) (sy_rows s))"

fun phase_rank :: "phase \<Rightarrow> nat" where
  "phase_rank Idle = 3"
| "phase_rank ToPublish = 2"
| "phase_rank (Awaiting k) = 1"
| "phase_rank ToAck = 0"

definition job_work :: "job \<Rightarrow> nat" where
  "job_work j = length (jb_left j) + (if jb_answered j then 0 else 1)"

definition hub_work :: "hub \<Rightarrow> nat" where
  "hub_work h = sum_list (map job_work (h_jobs h))"

lemma hub_work_update: "k < length (h_jobs h) \<Longrightarrow> job_work (f (h_jobs h ! k)) < job_work (h_jobs h ! k) \<Longrightarrow> hub_work (update_job k f h) < hub_work h"
  using member_le_sum_list [of "job_work (h_jobs h ! k)" "map job_work (h_jobs h)"]
  by (auto simp: hub_work_def update_job_def map_update sum_list_update)

lemma hub_work_cong: "h_jobs h' = h_jobs h \<Longrightarrow> hub_work h' = hub_work h"
  by (simp add: hub_work_def)

lemma hub_work_delivered:
  assumes "k < length (h_jobs h)" "i \<in> set (jb_left (h_jobs h ! k))"
  shows "hub_work (deliver_one k i h) < hub_work h"
proof -
  let ?h1 = "update_conn i (\<lambda>c. snd (offer (Push (jb_payload (h_jobs h ! k))) c)) h"
  let ?f = "\<lambda>n j. j\<lparr>jb_left := remove1 i (jb_left j), jb_delivered := jb_delivered j + n\<rparr>"
  have "job_work (?f n (h_jobs h ! k)) < job_work (h_jobs h ! k)" for n
    using assms(2) by (auto simp: job_work_def length_remove1 simp del: One_nat_def dest: length_pos_if_in_set)
  then have "hub_work (update_job k (?f n) ?h1) < hub_work ?h1" for n using assms(1) by (intro hub_work_update) simp_all
  from this [of 0] this [of 1] show ?thesis by (simp add: deliver_one_def Let_def hub_work_cong [of ?h1 h] hub_work_cong [of "h_metrics_update _ _"])
qed

lemma hub_work_answered:
  assumes "k < length (h_jobs h)" "\<not> jb_answered (h_jobs h ! k)"
  shows "hub_work (deliver_answer k h) < hub_work h"
proof -
  have "hub_work (update_job k (\<lambda>j. j\<lparr>jb_answered := True\<rparr>) h) < hub_work h"
    using assms by (intro hub_work_update) (simp_all add: job_work_def)
  then show ?thesis by (simp add: deliver_answer_def hub_work_cong [of "h_metrics_update _ _"])
qed


inductive_simps hub_delivered_simp: "hub_step cfg (Delivered k i) h h'"
inductive_simps hub_answered_simp: "hub_step cfg (DeliverAnswered k) h h'"

definition run_measure :: "(system \<times> system) set" where
  "run_measure = measures [unpublished, \<lambda>s. phase_rank (w_phase (sy_worker s)), \<lambda>s. hub_work (sy_hub s)]"

lemma mark_length: "r \<in> set rows \<Longrightarrow> row_id r = k \<Longrightarrow> \<not> ow_published r \<Longrightarrow>
    length (filter (\<lambda>r. \<not> ow_published r) (map (mark k) rows)) < length (filter (\<lambda>r. \<not> ow_published r) rows)"
proof (induction rows)
  case (Cons q rows)
  have "length (filter (\<lambda>r. \<not> ow_published r) (map (mark k) rows)) \<le> length (filter (\<lambda>r. \<not> ow_published r) rows)" for rows
    by (induction rows) auto
  from this [of rows] Cons show ?case by (auto simp: less_Suc_eq_le)
qed simp

lemma batch_head:
  assumes "fresh s" "w_phase (sy_worker s) \<noteq> Idle"
  obtains r where "r \<in> set (sy_rows s)" "\<not> ow_published r" "hd (w_batch (sy_worker s)) = served r"
proof -
  have "w_batch (sy_worker s) \<noteq> []" using assms by (auto simp: fresh_def outbox_ok_def)
  then have "hd (w_batch (sy_worker s)) \<in> set (w_batch (sy_worker s))" by simp
  then show ?thesis using assms(1) that unfolding fresh_def by metis
qed

lemma page_nonempty:
  assumes "unsent s"
  shows "Outbox 100 (sy_rows s) \<noteq> []"
proof -
  have "length (Outbox 100 (sy_rows s)) = min (unpublished s) 100" by (simp add: Outbox_def unpublished_def)
  moreover have "0 < unpublished s" using assms by (auto simp: unpublished_def unsent_def filter_empty_conv)
  ultimately show ?thesis by auto
qed

lemma publish_accepted:
  assumes "fresh s" "w_phase (sy_worker s) = ToPublish" "deliverable cfg secret s"
  shows "sy_rows (publish cfg secret s) = sy_rows s" "phase_rank (w_phase (sy_worker (publish cfg secret s))) = 1"
proof -
  obtain r where "r \<in> set (sy_rows s)" "\<not> ow_published r" "hd (w_batch (sy_worker s)) = served r" using batch_head [OF assms(1)] assms(2) by auto
  then obtain t where "deliver_check cfg (publish_request secret (hd (w_batch (sy_worker s)))) = Inr t"
    using assms(3) by (cases "deliver_check cfg (publish_request secret (served r))") (auto simp: deliverable_def)
  then show "sy_rows (publish cfg secret s) = sy_rows s" "phase_rank (w_phase (sy_worker (publish cfg secret s))) = 1"
    by (cases t; simp add: publish_def set_phase_def)+
qed

lemma lossless_decreases:
  assumes "fresh s" "deliverable cfg secret s" "unsent s" "lossless l" "push_step cfg secret l s s'"
  shows "deliverable cfg secret s' \<and> (s', s) \<in> run_measure"
  using assms(5)
proof (cases rule: push_step.cases)
  case ps_polled
  then show ?thesis using assms(2) page_nonempty [OF assms(3)]
    by (simp add: run_measure_def unpublished_def deliverable_def poll_page_def Let_def)
next
  case ps_publish
  then show ?thesis using publish_accepted [OF assms(1) _ assms(2)] assms(2)
    by (simp add: run_measure_def unpublished_def deliverable_def)
next
  case (ps_answered k)
  then show ?thesis using assms(2) by (simp add: run_measure_def unpublished_def deliverable_def set_phase_def)
next
  case (ps_ack lost)
  then obtain r where r: "r \<in> set (sy_rows s)" "\<not> ow_published r" "hd (w_batch (sy_worker s)) = served r" using batch_head [OF assms(1)] by auto
  have "sy_rows s' = map (mark (row_id r)) (sy_rows s)" using ps_ack assms(4) ack_False [OF assms(1)] r(3) by simp
  then show ?thesis using mark_length [OF r(1) refl r(2)] assms(2) by (auto simp: run_measure_def unpublished_def deliverable_def)
next
  case (ps_hub l' h)
  have "hub_work h < hub_work (sy_hub s)"
    using ps_hub assms(4) by (cases l') (auto simp: hub_delivered_simp hub_answered_simp hub_work_delivered hub_work_answered)
  then show ?thesis using ps_hub assms(2) by (simp add: run_measure_def unpublished_def deliverable_def)
qed (use assms(4) in auto)

lemma lossless_enabled:
  assumes "push_ok s"
  shows "\<exists>l s'. lossless l \<and> push_step cfg secret l s s'"
proof (cases "w_phase (sy_worker s)")
  case (Awaiting k)
  let ?j = "h_jobs (sy_hub s) ! k"
  have k: "k < length (h_jobs (sy_hub s))" using assms Awaiting by (simp add: push_ok_def)
  consider "jb_answered ?j" | i where "i \<in> set (jb_left ?j)" | "\<not> jb_answered ?j" "jb_left ?j = []"
    by (meson last_in_set)
  then show ?thesis
  proof cases
    case 1
    then show ?thesis using ps_answered [OF Awaiting] lossless.simps(3) by blast
  next
    case (2 i)
    then show ?thesis using ps_hub [OF hs_delivered [OF k]] lossless.simps(5) by blast
  next
    case 3
    then show ?thesis using ps_hub [OF hs_answered [OF k]] lossless.simps(6) by blast
  qed
next
  case Idle
  then show ?thesis using ps_polled [of s cfg secret] lossless.simps(1) by blast
next
  case ToPublish
  then show ?thesis using ps_publish [of s cfg secret] lossless.simps(2) by blast
next
  case ToAck
  then show ?thesis using ps_ack [of s cfg secret False] lossless.simps(4) [of False] by blast
qed


section \<open>The outbox is drained\<close>

text \<open>
C4: While no request is lost and the gateway accepts the pending events, the outbox is drained: in every reachable state some
step of the worker or of a delivery is possible, and every sequence of such steps reaches a state in which all rows are published.
\<close>

theorem outbox_drains:
  assumes "lreach (push_step cfg secret) (\<lambda>l. True) (start_system rows) s" "distinct (map row_id rows)" "\<forall>r \<in> set rows. \<not> ow_published r"
    and "\<forall>r \<in> set (sy_rows s). \<not> ow_published r \<longrightarrow> \<not> isl (deliver_check cfg (publish_request secret (served r)))"
  shows "(\<exists>l s'. lossless l \<and> push_step cfg secret l s s') \<and>
    (\<forall>f. f 0 = s \<and> (\<forall>n. \<exists>l. lossless l \<and> push_step cfg secret l (f n) (f (Suc n))) \<longrightarrow> (\<exists>n. \<forall>r \<in> set (sy_rows (f n)). ow_published r))"
proof (intro conjI allI impI)
  have "push_ok (start_system rows)" "fresh (start_system rows)"
    using assms(2,3) by (auto simp: push_ok_def fresh_def outbox_ok_def start_system_def new_hub_ok)
  then have ok: "push_ok s" "fresh s" using push_runs.inv_reach [OF assms(1)] fresh_runs.inv_reach [OF assms(1)] by blast+
  show "\<exists>l s'. lossless l \<and> push_step cfg secret l s s'" by (rule lossless_enabled [OF ok(1)])
  fix f
  assume f: "f 0 = s \<and> (\<forall>n. \<exists>l. lossless l \<and> push_step cfg secret l (f n) (f (Suc n)))"
  show "\<exists>n. \<forall>r \<in> set (sy_rows (f n)). ow_published r"
  proof (rule ccontr)
    assume "\<nexists>n. \<forall>r \<in> set (sy_rows (f n)). ow_published r"
    then have p: "unsent (f n)" for n by (auto simp: unsent_def)
    have inv: "fresh (f n) \<and> deliverable cfg secret (f n)" for n
    proof (induction n)
      case 0
      then show ?case using f ok(2) assms(4) by (simp add: deliverable_def)
    next
      case (Suc n)
      then show ?case using f fresh_step lossless_decreases p by metis
    qed
    have "(f (Suc n), f n) \<in> run_measure" for n using f inv lossless_decreases p by metis
    moreover have "wf run_measure" by (simp add: run_measure_def)
    ultimately show False unfolding wf_iff_no_infinite_down_chain by blast
  qed
qed

text \<open>A run that never stops; once the outbox is empty the worker goes on polling.\<close>

lemma lossless_run:
  assumes "push_ok s"
  shows "\<exists>f. f 0 = s \<and> (\<forall>n. \<exists>l. lossless l \<and> push_step cfg secret l (f n) (f (Suc n)))"
proof -
  have "\<exists>f. \<forall>n. (push_ok (f n) \<and> (n = 0 \<longrightarrow> f n = s)) \<and> (\<exists>l. lossless l \<and> push_step cfg secret l (f n) (f (Suc n)))"
    by (rule dependent_nat_choice) (use assms lossless_enabled push_step_ok in blast)+
  then show ?thesis by blast
qed

theorem outbox_drains_witness:
  "\<exists>f. f 0 = start_system [sample_row] \<and> (\<forall>n. \<exists>l. lossless l \<and> push_step early_config [115] l (f n) (f (Suc n))) \<and>
     (\<exists>n. \<forall>r \<in> set (sy_rows (f n)). ow_published r)"
proof -
  let ?s = "start_system [sample_row]"
  have s: "\<not> ow_published sample_row" "sy_rows ?s = [sample_row]" by (simp_all add: sample_row_def start_system_def)
  then have "push_ok ?s" by (auto simp: push_ok_def outbox_ok_def start_system_def new_hub_ok)
  then obtain f where f: "f 0 = ?s" "\<forall>n. \<exists>l. lossless l \<and> push_step early_config [115] l (f n) (f (Suc n))" using lossless_run by blast
  have "\<exists>n. \<forall>r \<in> set (sy_rows (f n)). ow_published r"
    using outbox_drains [OF lreach.start, of "[sample_row]" early_config "[115]"] s f by (simp add: served_sample sample_accepted)
  with f show ?thesis by blast
qed

end
