(* ===== verification/Announce.thy ===== *)
theory Announce
  imports Hub
begin

text \<open>
  The message handlers (\<open>Backend\<close>) and what comes after them: the event that the transaction of a message leaves in the outbox is
  what the gateway service (\<open>Hub\<close>) and the SDK (\<open>Types\<close>) read it for.
\<close>

definition announces :: "message_row \<Rightarrow> outbox_event \<Rightarrow> bool" where
  "announces r e \<longleftrightarrow> ob_topic e = js ''message.created'' \<and>
     (\<exists>us. ob_payload e = event_payload ''message.created'' (ob_id e) (mr_id r) (mr_conversation_id r) (mr_sequence r) us)"

definition all_announced :: "database \<Rightarrow> bool" where
  "all_announced db \<longleftrightarrow> (\<forall>r \<in> set (db_messages db). \<exists>e \<in> set (db_outbox db). announces r e)"

lemma create_tx_announces:
  assumes "create_tx messageID eventID now p db = Inr (row, db')"
  shows "\<exists>e. announces row e \<and> db_outbox db' = db_outbox db @ [e] \<and> db_messages db' = db_messages db @ [row]"
  using assms
  by (auto simp: create_tx_def tx_then_def bump_sequence_def insert_message_def insert_idempotency_def insert_outbox_def Let_def announces_def
      split: option.splits sum.splits if_splits)

lemma commit_announces:
  assumes "all_announced db" "create_commit ids now f p db = (res, db')"
  shows "all_announced db'"
proof -
  have "db' = db \<or> (\<exists>m e row. create_tx m e now p db = Inr (row, db'))"
    using assms(2) by (auto simp: create_commit_def split: option.splits prod.splits sum.splits tx_error.splits fate.splits)
  then show ?thesis
    using assms(1) by (auto simp: all_announced_def dest!: create_tx_announces)
qed

text \<open>A moderation keeps the id, the conversation and the sequence of every row and adds an event.\<close>

lemma moderated_announces:
  assumes "all_announced db" "MarkMessageIllegal e f m db = (status, db')"
  shows "all_announced db'"
proof -
  have "db' = db \<or> (\<exists>i ev. db_messages db' = map (\<lambda>r. if mr_id r = i then r\<lparr>mr_is_illegal := True\<rparr> else r) (db_messages db) \<and>
      db_outbox db' = db_outbox db @ [ev])"
    using assms(2)
    by (auto simp: MarkMessageIllegal_def moderate_tx_def insert_outbox_def Let_def
        split: list.splits if_splits option.splits sum.splits fate.splits)
  moreover have keep: "announces (r\<lparr>mr_is_illegal := True\<rparr>) ev \<longleftrightarrow> announces r ev" for r ev
    by (simp add: announces_def)
  ultimately show ?thesis using assms(1) by (elim disjE exE conjE) (auto simp: all_announced_def keep)
qed

interpretation announcing: inductive_invariant "backend_step hash" "\<lambda>l. True" "\<lambda>w. all_announced (fst w)"
proof
  fix w l w' assume "all_announced (fst w)" "backend_step hash l w w'"
  from this(2,1) show "all_announced (fst w')"
  proof (induction rule: backend_step.induct)
    case (be_committed i ps ids now f db res db')
    then show ?case using commit_announces by simp
  next
    case (be_moderated e f m db status db' ps)
    then show ?case using moderated_announces by simp
  qed (simp_all add: all_announced_def)
qed

lemma event_of_payload:
  "event_of_json (event_payload name e m c n us) =
     \<lparr>ev_event_id = e, ev_event = js name, ev_message_id = Some m, ev_conversation_id = c, ev_sequence = Some n,
      ev_added_user_uuids = None, ev_removed_user_uuid = None, ev_targets = Some us\<rparr>"
  by (simp add: event_of_json_def event_payload_def string_field_def number_field_def json_strings_def)

text \<open>
C11: In every reachable state of the backend each stored message has its event in the outbox: the gateway service finds the event's targets, and
the SDK reads from it the event's id, the kind \<open>message.created\<close>, and the id, the conversation and the sequence of the message.
\<close>

theorem stored_messages_are_announced:
  assumes "lreach (backend_step hash) (\<lambda>l. True) (empty_db, []) (db, ps)" "r \<in> set (db_messages db)"
  shows "\<exists>e \<in> set (db_outbox db). \<exists>us. routing_targets (ob_payload e) = Some us \<and>
    event_of_json (ob_payload e) =
      \<lparr>ev_event_id = ob_id e, ev_event = js ''message.created'', ev_message_id = Some (mr_id r),
       ev_conversation_id = mr_conversation_id r, ev_sequence = Some (mr_sequence r),
       ev_added_user_uuids = None, ev_removed_user_uuid = None, ev_targets = Some us\<rparr>"
proof -
  have "all_announced db"
    using announcing.inv_reach [OF assms(1)] by (simp add: all_announced_def empty_db_def)
  then obtain e where "e \<in> set (db_outbox db)" "announces r e" using assms(2) by (auto simp: all_announced_def)
  then show ?thesis by (auto simp: announces_def routing_event_payload event_of_payload intro!: bexI [of _ e])
qed

text \<open>The message of the sample run of \<open>Backend\<close>.\<close>

theorem stored_messages_are_announced_witness:
  "\<exists>e \<in> set (db_outbox sample_stored). routing_targets (ob_payload e) \<noteq> None \<and> ev_message_id (event_of_json (ob_payload e)) = Some [109]"
proof -
  have "lreach (backend_step (\<lambda>_. [])) (\<lambda>l. True) (sample_db, []) (sample_stored, [])"
    using sample_run by (induction rule: lreach.induct) (auto intro: lreach.more)
  note reach = lreach_trans [OF this sample_reach]
  obtain r where r: "r \<in> set (db_messages sample_stored)" "mr_id r = [109]"
    by (simp add: sample_stored_def create_commit_def create_tx_def tx_then_def bump_sequence_def insert_message_def
      insert_idempotency_def insert_outbox_def Let_def sample_pending_def sample_db_def empty_db_def)
  from stored_messages_are_announced [OF reach r(1)] r(2) show ?thesis by auto
qed

end
