(* ===== verification/Members.thy ===== *)
theory Members
  imports Backend
begin

text \<open>
  Conversations and their members in the backend: \<open>CreateConversation\<close>, \<open>CreateGroup\<close> and \<open>findDirect\<close> of
  \<open>app/api/im_api/conversations.go\<close>, \<open>AddMembers\<close> and \<open>RemoveMember\<close> of \<open>app/api/im_api/members.go\<close>.

  Each handler first reads and then runs a transaction; other requests may come in between, so a handler is a check, which
  yields the arguments of the transaction (\<open>member_op\<close>), and the transaction.  As in \<open>Backend\<close>, a transaction is atomic and may fail
  or succeed unnoticed, and the unique indexes make insertions fail.  A read without \<open>ORDER BY\<close> yields the rows in the order of the
  table.  New ids and the clock are arguments.  Not modelled: the decoding of the requests, reads that fail, the times of conversations (and
  so \<open>ListConversations\<close>, which only sorts by them), avatars, and the answers beyond the conversation's id and the members.
\<close>

section \<open>Tables\<close>

record conversation_row =
  cv_id :: jstr
  cv_kind :: conversation_kind
  cv_title :: "jstr option"
  cv_created_by :: int

record member_row =
  me_conversation :: jstr
  me_user :: int
  me_role :: member_role
  me_joined_at :: int
  me_left :: bool

record member_db =
  md_users :: "(int \<times> jstr) list"
  md_conversations :: "conversation_row list"
  md_members :: "member_row list"
  md_direct :: "(jstr \<times> int \<times> int) list"
  md_outbox :: "outbox_event list"

definition empty_member_db :: member_db where
  "empty_member_db = \<lparr>md_users = [], md_conversations = [], md_members = [], md_direct = [], md_outbox = []\<rparr>"

datatype member_answer =
    Refused int int string
  | Conversation_Answer int jstr
  | Details_Answer jstr "(jstr \<times> member_role) list"

section \<open>Reads\<close>

text \<open>A Go map with the trimmed, non-empty uuids as its keys; \<open>strings.ToLower\<close> as far as the names of the kinds go.\<close>

definition uniqueUUIDs :: "jstr list \<Rightarrow> jstr list" where
  "uniqueUUIDs uuids = remdups (filter (\<lambda>u. u \<noteq> []) (map TrimSpace uuids))"

definition resolveUsers :: "member_db \<Rightarrow> jstr list \<Rightarrow> (int \<times> jstr) list" where
  "resolveUsers db uuids = filter (\<lambda>u. snd u \<in> set uuids) (md_users db)"

definition lower_unit :: "nat \<Rightarrow> nat" where
  "lower_unit c = (if 65 \<le> c \<and> c \<le> 90 then c + 32 else if c = 304 then 105 else if c = 8490 then 107 else c)"

definition kind_of_text :: "jstr \<Rightarrow> conversation_kind option" where
  "kind_of_text s = (let k = map lower_unit (TrimSpace s)
     in if k = js ''direct'' then Some Direct else if k = js ''group'' then Some Group else None)"

definition orderedPair :: "int \<Rightarrow> int \<Rightarrow> int \<times> int" where
  "orderedPair a b = (if b < a then (b, a) else (a, b))"

text \<open>The conversation of two users, when its row and its creator exist.\<close>

definition findDirect :: "member_db \<Rightarrow> int \<Rightarrow> int \<Rightarrow> jstr option" where
  "findDirect db a b =
     (case filter (\<lambda>d. snd d = orderedPair a b \<and>
         list_ex (\<lambda>c. cv_id c = fst d \<and> list_ex (\<lambda>u. fst u = cv_created_by c) (md_users db)) (md_conversations db)) (md_direct db) of
        d # _ \<Rightarrow> Some (fst d) | [] \<Rightarrow> None)"

definition memberRow :: "member_db \<Rightarrow> jstr \<Rightarrow> int \<Rightarrow> member_row option" where
  "memberRow db c u = find (\<lambda>m. me_conversation m = c \<and> me_user m = u) (md_members db)"

definition conversationRow :: "member_db \<Rightarrow> jstr \<Rightarrow> conversation_row option" where
  "conversationRow db c = find (\<lambda>r. cv_id r = c) (md_conversations db)"

definition loadCallerMembership :: "member_db \<Rightarrow> jstr \<Rightarrow> int \<Rightarrow> (conversation_kind \<times> member_role) option" where
  "loadCallerMembership db c u =
     (case (conversationRow db c, memberRow db c u) of
        (Some r, Some m) \<Rightarrow> if me_left m then None else Some (cv_kind r, me_role m)
      | _ \<Rightarrow> None)"

text \<open>The uuids of the active members.\<close>

definition active_uuids :: "member_db \<Rightarrow> jstr \<Rightarrow> jstr list" where
  "active_uuids db c = concat (map (\<lambda>m. if me_conversation m = c \<and> \<not> me_left m then map snd (filter (\<lambda>u. fst u = me_user m) (md_users db)) else [])
     (md_members db))"

definition role_rank :: "member_role \<Rightarrow> nat" where
  "role_rank r = (case r of Owner \<Rightarrow> 0 | Admin \<Rightarrow> 1 | Member \<Rightarrow> 2)"

text \<open>\<open>ORDER BY\<close> role, time of joining and user: the sort is stable.\<close>

definition loadActiveMembers :: "member_db \<Rightarrow> jstr \<Rightarrow> (jstr \<times> member_role) list" where
  "loadActiveMembers db c =
     concat (map (\<lambda>m. map (\<lambda>u. (snd u, me_role m)) (filter (\<lambda>u. fst u = me_user m) (md_users db)))
       (sort_key (\<lambda>m. role_rank (me_role m)) (sort_key me_joined_at (sort_key me_user
         (filter (\<lambda>m. me_conversation m = c \<and> \<not> me_left m) (md_members db))))))"

section \<open>The handlers that only read\<close>

definition GetConversation :: "member_db \<Rightarrow> int \<times> jstr \<Rightarrow> jstr \<Rightarrow> member_answer" where
  "GetConversation db user param =
     (let c = TrimSpace param
      in if byte_length c \<noteq> 26 then Refused 400 10003 ''Invalid conversation UUID''
         else case loadCallerMembership db c (fst user) of
             None \<Rightarrow> Refused 404 11001 ''Conversation not found''
           | Some _ \<Rightarrow> Details_Answer c (loadActiveMembers db c))"

definition GetDirectConversation :: "member_db \<Rightarrow> int \<times> jstr \<Rightarrow> jstr \<Rightarrow> member_answer" where
  "GetDirectConversation db user param =
     (let peerUUID = TrimSpace param
      in if peerUUID = [] then Refused 400 10003 ''Invalid user UUID''
         else case resolveUsers db [peerUUID] of
             [peer] \<Rightarrow>
               (case findDirect db (fst user) (fst peer) of
                  Some c \<Rightarrow> Conversation_Answer 200 c
                | None \<Rightarrow> Refused 404 11001 ''Conversation not found'')
           | _ \<Rightarrow> Refused 404 11001 ''Conversation not found'')"

section \<open>The checks of the handlers that write\<close>

datatype member_op =
    CreateOp int conversation_kind "jstr option" "int list"
  | AddOp jstr "(int \<times> jstr) list"
  | RemoveOp jstr int jstr

definition createConversation_check ::
  "member_db \<Rightarrow> int \<times> jstr \<Rightarrow> jstr \<Rightarrow> jstr option \<Rightarrow> jstr list \<Rightarrow> member_answer + member_op" where
  "createConversation_check db user kind title uuids =
     (case kind_of_text kind of
        None \<Rightarrow> Inl (Refused 400 10003 ''Conversation kind must be direct or group'')
      | Some k \<Rightarrow>
          let memberUUIDs = filter (\<lambda>u. u \<noteq> snd user) (uniqueUUIDs uuids); resolved = resolveUsers db memberUUIDs
          in if k = Direct \<and> length memberUUIDs \<noteq> 1 then Inl (Refused 400 10003 ''A direct conversation requires one other member'')
             else if k = Group \<and> memberUUIDs = [] then Inl (Refused 400 10003 ''A group requires at least one other member'')
             else if length resolved \<noteq> length memberUUIDs then Inl (Refused 400 10003 ''One or more members do not exist'')
             else (case (k, resolved) of
                 (Direct, m # _) \<Rightarrow>
                   (case findDirect db (fst user) (fst m) of
                      Some c \<Rightarrow> Inl (Conversation_Answer 200 c)
                    | None \<Rightarrow> Inr (CreateOp (fst user) k title (map fst resolved)))
               | _ \<Rightarrow> Inr (CreateOp (fst user) k title (map fst resolved))))"

definition AddMembers_check :: "member_db \<Rightarrow> int \<times> jstr \<Rightarrow> jstr \<Rightarrow> jstr list \<Rightarrow> member_answer + member_op" where
  "AddMembers_check db user param uuids =
     (let c = TrimSpace param; memberUUIDs = filter (\<lambda>u. u \<noteq> snd user) (uniqueUUIDs uuids); resolved = resolveUsers db memberUUIDs
      in if byte_length c \<noteq> 26 then Inl (Refused 400 10003 ''Invalid conversation UUID'')
         else if memberUUIDs = [] then Inl (Refused 400 10003 ''No members to add'')
         else case loadCallerMembership db c (fst user) of
             None \<Rightarrow> Inl (Refused 404 11001 ''Conversation not found'')
           | Some (kind, role) \<Rightarrow>
               if kind \<noteq> Group then Inl (Refused 400 10003 ''Members can only be added to group conversations'')
               else if role \<noteq> Owner \<and> role \<noteq> Admin then Inl (Refused 403 10005 ''Permission denied'')
               else if length resolved \<noteq> length memberUUIDs then Inl (Refused 400 10003 ''One or more members do not exist'')
               else Inr (AddOp c resolved))"

definition RemoveMember_check :: "member_db \<Rightarrow> int \<times> jstr \<Rightarrow> jstr \<Rightarrow> jstr \<Rightarrow> member_answer + member_op" where
  "RemoveMember_check db user param param2 =
     (let c = TrimSpace param; target = TrimSpace param2
      in if byte_length c \<noteq> 26 \<or> target = [] \<or> 64 < byte_length target then Inl (Refused 400 10003 ''Invalid conversation UUID or user UUID'')
         else if target = snd user then Inl (Refused 400 10003 ''Cannot remove yourself'')
         else case loadCallerMembership db c (fst user) of
             None \<Rightarrow> Inl (Refused 404 11001 ''Conversation not found'')
           | Some (kind, role) \<Rightarrow>
               if kind \<noteq> Group then Inl (Refused 400 10003 ''Members can only be removed from group conversations'')
               else if role \<noteq> Owner \<and> role \<noteq> Admin then Inl (Refused 403 10005 ''Permission denied'')
               else (case find (\<lambda>u. snd u = target) (md_users db) of
                   None \<Rightarrow> Inl (Details_Answer c (loadActiveMembers db c))
                 | Some u \<Rightarrow>
                     (case memberRow db c (fst u) of
                        None \<Rightarrow> Inl (Details_Answer c (loadActiveMembers db c))
                      | Some m \<Rightarrow>
                          if me_left m then Inl (Details_Answer c (loadActiveMembers db c))
                          else if me_role m = Owner then Inl (Refused 400 10003 ''Cannot remove the group owner'')
                          else if me_role m = Admin \<and> role \<noteq> Owner then Inl (Refused 403 10005 ''Only the owner can remove an admin'')
                          else Inr (RemoveOp c (fst u) target))))"

section \<open>The transactions\<close>

definition insert_conversation :: "conversation_row \<Rightarrow> member_db \<Rightarrow> tx_error + member_db" where
  "insert_conversation r db =
     (if conversationRow db (cv_id r) \<noteq> None then Inl TxFailed else Inr (db\<lparr>md_conversations := md_conversations db @ [r]\<rparr>))"

definition new_member :: "jstr \<Rightarrow> int \<Rightarrow> member_role \<Rightarrow> int \<Rightarrow> member_row" where
  "new_member c now role u = \<lparr>me_conversation = c, me_user = u, me_role = role, me_joined_at = now, me_left = False\<rparr>"

definition insert_member :: "jstr \<Rightarrow> int \<Rightarrow> member_role \<Rightarrow> int \<Rightarrow> member_db \<Rightarrow> tx_error + member_db" where
  "insert_member c now role u db =
     (if memberRow db c u \<noteq> None then Inl TxFailed
      else Inr (db\<lparr>md_members := md_members db @ [new_member c now role u]\<rparr>))"

fun insert_members :: "jstr \<Rightarrow> int \<Rightarrow> int list \<Rightarrow> member_db \<Rightarrow> tx_error + member_db" where
  "insert_members c now [] db = Inr db"
| "insert_members c now (u # us) db = tx_then (insert_member c now Member u db) (insert_members c now us)"

definition insert_direct :: "jstr \<Rightarrow> int \<times> int \<Rightarrow> member_db \<Rightarrow> tx_error + member_db" where
  "insert_direct c pair db =
     (if list_ex (\<lambda>d. fst d = c \<or> snd d = pair) (md_direct db) then Inl TxFailed
      else Inr (db\<lparr>md_direct := md_direct db @ [(c, pair)]\<rparr>))"

definition create_conversation_tx :: "jstr \<Rightarrow> int \<Rightarrow> int \<Rightarrow> conversation_kind \<Rightarrow> jstr option \<Rightarrow> int list \<Rightarrow> member_db \<Rightarrow> tx_error + member_db" where
  "create_conversation_tx c now user kind title members db =
     tx_then (insert_conversation \<lparr>cv_id = c, cv_kind = kind, cv_title = title, cv_created_by = user\<rparr> db) (\<lambda>db1.
     tx_then (insert_member c now (if kind = Direct then Member else Owner) user db1) (\<lambda>db2.
     tx_then (insert_members c now members db2) (\<lambda>db3.
     case (kind, members) of (Direct, m # _) \<Rightarrow> insert_direct c (orderedPair user m) db3 | _ \<Rightarrow> Inr db3)))"

text \<open>The loop over the members: insert, let return, or skip; the uuids that were added are collected.\<close>

fun add_members :: "jstr \<Rightarrow> int \<Rightarrow> (int \<times> jstr) list \<Rightarrow> member_db \<times> jstr list \<Rightarrow> member_db \<times> jstr list" where
  "add_members c now [] st = st"
| "add_members c now (m # ms) (db, added) =
     add_members c now ms
       (case memberRow db c (fst m) of
          None \<Rightarrow> (db\<lparr>md_members := md_members db @ [new_member c now Member (fst m)]\<rparr>, added @ [snd m])
        | Some r \<Rightarrow>
            if me_left r then
              (db\<lparr>md_members := map (\<lambda>q. if me_conversation q = c \<and> me_user q = fst m then q\<lparr>me_left := False, me_joined_at := now, me_role := Member\<rparr> else q) (md_members db)\<rparr>,
               added @ [snd m])
            else (db, added))"

definition member_event :: "string \<Rightarrow> jstr \<Rightarrow> jstr \<Rightarrow> jstr \<times> json \<Rightarrow> jstr list \<Rightarrow> outbox_event" where
  "member_event event eventID c what targets =
     \<lparr>ob_id = eventID, ob_topic = js event, ob_aggregate_id = c,
      ob_payload = JObj [(js ''event_id'', JStr eventID), (js ''event'', JStr (js event)), (js ''conversation_id'', JStr c), what,
        (js ''targets'', JObj [(js ''user_uuids'', json_strings targets)])]\<rparr>"

definition insert_event :: "outbox_event \<Rightarrow> member_db \<Rightarrow> tx_error + member_db" where
  "insert_event e db = (if list_ex (\<lambda>o'. ob_id o' = ob_id e) (md_outbox db) then Inl TxFailed else Inr (db\<lparr>md_outbox := md_outbox db @ [e]\<rparr>))"

definition add_tx :: "jstr \<Rightarrow> int \<Rightarrow> jstr \<Rightarrow> (int \<times> jstr) list \<Rightarrow> member_db \<Rightarrow> tx_error + member_db" where
  "add_tx eventID now c members db =
     (case add_members c now members (db, []) of
        (db1, added) \<Rightarrow>
          if added = [] then Inr db1
          else insert_event (member_event ''conversation.member_added'' eventID c (js ''added_user_uuids'', json_strings added) (active_uuids db1 c)) db1)"

definition remove_tx :: "jstr \<Rightarrow> jstr \<Rightarrow> int \<Rightarrow> jstr \<Rightarrow> member_db \<Rightarrow> tx_error + member_db" where
  "remove_tx eventID c u uuid db =
     (let db1 = db\<lparr>md_members := map (\<lambda>q. if me_conversation q = c \<and> me_user q = u then q\<lparr>me_left := True\<rparr> else q) (md_members db)\<rparr>
      in insert_event (member_event ''conversation.member_removed'' eventID c (js ''removed_user_uuid'', JStr uuid) (active_uuids db1 c @ [uuid])) db1)"

text \<open>The rest of a handler; \<open>fresh\<close> is the new id, \<open>None\<close> when \<open>NewULID\<close> fails.\<close>

definition settle :: "fate \<Rightarrow> member_db \<Rightarrow> tx_error + member_db \<Rightarrow> bool \<times> member_db" where
  "settle f db r = (case r of Inl _ \<Rightarrow> (False, db) | Inr db' \<Rightarrow> (case f of Committed \<Rightarrow> (True, db') | RolledBack \<Rightarrow> (False, db) | Unacknowledged \<Rightarrow> (False, db')))"

fun member_commit :: "jstr option \<Rightarrow> int \<Rightarrow> fate \<Rightarrow> member_op \<Rightarrow> member_db \<Rightarrow> member_answer \<times> member_db" where
  "member_commit None now f op db =
     (Refused 500 10000 (case op of CreateOp _ _ _ _ \<Rightarrow> ''Could not create conversation'' | AddOp _ _ \<Rightarrow> ''Could not add members''
        | RemoveOp _ _ _ \<Rightarrow> ''Could not remove member''), db)"
| "member_commit (Some i) now f (CreateOp user kind title members) db =
     (case settle f db (create_conversation_tx i now user kind title members db) of
        (True, db') \<Rightarrow> (Conversation_Answer 201 i, db')
      | (False, db') \<Rightarrow>
          ((case (kind, members) of
              (Direct, m # _) \<Rightarrow>
                (case findDirect db' user m of
                   Some c \<Rightarrow> Conversation_Answer 200 c
                 | None \<Rightarrow> Refused 500 10000 ''Could not create conversation'')
            | _ \<Rightarrow> Refused 500 10000 ''Could not create conversation''), db'))"
| "member_commit (Some i) now f (AddOp c members) db =
     (case settle f db (add_tx i now c members db) of
        (True, db') \<Rightarrow> (Details_Answer c (loadActiveMembers db' c), db')
      | (False, db') \<Rightarrow> (Refused 500 10000 ''Could not add members'', db'))"
| "member_commit (Some i) now f (RemoveOp c u uuid) db =
     (case settle f db (remove_tx i c u uuid db) of
        (True, db') \<Rightarrow> (Details_Answer c (loadActiveMembers db' c), db')
      | (False, db') \<Rightarrow> (Refused 500 10000 ''Could not remove member'', db'))"

section \<open>Concurrent requests\<close>

datatype member_request =
    Create_Request jstr "jstr option" "jstr list"
  | Add_Request jstr "jstr list"
  | Remove_Request jstr jstr

fun member_check :: "member_db \<Rightarrow> int \<times> jstr \<Rightarrow> member_request \<Rightarrow> member_answer + member_op" where
  "member_check db user (Create_Request kind title uuids) = createConversation_check db user kind title uuids"
| "member_check db user (Add_Request c uuids) = AddMembers_check db user c uuids"
| "member_check db user (Remove_Request c target) = RemoveMember_check db user c target"

datatype member_label =
    Request_Came "int \<times> jstr" member_request
  | Request_Settled nat "jstr option" int fate
  | User_Joined "int \<times> jstr"

text \<open>
  The requests whose transaction is still to come run in any order; accounts are created with a new id and a new uuid, as the
  columns' indexes demand.
\<close>

inductive member_step :: "member_label \<Rightarrow> member_db \<times> member_op list \<Rightarrow> member_db \<times> member_op list \<Rightarrow> bool" where
  ms_passed: "user \<in> set (md_users db) \<Longrightarrow> member_check db user req = Inr op \<Longrightarrow>
    member_step (Request_Came user req) (db, ops) (db, ops @ [op])"
| ms_refused: "user \<in> set (md_users db) \<Longrightarrow> member_check db user req = Inl answer \<Longrightarrow>
    member_step (Request_Came user req) (db, ops) (db, ops)"
| ms_settled: "i < length ops \<Longrightarrow> member_commit new now f (ops ! i) db = (answer, db') \<Longrightarrow>
    member_step (Request_Settled i new now f) (db, ops) (db', take i ops @ drop (Suc i) ops)"
| ms_joined: "fst u \<notin> fst ` set (md_users db) \<Longrightarrow> snd u \<notin> snd ` set (md_users db) \<Longrightarrow>
    member_step (User_Joined u) (db, ops) (db\<lparr>md_users := md_users db @ [u]\<rparr>, ops)"

inductive_cases member_stepE: "member_step l (db, ops) w"

section \<open>The state of the tables\<close>

text \<open>Who is in a conversation: user, role and whether the user has left.\<close>

type_synonym seat = "int \<times> member_role \<times> bool"

definition seat_of :: "member_row \<Rightarrow> seat" where
  "seat_of m = (me_user m, me_role m, me_left m)"

definition seats :: "member_db \<Rightarrow> jstr \<Rightarrow> seat list" where
  "seats db c = map seat_of (filter (\<lambda>m. me_conversation m = c) (md_members db))"

definition owners :: "member_db \<Rightarrow> jstr \<Rightarrow> seat list" where
  "owners db c = filter (\<lambda>s. fst (snd s) = Owner) (seats db c)"

definition member_keys :: "member_db \<Rightarrow> (jstr \<times> int) list" where
  "member_keys db = map (\<lambda>m. (me_conversation m, me_user m)) (md_members db)"

text \<open>
  A direct conversation has two active plain members, and is the one registered for the two; a group has one owner, who created it
  and has not left.
\<close>

definition conversation_ok :: "member_db \<Rightarrow> conversation_row \<Rightarrow> bool" where
  "conversation_ok db r =
     (case cv_kind r of
        Direct \<Rightarrow>
          (case seats db (cv_id r) of
             [s, t] \<Rightarrow> snd s = (Member, False) \<and> snd t = (Member, False) \<and> fst s \<noteq> fst t \<and>
               (cv_id r, orderedPair (fst s) (fst t)) \<in> set (md_direct db)
           | _ \<Rightarrow> False)
      | Group \<Rightarrow> owners db (cv_id r) = [(cv_created_by r, Owner, False)])"

definition members_ok :: "member_db \<Rightarrow> bool" where
  "members_ok db \<longleftrightarrow>
     distinct (map fst (md_users db)) \<and> distinct (map snd (md_users db)) \<and> distinct (map cv_id (md_conversations db)) \<and>
     distinct (member_keys db) \<and> distinct (map fst (md_direct db)) \<and> distinct (map snd (md_direct db)) \<and>
     (\<forall>r \<in> set (md_conversations db). conversation_ok db r \<and> cv_created_by r \<in> fst ` set (md_users db)) \<and>
     (\<forall>m \<in> set (md_members db). me_conversation m \<in> cv_id ` set (md_conversations db)) \<and>
     (\<forall>d \<in> set (md_direct db). fst d \<in> cv_id ` {r \<in> set (md_conversations db). cv_kind r = Direct})"

text \<open>What the check of a request leaves true until its transaction, whatever runs in between.\<close>

fun op_ok :: "member_db \<Rightarrow> member_op \<Rightarrow> bool" where
  "op_ok db (CreateOp u k t ms) \<longleftrightarrow> u \<in> fst ` set (md_users db) \<and> (k = Direct \<longrightarrow> length ms = 1)"
| "op_ok db (AddOp c ms) \<longleftrightarrow> (\<exists>r \<in> set (md_conversations db). cv_id r = c \<and> cv_kind r = Group)"
| "op_ok db (RemoveOp c u uuid) \<longleftrightarrow> (\<exists>r \<in> set (md_conversations db). cv_id r = c \<and> cv_kind r = Group \<and> cv_created_by r \<noteq> u)"

definition member_inv :: "member_db \<times> member_op list \<Rightarrow> bool" where
  "member_inv w \<longleftrightarrow> members_ok (fst w) \<and> list_all (op_ok (fst w)) (snd w)"

subsection \<open>Reading the tables\<close>

lemma memberRow_Some: "memberRow db c u = Some m \<Longrightarrow> m \<in> set (md_members db) \<and> me_conversation m = c \<and> me_user m = u"
  by (auto simp: memberRow_def find_Some_iff in_set_conv_nth)

lemma memberRow_None: "memberRow db c u = None \<longleftrightarrow> (c, u) \<notin> set (member_keys db)"
  by (auto simp: memberRow_def find_None_iff member_keys_def)

lemma conversationRow_Some: "conversationRow db c = Some r \<Longrightarrow> r \<in> set (md_conversations db) \<and> cv_id r = c"
  by (auto simp: conversationRow_def find_Some_iff in_set_conv_nth)

lemma conversationRow_None: "conversationRow db c = None \<longleftrightarrow> c \<notin> cv_id ` set (md_conversations db)"
  by (auto simp: conversationRow_def find_None_iff)

lemma conversation_ok_mono:
  "conversation_ok db r \<Longrightarrow> seats db' (cv_id r) = seats db (cv_id r) \<Longrightarrow> set (md_direct db) \<subseteq> set (md_direct db') \<Longrightarrow> conversation_ok db' r"
  by (auto simp: conversation_ok_def owners_def split: conversation_kind.splits list.splits)

lemma caller_conversation:
  "loadCallerMembership db c u = Some (kind, role) \<Longrightarrow> \<exists>r \<in> set (md_conversations db). cv_id r = c \<and> cv_kind r = kind"
  by (auto simp: loadCallerMembership_def split: option.splits if_splits dest!: conversationRow_Some)

lemma orderedPair_sym: "orderedPair a b = orderedPair b a"
  by (simp add: orderedPair_def)

lemma same_key_same_row:
  "distinct (member_keys db) \<Longrightarrow> m \<in> set (md_members db) \<Longrightarrow> m' \<in> set (md_members db) \<Longrightarrow>
   me_conversation m = me_conversation m' \<Longrightarrow> me_user m = me_user m' \<Longrightarrow> m = m'"
  by (auto simp: member_keys_def distinct_map inj_on_def)

lemma owner_row:
  assumes "members_ok db" "r \<in> set (md_conversations db)" "cv_kind r = Group" "m \<in> set (md_members db)" "me_conversation m = cv_id r"
  shows "me_role m = Owner \<longleftrightarrow> me_user m = cv_created_by r" and "me_role m = Owner \<Longrightarrow> \<not> me_left m"
proof -
  have own: "owners db (cv_id r) = [(cv_created_by r, Owner, False)]"
    using assms(1-3) by (auto simp: members_ok_def conversation_ok_def)
  have seat: "seat_of m \<in> set (seats db (cv_id r))" using assms(4,5) by (auto simp: seats_def)
  then have *: "me_role m = Owner \<Longrightarrow> seat_of m = (cv_created_by r, Owner, False)"
  proof -
    assume "me_role m = Owner"
    with seat have "seat_of m \<in> set (owners db (cv_id r))" by (simp add: owners_def seat_of_def)
    with own show ?thesis by simp
  qed
  then show "me_role m = Owner \<Longrightarrow> \<not> me_left m" by (simp add: seat_of_def)
  have "(cv_created_by r, Owner, False) \<in> set (owners db (cv_id r))" using own by simp
  then have "(cv_created_by r, Owner, False) \<in> set (seats db (cv_id r))" by (simp add: owners_def)
  then obtain m' where m': "m' \<in> set (md_members db)" "me_conversation m' = cv_id r" "seat_of m' = (cv_created_by r, Owner, False)"
    by (auto simp: seats_def)
  have "me_user m = cv_created_by r \<Longrightarrow> m = m'"
    by (rule same_key_same_row [of db]) (use assms m' in \<open>auto simp: members_ok_def seat_of_def\<close>)
  with * m'(3) show "me_role m = Owner \<longleftrightarrow> me_user m = cv_created_by r" by (auto simp: seat_of_def)
qed

subsection \<open>The checks\<close>

lemma resolved_users: "set (resolveUsers db uuids) \<subseteq> set (md_users db)"
  by (auto simp: resolveUsers_def)

lemma create_check_ok: "createConversation_check db user kind title uuids = Inr op \<Longrightarrow> user \<in> set (md_users db) \<Longrightarrow> op_ok db op"
  by (auto simp: createConversation_check_def Let_def split: option.splits if_splits conversation_kind.splits list.splits)

lemma add_check_ok: "AddMembers_check db user c uuids = Inr op \<Longrightarrow> op_ok db op"
  by (auto simp: AddMembers_check_def Let_def split: option.splits if_splits; blast dest: caller_conversation)

lemma remove_check_ok:
  assumes "members_ok db" "RemoveMember_check db user c target = Inr op"
  shows "op_ok db op"
proof -
  obtain c' u m kind role where op: "op = RemoveOp c' (fst u) (TrimSpace target)" "memberRow db c' (fst u) = Some m" "me_role m \<noteq> Owner"
      "loadCallerMembership db c' (fst user) = Some (kind, role)" "kind = Group"
    using assms(2) by (auto simp: RemoveMember_check_def Let_def split: option.splits if_splits)
  then obtain r where r: "r \<in> set (md_conversations db)" "cv_id r = c'" "cv_kind r = Group"
    using caller_conversation by blast
  have "cv_created_by r \<noteq> fst u"
    using owner_row(1) [OF assms(1) r(1,3), of m] memberRow_Some [OF op(2)] r(2) op(3) by auto
  with op(1) r show ?thesis by auto
qed

lemma check_ok: "members_ok db \<Longrightarrow> user \<in> set (md_users db) \<Longrightarrow> member_check db user req = Inr op \<Longrightarrow> op_ok db op"
  by (cases req) (auto dest: create_check_ok add_check_ok remove_check_ok)

subsection \<open>Changes within one group\<close>

text \<open>
  A change of the members of the group \<open>c\<close>: all other tables and conversations and the owners of \<open>c\<close> stay.
\<close>

definition group_change :: "jstr \<Rightarrow> member_db \<Rightarrow> member_db \<Rightarrow> bool" where
  "group_change c db db' \<longleftrightarrow>
     md_users db' = md_users db \<and> md_conversations db' = md_conversations db \<and> md_direct db' = md_direct db \<and>
     (\<forall>c'. c' \<noteq> c \<longrightarrow> seats db' c' = seats db c') \<and> owners db' c = owners db c \<and> distinct (member_keys db') \<and>
     me_conversation ` set (md_members db') \<subseteq> insert c (me_conversation ` set (md_members db))"

lemma group_change_refl: "distinct (member_keys db) \<Longrightarrow> group_change c db db"
  by (auto simp: group_change_def)

lemma group_change_trans: "group_change c db db' \<Longrightarrow> group_change c db' db'' \<Longrightarrow> group_change c db db''"
  unfolding group_change_def by simp blast

lemma group_change_ok:
  assumes "members_ok db" "group_change c db db'" "r \<in> set (md_conversations db)" "cv_id r = c" "cv_kind r = Group"
  shows "members_ok db'"
proof -
  have "conversation_ok db' q" if q: "q \<in> set (md_conversations db)" for q
  proof (cases "cv_id q = c")
    case True
    then have "q = r" using assms q by (auto simp: members_ok_def distinct_map inj_on_def)
    then show ?thesis using assms q by (auto simp: members_ok_def conversation_ok_def group_change_def)
  next
    case False
    show ?thesis
      by (rule conversation_ok_mono [of db]) (use False assms(1,2) q in \<open>auto simp: members_ok_def group_change_def\<close>)
  qed
  with assms show ?thesis by (auto simp: members_ok_def group_change_def)
qed

lemma insert_event_frame:
  "insert_event e db = Inr db' \<Longrightarrow> md_users db' = md_users db \<and> md_conversations db' = md_conversations db \<and>
     md_members db' = md_members db \<and> md_direct db' = md_direct db"
  by (auto simp: insert_event_def split: if_splits)

lemma group_change_event: "group_change c db db1 \<Longrightarrow> insert_event e db1 = Inr db' \<Longrightarrow> group_change c db db'"
  by (drule insert_event_frame) (simp add: group_change_def seats_def owners_def member_keys_def)

text \<open>Rewriting the row of one member of \<open>c\<close>, which is not and does not become an owner's.\<close>

definition rewrite_row :: "jstr \<Rightarrow> int \<Rightarrow> (member_row \<Rightarrow> member_row) \<Rightarrow> member_db \<Rightarrow> member_db" where
  "rewrite_row c u f db = db\<lparr>md_members := map (\<lambda>q. if me_conversation q = c \<and> me_user q = u then f q else q) (md_members db)\<rparr>"

lemma group_change_rewrite:
  assumes "distinct (member_keys db)" "\<And>q. me_conversation (f q) = me_conversation q" "\<And>q. me_user (f q) = me_user q"
    and plain: "\<And>q. q \<in> set (md_members db) \<Longrightarrow> me_conversation q = c \<Longrightarrow> me_user q = u \<Longrightarrow> me_role q \<noteq> Owner \<and> me_role (f q) \<noteq> Owner"
  shows "group_change c db (rewrite_row c u f db)"
proof -
  let ?g = "\<lambda>q. if me_conversation q = c \<and> me_user q = u then f q else q"
  have keys: "member_keys (rewrite_row c u f db) = member_keys db"
    using assms(2,3) by (auto simp: rewrite_row_def member_keys_def)
  have other: "filter (\<lambda>m. me_conversation m = c') (map ?g xs) = filter (\<lambda>m. me_conversation m = c') xs" if "c' \<noteq> c" for c' xs
    using that assms(2) by (induction xs) auto
  have own: "filter (\<lambda>s. fst (snd s) = Owner) (map seat_of (filter (\<lambda>m. me_conversation m = c) (map ?g xs))) =
      filter (\<lambda>s. fst (snd s) = Owner) (map seat_of (filter (\<lambda>m. me_conversation m = c) xs))" if "set xs \<subseteq> set (md_members db)" for xs
    using that by (induction xs) (use plain assms(2) in \<open>auto simp: seat_of_def\<close>)
  show ?thesis unfolding group_change_def keys
    using assms(1) other own [of "md_members db"] assms(2) by (auto simp: rewrite_row_def seats_def owners_def)
qed

lemma group_change_insert:
  "distinct (member_keys db) \<Longrightarrow> memberRow db c u = None \<Longrightarrow>
   group_change c db (db\<lparr>md_members := md_members db @ [new_member c now Member u]\<rparr>)"
  unfolding memberRow_None
  by (auto simp: group_change_def seats_def owners_def member_keys_def new_member_def seat_of_def)

lemma add_members_change:
  assumes "distinct (member_keys db)" "\<forall>s \<in> set (owners db c). \<not> snd (snd s)"
  shows "group_change c db (fst (add_members c now ms (db, added)))"
  using assms
proof (induction ms arbitrary: db added)
  case Nil
  then show ?case by (simp add: group_change_refl)
next
  case (Cons m ms)
  define st where "st = (case memberRow db c (fst m) of
      None \<Rightarrow> (db\<lparr>md_members := md_members db @ [new_member c now Member (fst m)]\<rparr>, added @ [snd m])
    | Some r \<Rightarrow> if me_left r then (rewrite_row c (fst m) (\<lambda>q. q\<lparr>me_left := False, me_joined_at := now, me_role := Member\<rparr>) db, added @ [snd m])
        else (db, added))"
  have step: "add_members c now (m # ms) (db, added) = add_members c now ms (fst st, snd st)"
    by (simp add: st_def rewrite_row_def cong: if_cong option.case_cong)
  have first: "group_change c db (fst st)"
  proof (cases "memberRow db c (fst m)")
    case None
    then show ?thesis using group_change_insert [OF Cons.prems(1)] by (simp add: st_def)
  next
    case (Some r)
    note row = memberRow_Some [OF Some]
    have plain: "me_role q \<noteq> Owner" if q: "q \<in> set (md_members db)" "me_conversation q = c" "me_user q = fst m" "me_left r" for q
    proof -
      have "q = r" by (rule same_key_same_row [OF Cons.prems(1)]) (use q row in auto)
      moreover have "seat_of r \<in> set (seats db c)" using row by (auto simp: seats_def)
      ultimately show ?thesis using Cons.prems(2) q(4) by (force simp: owners_def seat_of_def)
    qed
    have "group_change c db (rewrite_row c (fst m) (\<lambda>q. q\<lparr>me_left := False, me_joined_at := now, me_role := Member\<rparr>) db)" if "me_left r"
      by (rule group_change_rewrite) (use Cons.prems(1) plain that in auto)
    moreover have "group_change c db db" using Cons.prems(1) by (rule group_change_refl)
    ultimately show ?thesis using Some by (auto simp: st_def)
  qed
  moreover from first have "group_change c (fst st) (fst (add_members c now ms (fst st, snd st)))"
    by (intro Cons.IH) (use Cons.prems in \<open>auto simp: group_change_def\<close>)
  ultimately show ?case unfolding step by (rule group_change_trans)
qed

lemma add_tx_change:
  assumes "members_ok db" "op_ok db (AddOp c ms)" "add_tx i now c ms db = Inr db'"
  shows "group_change c db db'"
proof -
  obtain r where r: "r \<in> set (md_conversations db)" "cv_id r = c" "cv_kind r = Group" using assms(2) by auto
  have "owners db c = [(cv_created_by r, Owner, False)]" using assms(1) r by (auto simp: members_ok_def conversation_ok_def)
  then have "group_change c db (fst (add_members c now ms (db, [])))"
    using assms(1) by (intro add_members_change) (auto simp: members_ok_def)
  then show ?thesis
    using assms(3) by (auto simp: add_tx_def split: prod.splits if_splits intro: group_change_event)
qed

lemma remove_tx_change:
  assumes "members_ok db" "op_ok db (RemoveOp c u uuid)" "remove_tx i c u uuid db = Inr db'"
  shows "group_change c db db'"
proof -
  obtain r where r: "r \<in> set (md_conversations db)" "cv_id r = c" "cv_kind r = Group" "cv_created_by r \<noteq> u" using assms(2) by auto
  have "group_change c db (rewrite_row c u (\<lambda>q. q\<lparr>me_left := True\<rparr>) db)"
    by (rule group_change_rewrite) (use assms(1) r owner_row(1) [OF assms(1) r(1,3)] in \<open>auto simp: members_ok_def\<close>)
  then show ?thesis
    using assms(3) by (auto simp: remove_tx_def Let_def rewrite_row_def intro: group_change_event)
qed

subsection \<open>A new conversation\<close>

lemma insert_members_Inr:
  "insert_members c now us db = Inr db' \<Longrightarrow> distinct (member_keys db) \<Longrightarrow>
   db' = db\<lparr>md_members := md_members db @ map (new_member c now Member) us\<rparr> \<and> distinct (member_keys db')"
proof (induction us arbitrary: db)
  case (Cons u us)
  then obtain db1 where "insert_member c now Member u db = Inr db1" "insert_members c now us db1 = Inr db'"
    by (auto simp: tx_then_def split: sum.splits)
  moreover from this(1) Cons.prems(2) have "db1 = db\<lparr>md_members := md_members db @ [new_member c now Member u]\<rparr> \<and> distinct (member_keys db1)"
    by (auto simp: insert_member_def memberRow_None member_keys_def new_member_def split: if_splits)
  ultimately show ?case using Cons.IH [of db1] by auto
qed simp

text \<open>All the rows a creation adds.\<close>

definition founding_rows :: "jstr \<Rightarrow> int \<Rightarrow> int \<Rightarrow> conversation_kind \<Rightarrow> int list \<Rightarrow> member_row list" where
  "founding_rows c now user kind ms = new_member c now (if kind = Direct then Member else Owner) user # map (new_member c now Member) ms"

lemma create_conversation_Inr:
  assumes "create_conversation_tx c now user kind title ms db = Inr db'" "distinct (member_keys db)" "kind = Direct \<longrightarrow> length ms = 1"
  shows "c \<notin> cv_id ` set (md_conversations db) \<and> distinct (member_keys db') \<and> md_users db' = md_users db \<and>
    md_conversations db' = md_conversations db @ [\<lparr>cv_id = c, cv_kind = kind, cv_title = title, cv_created_by = user\<rparr>] \<and>
    md_members db' = md_members db @ founding_rows c now user kind ms \<and>
    (if kind = Direct then c \<notin> fst ` set (md_direct db) \<and> orderedPair user (hd ms) \<notin> snd ` set (md_direct db) \<and>
       md_direct db' = md_direct db @ [(c, orderedPair user (hd ms))] else md_direct db' = md_direct db)"
proof -
  let ?row = "\<lparr>cv_id = c, cv_kind = kind, cv_title = title, cv_created_by = user\<rparr>"
  let ?role = "if kind = Direct then Member else Owner"
  obtain db1 db2 db3 where tx: "insert_conversation ?row db = Inr db1" "insert_member c now ?role user db1 = Inr db2"
      "insert_members c now ms db2 = Inr db3"
      "(case (kind, ms) of (Direct, m # _) \<Rightarrow> insert_direct c (orderedPair user m) db3 | _ \<Rightarrow> Inr db3) = Inr db'"
    using assms(1) unfolding create_conversation_tx_def tx_then_def by (auto split: sum.splits)
  have 1: "c \<notin> cv_id ` set (md_conversations db)" "db1 = db\<lparr>md_conversations := md_conversations db @ [?row]\<rparr>"
    using tx(1) by (auto simp: insert_conversation_def conversationRow_None split: if_splits)
  have 2: "db2 = db1\<lparr>md_members := md_members db1 @ [new_member c now ?role user]\<rparr>" "distinct (member_keys db2)"
    using tx(2) assms(2) 1(2) by (auto simp: insert_member_def memberRow_None member_keys_def new_member_def split: if_splits)
  note 3 = insert_members_Inr [OF tx(3) 2(2)]
  have "md_direct db3 = md_direct db" using 1 2 3 by simp
  then have 4: "md_users db' = md_users db3 \<and> md_conversations db' = md_conversations db3 \<and> md_members db' = md_members db3 \<and>
      (if kind = Direct then c \<notin> fst ` set (md_direct db) \<and> orderedPair user (hd ms) \<notin> snd ` set (md_direct db) \<and>
         md_direct db' = md_direct db @ [(c, orderedPair user (hd ms))] else md_direct db' = md_direct db)"
    using tx(4) assms(3)
    by (cases kind) (auto simp: insert_direct_def list_ex_iff length_Suc_conv split: if_splits list.splits)
  then have "member_keys db' = member_keys db3" by (simp add: member_keys_def)
  then have "distinct (member_keys db')" using conjunct2 [OF 3] by (simp only:)
  with 1 2(1) 3 4 show ?thesis by (simp add: founding_rows_def)
qed

lemma seats_append: "md_members db' = md_members db @ rows \<Longrightarrow>
    seats db' c = seats db c @ map seat_of (filter (\<lambda>m. me_conversation m = c) rows)"
  by (simp add: seats_def)

lemma seats_of_founding:
  "map seat_of (filter (\<lambda>m. me_conversation m = c') (founding_rows c now user kind ms)) =
     (if c' = c then (user, if kind = Direct then Member else Owner, False) # map (\<lambda>u. (u, Member, False)) ms else [])"
  by (auto simp: founding_rows_def new_member_def seat_of_def comp_def filter_map)

lemma founding_keys:
  "distinct (member_keys db') \<Longrightarrow> md_members db' = md_members db @ founding_rows c now user kind ms \<Longrightarrow> distinct (user # ms)"
  by (auto simp: member_keys_def founding_rows_def new_member_def distinct_map)

lemma create_tx_ok:
  assumes ok: "members_ok db" and op: "op_ok db (CreateOp user kind title ms)"
    and tx: "create_conversation_tx c now user kind title ms db = Inr db'"
  shows "members_ok db'"
proof -
  let ?row = "\<lparr>cv_id = c, cv_kind = kind, cv_title = title, cv_created_by = user\<rparr>"
  have *: "c \<notin> cv_id ` set (md_conversations db)" "distinct (member_keys db')" "md_users db' = md_users db"
      "md_conversations db' = md_conversations db @ [?row]" "md_members db' = md_members db @ founding_rows c now user kind ms"
      "if kind = Direct then c \<notin> fst ` set (md_direct db) \<and> orderedPair user (hd ms) \<notin> snd ` set (md_direct db) \<and>
         md_direct db' = md_direct db @ [(c, orderedPair user (hd ms))] else md_direct db' = md_direct db"
    using create_conversation_Inr [OF tx] ok op by (auto simp: members_ok_def)
  note seats' = seats_append [OF *(5)] seats_of_founding
  have fresh: "seats db c = []"
    using ok *(1) by (auto simp: members_ok_def seats_def filter_empty_conv)
  have old: "conversation_ok db' r" if r: "r \<in> set (md_conversations db)" for r
  proof (rule conversation_ok_mono [of db])
    show "conversation_ok db r" using ok r by (simp add: members_ok_def)
    show "seats db' (cv_id r) = seats db (cv_id r)" using r *(1) by (auto simp: seats')
    show "set (md_direct db) \<subseteq> set (md_direct db')" using *(6) by (auto split: if_splits)
  qed
  have direct: "\<exists>m. ms = [m] \<and> m \<noteq> user" if "kind = Direct"
  proof -
    have "length ms = 1" using that op by simp
    then obtain m where "ms = [m]" by (cases ms) auto
    then show ?thesis using founding_keys [OF *(2,5)] by auto
  qed
  have plain: "filter (\<lambda>s. fst (snd s) = Owner) (map (\<lambda>u. (u, Member, False)) xs) = []" for xs :: "int list"
    by (simp add: filter_empty_conv)
  have new: "conversation_ok db' ?row"
    using direct *(6) fresh plain by (cases kind) (auto simp: conversation_ok_def owners_def seats')
  have "me_conversation m = c" if "m \<in> set (founding_rows c now user kind ms)" for m
    using that by (auto simp: founding_rows_def new_member_def)
  moreover have "fst d \<in> cv_id ` {r \<in> set (md_conversations db'). cv_kind r = Direct}" if d: "d \<in> set (md_direct db')" for d
  proof (cases "d \<in> set (md_direct db)")
    case True
    then show ?thesis using ok *(4) by (fastforce simp: members_ok_def)
  next
    case False
    then have "kind = Direct" "fst d = c" using d *(6) by (auto split: if_splits)
    then show ?thesis using *(4) by (intro rev_image_eqI [of ?row]) simp_all
  qed
  ultimately show ?thesis
    unfolding members_ok_def using ok op old new *
    by (cases kind) (simp_all add: members_ok_def ball_Un)
qed

lemma settle_cases: "settle f db r = (b, db') \<Longrightarrow> db' = db \<or> (\<exists>d. r = Inr d \<and> db' = d)"
  by (auto simp: settle_def split: sum.splits fate.splits)

text \<open>What the settling of a request may change of the tables.\<close>

lemma commit_cases:
  assumes "members_ok db" "op_ok db op" "member_commit new now f op db = (answer, db')"
  shows "db' = db \<or> (\<exists>c user kind title ms. op = CreateOp user kind title ms \<and> create_conversation_tx c now user kind title ms db = Inr db') \<or>
    (\<exists>c r. r \<in> set (md_conversations db) \<and> cv_id r = c \<and> cv_kind r = Group \<and> group_change c db db')"
proof (cases "(new, now, f, op, db)" rule: member_commit.cases)
  case (2 i now f user kind title ms db)
  then show ?thesis using assms(3) by (auto split: prod.splits bool.splits dest!: settle_cases)
next
  case (3 i now f c ms db)
  then show ?thesis
    using assms by (auto split: prod.splits bool.splits dest!: settle_cases add_tx_change [rotated 2])
next
  case (4 i now f c u uuid db)
  then show ?thesis
    using assms by (auto split: prod.splits bool.splits dest!: settle_cases remove_tx_change [rotated 2])
qed (use assms(3) in auto)

lemma commit_ok:
  assumes "members_ok db" "op_ok db op" "member_commit new now f op db = (answer, db')"
  shows "members_ok db'"
  using commit_cases [OF assms] assms(1,2) by (auto intro: create_tx_ok group_change_ok)

subsection \<open>All runs\<close>

lemma op_ok_mono:
  "op_ok db op \<Longrightarrow> set (md_users db) \<subseteq> set (md_users db') \<Longrightarrow> set (md_conversations db) \<subseteq> set (md_conversations db') \<Longrightarrow> op_ok db' op"
  by (cases op) auto

text \<open>Accounts, conversations and the pairs of the direct ones only ever become more.\<close>

definition tables_grow :: "member_db \<Rightarrow> member_db \<Rightarrow> bool" where
  "tables_grow db db' \<longleftrightarrow> set (md_users db) \<subseteq> set (md_users db') \<and> set (md_conversations db) \<subseteq> set (md_conversations db') \<and>
     set (md_direct db) \<subseteq> set (md_direct db')"

lemma commit_grows:
  assumes "members_ok db" "op_ok db op" "member_commit new now f op db = (answer, db')"
  shows "tables_grow db db'"
  using commit_cases [OF assms]
proof (elim disjE exE conjE)
  fix c user kind title ms
  assume "op = CreateOp user kind title ms" "create_conversation_tx c now user kind title ms db = Inr db'"
  then show ?thesis
    using create_conversation_Inr [of c now user kind title ms db db'] assms(1,2)
    by (auto simp: tables_grow_def members_ok_def split: if_splits)
qed (auto simp: tables_grow_def group_change_def)

lemma users_grow_ok:
  assumes "members_ok db" "fst u \<notin> fst ` set (md_users db)" "snd u \<notin> snd ` set (md_users db)"
  shows "members_ok (db\<lparr>md_users := md_users db @ [u]\<rparr>)"
proof -
  let ?db = "db\<lparr>md_users := md_users db @ [u]\<rparr>"
  have "conversation_ok ?db r" if "conversation_ok db r" for r
    by (rule conversation_ok_mono [OF that]) (simp_all add: seats_def)
  with assms show ?thesis by (auto simp: members_ok_def member_keys_def)
qed


lemma member_inv_step:
  assumes inv: "member_inv w" and step: "member_step l w w'"
  shows "member_inv w' \<and> tables_grow (fst w) (fst w')"
  using step
proof cases
  case (ms_passed user db req op ops)
  then show ?thesis using inv by (auto simp: member_inv_def tables_grow_def intro: check_ok)
next
  case (ms_refused user db req answer ops)
  then show ?thesis using inv by (auto simp: member_inv_def tables_grow_def)
next
  case (ms_settled i ops new now f db answer db')
  have ok: "members_ok db" "op_ok db (ops ! i)" "list_all (op_ok db) ops"
    using inv ms_settled by (auto simp: member_inv_def list_all_length)
  note grow = commit_grows [OF ok(1,2) ms_settled(5)]
  have "op_ok db' op" if "op \<in> set ops" for op
    using ok(3) that grow by (auto simp: list_all_iff tables_grow_def intro: op_ok_mono [of db])
  then show ?thesis
    using commit_ok [OF ok(1,2) ms_settled(5)] grow ms_settled
    by (auto simp: member_inv_def list_all_iff dest: in_set_takeD in_set_dropD)
next
  case (ms_joined u db ops)
  then show ?thesis
    using inv users_grow_ok [of db u] op_ok_mono [of db _ "db\<lparr>md_users := md_users db @ [u]\<rparr>"]
    by (auto simp: member_inv_def list_all_iff tables_grow_def)
qed

interpretation member_runs: inductive_invariant member_step "\<lambda>l. True" member_inv
  by unfold_locales (blast dest: member_inv_step)

interpretation growing_runs: inductive_invariant member_step "\<lambda>l. True" "\<lambda>w. member_inv w \<and> tables_grow db (fst w)" for db
  by unfold_locales (use member_inv_step in \<open>fastforce simp: tables_grow_def\<close>)

lemma empty_tables_ok [simp]: "member_inv (empty_member_db, [])"
  by (simp add: member_inv_def members_ok_def empty_member_db_def member_keys_def)

lemma findDirect_iff:
  assumes "members_ok db"
  shows "findDirect db a b = Some c \<longleftrightarrow> (c, orderedPair a b) \<in> set (md_direct db)"
proof -
  have here: "list_ex (\<lambda>r. cv_id r = fst d \<and> list_ex (\<lambda>u. fst u = cv_created_by r) (md_users db)) (md_conversations db)"
    if "d \<in> set (md_direct db)" for d
  proof -
    have "fst d \<in> cv_id ` {r \<in> set (md_conversations db). cv_kind r = Direct}"
      using assms that unfolding members_ok_def by blast
    then obtain r where r: "cv_id r = fst d" "r \<in> set (md_conversations db)" by force
    then have "cv_created_by r \<in> fst ` set (md_users db)" using assms unfolding members_ok_def by blast
    then obtain u where "u \<in> set (md_users db)" "fst u = cv_created_by r" by force
    moreover note r
    ultimately show ?thesis unfolding list_ex_iff by blast
  qed
  then have *: "filter (\<lambda>d. snd d = orderedPair a b \<and>
       list_ex (\<lambda>c. cv_id c = fst d \<and> list_ex (\<lambda>u. fst u = cv_created_by c) (md_users db)) (md_conversations db)) (md_direct db) =
      filter (\<lambda>d. snd d = orderedPair a b) (md_direct db)"
    by (intro filter_cong) auto
  have unique: "d = e" if "d \<in> set (md_direct db)" "e \<in> set (md_direct db)" "snd d = snd e" for d e
    using assms that by (auto simp: members_ok_def distinct_map inj_on_def)
  show ?thesis
  proof (cases "filter (\<lambda>d. snd d = orderedPair a b) (md_direct db)")
    case Nil
    then show ?thesis unfolding findDirect_def * by (auto simp: filter_empty_conv)
  next
    case (Cons d ds)
    then have "d \<in> set (filter (\<lambda>d. snd d = orderedPair a b) (md_direct db))" by simp
    then have d: "d \<in> set (md_direct db)" "d = (fst d, orderedPair a b)" by (simp_all add: prod_eq_iff)
    have "findDirect db a b = Some (fst d)" unfolding findDirect_def * Cons by simp
    then show ?thesis using d unique [of d "(c, orderedPair a b)"] by (metis fst_conv option.inject snd_conv)
  qed
qed

text \<open>Whatever answer a creation of a direct conversation gives, it names the one registered for the two users.\<close>

lemma direct_answer_found:
  assumes "members_ok db" "op_ok db (CreateOp u Direct t [m])"
    "member_commit new now f (CreateOp u Direct t [m]) db = (Conversation_Answer status c, db')"
  shows "findDirect db' u m = Some c"
proof -
  obtain i where new: "new = Some i" using assms(3) by (cases new) auto
  obtain b db1 where settle: "settle f db (create_conversation_tx i now u Direct t [m] db) = (b, db1)" by fastforce
  show ?thesis
  proof (cases b)
    case True
    then have "create_conversation_tx i now u Direct t [m] db = Inr db'" "c = i"
      using assms(3) settle new by (auto simp: settle_def split: sum.splits fate.splits)
    moreover from this(1) have "(i, orderedPair u m) \<in> set (md_direct db')"
      using create_conversation_Inr [of i now u Direct t "[m]" db db'] assms(1) by (simp add: members_ok_def)
    ultimately show ?thesis using findDirect_iff [OF commit_ok [OF assms]] by simp
  next
    case False
    then show ?thesis using assms(3) settle new by (auto split: option.splits)
  qed
qed

lemma resolve_one:
  assumes "distinct (map snd xs)" "u \<in> set xs"
  shows "filter (\<lambda>v. snd v = snd u) xs = [u]"
  using assms by (induction xs) (auto simp: filter_empty_conv image_iff)

section \<open>Properties\<close>

text \<open>
C12: In every state the service can reach, however requests interleave and transactions fail: a direct conversation has exactly two
active plain members and is the one found for them from either side, two direct conversations never serve the same pair, and a group has
exactly one owner, who is its creator and has not left.
\<close>

theorem conversations_stay_consistent:
  assumes "lreach member_step (\<lambda>l. True) (empty_member_db, []) (db, ops)"
  shows "distinct (map snd (md_direct db)) \<and>
    (\<forall>r \<in> set (md_conversations db).
       case cv_kind r of
         Direct \<Rightarrow> \<exists>a b. a \<noteq> b \<and> seats db (cv_id r) = [(a, Member, False), (b, Member, False)] \<and>
           findDirect db a b = Some (cv_id r) \<and> findDirect db b a = Some (cv_id r)
       | Group \<Rightarrow> owners db (cv_id r) = [(cv_created_by r, Owner, False)])"
proof -
  have "member_inv (db, ops)" using member_runs.inv_reach [OF assms] by simp
  then have ok: "members_ok db" by (simp add: member_inv_def)
  then have each: "conversation_ok db r" if "r \<in> set (md_conversations db)" for r
    using that by (simp add: members_ok_def)
  have "\<exists>a b. a \<noteq> b \<and> seats db (cv_id r) = [(a, Member, False), (b, Member, False)] \<and>
      findDirect db a b = Some (cv_id r) \<and> findDirect db b a = Some (cv_id r)"
    if "r \<in> set (md_conversations db)" "cv_kind r = Direct" for r
    using each [OF that(1)] that(2) orderedPair_sym
    by (fastforce simp: conversation_ok_def findDirect_iff [OF ok] split: list.splits)
  with ok each show ?thesis
    by (auto simp: members_ok_def conversation_ok_def split: conversation_kind.splits)
qed

text \<open>
C13: Get-or-create is one conversation for both sides: once a request of \<open>u\<close> for a direct conversation with \<open>m\<close> was answered with a
  conversation, by a committed transaction, a lost race or a lost acknowledgement, every later request of \<open>m\<close> for one with \<open>u\<close> is answered
  at once with that same conversation.
\<close>

theorem direct_conversation_is_one:
  assumes "lreach member_step (\<lambda>l. True) (empty_member_db, []) (db, ops)" "i < length ops" "ops ! i = CreateOp u Direct t [m]"
    and "member_commit new now f (ops ! i) db = (Conversation_Answer status c, db')"
    and "lreach member_step (\<lambda>l. True) (db', take i ops @ drop (Suc i) ops) (later, ops')"
    and "(u, uuid) \<in> set (md_users later)" "(m, name) \<in> set (md_users later)" "uuid \<noteq> name" "TrimSpace uuid = uuid" "uuid \<noteq> []"
    and "kind_of_text kind = Some Direct"
  shows "createConversation_check later (m, name) kind title [uuid] = Inl (Conversation_Answer 200 c)"
proof -
  have inv: "member_inv (db, ops)" using member_runs.inv_reach [OF assms(1)] by simp
  then have ok: "members_ok db" "op_ok db (CreateOp u Direct t [m])"
    using assms(2,3) by (auto simp: member_inv_def list_all_length)
  have "member_inv (db', take i ops @ drop (Suc i) ops)"
    using member_inv_step [OF inv ms_settled [OF assms(2,4)]] by simp
  then have later: "members_ok later" "tables_grow db' later"
    using growing_runs.inv_reach [OF assms(5), of db'] by (auto simp: member_inv_def tables_grow_def)
  have "(c, orderedPair u m) \<in> set (md_direct db')"
    using direct_answer_found [OF ok assms(4) [unfolded assms(3)]] findDirect_iff [OF commit_ok [OF ok assms(4) [unfolded assms(3)]]] by simp
  then have "findDirect later m u = Some c"
    using later by (auto simp: findDirect_iff [OF later(1)] tables_grow_def orderedPair_sym [of m u])
  moreover have "resolveUsers later [uuid] = [(u, uuid)]"
    using resolve_one [of "md_users later" "(u, uuid)"] later(1) assms(6) by (simp add: resolveUsers_def members_ok_def)
  ultimately show ?thesis
    using assms(8-11) by (simp add: createConversation_check_def uniqueUUIDs_def)
qed

text \<open>
  Two users ask for a conversation with each other; both requests pass the check before either is settled.
\<close>

definition sample_tables :: "member_db" where
  "sample_tables = empty_member_db\<lparr>md_users := [(1, [97]), (2, [98])]\<rparr>"

definition sample_created :: "member_db" where
  "sample_created = snd (member_commit (Some [7]) 5 Committed (CreateOp 1 Direct None [2]) sample_tables)"

definition sample_raced :: "member_db" where
  "sample_raced = snd (member_commit (Some [8]) 6 Committed (CreateOp 2 Direct None [1]) sample_created)"

lemma plain_uuid [simp]: "TrimSpace [97] = [97]" "TrimSpace [98] = [98]"
  by (simp_all add: TrimSpace_id go_space_def)

lemma plain_kind [simp]: "kind_of_text (js ''direct'') = Some Direct" "kind_of_text (js '' Direct '') = Some Direct"
  by (simp_all add: kind_of_text_def TrimSpace_def go_space_def lower_unit_def js_eval)

lemma sample_checks:
  "member_check sample_tables (1, [97]) (Create_Request (js ''direct'') None [[98]]) = Inr (CreateOp 1 Direct None [2])"
  "member_check sample_tables (2, [98]) (Create_Request (js '' Direct '') None [[97]]) = Inr (CreateOp 2 Direct None [1])"
  by (simp_all add: createConversation_check_def uniqueUUIDs_def resolveUsers_def findDirect_def sample_tables_def empty_member_db_def)

lemmas member_eval = create_conversation_tx_def tx_then_def insert_conversation_def conversationRow_def insert_member_def memberRow_def
  new_member_def insert_direct_def orderedPair_def settle_def findDirect_def

lemma sample_created_eval: "sample_created = sample_tables\<lparr>
    md_conversations := [\<lparr>cv_id = [7], cv_kind = Direct, cv_title = None, cv_created_by = 1\<rparr>],
    md_members := [new_member [7] 5 Member 1, new_member [7] 5 Member 2], md_direct := [([7], 1, 2)]\<rparr>"
  by (simp add: sample_created_def sample_tables_def empty_member_db_def member_eval)

lemma sample_raced_eval: "sample_raced = sample_created"
  by (simp add: sample_raced_def sample_created_eval member_eval)

lemma sample_first:
  "member_commit (Some [7]) 5 Committed (CreateOp 1 Direct None [2]) sample_tables = (Conversation_Answer 201 [7], sample_created)"
  by (simp add: sample_created_eval sample_tables_def empty_member_db_def member_eval)

lemma sample_second:
  "member_commit (Some [8]) 6 Committed (CreateOp 2 Direct None [1]) sample_created = (Conversation_Answer 200 [7], sample_raced)"
  by (simp add: sample_raced_eval sample_created_eval sample_tables_def member_eval)

lemma sample_members_reach:
  "lreach member_step (\<lambda>l. True) (empty_member_db, []) (sample_tables, [CreateOp 1 Direct None [2], CreateOp 2 Direct None [1]])"
proof -
  note stepped = lreach_next [where step = member_step]
  let ?r = "lreach member_step (\<lambda>l. True) (empty_member_db, [])"
  from stepped [OF lreach.start ms_joined [of "(1, [97])" empty_member_db "[]"]] have "?r (empty_member_db\<lparr>md_users := [(1, [97])]\<rparr>, [])"
    by (simp add: empty_member_db_def)
  from stepped [OF this ms_joined [of "(2, [98])"]] have "?r (sample_tables, [])"
    by (simp add: empty_member_db_def sample_tables_def)
  from stepped [OF this ms_passed [OF _ sample_checks(1)]] have "?r (sample_tables, [CreateOp 1 Direct None [2]])"
    by (simp add: sample_tables_def)
  from stepped [OF this ms_passed [OF _ sample_checks(2)]] show ?thesis
    by (simp add: sample_tables_def)
qed

lemma sample_raced_reach:
  "lreach member_step (\<lambda>l. True) (sample_created, [CreateOp 2 Direct None [1]]) (sample_raced, [])"
  by (rule lreach_next [where step = member_step, OF lreach.start ms_settled [of 0 "[CreateOp 2 Direct None [1]]", simplified, OF sample_second]])

text \<open>The request that lost the race was answered with the conversation of the other, and so is the next one.\<close>

theorem direct_conversation_is_one_witness:
  "createConversation_check sample_raced (2, [98]) (js ''direct'') None [[97]] = Inl (Conversation_Answer 200 [7])"
proof -
  let ?ops = "[CreateOp 1 Direct None [2], CreateOp 2 Direct None [1]]"
  have ops: "0 < length ?ops" "?ops ! 0 = CreateOp 1 Direct None [2]" "take 0 ?ops @ drop (Suc 0) ?ops = [CreateOp 2 Direct None [1]]"
    by simp_all
  have users: "(1, [97]) \<in> set (md_users sample_raced)" "(2, [98]) \<in> set (md_users sample_raced)"
    by (simp_all add: sample_raced_eval sample_created_eval sample_tables_def)
  show ?thesis
    by (rule direct_conversation_is_one [OF sample_members_reach ops(1,2) _ _ users, of "Some [7]" 5 Committed 201 "[7]" sample_created "[]"])
      (unfold ops(2,3), rule sample_first, rule sample_raced_reach, simp_all)
qed

text \<open>After the race there is one direct conversation.\<close>

lemma sample_raced_all: "lreach member_step (\<lambda>l. True) (empty_member_db, []) (sample_raced, [])"
proof -
  have "member_step (Request_Settled 0 (Some [7]) 5 Committed)
      (sample_tables, [CreateOp 1 Direct None [2], CreateOp 2 Direct None [1]]) (sample_created, [CreateOp 2 Direct None [1]])"
    using ms_settled [of 0 "[CreateOp 1 Direct None [2], CreateOp 2 Direct None [1]]", simplified, OF sample_first] by simp
  from lreach_trans [OF sample_raced_reach lreach_next [OF sample_members_reach this]] show ?thesis .
qed

theorem conversations_stay_consistent_witness:
  "distinct (map snd (md_direct sample_raced)) \<and> length (md_conversations sample_raced) = 1 \<and> findDirect sample_raced 2 1 = Some [7]"
proof -
  have r: "md_conversations sample_raced = [\<lparr>cv_id = [7], cv_kind = Direct, cv_title = None, cv_created_by = 1\<rparr>]"
      "seats sample_raced [7] = [(1, Member, False), (2, Member, False)]"
    by (simp_all add: sample_raced_eval sample_created_eval seats_def new_member_def seat_of_def)
  show ?thesis using conversations_stay_consistent [OF sample_raced_all] by (simp add: r)
qed

subsection \<open>Adding and removing again\<close>

definition active :: "member_db \<Rightarrow> jstr \<Rightarrow> int \<Rightarrow> bool" where
  "active db c u \<longleftrightarrow> (case memberRow db c u of Some r \<Rightarrow> \<not> me_left r | None \<Rightarrow> False)"

lemma memberRow_rewrite:
  assumes "\<And>q. me_conversation (f q) = me_conversation q" "\<And>q. me_user (f q) = me_user q"
  shows "memberRow (rewrite_row c u f db) c v = map_option (if u = v then f else id) (memberRow db c v)"
proof -
  let ?g = "\<lambda>q. if me_conversation q = c \<and> me_user q = u then f q else q"
  have "find (\<lambda>m. me_conversation m = c \<and> me_user m = v) (map ?g xs) =
      map_option (if u = v then f else id) (find (\<lambda>m. me_conversation m = c \<and> me_user m = v) xs)" for xs
    by (induction xs) (auto simp: assms)
  then show ?thesis by (simp add: memberRow_def rewrite_row_def)
qed

lemma find_append: "find P (xs @ ys) = (case find P xs of Some x \<Rightarrow> Some x | None \<Rightarrow> find P ys)"
  by (induction xs) auto

text \<open>One turn of the loop of \<open>AddMembers\<close>.\<close>

lemma add_members_Cons:
  obtains db1 added1 where "add_members c now (m # ms) (db, added) = add_members c now ms (db1, added1)" "active db1 c (fst m)"
    "\<And>v. active db c v \<Longrightarrow> active db1 c v" "active db c (fst m) \<Longrightarrow> db1 = db \<and> added1 = added"
proof (cases "memberRow db c (fst m)")
  case None
  then show thesis
    by (intro that [of "db\<lparr>md_members := md_members db @ [new_member c now Member (fst m)]\<rparr>" "added @ [snd m]"])
      (auto simp: active_def memberRow_def find_append new_member_def split: option.splits)
next
  case (Some r)
  show thesis
  proof (cases "me_left r")
    case True
    let ?f = "\<lambda>q. q\<lparr>me_left := False, me_joined_at := now, me_role := Member\<rparr>"
    show thesis
      by (rule that [of "rewrite_row c (fst m) ?f db" "added @ [snd m]"])
        (use Some True in \<open>auto simp: active_def memberRow_rewrite rewrite_row_def [symmetric] split: option.splits\<close>)
  next
    case False
    then show thesis by (intro that [of db added]) (auto simp: active_def Some)
  qed
qed

lemma add_members_active:
  "add_members c now ms (db, added) = (db', added') \<Longrightarrow> \<forall>m \<in> set ms. active db' c (fst m)"
proof -
  have "(\<forall>m \<in> set ms. active (fst (add_members c now ms (db, added))) c (fst m)) \<and>
      (\<forall>v. active db c v \<longrightarrow> active (fst (add_members c now ms (db, added))) c v)"
  proof (induction ms arbitrary: db added)
    case (Cons m ms)
    show ?case
      by (rule add_members_Cons [of c now m ms db added]) (use Cons.IH in \<open>auto\<close>)
  qed simp
  then show "add_members c now ms (db, added) = (db', added') \<Longrightarrow> \<forall>m \<in> set ms. active db' c (fst m)" by simp
qed

lemma add_members_again: "\<forall>m \<in> set ms. active db c (fst m) \<Longrightarrow> add_members c now ms (db, added) = (db, added)"
proof (induction ms)
  case (Cons m ms)
  then show ?case by (cases rule: add_members_Cons [of c now m ms db added]) auto
qed simp

lemma active_event: "insert_event e db = Inr db' \<Longrightarrow> active db' c u = active db c u"
  by (auto dest!: insert_event_frame simp: active_def memberRow_def)

text \<open>
C14: Adding members is idempotent: once the transaction of \<open>AddMembers\<close> has run, the same request again changes no table and
  announces nothing, at whatever time and with whatever new id it runs.
\<close>

theorem adding_again_changes_nothing:
  assumes "add_tx eventID now c members db = Inr db'"
  shows "add_tx eventID' now' c members db' = Inr db'"
proof -
  obtain db1 added where 1: "add_members c now members (db, []) = (db1, added)" by fastforce
  have "\<forall>m \<in> set members. active db' c (fst m)"
    using add_members_active [OF 1] assms 1 by (auto simp: add_tx_def active_event split: if_splits)
  then show ?thesis by (simp add: add_tx_def add_members_again)
qed

definition sample_group :: "member_db" where
  "sample_group = sample_tables\<lparr>
     md_conversations := [\<lparr>cv_id = [7], cv_kind = Group, cv_title = None, cv_created_by = 1\<rparr>], md_members := [new_member [7] 5 Owner 1]\<rparr>"

definition sample_grown :: "member_db" where
  "sample_grown = (case add_tx [20] 6 [7] [(2, [98])] sample_group of Inr db \<Rightarrow> db | Inl _ \<Rightarrow> sample_group)"

text \<open>The second member joins; the second request finds nobody to add.\<close>

theorem adding_again_changes_nothing_witness:
  "length (md_members sample_grown) = 2 \<and> length (md_outbox sample_grown) = 1 \<and>
   add_tx [21] 9 [7] [(2, [98])] sample_grown = Inr sample_grown"
proof -
  note eval = add_tx_def sample_group_def sample_tables_def empty_member_db_def memberRow_def new_member_def insert_event_def
  have "add_tx [20] 6 [7] [(2, [98])] sample_group = Inr sample_grown"
    by (simp add: sample_grown_def eval)
  from adding_again_changes_nothing [OF this] show ?thesis
    by (simp add: sample_grown_def eval)
qed

text \<open>
  Removing is not: two administrators who remove the same member at once both pass the check, and the second transaction announces
  the removal again.
\<close>

theorem second_removal_announced_again:
  assumes "remove_tx eventID c u uuid db = Inr db'" "eventID' \<notin> ob_id ` set (md_outbox db')"
  shows "\<exists>db'' e. remove_tx eventID' c u uuid db' = Inr db'' \<and> md_members db'' = md_members db' \<and>
    md_outbox db'' = md_outbox db' @ [e] \<and> ob_topic e = js ''conversation.member_removed''"
proof -
  have "md_members db' = map (\<lambda>q. if me_conversation q = c \<and> me_user q = u then q\<lparr>me_left := True\<rparr> else q) (md_members db)"
    using assms(1) by (auto simp: remove_tx_def Let_def dest!: insert_event_frame)
  then have "map (\<lambda>q. if me_conversation q = c \<and> me_user q = u then q\<lparr>me_left := True\<rparr> else q) (md_members db') = md_members db'"
    by auto
  then show ?thesis
    using assms(2) by (auto simp: remove_tx_def Let_def insert_event_def member_event_def list_ex_iff)
qed

end
