(* ===== verification/Adapters.thy ===== *)
theory Adapters
  imports Http Sync
begin

text \<open>
  The two platform adapters, \<open>browserAdapter\<close> of \<open>sdk/ts/src/browser.ts\<close> and \<open>wechatAdapter\<close> of
  \<open>sdk/ts/src/wechat.ts\<close>.

  The network of the platform (\<open>fetch\<close>, \<open>wx.request\<close>, \<open>wx.uploadFile\<close>) is an argument, a function over an
  arbitrary world.  The timers of \<open>timers.ts\<close> are kept in the state, so that a leak would be
  visible.  The key-value stores are the ones the platforms document: \<open>localStorage\<close> may be denied
  or full, \<open>wx.getStorageSync\<close> answers the empty string for a missing key and may hold values that
  are no strings.  Both storage adapters satisfy the contract of \<open>storage_laws\<close>.
\<close>

section \<open>The browser adapter\<close>

datatype form_part = PartBlob nat | PartText jstr

datatype fetch_body = BodyText jstr | BodyForm "(jstr \<times> form_part) list"

record fetch_init =
  fi_method :: "http_method option"
  fi_headers :: "(jstr \<times> jstr) list option"
  fi_body :: "fetch_body option"

text \<open>A response: its status, its text (or the error of reading it) and the handle of its blob.\<close>

record fetch_response =
  fe_status :: int
  fe_text :: "jstr option + jstr"
  fe_blob :: nat

record 'w platform =
  pf_world :: 'w
  pf_timers :: "nat list"
  pf_next :: nat

text \<open>The global constructors the adapter looks for, and the network.\<close>

record 'w browser =
  br_fetch :: "('w \<Rightarrow> jstr \<Rightarrow> fetch_init \<Rightarrow> (jstr option + fetch_response) \<times> 'w) option"
  br_WebSocket :: bool
  br_FormData :: bool
  br_AbortController :: bool

definition browserAdapter :: "'w browser \<Rightarrow> bool" where
  "browserAdapter b \<longleftrightarrow> br_fetch b \<noteq> None \<and> br_WebSocket b \<and> br_FormData b \<and> br_AbortController b"

definition fetchWithTimeout ::
  "('w \<Rightarrow> jstr \<Rightarrow> fetch_init \<Rightarrow> (jstr option + fetch_response) \<times> 'w) \<Rightarrow> jstr \<Rightarrow> fetch_init \<Rightarrow> 'w platform
   \<Rightarrow> (jstr option + fetch_response) \<times> 'w platform" where
  "fetchWithTimeout fetch url init pf =
     (let timer = pf_next pf;
          pf1 = pf\<lparr>pf_timers := pf_timers pf @ [timer], pf_next := Suc timer\<rparr>;
          (r, w) = fetch (pf_world pf1) url init
      in (r, pf1\<lparr>pf_world := w, pf_timers := set_delete timer (pf_timers pf1)\<rparr>))"

definition parseBody :: "fetch_response \<Rightarrow> jstr option + json" where
  "parseBody res =
     (case fe_text res of
        Inl e \<Rightarrow> Inl e
      | Inr raw \<Rightarrow> Inr (case parse raw of Some v \<Rightarrow> v | None \<Rightarrow> JStr raw))"

definition answer_of :: "(jstr option + fetch_response) \<times> 'w platform \<Rightarrow> (jstr option + http_response) \<times> 'w platform" where
  "answer_of rp =
     (case rp of
        (Inl e, pf) \<Rightarrow> (Inl e, pf)
      | (Inr res, pf) \<Rightarrow>
          (case parseBody res of
             Inl e \<Rightarrow> (Inl e, pf)
           | Inr v \<Rightarrow> (Inr \<lparr>rs_statusCode = fe_status res, rs_data = v\<rparr>, pf)))"

definition browser_request ::
  "('w \<Rightarrow> jstr \<Rightarrow> fetch_init \<Rightarrow> (jstr option + fetch_response) \<times> 'w) \<Rightarrow> 'w platform \<Rightarrow> http_request
   \<Rightarrow> (jstr option + http_response) \<times> 'w platform" where
  "browser_request fetch pf rq =
     answer_of (fetchWithTimeout fetch (rq_url rq)
       \<lparr>fi_method = Some (rq_method rq), fi_headers = Some (rq_headers rq),
        fi_body = map_option (\<lambda>v. BodyText (stringify v)) (rq_data rq)\<rparr> pf)"

definition browser_upload ::
  "('w \<Rightarrow> jstr \<Rightarrow> fetch_init \<Rightarrow> (jstr option + fetch_response) \<times> 'w) \<Rightarrow> 'w platform \<Rightarrow> upload_request
   \<Rightarrow> (jstr option + http_response) \<times> 'w platform" where
  "browser_upload fetch pf rq =
     (case (case ur_filePath rq of
              FilePath p \<Rightarrow>
                (case fetchWithTimeout fetch p \<lparr>fi_method = None, fi_headers = None, fi_body = None\<rparr> pf of
                   (Inl e, pf1) \<Rightarrow> (Inl e, pf1)
                 | (Inr res, pf1) \<Rightarrow> (Inr (fe_blob res), pf1))
            | FileObject h \<Rightarrow> (Inr h, pf)) of
        (Inl e, pf1) \<Rightarrow> (Inl e, pf1)
      | (Inr blob, pf1) \<Rightarrow>
          answer_of (fetchWithTimeout fetch (ur_url rq)
            \<lparr>fi_method = Some POST, fi_headers = None,
             fi_body = Some (BodyForm ((ur_name rq, PartBlob blob) #
               map (\<lambda>(k, v). (k, PartText v)) (case ur_formData rq of Some fd \<Rightarrow> fd | None \<Rightarrow> [])))\<rparr> pf1))"

text \<open>The callbacks of the sockets: only text frames reach the SDK.\<close>

datatype ws_event = WsOpen | WsText jstr | WsBinary | WsClose | WsError "jstr option"

datatype socket_callback = CbOpen | CbMessage jstr | CbClose | CbError jstr

fun browser_socket :: "ws_event \<Rightarrow> socket_callback option" where
  "browser_socket WsOpen = Some CbOpen"
| "browser_socket (WsText t) = Some (CbMessage t)"
| "browser_socket WsBinary = None"
| "browser_socket WsClose = Some CbClose"
| "browser_socket (WsError m) = Some (CbError (js ''socket error''))"

text \<open>\<open>onShow\<close>: whether a \<open>visibilitychange\<close> calls the callback; without a document nothing is registered.\<close>

definition browser_onShow :: "jstr option \<Rightarrow> bool" where
  "browser_onShow visibilityState \<longleftrightarrow> visibilityState = Some (js ''visible'')"

section \<open>localStorage\<close>

record local_storage =
  ls_items :: "(jstr \<times> jstr) list"
  ls_quota :: nat
  ls_denied :: bool

definition items_size :: "(jstr \<times> jstr) list \<Rightarrow> nat" where
  "items_size items = (\<Sum>(k, v) \<leftarrow> items. length k + length v)"

text \<open>\<open>setItem\<close> throws (\<open>None\<close>) when the quota is exceeded.\<close>

definition setItem :: "jstr \<Rightarrow> jstr \<Rightarrow> local_storage \<Rightarrow> local_storage option" where
  "setItem k v s =
     (let items = AList.update k v (ls_items s)
      in if items_size items \<le> ls_quota s then Some (s\<lparr>ls_items := items\<rparr>) else None)"

definition getLocalStorage :: "local_storage \<Rightarrow> local_storage option" where
  "getLocalStorage s = (if ls_denied s then None else Some s)"

definition browser_storage :: "local_storage storage_adapter" where
  "browser_storage =
     \<lparr>sa_get = (\<lambda>s k. Option.bind (getLocalStorage s) (\<lambda>ls. map_of (ls_items ls) k)),
      sa_set = (\<lambda>s k v. case Option.bind (getLocalStorage s) (setItem k v) of Some s' \<Rightarrow> s' | None \<Rightarrow> s),
      sa_remove = (\<lambda>s k. case getLocalStorage s of
         Some ls \<Rightarrow> ls\<lparr>ls_items := AList.delete k (ls_items ls)\<rparr> | None \<Rightarrow> s)\<rparr>"

definition browser_accepts :: "local_storage \<Rightarrow> jstr \<Rightarrow> jstr \<Rightarrow> bool" where
  "browser_accepts s k v \<longleftrightarrow> \<not> ls_denied s \<and> items_size (AList.update k v (ls_items s)) \<le> ls_quota s"

section \<open>The WeChat adapter\<close>

text \<open>The global \<open>wx\<close>, when it exists; a failed call carries its \<open>errMsg\<close>.\<close>

record 'w wx =
  wx_request :: "'w \<Rightarrow> http_request \<Rightarrow> jstr option \<Rightarrow> (jstr + http_response) \<times> 'w"
  wx_uploadFile :: "'w \<Rightarrow> upload_request \<Rightarrow> (jstr + http_response) \<times> 'w"

definition no_wx :: exn where
  "no_wx = JsError (js ''wechatAdapter requires the WeChat Mini Program runtime (global wx). For other platforms, provide a custom adapter to createClient()/AirwayIM.'')"

definition wx_failure :: "jstr \<Rightarrow> jstr \<Rightarrow> exn" where
  "wx_failure fallback errMsg = JsError (if errMsg = [] then fallback else errMsg)"

definition wechat_request :: "'w wx option \<Rightarrow> 'w \<Rightarrow> http_request \<Rightarrow> (exn + http_response) \<times> 'w" where
  "wechat_request wx w rq =
     (case wx of
        None \<Rightarrow> (Inl no_wx, w)
      | Some x \<Rightarrow>
          (case wx_request x w rq (map_option stringify (rq_data rq)) of
             (Inl m, w') \<Rightarrow> (Inl (wx_failure (js ''wx.request failed'') m), w')
           | (Inr res, w') \<Rightarrow> (Inr res, w')))"

definition wechat_upload :: "'w wx option \<Rightarrow> 'w \<Rightarrow> upload_request \<Rightarrow> (exn + http_response) \<times> 'w" where
  "wechat_upload wx w rq =
     (case ur_filePath rq of
        FileObject h \<Rightarrow>
          (Inl (JsError (js ''wechatAdapter.upload expects a local file path string; use browserAdapter for File/Blob uploads'')), w)
      | FilePath p \<Rightarrow>
          (case wx of
             None \<Rightarrow> (Inl no_wx, w)
           | Some x \<Rightarrow>
               (case wx_uploadFile x w rq of
                  (Inl m, w') \<Rightarrow> (Inl (wx_failure (js ''wx.uploadFile failed'') m), w')
                | (Inr res, w') \<Rightarrow> (Inr res, w'))))"

fun wechat_socket :: "ws_event \<Rightarrow> socket_callback option" where
  "wechat_socket WsOpen = Some CbOpen"
| "wechat_socket (WsText t) = Some (CbMessage t)"
| "wechat_socket WsBinary = None"
| "wechat_socket WsClose = Some CbClose"
| "wechat_socket (WsError m) =
     Some (CbError (case m of Some e \<Rightarrow> if e = [] then js ''socket error'' else e | None \<Rightarrow> js ''socket error''))"

text \<open>\<open>onShow\<close>: whether the callback is registered; \<open>onAppShow\<close> is missing in some contexts.\<close>

definition wechat_onShow :: "'w wx option \<Rightarrow> bool \<Rightarrow> bool" where
  "wechat_onShow wx onAppShow \<longleftrightarrow> wx \<noteq> None \<and> onAppShow"

text \<open>The store of \<open>wx\<close>; the values of other code need not be strings.\<close>

record wx_storage =
  wxs_items :: "(jstr \<times> json) list"
  wxs_full :: "jstr \<Rightarrow> jstr \<Rightarrow> bool"
  wxs_present :: bool

definition getStorageSync :: "wx_storage \<Rightarrow> jstr \<Rightarrow> json option" where
  "getStorageSync s k =
     (if wxs_present s then Some (case map_of (wxs_items s) k of Some v \<Rightarrow> v | None \<Rightarrow> JStr []) else None)"

definition wechat_storage :: "wx_storage storage_adapter" where
  "wechat_storage =
     \<lparr>sa_get = (\<lambda>s k. case getStorageSync s k of
         Some (JStr v) \<Rightarrow> if v = [] then None else Some v | _ \<Rightarrow> None),
      sa_set = (\<lambda>s k v. if wxs_present s \<and> \<not> wxs_full s k v
                         then s\<lparr>wxs_items := AList.update k (JStr v) (wxs_items s)\<rparr> else s),
      sa_remove = (\<lambda>s k. if wxs_present s then s\<lparr>wxs_items := AList.delete k (wxs_items s)\<rparr> else s)\<rparr>"

definition wechat_accepts :: "wx_storage \<Rightarrow> jstr \<Rightarrow> jstr \<Rightarrow> bool" where
  "wechat_accepts s k v \<longleftrightarrow> wxs_present s \<and> \<not> wxs_full s k v"

section \<open>The storage contract\<close>

interpretation browser_store: storage_laws browser_storage browser_accepts
proof
  show "sa_get browser_storage (sa_set browser_storage s k v) k = Some v" if "browser_accepts s k v" "v \<noteq> []" for s k v
    using that by (simp add: browser_storage_def browser_accepts_def setItem_def getLocalStorage_def AList.update_conv')
  show "sa_get browser_storage (sa_set browser_storage s k v) k' = sa_get browser_storage s k'" if "k' \<noteq> k" for s k k' v
    using that by (simp add: browser_storage_def setItem_def getLocalStorage_def AList.update_conv' Let_def)
  show "sa_set browser_storage s k v = s" if "\<not> browser_accepts s k v" for s k v
    using that by (auto simp: browser_storage_def browser_accepts_def setItem_def getLocalStorage_def Let_def)
  show "sa_get browser_storage (sa_remove browser_storage s k) k = None" if "browser_accepts s k []" for s k
    by (simp add: browser_storage_def getLocalStorage_def AList.delete_conv')
qed

interpretation wechat_store: storage_laws wechat_storage wechat_accepts
proof
  show "sa_get wechat_storage (sa_set wechat_storage s k v) k = Some v" if "wechat_accepts s k v" "v \<noteq> []" for s k v
    using that by (simp add: wechat_storage_def wechat_accepts_def getStorageSync_def AList.update_conv')
  show "sa_get wechat_storage (sa_set wechat_storage s k v) k' = sa_get wechat_storage s k'" if "k' \<noteq> k" for s k k' v
    using that by (simp add: wechat_storage_def getStorageSync_def AList.update_conv')
  show "sa_set wechat_storage s k v = s" if "\<not> wechat_accepts s k v" for s k v
    using that by (auto simp: wechat_storage_def wechat_accepts_def)
  show "sa_get wechat_storage (sa_remove wechat_storage s k) k = None" if "wechat_accepts s k []" for s k
    by (simp add: wechat_storage_def getStorageSync_def AList.delete_conv')
qed

section \<open>What the adapters promise\<close>

text \<open>
C26: The last-seen sequences survive a restart on both platforms: an engine created over the store
that \<open>persist\<close> wrote has the same last-seen sequence for every conversation, as long as the write was
accepted.  A conversation that was tracked at sequence 0 is not tracked any more.
\<close>

theorem sequences_survive_restart:
  assumes "seqs_ok st" "\<forall>c \<in> fst ` set (lastSeq st). units_ok c" "store st = Some s"
    and "browser_accepts s (storageKey st) (stringify (json_of_sequences (lastSeq st)))"
    and "seqs_ok st2" "\<forall>c \<in> fst ` set (lastSeq st2). units_ok c" "store st2 = Some s2"
    and "wechat_accepts s2 (storageKey st2) (stringify (json_of_sequences (lastSeq st2)))"
  shows "lastSequence (newSyncEngine browser_storage (store (persist browser_storage st)) (Some (storageKey st))) c
      = lastSequence st c \<and>
    (isTracked (newSyncEngine browser_storage (store (persist browser_storage st)) (Some (storageKey st))) c
      \<longleftrightarrow> 0 < lastSequence st c) \<and>
    lastSequence (newSyncEngine wechat_storage (store (persist wechat_storage st2)) (Some (storageKey st2))) c
      = lastSequence st2 c \<and>
    (isTracked (newSyncEngine wechat_storage (store (persist wechat_storage st2)) (Some (storageKey st2))) c
      \<longleftrightarrow> 0 < lastSequence st2 c)"
  using browser_store.reload_lastSequence [OF assms(1-4)] wechat_store.reload_lastSequence [OF assms(5-8)] by blast

definition sample_local_storage :: local_storage where
  "sample_local_storage = \<lparr>ls_items = [], ls_quota = 5000000, ls_denied = False\<rparr>"

definition sample_wx_storage :: wx_storage where
  "sample_wx_storage = \<lparr>wxs_items = [], wxs_full = (\<lambda>k v. False), wxs_present = True\<rparr>"

definition tracked_state :: "'s \<Rightarrow> 's sync_state" where
  "tracked_state s = \<lparr>lastSeq = [([99], 7)], queues = [], chains = [], store = Some s, storageKey = [107], outs = []\<rparr>"

lemma tracked_state_simps:
  "seqs_ok (tracked_state s)" "\<forall>c \<in> fst ` set (lastSeq (tracked_state s)). units_ok c"
  "store (tracked_state s) = Some s" "storageKey (tracked_state s) = [107]" "lastSeq (tracked_state s) = [([99], 7)]"
  "lastSequence (tracked_state s) [99] = 7"
  by (simp_all add: tracked_state_def seqs_ok_def units_ok_def lastSequence_def)

theorem sequences_survive_restart_witness:
  "lastSequence (newSyncEngine browser_storage
     (store (persist browser_storage (tracked_state sample_local_storage))) (Some [107])) [99] = 7"
proof -
  have "stringify (json_of_sequences [([99], 7)]) = [123, 34, 99, 34, 58, 55, 125]"
    by (simp add: json_of_sequences_def stringify.simps quote_string_def escape_unit_def high_surrogate_def low_surrogate_def show_eval)
  then have "browser_accepts sample_local_storage [107] (stringify (json_of_sequences [([99], 7)]))"
    by (simp add: browser_accepts_def sample_local_storage_def items_size_def)
  moreover have "wechat_accepts sample_wx_storage [107] (stringify (json_of_sequences [([99], 7)]))"
    by (simp add: wechat_accepts_def sample_wx_storage_def)
  ultimately show ?thesis
    using sequences_survive_restart [OF tracked_state_simps(1-3) _ tracked_state_simps(1-3),
        of sample_local_storage sample_wx_storage "[99]"]
    unfolding tracked_state_simps by blast
qed

text \<open>The adapter as the environment of the REST client.\<close>

definition browser_env ::
  "('w \<Rightarrow> jstr \<Rightarrow> fetch_init \<Rightarrow> (jstr option + fetch_response) \<times> 'w)
   \<Rightarrow> ('w platform \<Rightarrow> (exn + jstr) \<times> 'w platform) option \<Rightarrow> 'w platform env" where
  "browser_env fetch getCredential =
     \<lparr>env_request = browser_request fetch, env_getCredential = getCredential,
      env_upload = Some (\<lambda>pf rq. case browser_upload fetch pf rq of
         (Inl m, pf') \<Rightarrow> (Inl (JsError (case m of Some t \<Rightarrow> t | None \<Rightarrow> [])), pf')
       | (Inr res, pf') \<Rightarrow> (Inr res, pf'))\<rparr>"

definition envelope_text :: "json \<Rightarrow> jstr" where
  "envelope_text v = stringify (JObj [(js ''code'', JNum 0), (js ''data'', v), (js ''message'', JNull)])"

lemma parse_envelope_text:
  "json_ok v \<Longrightarrow> parse (envelope_text v) = Some (JObj [(js ''code'', JNum 0), (js ''data'', v), (js ''message'', JNull)])"
  unfolding envelope_text_def by (rule parse_stringify) (simp add: js_def units_ok_def)

text \<open>
Through the browser adapter a value travels unchanged from the backend's \<open>data\<close> field to the
caller: when \<open>fetch\<close> delivers a 2xx response whose text is the printed envelope with code 0 and
data \<open>v\<close>, the request resolves with \<open>v\<close>; and \<open>fetch\<close> was called with the JSON text of the body.
\<close>

theorem browser_request_delivers_data:
  assumes "buildUrl (baseUrl (client h)) path (op_query opts) = Some url"
    and "fetch (pf_world (world h)) url
           \<lparr>fi_method = Some meth, fi_headers = Some (request_headers (client h) opts),
            fi_body = map_option (\<lambda>v. BodyText (stringify v)) (op_body opts)\<rparr>
         = (Inr \<lparr>fe_status = status, fe_text = Inr (envelope_text v), fe_blob = b\<rparr>, w)"
    and "200 \<le> status" "status < 300" "json_ok v"
  shows "fst (requestOnce (browser_env fetch get) meth path opts h) = Inr (Some v)"
  using assms parse_envelope_text [OF assms(5)]
  by (simp add: requestOnce_def browser_env_def browser_request_def fetchWithTimeout_def answer_of_def parseBody_def
      interpret_response_def envelope_of_def Let_def)

definition sample_fetch :: "unit \<Rightarrow> jstr \<Rightarrow> fetch_init \<Rightarrow> (jstr option + fetch_response) \<times> unit" where
  "sample_fetch w url init = (Inr \<lparr>fe_status = 200, fe_text = Inr (envelope_text (JNum 7)), fe_blob = 0\<rparr>, w)"

definition sample_platform :: "unit platform hstate" where
  "sample_platform = \<lparr>client = newHttpClient (js ''http://h'') (js ''c'') None,
     world = \<lparr>pf_world = (), pf_timers = [], pf_next = 1\<rparr>, trace = []\<rparr>"

theorem browser_request_delivers_data_witness:
  "fst (requestOnce (browser_env sample_fetch None) GET (js ''/api/v1/me'') no_options sample_platform) = Inr (Some (JNum 7))"
  by (rule browser_request_delivers_data
        [where status = 200 and b = 0 and w = "()"
         and url = "joinUrl (baseUrl (client sample_platform)) (js ''/api/v1/me'')"])
     (simp_all add: sample_fetch_def buildUrl_def no_options_def)

text \<open>
No timer is left behind: whatever \<open>fetch\<close> does, after a request or an upload the running timers
are the ones that ran before.
\<close>

theorem browser_requests_clear_timers:
  assumes "\<forall>t \<in> set (pf_timers pf). t < pf_next pf"
  shows "pf_timers (snd (browser_request fetch pf rq)) = pf_timers pf \<and>
    pf_timers (snd (browser_upload fetch pf up)) = pf_timers pf"
proof -
  have f: "pf_timers (snd (fetchWithTimeout fetch url init q)) = pf_timers q \<and>
      pf_next q \<le> pf_next (snd (fetchWithTimeout fetch url init q))"
    if "\<forall>t \<in> set (pf_timers q). t < pf_next q" for url init q
  proof -
    have "set_delete (pf_next q) (pf_timers q) = pf_timers q"
      using that by (auto simp: set_delete_def filter_id_conv)
    then show ?thesis by (simp add: fetchWithTimeout_def Let_def split_def set_delete_def)
  qed
  have a: "snd (answer_of x) = snd x" for x :: "(jstr option + fetch_response) \<times> 'a platform"
    by (simp add: answer_of_def split: prod.split sum.split)
  have up: "pf_timers (snd (fetchWithTimeout fetch u i (snd (fetchWithTimeout fetch u' i' pf)))) = pf_timers pf" for u i u' i'
    using f [OF assms, of u' i'] f [of "snd (fetchWithTimeout fetch u' i' pf)" u i] assms by (metis order_less_le_trans)
  show ?thesis
  proof (cases "ur_filePath up")
    case (FilePath p)
    let ?i = "\<lparr>fi_method = None, fi_headers = None, fi_body = None\<rparr>"
    obtain r pf1 where 1: "fetchWithTimeout fetch p ?i pf = (r, pf1)" by force
    have "pf_timers pf1 = pf_timers pf" using f [OF assms, of p ?i] 1 by simp
    moreover have "pf_timers (snd (fetchWithTimeout fetch u i pf1)) = pf_timers pf" for u i
      using up [of u i p ?i] 1 by simp
    ultimately show ?thesis
      using FilePath 1 f [OF assms] by (simp add: browser_request_def browser_upload_def a split: sum.split)
  qed (use f [OF assms] in \<open>simp add: browser_request_def browser_upload_def a\<close>)
qed

theorem browser_requests_clear_timers_witness:
  "pf_timers (snd (browser_request sample_fetch \<lparr>pf_world = (), pf_timers = [3], pf_next = 8\<rparr>
     \<lparr>rq_url = [], rq_method = GET, rq_headers = [], rq_data = None, rq_timeoutMs = 1\<rparr>)) = [3]"
  using browser_requests_clear_timers [of "\<lparr>pf_world = (), pf_timers = [3], pf_next = 8\<rparr>" sample_fetch] by simp

end
