(* ===== verification/Internal.thy ===== *)
theory Internal
  imports Http
begin

text \<open>
  The server-to-server client \<open>InternalClient\<close> of \<open>sdk/ts/src/internal.ts\<close>.  The runtime's \<open>fetch\<close>
  is an argument; it is absent (\<open>None\<close>) in a runtime without it.  The timer that aborts a request
  is set only where an \<open>AbortController\<close> exists, and it is cleared on every way out of \<open>fetch\<close>.  The response that \<open>fetch\<close>
  resolves to has a status and \<open>text()\<close>, which is called later and may reject on its own.
\<close>

record mint_options =
  mo_uuid :: jstr
  mo_name :: jstr
  mo_nickname :: "jstr option"
  mo_avatarUrl :: "jstr option"
  mo_ttlSeconds :: "int option"

record minted_credential =
  mc_credential :: jstr
  mc_expiresAt :: "jstr option"

record internal_client =
  ic_baseUrl :: jstr
  ic_internalSecret :: jstr
  ic_timeoutMs :: int

definition newInternalClient :: "jstr \<Rightarrow> jstr \<Rightarrow> int option \<Rightarrow> internal_client" where
  "newInternalClient internalUrl secret timeout =
     \<lparr>ic_baseUrl = trim_end_slashes internalUrl, ic_internalSecret = secret,
      ic_timeoutMs = (case timeout of Some t \<Rightarrow> t | None \<Rightarrow> 15000)\<rparr>"

text \<open>The POST request; its body is the JSON text.\<close>

record internal_post =
  ir_url :: jstr
  ir_headers :: "(jstr \<times> jstr) list"
  ir_body :: jstr

record 'w internal_response =
  re_status :: int
  re_text :: "'w \<Rightarrow> (exn + jstr) \<times> 'w"

record 'w internal_env =
  ie_fetch :: "('w \<Rightarrow> internal_post \<Rightarrow> (jstr option + 'w internal_response) \<times> 'w) option"
  ie_abortController :: bool

record 'w internal_state =
  is_world :: 'w
  is_timers :: "nat list"
  is_next :: nat

definition internal_answer :: "int \<Rightarrow> jstr \<Rightarrow> exn + json" where
  "internal_answer status raw =
     (let envelope = safeParse raw;
          answer = (case jget (js ''data'') envelope of Some v \<Rightarrow> v | None \<Rightarrow> JNull)
      in if 200 \<le> status \<and> status < 300 \<and> truthy envelope \<and> jget (js ''code'') envelope = Some (JNum 0) \<and>
            truthy answer \<and> string_field ''credential'' answer \<noteq> None
         then Inr answer
         else case Option.bind (if truthy envelope then jget (js ''code'') envelope else None) json_number of
             Some code \<Rightarrow> Inl (IMErr (IMError code (envelope_message envelope status) status))
           | None \<Rightarrow> Inl (IMErr (IMError (-1) (js ''HTTP '' @ show_int status @ js '': unexpected response'') status)))"

definition internal_request ::
  "'w internal_env \<Rightarrow> internal_client \<Rightarrow> jstr \<Rightarrow> json \<Rightarrow> 'w internal_state \<Rightarrow> (exn + json) \<times> 'w internal_state" where
  "internal_request env c path body st =
     (case ie_fetch env of
        None \<Rightarrow> (Inl (IMErr (IMError (-1) (js ''InternalClient requires a runtime with global fetch (Node 18+)'') 0)), st)
      | Some fetch \<Rightarrow>
          let timer = is_next st;
              st1 = (if ie_abortController env
                     then st\<lparr>is_timers := is_timers st @ [timer], is_next := Suc timer\<rparr> else st);
              (r, w) = fetch (is_world st1)
                \<lparr>ir_url = joinUrl (ic_baseUrl c) path,
                 ir_headers = [(js ''Content-Type'', js ''application/json''),
                               (js ''X-IM-Internal-Secret'', ic_internalSecret c)],
                 ir_body = stringify body\<rparr>;
              st2 = st1\<lparr>is_world := w,
                        is_timers := (if ie_abortController env then set_delete timer (is_timers st1) else is_timers st1)\<rparr>
          in (case r of
                Inl m \<Rightarrow> (Inl (IMErr (IMError (-1) (case m of Some t \<Rightarrow> t | None \<Rightarrow> js ''network error'') 0)), st2)
              | Inr res \<Rightarrow>
                  (case re_text res (is_world st2) of
                     (Inl e, w') \<Rightarrow> (Inl e, st2\<lparr>is_world := w'\<rparr>)
                   | (Inr raw, w') \<Rightarrow> (internal_answer (re_status res) raw, st2\<lparr>is_world := w'\<rparr>))))"

definition mint_body :: "mint_options \<Rightarrow> json" where
  "mint_body options = JObj (
     [(js ''uuid'', JStr (mo_uuid options)), (js ''name'', JStr (mo_name options))]
     @ opt_field ''nickname'' (map_option JStr (mo_nickname options))
     @ opt_field ''avatar_url'' (map_option JStr (mo_avatarUrl options))
     @ opt_field ''ttl_seconds'' (map_option JNum (mo_ttlSeconds options)))"

definition mintCredential ::
  "'w internal_env \<Rightarrow> internal_client \<Rightarrow> mint_options \<Rightarrow> 'w internal_state \<Rightarrow> (exn + minted_credential) \<times> 'w internal_state" where
  "mintCredential env c options st =
     (case internal_request env c (js ''/internal/v1/credentials'') (mint_body options) st of
        (Inl e, st') \<Rightarrow> (Inl e, st')
      | (Inr v, st') \<Rightarrow>
          (Inr \<lparr>mc_credential = (case string_field ''credential'' v of Some s \<Rightarrow> s | None \<Rightarrow> []),
                mc_expiresAt = string_field ''expires_at'' v\<rparr>, st'))"

section \<open>What the client promises\<close>

text \<open>The wire form of a minted credential.\<close>

definition minted_envelope :: "minted_credential \<Rightarrow> json" where
  "minted_envelope mc = JObj [(js ''code'', JNum 0),
     (js ''data'', JObj ((js ''credential'', JStr (mc_credential mc)) # opt_field ''expires_at'' (map_option JStr (mc_expiresAt mc)))),
     (js ''message'', JNull)]"

lemma parse_minted_envelope:
  assumes "units_ok (mc_credential mc)" "\<forall>t. mc_expiresAt mc = Some t \<longrightarrow> units_ok t"
  shows "parse (stringify (minted_envelope mc)) = Some (minted_envelope mc)"
  using assms
  by (intro parse_stringify)
     (auto simp: minted_envelope_def opt_field_def js_def split: option.split)

lemma internal_answer_minted:
  assumes "200 \<le> status" "status < 300" "units_ok (mc_credential mc)" "\<forall>t. mc_expiresAt mc = Some t \<longrightarrow> units_ok t"
  shows "\<exists>v. internal_answer status (stringify (minted_envelope mc)) = Inr v \<and>
    string_field ''credential'' v = Some (mc_credential mc) \<and> string_field ''expires_at'' v = mc_expiresAt mc"
  using assms parse_minted_envelope [OF assms(3,4)]
  by (simp add: internal_answer_def safeParse_def minted_envelope_def string_field_def Let_def)

text \<open>The abort timer is cleared whatever \<open>fetch\<close> answers.\<close>

lemma mint_timers:
  assumes "\<forall>t \<in> set (is_timers st). t < is_next st" "mintCredential env c options st = (r, st')"
  shows "is_timers st' = is_timers st"
proof -
  have "set_delete (is_next st) (is_timers st @ [is_next st]) = is_timers st"
    using assms(1) by (auto simp: set_delete_def filter_id_conv)
  then show ?thesis using assms(2)
    by (auto simp: mintCredential_def internal_request_def Let_def split: sum.splits if_splits option.splits prod.splits)
qed

text \<open>The request for a credential, and what the caller gets for a response of the listener.\<close>

definition mint_post :: "internal_client \<Rightarrow> mint_options \<Rightarrow> internal_post" where
  "mint_post c options = \<lparr>ir_url = joinUrl (ic_baseUrl c) (js ''/internal/v1/credentials''),
     ir_headers = [(js ''Content-Type'', js ''application/json''), (js ''X-IM-Internal-Secret'', ic_internalSecret c)],
     ir_body = stringify (mint_body options)\<rparr>"

lemma mint_answered:
  assumes "ie_fetch env = Some fetch" "mintCredential env c options st = (r, st')"
    and "fetch (is_world st) (mint_post c options) = (Inr res, w)" "fst (re_text res w) = Inr raw"
  shows "case internal_answer (re_status res) raw of
      Inl e \<Rightarrow> r = Inl e \<and> exn_status e = Some (re_status res)
    | Inr v \<Rightarrow> r = Inr \<lparr>mc_credential = (case string_field ''credential'' v of Some s \<Rightarrow> s | None \<Rightarrow> []),
               mc_expiresAt = string_field ''expires_at'' v\<rparr>"
proof -
  have "internal_answer (re_status res) raw = Inl e \<Longrightarrow> exn_status e = Some (re_status res)" for e
    by (auto simp: internal_answer_def Let_def split: if_splits option.splits)
  then show ?thesis using assms
    by (auto simp: mintCredential_def internal_request_def mint_post_def Let_def split: sum.splits if_splits prod.splits)
qed

text \<open>
C28: Minting a credential is a round trip: when the internal listener answers with the printed envelope
of a credential, the caller gets that very credential and expiry.  Without \<open>fetch\<close> and when \<open>fetch\<close> rejects the call fails with an
\<open>IMError\<close> of status 0; when a body was read and the call fails, with an \<open>IMError\<close> of the status of the response; but when reading the body
fails, with the error of that read as it is, which need not be an \<open>IMError\<close>.  No abort timer is left running.
\<close>

theorem mintCredential_outcome:
  assumes "\<forall>t \<in> set (is_timers st). t < is_next st" "mintCredential env c options st = (r, st')"
    and "units_ok (mc_credential mc)" "\<forall>t. mc_expiresAt mc = Some t \<longrightarrow> units_ok t"
  shows "is_timers st' = is_timers st \<and>
    (case ie_fetch env of
       None \<Rightarrow> \<exists>msg. r = Inl (IMErr (IMError (-1) msg 0))
     | Some fetch \<Rightarrow>
         (case fetch (is_world st) (mint_post c options) of
            (Inl m, w) \<Rightarrow> \<exists>msg. r = Inl (IMErr (IMError (-1) msg 0))
          | (Inr res, w) \<Rightarrow>
              (case fst (re_text res w) of
                 Inl e \<Rightarrow> r = Inl e
               | Inr raw \<Rightarrow>
                   (\<forall>e. r = Inl e \<longrightarrow> exn_status e = Some (re_status res)) \<and>
                   (200 \<le> re_status res \<and> re_status res < 300 \<and> raw = stringify (minted_envelope mc) \<longrightarrow> r = Inr mc))))"
proof (cases "ie_fetch env")
  case None
  then show ?thesis using assms(2) mint_timers [OF assms(1,2)] by (auto simp: mintCredential_def internal_request_def)
next
  case (Some fetch)
  obtain a w where a: "fetch (is_world st) (mint_post c options) = (a, w)" by force
  show ?thesis
  proof (cases a)
    case (Inl m)
    then show ?thesis using assms(2) Some a mint_timers [OF assms(1,2)]
      by (auto simp: mintCredential_def internal_request_def mint_post_def Let_def split: if_splits prod.splits)
  next
    case (Inr res)
    show ?thesis
    proof (cases "fst (re_text res w)")
      case (Inl e)
      then show ?thesis using assms(2) Some a Inr mint_timers [OF assms(1,2)]
        by (auto simp: mintCredential_def internal_request_def mint_post_def Let_def split: if_splits prod.splits)
    next
      case raw: (Inr raw)
      note r = mint_answered [OF Some assms(2) a [unfolded Inr] raw]
      have "r = Inr mc" if "200 \<le> re_status res" "re_status res < 300" "raw = stringify (minted_envelope mc)"
        using internal_answer_minted [OF that(1,2) assms(3,4)] r that(3) by (cases mc) auto
      then show ?thesis using Some a Inr raw mint_timers [OF assms(1,2)] r by (auto split: sum.splits)
    qed
  qed
qed

definition sample_minted :: minted_credential where
  "sample_minted = \<lparr>mc_credential = [105, 109, 49], mc_expiresAt = None\<rparr>"

definition sample_internal_env :: "unit internal_env" where
  "sample_internal_env = \<lparr>ie_fetch = Some (\<lambda>w rq. (Inr \<lparr>re_status = 200, re_text = (\<lambda>w. (Inr (stringify (minted_envelope sample_minted)), w))\<rparr>, w)),
     ie_abortController = True\<rparr>"

theorem mintCredential_outcome_witness:
  "fst (mintCredential sample_internal_env (newInternalClient (js ''http://h'') (js ''s'') None)
     \<lparr>mo_uuid = [117], mo_name = [110], mo_nickname = None, mo_avatarUrl = None, mo_ttlSeconds = None\<rparr>
     \<lparr>is_world = (), is_timers = [], is_next = 1\<rparr>) = Inr sample_minted"
proof -
  let ?c = "newInternalClient (js ''http://h'') (js ''s'') None"
  let ?o = "\<lparr>mo_uuid = [117], mo_name = [110], mo_nickname = None, mo_avatarUrl = None, mo_ttlSeconds = None\<rparr>"
  let ?st = "\<lparr>is_world = (), is_timers = [], is_next = 1\<rparr>"
  obtain r st' where rs: "mintCredential sample_internal_env ?c ?o ?st = (r, st')" by force
  have ok: "units_ok (mc_credential sample_minted)" "\<forall>t. mc_expiresAt sample_minted = Some t \<longrightarrow> units_ok t"
    by (simp_all add: sample_minted_def units_ok_def)
  have "r = Inr sample_minted"
    using mintCredential_outcome [OF _ rs ok] by (simp add: sample_internal_env_def)
  with rs show ?thesis by simp
qed

end
