(* ===== verification/Client_Api.thy ===== *)
theory Client_Api
  imports Http
begin

text \<open>
  The REST clients of the terminal client, \<open>IMClient\<close> and \<open>AdminClient\<close> of \<open>client/src/api.ts\<close>.
  The runtime's \<open>fetch\<close> is an argument over an arbitrary world; a response is its status and its
  text, and \<open>res.json()\<close> rejects a text that is not JSON.  The envelope's \<open>code\<close> is a number or
  missing.  The interfaces of the file are those of \<open>sdk/ts/src/types.ts\<close>, modelled in \<open>Types\<close>.
\<close>

record cli_request =
  cr_url :: jstr
  cr_method :: jstr
  cr_headers :: "(jstr \<times> jstr) list"
  cr_body :: "jstr option"

type_synonym 'w cli_fetch = "'w \<Rightarrow> cli_request \<Rightarrow> (exn + (int \<times> jstr)) \<times> 'w"

record admin_conversation =
  ac_id :: jstr
  ac_title :: "jstr option"
  ac_avatar_url :: "jstr option"
  ac_created_by :: jstr
  ac_creator_username :: jstr
  ac_member_count :: int
  ac_message_count :: int
  ac_latest_message_at :: "jstr option"
  ac_created_at :: jstr
  ac_updated_at :: jstr

record im_client =
  ic_base :: jstr
  ic_credential :: jstr

record admin_client =
  ad_base :: jstr
  ad_token :: jstr

text \<open>Reading the envelope of a response; \<open>body.data\<close> may be missing.\<close>

definition cli_envelope :: "int \<Rightarrow> jstr \<Rightarrow> exn + json option" where
  "cli_envelope status raw =
     (case parse raw of
        None \<Rightarrow> Inl (JsError (js ''Unexpected token in JSON''))
      | Some body \<Rightarrow>
          if body = JNull then Inl (JsError (js ''Cannot read properties of null''))
          else if \<not> (200 \<le> status \<and> status < 300) \<or> jget (js ''code'') body \<noteq> Some (JNum 0)
          then Inl (IMErr (IMError
                 (case number_field ''code'' body of Some code \<Rightarrow> code | None \<Rightarrow> -1)
                 (envelope_message body status) status))
          else Inr (jget (js ''data'') body))"

definition cli_call :: "'w cli_fetch \<Rightarrow> cli_request \<Rightarrow> 'w \<Rightarrow> (exn + json option) \<times> 'w" where
  "cli_call fetch rq w =
     (case fetch w rq of
        (Inl e, w') \<Rightarrow> (Inl e, w')
      | (Inr (status, raw), w') \<Rightarrow> (cli_envelope status raw, w'))"

text \<open>A string member of an answer's \<open>data\<close>; a \<open>TypeError\<close> when \<open>data\<close> is missing or null.\<close>

definition data_text :: "string \<Rightarrow> json option \<Rightarrow> exn + jstr" where
  "data_text k v =
     (case v of
        None \<Rightarrow> Inl (JsError (js ''Cannot read properties of undefined''))
      | Some x \<Rightarrow>
          if x = JNull then Inl (JsError (js ''Cannot read properties of null''))
          else Inr (case string_field k x of Some s \<Rightarrow> s | None \<Rightarrow> []))"

section \<open>AdminClient\<close>

definition newAdminClient :: "jstr \<Rightarrow> jstr \<Rightarrow> admin_client" where
  "newAdminClient base token = \<lparr>ad_base = trim_end_slashes base, ad_token = token\<rparr>"

definition admin_login :: "'w cli_fetch \<Rightarrow> jstr \<Rightarrow> jstr \<Rightarrow> jstr \<Rightarrow> 'w \<Rightarrow> (exn + admin_client) \<times> 'w" where
  "admin_login fetch base username password w =
     (case cli_call fetch
         \<lparr>cr_url = trim_end_slashes base @ js ''/admin/api/login'', cr_method = js ''POST'',
          cr_headers = [(js ''Content-Type'', js ''application/json'')],
          cr_body = Some (stringify (JObj [(js ''username'', JStr username), (js ''password'', JStr password)]))\<rparr> w of
        (Inl e, w') \<Rightarrow> (Inl e, w')
      | (Inr v, w') \<Rightarrow>
          (case data_text ''token'' v of
             Inl e \<Rightarrow> (Inl e, w')
           | Inr token \<Rightarrow> (Inr (newAdminClient base token), w')))"

definition admin_listAllGroups :: "'w cli_fetch \<Rightarrow> admin_client \<Rightarrow> 'w \<Rightarrow> (exn + json option) \<times> 'w" where
  "admin_listAllGroups fetch a w =
     cli_call fetch
       \<lparr>cr_url = ad_base a @ js ''/admin/api/conversations'', cr_method = js ''GET'',
        cr_headers = [(js ''Authorization'', js ''Bearer '' @ ad_token a)], cr_body = None\<rparr> w"

section \<open>IMClient\<close>

definition newIMClient :: "jstr \<Rightarrow> jstr \<Rightarrow> im_client" where
  "newIMClient base cred = \<lparr>ic_base = trim_end_slashes base, ic_credential = cred\<rparr>"

definition withCredential :: "jstr \<Rightarrow> jstr \<Rightarrow> im_client" where
  "withCredential base cred = newIMClient (trim_end_slashes base) cred"

record identity =
  id_uuid :: jstr
  id_name :: jstr
  id_nickname :: "jstr option"

definition identity_json :: "identity \<Rightarrow> json" where
  "identity_json i = JObj ([(js ''uuid'', JStr (id_uuid i)), (js ''name'', JStr (id_name i))]
     @ opt_field ''nickname'' (map_option JStr (id_nickname i)))"

definition mint ::
  "'w cli_fetch \<Rightarrow> jstr \<Rightarrow> jstr \<Rightarrow> identity \<Rightarrow> jstr option \<Rightarrow> 'w \<Rightarrow> (exn + im_client) \<times> 'w" where
  "mint fetch base secret i mintUrl w =
     (case cli_call fetch
         \<lparr>cr_url = trim_end_slashes (case mintUrl of Some u \<Rightarrow> u | None \<Rightarrow> base) @ js ''/internal/v1/credentials'',
          cr_method = js ''POST'',
          cr_headers = [(js ''Content-Type'', js ''application/json''), (js ''X-IM-Internal-Secret'', secret)],
          cr_body = Some (stringify (identity_json i))\<rparr> w of
        (Inl e, w') \<Rightarrow> (Inl e, w')
      | (Inr v, w') \<Rightarrow>
          (case data_text ''credential'' v of
             Inl e \<Rightarrow> (Inl e, w')
           | Inr cred \<Rightarrow> (Inr (newIMClient (trim_end_slashes base) cred), w')))"

text \<open>Spreading \<open>extraHeaders\<close> over the headers.\<close>

definition api_headers :: "im_client \<Rightarrow> json option \<Rightarrow> (jstr \<times> jstr) list \<Rightarrow> (jstr \<times> jstr) list" where
  "api_headers c body extra =
     foldl (\<lambda>h (k, v). AList.update k v h)
       ((js ''Authorization'', js ''Bearer '' @ ic_credential c) #
        (if body \<noteq> None then [(js ''Content-Type'', js ''application/json'')] else [])) extra"

definition api_request ::
  "'w cli_fetch \<Rightarrow> im_client \<Rightarrow> string \<Rightarrow> jstr \<Rightarrow> json option \<Rightarrow> (jstr \<times> jstr) list \<Rightarrow> 'w \<Rightarrow> (exn + json option) \<times> 'w" where
  "api_request fetch c meth path body extra w =
     cli_call fetch
       \<lparr>cr_url = ic_base c @ path, cr_method = js meth, cr_headers = api_headers c body extra,
        cr_body = map_option stringify body\<rparr> w"

definition cli_me :: "'w cli_fetch \<Rightarrow> im_client \<Rightarrow> 'w \<Rightarrow> (exn + json option) \<times> 'w" where
  "cli_me fetch c = api_request fetch c ''GET'' (js ''/api/v1/me'') None []"

definition cli_listGroups :: "'w cli_fetch \<Rightarrow> im_client \<Rightarrow> 'w \<Rightarrow> (exn + json option) \<times> 'w" where
  "cli_listGroups fetch c = api_request fetch c ''GET'' (js ''/api/v1/conversations?type=group'') None []"

definition cli_createGroup ::
  "'w cli_fetch \<Rightarrow> im_client \<Rightarrow> jstr option \<Rightarrow> jstr list \<Rightarrow> 'w \<Rightarrow> (exn + json option) \<times> 'w" where
  "cli_createGroup fetch c title members =
     api_request fetch c ''POST'' (js ''/api/v1/group'')
       (Some (JObj [(js ''title'', case title of Some t \<Rightarrow> JStr t | None \<Rightarrow> JNull),
                    (js ''member_uuids'', json_strings members)])) []"

text \<open>A path with encoded segments; a segment that cannot be encoded is the \<open>URIError\<close>.\<close>

definition cli_getConversation :: "'w cli_fetch \<Rightarrow> im_client \<Rightarrow> jstr \<Rightarrow> 'w \<Rightarrow> (exn + json option) \<times> 'w" where
  "cli_getConversation fetch c uuid w =
     (case encodeURIComponent uuid of
        None \<Rightarrow> (Inl URIError, w)
      | Some e \<Rightarrow> api_request fetch c ''GET'' (js ''/api/v1/conversations/'' @ e) None [] w)"

definition cli_addMembers ::
  "'w cli_fetch \<Rightarrow> im_client \<Rightarrow> jstr \<Rightarrow> jstr list \<Rightarrow> 'w \<Rightarrow> (exn + json option) \<times> 'w" where
  "cli_addMembers fetch c conversationId members w =
     (case encodeURIComponent conversationId of
        None \<Rightarrow> (Inl URIError, w)
      | Some e \<Rightarrow> api_request fetch c ''POST'' (js ''/api/v1/conversations/'' @ e @ js ''/members'')
          (Some (JObj [(js ''member_uuids'', json_strings members)])) [] w)"

definition cli_removeMember ::
  "'w cli_fetch \<Rightarrow> im_client \<Rightarrow> jstr \<Rightarrow> jstr \<Rightarrow> 'w \<Rightarrow> (exn + json option) \<times> 'w" where
  "cli_removeMember fetch c conversationId user w =
     (case (encodeURIComponent conversationId, encodeURIComponent user) of
        (Some e, Some u) \<Rightarrow>
          api_request fetch c ''DELETE'' (js ''/api/v1/conversations/'' @ e @ js ''/members/'' @ u) None [] w
      | _ \<Rightarrow> (Inl URIError, w))"

definition messages_path :: "jstr \<Rightarrow> int \<Rightarrow> int \<Rightarrow> jstr" where
  "messages_path e afterSequence limit =
     js ''/api/v1/conversations/'' @ e @ js ''/messages?after_sequence='' @ show_int afterSequence @
     js ''&limit='' @ show_int limit"

definition cli_listMessages ::
  "'w cli_fetch \<Rightarrow> im_client \<Rightarrow> jstr \<Rightarrow> int option \<Rightarrow> int option \<Rightarrow> 'w \<Rightarrow> (exn + json option) \<times> 'w" where
  "cli_listMessages fetch c conversationId afterSequence limit w =
     (case encodeURIComponent conversationId of
        None \<Rightarrow> (Inl URIError, w)
      | Some e \<Rightarrow>
          api_request fetch c ''GET''
            (messages_path e (case afterSequence of Some a \<Rightarrow> a | None \<Rightarrow> 0)
               (case limit of Some l \<Rightarrow> l | None \<Rightarrow> 200)) None [] w)"

definition cli_sendMessage ::
  "'w cli_fetch \<Rightarrow> im_client \<Rightarrow> jstr \<Rightarrow> jstr \<Rightarrow> content_type option \<Rightarrow> jstr option \<Rightarrow> 'w \<Rightarrow> (exn + json option) \<times> 'w" where
  "cli_sendMessage fetch c conversationId content contentType idempotencyKey =
     api_request fetch c ''POST'' (js ''/api/v1/messages'')
       (Some (JObj [(js ''conversation_id'', JStr conversationId), (js ''content'', JStr content),
          (js ''content_type'', JStr (content_type_text (case contentType of Some t \<Rightarrow> t | None \<Rightarrow> TextMarkdown)))]))
       (case idempotencyKey of
          Some k \<Rightarrow> if k = [] then [] else [(js ''Idempotency-Key'', k)]
        | None \<Rightarrow> [])"

section \<open>What the clients promise\<close>

text \<open>A \<open>fetch\<close> that keeps the requests it gets.\<close>

definition logging :: "'w cli_fetch \<Rightarrow> ('w \<times> cli_request list) cli_fetch" where
  "logging fetch = (\<lambda>(w, log) rq. case fetch w rq of (r, w') \<Rightarrow> (r, (w', log @ [rq])))"

lemma cli_listMessages_requests:
  assumes "cli_listMessages (logging fetch) c conversationId afterSequence limit (w, log0) = (r, (w', log))"
  shows "case encodeURIComponent conversationId of
      None \<Rightarrow> log = log0
    | Some e \<Rightarrow> log = log0 @ [\<lparr>cr_url = ic_base c @ messages_path e (case afterSequence of Some a \<Rightarrow> a | None \<Rightarrow> 0) (case limit of Some l \<Rightarrow> l | None \<Rightarrow> 200),
        cr_method = js ''GET'', cr_headers = api_headers c None [], cr_body = None\<rparr>]"
  using assms by (auto simp: cli_listMessages_def api_request_def cli_call_def logging_def split: option.splits prod.splits sum.splits)

lemma built_messages_url:
  "buildUrl base (js ''/api/v1/conversations/'' @ e @ js ''/messages'')
      (Some [(js ''after_sequence'', Some (QNumber a)), (js ''limit'', Some (QNumber l))])
    = Some (trim_end_slashes base @ messages_path e a l)"
proof -
  have k: "encodeURIComponent (js ''after_sequence'') = Some (js ''after_sequence'')"
    "encodeURIComponent (js ''limit'') = Some (js ''limit'')"
    by (rule encodeURIComponent_plain; simp add: js_def uri_unreserved_def)+
  have p: "joinUrl base (js ''/api/v1/conversations/'' @ e @ js ''/messages'')
      = trim_end_slashes base @ js ''/api/v1/conversations/'' @ e @ js ''/messages''"
    by (simp add: joinUrl_def trim_start_slashes_def js_eval)
  have q: "query_parts [(js ''after_sequence'', Some (QNumber a)), (js ''limit'', Some (QNumber l))] =
      Some [js ''after_sequence'' @ 61 # show_int a, js ''limit'' @ 61 # show_int l]"
    by (simp add: k encodeURIComponent_show_int)
  have j: "js ''/messages'' @ 63 # js ''after_sequence'' @ 61 # x = js ''/messages?after_sequence='' @ x"
    "38 # js ''limit'' @ 61 # x = js ''&limit='' @ x" for x
    by (simp_all add: js_eval)
  show ?thesis unfolding buildUrl_def p q Let_def option.case by (simp add: messages_path_def j)
qed

text \<open>
C25: Both clients ask for the same page.  When a conversation, a cursor and a limit are given to \<open>listMessages\<close> of the SDK and to
\<open>listMessages\<close> of the terminal client, each for the same base URL, then every request of either is a \<open>GET\<close> of one and the same URL, which carries
the cursor as \<open>after_sequence\<close> and the limit as \<open>limit\<close>, and each sends at least one; an id that cannot be encoded makes both fail without a request.
\<close>

theorem clients_build_same_url:
  assumes "listMessages env conversationId \<lparr>lo_afterSequence = Some a, lo_limit = Some l\<rparr> (start_state base cred w) = (r, st')"
    and "cli_listMessages (logging fetch) (newIMClient base cred') conversationId (Some a) (Some l) (v, []) = (r', (v', log))"
  shows "case encodeURIComponent conversationId of
      None \<Rightarrow> r = Inl URIError \<and> r' = Inl URIError \<and> trace st' = [] \<and> log = []
    | Some e \<Rightarrow> \<exists>url. url = trim_end_slashes base @ js ''/api/v1/conversations/'' @ e @ js ''/messages?after_sequence='' @ show_int a @
          js ''&limit='' @ show_int l \<and>
        trace st' \<noteq> [] \<and> (\<forall>rq \<in> set (trace st'). rq_url rq = url \<and> rq_method rq = GET \<and> rq_data rq = None) \<and>
        map (\<lambda>rq. (cr_url rq, cr_method rq, cr_body rq)) log = [(url, js ''GET'', None)]"
proof (cases "encodeURIComponent conversationId")
  case None
  then show ?thesis using assms
    by (auto simp: listMessages_def request_encoded_def cli_listMessages_def start_state_def)
next
  case (Some e)
  let ?opts = "no_options\<lparr>op_query := Some [(js ''after_sequence'', Some (QNumber a)), (js ''limit'', Some (QNumber l))]\<rparr>"
  let ?path = "js ''/api/v1/conversations/'' @ e @ js ''/messages''" and ?st = "start_state base cred w"
  have req: "request env GET ?path ?opts ?st = (r, st')"
    using assms(1) Some by (simp add: listMessages_def request_encoded_def)
  have base: "trim_end_slashes (baseUrl (client ?st)) = trim_end_slashes base"
    by (simp add: start_state_def newHttpClient_def)
  obtain rqs where rqs: "trace st' = rqs" "\<forall>rq \<in> set rqs. attempt_of (client ?st) GET ?path ?opts rq"
    using request_trace [OF req] by (auto simp: start_state_def)
  have each: "rq_url rq = trim_end_slashes base @ messages_path e a l \<and> rq_method rq = GET \<and> rq_data rq = None" if "rq \<in> set rqs" for rq
    using that rqs(2) base by (auto simp: attempt_of_def built_request_def built_messages_url no_options_def)
  obtain r1 st1 where 1: "requestOnce env GET ?path ?opts ?st = (r1, st1)" by force
  have ne: "trace st1 \<noteq> []"
    using 1 by (cases rule: requestOnce_cases) (auto simp: no_options_def built_messages_url)
  from req have "trace st' \<noteq> []"
  proof (cases rule: request_cases)
    case (refreshed e' st1' st2 fresh)
    have "trace st1' \<noteq> []" using refreshed(1) 1 ne by simp
    then show ?thesis using requestOnce_trace [OF refreshed(8)] refreshed(6) by auto
  qed (use 1 ne in auto)
  then show ?thesis
    using rqs(1) each cli_listMessages_requests [OF assms(2)] Some by (simp add: messages_path_def newIMClient_def)
qed

text \<open>A backend for the SDK and a \<open>fetch\<close> for the terminal client.\<close>

theorem clients_build_same_url_witness:
  "\<exists>rq cr. trace (snd (listMessages scripted [99] \<lparr>lo_afterSequence = Some 7, lo_limit = Some 200\<rparr> (start_state (js ''http://h/'') [] []))) = [rq] \<and>
     snd (snd (cli_listMessages (logging (\<lambda>w rq. (Inr (500, js ''null''), w))) (newIMClient (js ''http://h/'') []) [99] (Some 7) (Some 200) ((), []))) = [cr] \<and>
     rq_url rq = cr_url cr"
proof -
  let ?sdk = "listMessages scripted [99] \<lparr>lo_afterSequence = Some 7, lo_limit = Some 200\<rparr>
      (start_state (js ''http://h/'') [] ([] :: (jstr option + http_response) list))"
  let ?cli = "cli_listMessages (logging (\<lambda>w rq. (Inr (500, js ''null''), w))) (newIMClient (js ''http://h/'') []) [99] (Some 7) (Some 200) ((), [])"
  obtain r st' where sdk: "?sdk = (r, st')" by force
  obtain r' v' log where cli: "?cli = (r', (v', log))" by (metis surj_pair)
  have enc: "encodeURIComponent [99] = Some [99]" by (simp add: encodeURIComponent_plain uri_unreserved_def js_eval)
  have "length (trace st') \<le> 1"
    using sdk by (auto simp: listMessages_def request_encoded_def request_def requestOnce_def scripted_def
        enc start_state_def no_options_def Let_def split: option.splits)
  then show ?thesis using clients_build_same_url [OF sdk cli] sdk cli by (auto simp: enc length_Suc_conv le_Suc_eq map_eq_Cons_conv)
qed

text \<open>
A call of the terminal client resolves exactly when the response is 2xx JSON with code 0, with the
\<open>data\<close> of the envelope; otherwise the error carries the HTTP status, except for a failed \<open>fetch\<close> or a
body that is not JSON or is \<open>null\<close>, whose error is no \<open>IMError\<close>.
\<close>

theorem api_request_outcome:
  assumes "fetch w \<lparr>cr_url = ic_base c @ path, cr_method = js meth, cr_headers = api_headers c body extra,
      cr_body = map_option stringify body\<rparr> = (Inr (status, raw), w')"
  shows "\<exists>r. api_request fetch c meth path body extra w = (r, w') \<and>
    ((\<exists>v. r = Inr v) \<longleftrightarrow> 200 \<le> status \<and> status < 300 \<and>
       (\<exists>b. parse raw = Some b \<and> jget (js ''code'') b = Some (JNum 0))) \<and>
    (\<forall>v. r = Inr v \<longrightarrow> (\<exists>b. parse raw = Some b \<and> v = jget (js ''data'') b)) \<and>
    (\<forall>e. r = Inl e \<longrightarrow> (case parse raw of
        None \<Rightarrow> exn_status e = None
      | Some b \<Rightarrow> exn_status e = (if b = JNull then None else Some status)))"
  using assms by (auto simp: api_request_def cli_call_def cli_envelope_def split: option.split)

theorem api_request_outcome_witness:
  "fst (api_request (\<lambda>w rq. (Inr (500, js ''null''), w)) (newIMClient [] []) ''GET'' [] None [] ()) \<noteq> Inr (Some JNull)"
  using api_request_outcome [where fetch = "\<lambda>w rq. (Inr (500, js ''null''), w)" and w = "()" and c = "newIMClient [] []"
      and meth = "''GET''" and path = "[]" and body = None and extra = "[]", OF refl] by auto

text \<open>
  A resend with the same non-empty key carries that key: the idempotency header of a message is
present exactly when a non-empty key is given, and it never replaces the credential.
\<close>

lemma send_headers:
  "map_of (api_headers c (Some b) (case k of Some x \<Rightarrow> if x = [] then [] else [(js ''Idempotency-Key'', x)] | None \<Rightarrow> []))
     (js ''Idempotency-Key'') = (if k = Some [] then None else k) \<and>
   map_of (api_headers c (Some b) (case k of Some x \<Rightarrow> if x = [] then [] else [(js ''Idempotency-Key'', x)] | None \<Rightarrow> []))
     (js ''Authorization'') = Some (js ''Bearer '' @ ic_credential c)"
  by (cases k) (simp_all add: api_headers_def)

end
