(* ===== verification/Client_Gateway.thy ===== *)
theory Client_Gateway
  imports Gateway
begin

text \<open>
  The gateway client \<open>GatewayClient\<close> of the terminal client (\<open>client/src/gateway.ts\<close>).  Its fields are
  among those of the SDK's socket, so that it is modelled on the same record \<open>gateway\<close>, with the same
  effects and the same runtime events; it has no credential refresh, it closes the socket itself
  when authentication fails, and its reconnection timer opens a socket without looking.
\<close>

definition APP_PING_INTERVAL_MS :: int where
  "APP_PING_INTERVAL_MS = 25000"

definition newGatewayClient :: "jstr \<Rightarrow> jstr \<Rightarrow> gateway" where
  "newGatewayClient url cred =
     (newGatewaySocket [] cred (Some APP_PING_INTERVAL_MS) False)\<lparr>g_url := url\<rparr>"

definition cg_setCredential :: "jstr \<Rightarrow> gateway \<Rightarrow> gateway" where
  "cg_setCredential cred g = g\<lparr>g_credential := cred\<rparr>"

definition cg_isOnline :: "gateway \<Rightarrow> bool" where
  "cg_isOnline g = authenticated g"

definition stopAppPing :: "gateway \<Rightarrow> gateway" where
  "stopAppPing g = (case pingTimer g of Some t \<Rightarrow> clearInterval t g | None \<Rightarrow> g)\<lparr>pingTimer := None\<rparr>"

definition startAppPing :: "gateway \<Rightarrow> gateway" where
  "startAppPing g =
     (let (t, g1) = setInterval APP_PING_INTERVAL_MS (stopAppPing g) in g1\<lparr>pingTimer := Some t\<rparr>)"

definition cg_clearTimers :: "gateway \<Rightarrow> gateway" where
  "cg_clearTimers g =
     (let g1 = stopAppPing g
      in (case reconnectTimer g1 of Some t \<Rightarrow> clearTimeout t g1 | None \<Rightarrow> g1)\<lparr>reconnectTimer := None\<rparr>)"

definition cg_open :: "gateway \<Rightarrow> gateway" where
  "cg_open g =
     (let g1 = setStatus (if reconnectDelayMs g > 500 then Reconnecting else Connecting) (g\<lparr>authenticated := False\<rparr>)
      in effect (OpenSocket (g_next g1) (g_url g1))
           (g1\<lparr>g_socket := Some (g_next g1), g_next := Suc (g_next g1), g_sockets := g_sockets g1 @ [g_next g1]\<rparr>))"

definition cg_connect :: "gateway \<Rightarrow> gateway" where
  "cg_connect g = (if g_socket g \<noteq> None then g else cg_open (g\<lparr>closedByUser := False\<rparr>))"

definition cg_close :: "gateway \<Rightarrow> gateway" where
  "cg_close g =
     (let g1 = cg_clearTimers (g\<lparr>closedByUser := True\<rparr>);
          g2 = (case g_socket g1 of Some k \<Rightarrow> effect (CloseSocket k) g1 | None \<Rightarrow> g1)
      in setStatus Closed (g2\<lparr>g_socket := None\<rparr>))"

definition cg_onOpen :: "nat \<Rightarrow> gateway \<Rightarrow> gateway" where
  "cg_onOpen k g =
     effect (SendFrame k (auth_frame (g_credential g))) (setStatus Authenticating (g\<lparr>g_opened := g_opened g @ [k]\<rparr>))"

definition cg_onMessage :: "nat \<Rightarrow> jstr \<Rightarrow> gateway \<Rightarrow> exn option \<times> gateway" where
  "cg_onMessage k raw g =
     (case parse raw of
        None \<Rightarrow> (None, g)
      | Some frame \<Rightarrow>
          if frame = JNull then (Some (JsError (js ''Cannot read properties of null'')), g)
          else if \<not> authenticated g then
            (None,
             if jget (js ''code'') frame = Some (JNum 0) then
               effect OnReady (startAppPing (setStatus Online (g\<lparr>authenticated := True, reconnectDelayMs := 500\<rparr>)))
             else
               effect (CloseSocket k) (effect (OnError (js ''gateway auth failed: '' @
                 (case jget (js ''message'') frame of
                    None \<Rightarrow> raw | Some JNull \<Rightarrow> raw | Some v \<Rightarrow> js_String v))) g))
          else if jget (js ''cmd'') frame \<noteq> None \<and> jget (js ''event'') frame = None then (None, g)
          else (None, onEventFrame frame g))"

definition cg_scheduleReconnect :: "gateway \<Rightarrow> gateway" where
  "cg_scheduleReconnect g =
     (let g0 = setStatus Reconnecting g;
          delay = reconnectDelayMs g0;
          (t, g2) = setTimeout delay (g0\<lparr>reconnectDelayMs := min (reconnectDelayMs g0 * 2) MAX_RECONNECT_DELAY_MS\<rparr>)
      in g2\<lparr>reconnectTimer := Some t\<rparr>)"

definition cg_onClose :: "nat \<Rightarrow> gateway \<Rightarrow> gateway" where
  "cg_onClose k g =
     (let g1 = (stopAppPing (g\<lparr>g_sockets := set_delete k (g_sockets g)\<rparr>))\<lparr>authenticated := False, g_socket := None\<rparr>
      in if \<not> closedByUser g1 then cg_scheduleReconnect g1 else g1)"

definition cg_onReconnectTimer :: "nat \<Rightarrow> gateway \<Rightarrow> gateway" where
  "cg_onReconnectTimer t g = cg_open (g\<lparr>g_timeouts := set_delete t (g_timeouts g)\<rparr>)"

text \<open>The calls of the owner and the events of the runtime.\<close>

datatype cg_label = CgConnect | CgClose | CgOpened nat | CgMessage nat jstr | CgClosed nat | CgTimer nat | CgPing nat

inductive cg_step :: "cg_label \<Rightarrow> gateway \<Rightarrow> gateway \<Rightarrow> bool" where
  cg_connect: "cg_step CgConnect g (cg_connect g)"
| cg_close: "cg_step CgClose g (cg_close g)"
| cg_opened: "k \<in> set (g_sockets g) \<Longrightarrow> cg_step (CgOpened k) g (cg_onOpen k g)"
| cg_message: "k \<in> set (g_sockets g) \<Longrightarrow> cg_step (CgMessage k raw) g (snd (cg_onMessage k raw g))"
| cg_closed: "k \<in> set (g_sockets g) \<Longrightarrow> cg_step (CgClosed k) g (cg_onClose k g)"
| cg_timer: "t \<in> set (g_timeouts g) \<Longrightarrow> cg_step (CgTimer t) g (cg_onReconnectTimer t g)"
| cg_ping: "t \<in> set (g_intervals g) \<Longrightarrow> cg_step (CgPing t) g (onPingTimer g)"

section \<open>Laws\<close>

lemma stopAppPing_stopPing: "stopAppPing = stopPing"
  by (simp add: fun_eq_iff stopAppPing_def stopPing_def)

lemma cg_clearTimers_clearTimers: "cg_clearTimers = clearTimers"
  by (simp add: fun_eq_iff cg_clearTimers_def clearTimers_def stopAppPing_stopPing)

lemma cg_scheduleReconnect_eq: "cg_scheduleReconnect g = scheduleReconnect (setStatus Reconnecting g)"
  by (simp add: cg_scheduleReconnect_def scheduleReconnect_def Let_def)

lemma startAppPing_sel [simp]:
  "reconnectDelayMs (startAppPing g) = reconnectDelayMs g" "seenEventIds (startAppPing g) = seenEventIds g"
  "g_effects (startAppPing g) = g_effects g @
     (case pingTimer g of Some t \<Rightarrow> [ClearInterval t] | None \<Rightarrow> []) @ [SetInterval (g_next g) APP_PING_INTERVAL_MS]"
  by (simp_all add: startAppPing_def stopAppPing_stopPing setInterval_def)

lemmas cg_defs = cg_connect_def cg_open_def cg_close_def cg_onOpen_def cg_onMessage_def cg_onClose_def
  cg_onReconnectTimer_def cg_scheduleReconnect_eq stopAppPing_stopPing cg_clearTimers_clearTimers Let_def

lemma cg_backoff_step: "cg_step l g g' \<Longrightarrow> backoff_ok g \<Longrightarrow> backoff_ok g'"
proof (induction rule: cg_step.induct)
  case (cg_connect g)
  show ?case by (rule backoff_cong [OF _ _ cg_connect]) (auto simp: cg_defs)
next
  case (cg_close g)
  show ?case by (rule backoff_cong [OF _ _ cg_close]) (auto simp: cg_defs split: option.split)
next
  case (cg_message k g raw)
  show ?case
    by (rule backoff_cong [OF _ _ cg_message(2)])
       (auto simp: cg_defs onEventFrame_def split: option.split json.split)
next
  case (cg_closed k g)
  let ?g = "(stopPing (g\<lparr>g_sockets := set_delete k (g_sockets g)\<rparr>))\<lparr>authenticated := False, g_socket := None\<rparr>"
  have "backoff_ok (setStatus Reconnecting ?g)" "backoff_ok ?g"
    by (rule backoff_cong [OF _ _ cg_closed(2)]; auto split: option.split)+
  then show ?case using backoff_schedule by (simp add: cg_defs)
next
  case (cg_timer t g)
  show ?case by (rule backoff_cong [OF _ _ cg_timer(2)]) (auto simp: cg_defs)
qed (auto simp: cg_defs onPingTimer_def backoff_ok_def split: option.split)

interpretation cg_backoff: inductive_invariant cg_step "\<lambda>l. True" backoff_ok
  by unfold_locales (rule cg_backoff_step)

lemma cg_dedupe_step: "cg_step l g g' \<Longrightarrow> dedupe_ok g \<Longrightarrow> dedupe_ok g'"
proof (induction rule: cg_step.induct)
  case (cg_connect g)
  show ?case by (rule dedupe_cong [OF _ _ cg_connect]) (auto simp: cg_defs delivered_def)
next
  case (cg_close g)
  show ?case by (rule dedupe_cong [OF _ _ cg_close]) (auto simp: cg_defs delivered_def split: option.split)
next
  case (cg_message k g raw)
  have auth: "dedupe_ok (effect OnReady (startAppPing (setStatus Online (g\<lparr>authenticated := True, reconnectDelayMs := 500\<rparr>))))"
    "dedupe_ok (effect (CloseSocket k) (effect (OnError m) g))" for m
    by (rule dedupe_cong [OF _ _ cg_message(2)]; auto simp: delivered_def split: option.split)+
  then show ?case using cg_message(2) dedupe_eventFrame by (auto simp: cg_onMessage_def split: option.split)
next
  case (cg_closed k g)
  show ?case by (rule dedupe_cong [OF _ _ cg_closed(2)]) (auto simp: cg_defs delivered_def split: option.split)
next
  case (cg_timer t g)
  show ?case by (rule dedupe_cong [OF _ _ cg_timer(2)]) (auto simp: cg_defs delivered_def)
qed (auto simp: cg_defs onPingTimer_def dedupe_ok_def delivered_def split: option.split)

interpretation cg_dedupe: inductive_invariant cg_step "\<lambda>l. True" dedupe_ok
  by unfold_locales (rule cg_dedupe_step)

text \<open>
The terminal client waits between half a second and ten seconds before every reconnection, and hands no
event id twice to its owner among the first ten thousand, in every order of calls and events.
\<close>

theorem client_gateway_invariants:
  assumes "lreach cg_step (\<lambda>l. True) (newGatewayClient url cred) g"
  shows "(SetTimeout t d \<in> set (g_effects g) \<longrightarrow> 500 \<le> d \<and> d \<le> 10000) \<and>
    (length (delivered g) \<le> 10000 \<longrightarrow> distinct (filter (\<lambda>v. \<not> is_ref v) (delivered g)))"
proof -
  have "backoff_ok g"
    by (rule cg_backoff.inv_reach [OF assms])
       (simp add: backoff_ok_def newGatewayClient_def newGatewaySocket_def MAX_RECONNECT_DELAY_MS_def)
  moreover have "dedupe_ok g"
    by (rule cg_dedupe.inv_reach [OF assms])
       (simp add: dedupe_ok_def newGatewayClient_def newGatewaySocket_def delivered_def)
  ultimately show ?thesis by (auto simp: backoff_ok_def dedupe_ok_def MAX_RECONNECT_DELAY_MS_def MAX_SEEN_EVENTS_def)
qed

theorem client_gateway_invariants_witness:
  "500 \<le> (500 :: int) \<and> SetTimeout 2 500 \<in> set (g_effects (cg_onClose 1 (cg_connect (newGatewayClient [] []))))"
proof -
  let ?g0 = "newGatewayClient [] []"
  note more = lreach.more [where step = cg_step and allowed = "\<lambda>l. True" and ?s0.0 = ?g0]
  have start: "lreach cg_step (\<lambda>l. True) ?g0 ?g0" by (rule lreach.start)
  have "cg_step (CgClosed 1) (cg_connect ?g0) (cg_onClose 1 (cg_connect ?g0))"
    by (rule cg_closed) (simp add: cg_defs newGatewayClient_def newGatewaySocket_def)
  note reach = more [OF more [OF start TrueI cg_step.cg_connect] TrueI this]
  have "SetTimeout 2 500 \<in> set (g_effects (cg_onClose 1 (cg_connect ?g0)))"
    by (simp add: cg_defs newGatewayClient_def newGatewaySocket_def)
  then show ?thesis using client_gateway_invariants [OF reach] by blast
qed

text \<open>
A \<open>connect()\<close> of the terminal client while a reconnection is pending leaves two live sockets: the
timer opens a second one without looking at the first, which is not closed and can no longer be.
\<close>

theorem pending_reconnect_opens_second_socket:
  assumes "g_sockets g = [k]" "k < g_next g" "\<not> closedByUser g"
  shows "let dropped = cg_onClose k g; connected = cg_connect dropped;
             final = cg_onReconnectTimer (the (reconnectTimer dropped)) connected
         in the (reconnectTimer dropped) \<in> set (g_timeouts connected) \<and>
            length (g_sockets final) = 2 \<and> g_socket final = Some (last (g_sockets final)) \<and>
            (\<forall>j. CloseSocket j \<in> set (g_effects final) \<longrightarrow> CloseSocket j \<in> set (g_effects g))"
proof -
  define d where "d = cg_onClose k g"
  have d: "g_sockets d = []" "g_socket d = None" "\<not> closedByUser d" "the (reconnectTimer d) \<in> set (g_timeouts d)"
    "\<And>j. CloseSocket j \<in> set (g_effects d) \<Longrightarrow> CloseSocket j \<in> set (g_effects g)"
    using assms by (auto simp: d_def cg_defs set_delete_def split: option.splits)
  define c where "c = cg_connect d"
  have c: "g_sockets c = [g_next d]" "g_next c = Suc (g_next d)" "g_timeouts c = g_timeouts d"
    "\<And>j. CloseSocket j \<in> set (g_effects c) \<Longrightarrow> CloseSocket j \<in> set (g_effects g)"
    using d by (auto simp: c_def cg_defs)
  have "g_sockets (cg_onReconnectTimer t c) = [g_next d, Suc (g_next d)]"
    "g_socket (cg_onReconnectTimer t c) = Some (Suc (g_next d))"
    "\<And>j. CloseSocket j \<in> set (g_effects (cg_onReconnectTimer t c)) \<Longrightarrow> CloseSocket j \<in> set (g_effects g)" for t
    using c by (auto simp: cg_defs)
  then show ?thesis unfolding Let_def d_def [symmetric] c_def [symmetric] using c(3) d(4) by simp
qed

theorem pending_reconnect_opens_second_socket_witness:
  "length (g_sockets (cg_onReconnectTimer (the (reconnectTimer (cg_onClose 1 (cg_connect (newGatewayClient [] [])))))
     (cg_connect (cg_onClose 1 (cg_connect (newGatewayClient [] [])))))) = 2"
proof -
  have "g_sockets (cg_connect (newGatewayClient [] [])) = [1]" "1 < g_next (cg_connect (newGatewayClient [] []))"
    "\<not> closedByUser (cg_connect (newGatewayClient [] []))"
    by (simp_all add: cg_defs newGatewayClient_def newGatewaySocket_def)
  from pending_reconnect_opens_second_socket [OF this] show ?thesis by (simp add: Let_def)
qed

end
