(* ===== verification/Chat.thy ===== *)
theory Chat
  imports Types
begin

text \<open>
  The terminal UI of \<open>client/src/chat.ts\<close>: the pure helper \<open>truncate\<close> with its ANSI stripping, and
  \<open>ChatUI\<close> with its scroll-back, its input line, its colours and its full-screen redraw.

  The fields of \<open>ChatUI\<close> are a record; what is written to the terminal is appended to \<open>ui_out\<close>, and the
  lines handed to \<open>onLine\<close> to \<open>ui_sent\<close>.  The terminal size and the local time of a message are
  arguments.  \<open>[...s]\<close> splits a string into code points: a surrogate pair is one of them.
\<close>

section \<open>Code points and ANSI sequences\<close>

text \<open>\<open>[...s]\<close>.\<close>

fun chars :: "jstr \<Rightarrow> jstr list" where
  "chars [] = []"
| "chars [c] = [[c]]"
| "chars (c # d # cs) =
     (if high_surrogate c \<and> low_surrogate d then [c, d] # chars cs else [c] # chars (d # cs))"

definition ansi_param :: "nat \<Rightarrow> bool" where
  "ansi_param c \<longleftrightarrow> 48 \<le> c \<and> c \<le> 57 \<or> c = 59"

text \<open>After the two units of \<open>ESC [\<close>: what follows the parameters and the final \<open>m\<close>, if it is there.\<close>

definition ansi_rest :: "jstr \<Rightarrow> jstr option" where
  "ansi_rest s =
     (case dropWhile ansi_param s of
        [] \<Rightarrow> None
      | c # r \<Rightarrow> if c = 109 then Some r else None)"

lemma ansi_rest_length: "ansi_rest s = Some r \<Longrightarrow> length r < length s"
  using length_dropWhile_le [of ansi_param s] by (auto simp: ansi_rest_def split: list.splits if_splits)

text \<open>\<open>s.replace(/\x1b\[[0-9;]*m/g, "")\<close>.\<close>

function strip_ansi :: "jstr \<Rightarrow> jstr" where
  "strip_ansi [] = []"
| "strip_ansi (c # s) =
     (case s of
        [] \<Rightarrow> [c]
      | d # s' \<Rightarrow>
          if c = 27 \<and> d = 91 then
            (case ansi_rest s' of Some r \<Rightarrow> strip_ansi r | None \<Rightarrow> c # strip_ansi s)
          else c # strip_ansi s)"
  by pat_completeness auto
termination
  by (relation "measure length") (auto dest: ansi_rest_length)

definition RESET :: jstr where
  "RESET = [27, 91, 48, 109]"

definition GRAY :: jstr where
  "GRAY = [27, 91, 57, 48, 109]"

definition LIGHT_BLUE :: jstr where
  "LIGHT_BLUE = [27, 91, 57, 52, 109]"

definition CLEAR :: jstr where
  "CLEAR = [27, 91, 50, 74, 27, 91, 72]"

definition truncate_line :: "jstr \<Rightarrow> nat \<Rightarrow> jstr" where
  "truncate_line s cols =
     (let plain = strip_ansi s
      in if length (chars plain) \<le> cols then s
         else concat (take (cols - 1) (chars plain)) @ [8230] @ RESET)"

section \<open>ChatUI\<close>

definition NAME_COLORS :: "nat list" where
  "NAME_COLORS = [196, 208, 214, 220, 154, 82, 201, 207, 218, 177, 189, 229]"

record chat_ui =
  ui_title :: jstr
  ui_selfName :: jstr
  ui_selfUuid :: jstr
  ui_lines :: "jstr list"
  ui_status :: jstr
  ui_input :: jstr
  ui_running :: bool
  nameColors :: "(jstr \<times> nat) list"
  ui_size :: "nat \<times> nat"
  ui_exited :: bool
  ui_sent :: "jstr list"
  ui_out :: "jstr list"

definition newChatUI :: "jstr \<Rightarrow> jstr \<Rightarrow> jstr \<Rightarrow> nat \<times> nat \<Rightarrow> chat_ui" where
  "newChatUI title selfName selfUuid term =
     \<lparr>ui_title = title, ui_selfName = selfName, ui_selfUuid = selfUuid, ui_lines = [], ui_status = js ''connecting'',
      ui_input = [], ui_running = False, nameColors = [], ui_size = term, ui_exited = False, ui_sent = [], ui_out = []\<rparr>"

definition color_code :: "nat \<Rightarrow> jstr" where
  "color_code color = [27, 91] @ js ''1;38;5;'' @ show_nat color @ [109]"

definition colorForName :: "jstr \<Rightarrow> chat_ui \<Rightarrow> jstr \<times> chat_ui" where
  "colorForName name ui =
     (case map_of (nameColors ui) name of
        Some color \<Rightarrow> (color_code color, ui)
      | None \<Rightarrow>
          let color = NAME_COLORS ! (length (nameColors ui) mod length NAME_COLORS)
          in (color_code color, ui\<lparr>nameColors := nameColors ui @ [(name, color)]\<rparr>))"

text \<open>The two header lines with text; \<open>this.options.selfId\<close> is not a field of the options.\<close>

definition header_lines :: "chat_ui \<Rightarrow> jstr \<Rightarrow> nat \<Rightarrow> jstr list" where
  "header_lines ui selfColor cols =
     [GRAY @ js '' Airway IM '' @ [183, 32] @ ui_title ui @ RESET,
      GRAY @ js '' you: '' @ RESET @ selfColor @ ui_selfName ui @ RESET @ GRAY @ js '' (id '' @ js ''undefined'' @ js '') '' @ [183] @
        js '' status: '' @ RESET @ (if ui_status ui = js ''online'' then [27, 91, 57, 50, 109] else GRAY) @ ui_status ui @
        RESET @ GRAY @ [32, 183] @ js '' /help for commands'' @ RESET,
      GRAY @ replicate cols 9472 @ RESET]"

text \<open>\<open>slice(-n)\<close> of a list, for a positive \<open>n\<close>.\<close>

definition take_last :: "nat \<Rightarrow> 'a list \<Rightarrow> 'a list" where
  "take_last n xs = drop (length xs - n) xs"

definition screen_lines :: "chat_ui \<Rightarrow> jstr \<Rightarrow> jstr list" where
  "screen_lines ui selfColor =
     (let cols = (if fst (ui_size ui) = 0 then 80 else fst (ui_size ui));
          rows = (if snd (ui_size ui) = 0 then 24 else snd (ui_size ui));
          header = header_lines ui selfColor cols;
          bodyRows = max (rows - length header - 2) 1;
          visible = map (\<lambda>l. truncate_line l cols) (take_last bodyRows (ui_lines ui))
      in map (\<lambda>l. truncate_line l cols) header @ replicate (bodyRows - length visible) [] @ visible @
         [GRAY @ replicate cols 9472 @ RESET, truncate_line ([62, 32] @ ui_input ui) cols])"

definition render :: "chat_ui \<Rightarrow> chat_ui" where
  "render ui =
     (if \<not> ui_running ui then ui
      else let (c, ui1) = colorForName (ui_selfName ui) ui
           in ui1\<lparr>ui_out := ui_out ui1 @ [join [13, 10] (CLEAR # screen_lines ui1 c)]\<rparr>)"

definition ui_start :: "chat_ui \<Rightarrow> chat_ui" where
  "ui_start ui = render (ui\<lparr>ui_running := True\<rparr>)"

definition ui_stop :: "chat_ui \<Rightarrow> chat_ui" where
  "ui_stop ui = ui\<lparr>ui_running := False, ui_out := ui_out ui @ [CLEAR]\<rparr>"

definition ui_setStatus :: "jstr \<Rightarrow> chat_ui \<Rightarrow> chat_ui" where
  "ui_setStatus status ui = render (ui\<lparr>ui_status := status\<rparr>)"

definition ui_setTitle :: "jstr \<Rightarrow> chat_ui \<Rightarrow> chat_ui" where
  "ui_setTitle title ui = render (ui\<lparr>ui_title := title\<rparr>)"

definition pushLines :: "jstr list \<Rightarrow> chat_ui \<Rightarrow> chat_ui" where
  "pushLines newLines ui =
     (let ls = ui_lines ui @ newLines
      in render (ui\<lparr>ui_lines := (if length ls > 2000 then drop (length ls - 2000) ls else ls)\<rparr>))"

definition addSystem :: "jstr \<Rightarrow> chat_ui \<Rightarrow> chat_ui" where
  "addSystem t ui = pushLines [GRAY @ [9472, 9472, 32] @ t @ [32, 9472, 9472] @ RESET] ui"

text \<open>\<open>time\<close> is the local time of \<open>msg.created_at\<close>.\<close>

definition addMessage :: "chat_message \<Rightarrow> jstr \<Rightarrow> jstr \<Rightarrow> chat_ui \<Rightarrow> chat_ui" where
  "addMessage msg selfUuid time ui =
     (let own = (snd_uuid (msg_sender msg) = selfUuid);
          who = (if own then js ''you''
                 else case snd_nickname (msg_sender msg) of Some n \<Rightarrow> n | None \<Rightarrow> snd_username (msg_sender msg));
          marker = (if own then 8594 else 32);
          body = split_on 10 (msg_content msg);
          (color, ui1) = colorForName who ui
      in pushLines
           ((GRAY @ [marker] @ js '' ['' @ time @ js ''] '' @ RESET @ color @ who @ RESET @ GRAY @ js '' (#'' @
               show_int (msg_sequence msg) @ js ''):'' @ RESET @ [32] @ LIGHT_BLUE @ hd body @ RESET) #
            map (\<lambda>l. LIGHT_BLUE @ js ''    '' @ l @ RESET) (tl body)) ui1)"

definition replaceMessage :: "chat_message \<Rightarrow> chat_ui \<Rightarrow> chat_ui" where
  "replaceMessage msg ui =
     addSystem (js ''message #'' @ show_int (msg_sequence msg) @ js '' was moderated '' @ [8594, 32] @ msg_content msg) ui"

text \<open>One key; after \<open>process.exit\<close> nothing more happens.\<close>

definition key :: "jstr \<Rightarrow> chat_ui \<Rightarrow> chat_ui" where
  "key ch ui =
     (if ui_exited ui then ui
      else if ch = [3] \<or> ch = [4] then (ui_stop ui)\<lparr>ui_exited := True\<rparr>
      else if ch = [13] \<or> ch = [10] then
        let line = ui_input ui; ui1 = ui\<lparr>ui_input := []\<rparr>
        in if trim line \<noteq> [] then ui1\<lparr>ui_sent := ui_sent ui1 @ [line]\<rparr> else ui1
      else if ch = [127] then ui\<lparr>ui_input := concat (butlast (chars (ui_input ui)))\<rparr>
      else if 32 \<le> hd ch \<or> hd ch > 127 then ui\<lparr>ui_input := ui_input ui @ ch\<rparr>
      else ui)"

definition handleKey :: "jstr \<Rightarrow> chat_ui \<Rightarrow> chat_ui" where
  "handleKey t ui =
     (let ui1 = foldl (\<lambda>u ch. key ch u) ui (chars t) in if ui_exited ui1 then ui1 else render ui1)"

section \<open>Widths\<close>

text \<open>The columns a string takes, escape sequences left out.\<close>

definition width :: "jstr \<Rightarrow> nat" where
  "width s = length (chars (strip_ansi s))"

lemma length_chars_Cons:
  "length (chars (c # s)) =
     (if high_surrogate c \<and> s \<noteq> [] \<and> low_surrogate (hd s) then length (chars s) else Suc (length (chars s)))"
proof (cases s)
  case (Cons d cs)
  have "low_surrogate d \<Longrightarrow> \<not> high_surrogate d" by (simp add: low_surrogate_def high_surrogate_def)
  then have "low_surrogate d \<Longrightarrow> length (chars (d # cs)) = Suc (length (chars cs))" by (cases cs) simp_all
  then show ?thesis using Cons by simp
qed simp

lemma length_chars_Cons_le: "length (chars s) \<le> length (chars (c # s))" "length (chars (c # s)) \<le> Suc (length (chars s))"
  by (simp_all add: length_chars_Cons)

lemma length_chars_append: "length (chars (a @ b)) \<le> length (chars a) + length (chars b)"
proof (induction a)
  case (Cons c a)
  show ?case
  proof (cases "a = []")
    case True
    then show ?thesis using length_chars_Cons_le(2) [of c b] by simp
  next
    case False
    then have "length (chars ((c # a) @ b)) + length (chars a) = length (chars (c # a)) + length (chars (a @ b))"
      by (simp add: length_chars_Cons [of c])
    then show ?thesis using Cons.IH by simp
  qed
qed simp

lemma length_chars_suffix: "length (chars b) \<le> length (chars (a @ b))"
proof (induction a)
  case (Cons c a)
  then show ?case using length_chars_Cons_le(1) [of "a @ b" c] by simp
qed simp

lemma ansi_rest_suffix: "ansi_rest s = Some r \<Longrightarrow> \<exists>a. s = a @ r"
proof -
  assume "ansi_rest s = Some r"
  then have "dropWhile ansi_param s = 109 # r" by (auto simp: ansi_rest_def split: list.splits if_splits)
  then have "s = (takeWhile ansi_param s @ [109]) @ r" using takeWhile_dropWhile_id [of ansi_param s] by simp
  then show ?thesis by blast
qed

declare strip_ansi.simps [simp del]

lemma strip_ansi_simps [simp]:
  "strip_ansi [] = []" "strip_ansi [c] = [c]"
  "ansi_rest s = Some r \<Longrightarrow> strip_ansi (27 # 91 # s) = strip_ansi r"
  "c \<noteq> 27 \<or> d \<noteq> 91 \<or> ansi_rest s = None \<Longrightarrow> strip_ansi (c # d # s) = c # strip_ansi (d # s)"
  by (auto simp: strip_ansi.simps(1) strip_ansi.simps(2) [of c] strip_ansi.simps(2) [of 27])

lemma strip_ansi_Cons: "c \<noteq> 27 \<Longrightarrow> strip_ansi (c # s) = c # strip_ansi s"
  by (cases s) simp_all

lemma strip_ansi_induct [case_names Nil single seq skip]:
  assumes "P []" "\<And>c. P [c]" "\<And>s r. ansi_rest s = Some r \<Longrightarrow> P r \<Longrightarrow> P (27 # 91 # s)"
    and "\<And>c d s. c \<noteq> 27 \<or> d \<noteq> 91 \<or> ansi_rest s = None \<Longrightarrow> P (d # s) \<Longrightarrow> P (c # d # s)"
  shows "P s"
proof (induction s rule: length_induct)
  case (1 s)
  then have ih: "length t < length s \<Longrightarrow> P t" for t by blast
  show ?case
  proof (cases s rule: chars.cases)
    case (3 c d cs)
    show ?thesis
    proof (cases "c = 27 \<and> d = 91 \<and> ansi_rest cs \<noteq> None")
      case True
      then obtain r where r: "ansi_rest cs = Some r" by blast
      then show ?thesis using assms(3) [OF r ih] ansi_rest_length [OF r] 3 True by simp
    next
      case False
      then show ?thesis using assms(4) [of c d cs] ih [of "d # cs"] 3 by auto
    qed
  qed (use assms(1,2) in auto)
qed

lemma length_chars_strip_ansi: "length (chars (strip_ansi s)) \<le> length (chars s)"
proof (induction s rule: strip_ansi_induct)
  case (seq s r)
  obtain a where a: "s = a @ r" using ansi_rest_suffix [OF seq(1)] by blast
  have "length (chars r) \<le> length (chars ((27 # 91 # a) @ r))" by (rule length_chars_suffix)
  then show ?case using seq a by simp
next
  case (skip c d s)
  show ?case
  proof (cases "high_surrogate c \<and> low_surrogate d")
    case True
    then have "strip_ansi (d # s) = d # strip_ansi s" by (intro strip_ansi_Cons) (auto simp: low_surrogate_def)
    then have "length (chars (c # strip_ansi (d # s))) = length (chars (strip_ansi (d # s)))"
      using True by (simp only: length_chars_Cons [of c]) simp
    then show ?thesis using skip True by (simp only: strip_ansi_simps length_chars_Cons [of c "d # s"]) simp
  next
    case False
    then have "length (chars (c # d # s)) = Suc (length (chars (d # s)))" by (simp only: length_chars_Cons [of c]) simp
    then show ?thesis
      using skip length_chars_Cons_le(2) [of c "strip_ansi (d # s)"] by (simp only: strip_ansi_simps)
  qed
qed simp_all

lemma chars_single: "x \<in> set (chars s) \<Longrightarrow> length (chars x) = 1"
  by (induction s rule: chars.induct) (auto split: if_splits)

lemma length_chars_concat: "\<forall>x \<in> set xs. length (chars x) = 1 \<Longrightarrow> length (chars (concat xs)) \<le> length xs"
proof (induction xs)
  case (Cons x xs)
  then show ?case using length_chars_append [of x "concat xs"] by simp
qed simp

lemma ansi_rest_append: "ansi_rest (p @ 8230 # q) = map_option (\<lambda>r. r @ 8230 # q) (ansi_rest p)"
  by (induction p) (auto simp: ansi_rest_def ansi_param_def)

lemma strip_ansi_ellipsis: "strip_ansi (p @ 8230 # q) = strip_ansi p @ 8230 # strip_ansi q"
proof (induction p rule: strip_ansi_induct)
  case (seq s r)
  then show ?case by (simp add: ansi_rest_append)
next
  case (skip c d s)
  then have "strip_ansi (c # d # s @ 8230 # q) = c # strip_ansi (d # s @ 8230 # q)"
    by (intro strip_ansi_simps(4)) (simp add: ansi_rest_append)
  then show ?case using skip by simp
qed (simp_all add: strip_ansi_Cons)

lemma width_truncate:
  assumes "1 \<le> cols"
  shows "width (truncate_line s cols) \<le> cols"
proof (cases "length (chars (strip_ansi s)) \<le> cols")
  case True
  then show ?thesis by (simp add: truncate_line_def width_def)
next
  case False
  let ?cs = "take (cols - 1) (chars (strip_ansi s))"
  have "strip_ansi RESET = []"
    using strip_ansi_simps(3) [of "[48, 109]" "[]"] by (simp add: RESET_def ansi_rest_def ansi_param_def)
  then have "strip_ansi (truncate_line s cols) = strip_ansi (concat ?cs) @ [8230]"
    using False by (simp add: truncate_line_def strip_ansi_ellipsis)
  moreover have "length (chars (strip_ansi (concat ?cs))) \<le> cols - 1"
    using length_chars_strip_ansi [of "concat ?cs"] length_chars_concat [of ?cs] chars_single [of _ "strip_ansi s"]
    by (fastforce dest: in_set_takeD)
  ultimately show ?thesis
    using length_chars_append [of "strip_ansi (concat ?cs)" "[8230]"] assms unfolding width_def by simp
qed

section \<open>What the UI promises\<close>

lemma width_rule: "width (GRAY @ replicate n 9472 @ RESET) = n"
proof -
  have strip: "strip_ansi (replicate n 9472 @ RESET) = replicate n 9472"
  proof (induction n)
    case 0
    show ?case using strip_ansi_simps(3) [of "[48, 109]" "[]"] by (simp add: RESET_def ansi_rest_def ansi_param_def)
  qed (simp add: strip_ansi_Cons)
  have "ansi_rest (57 # 48 # 109 # s) = Some s" for s by (simp add: ansi_rest_def ansi_param_def)
  then have "strip_ansi (GRAY @ s) = strip_ansi s" for s by (simp add: GRAY_def)
  moreover have "length (chars (replicate n 9472)) = n"
    by (induction n) (simp_all add: length_chars_Cons high_surrogate_def)
  ultimately show ?thesis by (simp add: width_def strip)
qed

text \<open>
A redraw fits the terminal: on a terminal of at least six rows it draws exactly as many lines as
there are rows, and no line is wider than the columns, whatever the messages contain.
\<close>

theorem screen_fits:
  assumes "ui_size ui = (cols, rows)" "1 \<le> cols" "6 \<le> rows"
  shows "length (screen_lines ui c) = rows \<and> (\<forall>l \<in> set (screen_lines ui c). width l \<le> cols)"
proof -
  have empty: "width [] = 0" by (simp add: width_def)
  have "length (take_last n xs) = min n (length xs)" for n and xs :: "jstr list" by (simp add: take_last_def)
  then have "length (screen_lines ui c) = rows"
    using assms by (simp add: screen_lines_def header_lines_def Let_def)
  moreover have "\<forall>l \<in> set (screen_lines ui c). width l \<le> cols"
    using assms width_truncate [OF assms(2)] width_rule [of cols] empty
    by (auto simp: screen_lines_def Let_def)
  ultimately show ?thesis by blast
qed

definition sample_ui :: chat_ui where
  "sample_ui = (newChatUI (js ''team'') (js ''al'') (js ''u1'') (20, 8))\<lparr>ui_lines := [js ''a message longer than the line''], ui_running := True\<rparr>"

theorem screen_fits_witness:
  "length (screen_lines sample_ui (color_code 196)) = 8 \<and> width (hd (screen_lines sample_ui (color_code 196))) \<le> 20"
proof -
  have ui: "ui_size sample_ui = (20, 8)" by (simp add: sample_ui_def newChatUI_def)
  have "screen_lines sample_ui (color_code 196) \<noteq> []" by (simp add: screen_lines_def Let_def)
  then show ?thesis using screen_fits [OF ui, of "color_code 196"] hd_in_set by auto
qed

lemma render_frame:
  "ui_lines (render ui) = ui_lines ui" "ui_input (render ui) = ui_input ui" "ui_sent (render ui) = ui_sent ui"
  "ui_exited (render ui) = ui_exited ui" "ui_running (render ui) = ui_running ui"
  by (simp_all add: render_def colorForName_def Let_def split: option.split)

text \<open>
The scroll-back holds the most recent two thousand lines: after lines are added, it is the end of the
old scroll-back followed by the new lines, and never longer than that.
\<close>

theorem scrollback_keeps_latest:
  "ui_lines (pushLines ls ui) = take_last 2000 (ui_lines ui @ ls) \<and> length (ui_lines (pushLines ls ui)) \<le> 2000"
proof -
  have "ui_lines (pushLines ls ui) = take_last 2000 (ui_lines ui @ ls)"
    by (simp add: pushLines_def render_frame take_last_def Let_def del: drop_append)
  moreover have "length (take_last n xs) \<le> n" for n and xs :: "jstr list" by (simp add: take_last_def)
  ultimately show ?thesis by metis
qed

text \<open>The colours handed out so far, in the order of the names.\<close>

definition colors_ok :: "chat_ui \<Rightarrow> bool" where
  "colors_ok ui \<longleftrightarrow> distinct (map fst (nameColors ui)) \<and>
     (\<forall>i < length (nameColors ui). snd (nameColors ui ! i) = NAME_COLORS ! (i mod length NAME_COLORS))"

lemma colors_ok_colorForName: "colors_ok ui \<Longrightarrow> colors_ok (snd (colorForName name ui))"
  by (auto simp: colors_ok_def colorForName_def Let_def nth_append map_of_eq_None_iff less_Suc_eq split: option.split)

lemma distinct_NAME_COLORS: "distinct NAME_COLORS" "length NAME_COLORS = 12"
  by (simp_all add: NAME_COLORS_def)

text \<open>
Names keep their colours and up to twelve of them differ: after any sequence of names has been
coloured, a name that has a colour gets the same one again, and two different names share a
colour only if more than twelve names have been seen.
\<close>

theorem name_colors_distinct:
  assumes "ui' = foldl (\<lambda>u n. snd (colorForName n u)) ui names"
    and "nameColors ui = []" "map_of (nameColors ui') a = Some x" "map_of (nameColors ui') b = Some x" "a \<noteq> b"
  shows "snd (colorForName a ui') = ui' \<and> fst (colorForName a ui') = color_code x \<and> 12 < length (nameColors ui')"
proof -
  have "colors_ok (foldl (\<lambda>u n. snd (colorForName n u)) u names)" if "colors_ok u" for u
    using that by (induction names arbitrary: u) (simp_all add: colors_ok_colorForName)
  then have ok: "colors_ok ui'" using assms(1,2) by (simp add: colors_ok_def)
  obtain i j where i: "i < length (nameColors ui')" "nameColors ui' ! i = (a, x)"
    and j: "j < length (nameColors ui')" "nameColors ui' ! j = (b, x)"
    using assms(3,4) by (meson in_set_conv_nth map_of_SomeD)
  have "i \<noteq> j" using i j assms(5) by auto
  moreover have "NAME_COLORS ! (i mod 12) = NAME_COLORS ! (j mod 12)"
    using ok i j by (metis colors_ok_def distinct_NAME_COLORS(2) snd_conv)
  then have "i mod 12 = j mod 12"
    using nth_eq_iff_index_eq [OF distinct_NAME_COLORS(1), of "i mod 12" "j mod 12"] by (simp add: distinct_NAME_COLORS(2))
  ultimately have "12 < length (nameColors ui')"
    using i(1) j(1) by (metis linorder_not_less mod_less order_less_le_trans)
  then show ?thesis using assms(3) by (simp add: colorForName_def)
qed

theorem name_colors_distinct_witness:
  "12 < length (nameColors (foldl (\<lambda>u n. snd (colorForName n u)) (newChatUI [] [] [] (80, 24)) (map (\<lambda>i. [i]) [0..<13])))"
proof -
  let ?ui = "foldl (\<lambda>u n. snd (colorForName n u)) (newChatUI [] [] [] (80, 24)) (map (\<lambda>i. [i]) [0..<13])"
  have "[0..<13] = [0, 1, 2, 3, 4, 5, 6, 7, 8, 9, 10, 11, 12 :: nat]" by (simp add: upt_rec)
  then have "nameColors ?ui = map (\<lambda>i. ([i], NAME_COLORS ! (i mod 12))) [0..<13]"
    by (simp add: newChatUI_def colorForName_def Let_def distinct_NAME_COLORS(2) numeral_2_eq_2)
  then have "map_of (nameColors ?ui) [0] = Some 196" "map_of (nameColors ?ui) [12] = Some 196"
    by (simp_all add: upt_rec NAME_COLORS_def)
  moreover have "nameColors (newChatUI [] [] [] (80, 24)) = []" by (simp add: newChatUI_def)
  ultimately show ?thesis using name_colors_distinct [OF refl, of _ "map (\<lambda>i. [i]) [0..<13]" "[0]" 196 "[12]"] by simp
qed

definition key_ok :: "chat_ui \<Rightarrow> bool" where
  "key_ok ui \<longleftrightarrow> (\<forall>c \<in> set (ui_input ui). 32 \<le> c \<and> c \<noteq> 127) \<and> (\<forall>l \<in> set (ui_sent ui). trim l \<noteq> [])"

lemma chars_units: "ch \<in> set (chars s) \<Longrightarrow> (\<exists>c. ch = [c]) \<or> (\<exists>c d. ch = [c, d] \<and> high_surrogate c \<and> low_surrogate d)"
  by (induction s rule: chars.induct) (auto split: if_splits)

lemma concat_chars: "concat (chars s) = s"
  by (induction s rule: chars.induct) auto

lemma key_ok_key:
  assumes "key_ok ui" "ch \<in> set (chars s)"
  shows "key_ok (key ch ui)"
proof -
  have "set (concat (butlast (chars (ui_input ui)))) \<subseteq> set (ui_input ui)"
  proof -
    have "set (concat (butlast (chars (ui_input ui)))) \<subseteq> set (concat (chars (ui_input ui)))"
      by (auto dest: in_set_butlastD)
    then show ?thesis by (simp add: concat_chars)
  qed
  moreover have "\<forall>c \<in> set ch. 32 \<le> c \<and> c \<noteq> 127" if "32 \<le> hd ch \<or> hd ch > 127" "ch \<noteq> [127]"
    using that chars_units [OF assms(2)] by (auto simp: high_surrogate_def low_surrogate_def)
  ultimately show ?thesis using assms(1) by (auto simp: key_def key_ok_def Let_def ui_stop_def)
qed


lemma key_input:
  "\<not> ui_exited ui \<Longrightarrow> 32 \<le> c \<Longrightarrow> c \<noteq> 127 \<Longrightarrow> key [c] ui = ui\<lparr>ui_input := ui_input ui @ [c]\<rparr>"
  "\<not> ui_exited ui \<Longrightarrow> key [27] ui = ui"
  by (simp_all add: key_def)

text \<open>
  The keys that send a sequence are not ignored, as the comment in \<open>handleKey\<close> has it: of an arrow key only the escape character is, and the rest of
  the sequence is typed.  A C1 control, such as U+009B, is kept.
\<close>

lemma arrow_key_types_its_tail:
  "\<not> ui_exited ui \<Longrightarrow> ui_input (handleKey [27, 91, 65] ui) = ui_input ui @ [91, 65]"
  "\<not> ui_exited ui \<Longrightarrow> ui_input (handleKey [155] ui) = ui_input ui @ [155]"
  by (simp_all add: handleKey_def key_def render_frame high_surrogate_def Let_def)

lemma handleKey_example: "ui_input (handleKey [104, 27, 105] (newChatUI [] [] [] (80, 24))) = [104, 105]"
proof -
  have "chars [104, 27, 105] = [[104], [27], [105]]" by (simp add: high_surrogate_def)
  moreover have "\<not> ui_exited (newChatUI [] [] [] (80, 24))" "ui_input (newChatUI [] [] [] (80, 24)) = []"
    by (simp_all add: newChatUI_def)
  ultimately show ?thesis by (simp add: handleKey_def key_input render_frame)
qed


end
