(* ===== verification/Terminal.thy ===== *)
theory Terminal
  imports Client_Api Client_Gateway Chat Session
begin

text \<open>
  The command line of the terminal client, \<open>client/src/main.ts\<close> up to the point where the chat
  starts: \<open>parseArgs\<close>, the choice of the conversation, the listing commands and the helpers.

  A program threads the world and the console (lines of \<open>console.log\<close> and \<open>console.error\<close> in order);
  it ends with a value, with \<open>process.exit\<close>, or with a rejection that \<open>main().catch\<close> reports.  The
  runtime's \<open>fetch\<close>, the prompt and the locale's date format are arguments (\<open>terminal_io\<close>).  The JSON of
  a successful answer is cast to the declared type; a missing \<open>data\<close> is the \<open>TypeError\<close> of its first use.
\<close>

section \<open>Programs\<close>

datatype 'a run = Done 'a | Exited int | Threw exn

type_synonym ('w, 'a) prog = "'w \<times> jstr list \<Rightarrow> 'a run \<times> 'w \<times> jstr list"

definition ret :: "'a \<Rightarrow> ('w, 'a) prog" where
  "ret x s = (Done x, s)"

definition and_then :: "('w, 'a) prog \<Rightarrow> ('a \<Rightarrow> ('w, 'b) prog) \<Rightarrow> ('w, 'b) prog" where
  "and_then p q s =
     (case p s of
        (Done x, s') \<Rightarrow> q x s'
      | (Exited n, s') \<Rightarrow> (Exited n, s')
      | (Threw e, s') \<Rightarrow> (Threw e, s'))"

definition console :: "jstr \<Rightarrow> ('w, unit) prog" where
  "console line s = (Done (), fst s, snd s @ [line])"

definition exit_with :: "int \<Rightarrow> ('w, 'a) prog" where
  "exit_with n s = (Exited n, s)"

text \<open>A line on the console and \<open>process.exit\<close>.\<close>

definition die :: "jstr \<Rightarrow> int \<Rightarrow> ('w, 'a) prog" where
  "die line n = and_then (console line) (\<lambda>_. exit_with n)"

definition await :: "('w \<Rightarrow> (exn + 'a) \<times> 'w) \<Rightarrow> ('w, 'a) prog" where
  "await call s =
     (case call (fst s) of
        (Inl e, w) \<Rightarrow> (Threw e, w, snd s)
      | (Inr x, w) \<Rightarrow> (Done x, w, snd s))"

text \<open>\<open>try ... catch\<close>.\<close>

definition catching :: "('w, 'a) prog \<Rightarrow> (exn \<Rightarrow> ('w, 'a) prog) \<Rightarrow> ('w, 'a) prog" where
  "catching p h s = (case p s of (Threw e, s') \<Rightarrow> h e s' | r \<Rightarrow> r)"

lemma prog_simps [simp]:
  "and_then (ret x) q = q x" "and_then (exit_with n) q = exit_with n"
  "and_then (and_then p q) r = and_then p (\<lambda>x. and_then (q x) r)"
  by (auto simp: fun_eq_iff and_then_def ret_def exit_with_def split: run.splits prod.splits)

section \<open>parseArgs\<close>

record args =
  a_command :: "jstr option"
  a_name :: "jstr option"
  a_uuid :: "jstr option"
  a_nickname :: "jstr option"
  a_credential :: "jstr option"
  a_internalSecret :: "jstr option"
  a_adminUsername :: "jstr option"
  a_adminPassword :: "jstr option"
  a_backend :: jstr
  a_gateway :: jstr
  a_internalUrl :: jstr
  a_conversation :: "jstr option"
  a_join :: "jstr option"
  a_createGroup :: "jstr option"
  a_members :: "jstr option"

text \<open>\<open>process.env\<close> is a map from variable names.\<close>

definition default_args :: "(string \<rightharpoonup> jstr) \<Rightarrow> args" where
  "default_args env =
     \<lparr>a_command = None, a_name = None, a_uuid = None, a_nickname = None, a_credential = None,
      a_internalSecret = env ''IM_INTERNAL_SECRET'', a_adminUsername = env ''IM_ADMIN_USERNAME'',
      a_adminPassword = env ''IM_ADMIN_PASSWORD'',
      a_backend = (case env ''IM_BACKEND_URL'' of Some u \<Rightarrow> u | None \<Rightarrow> js ''http://127.0.0.1:1905''),
      a_gateway = (case env ''IM_GATEWAY_URL'' of Some u \<Rightarrow> u | None \<Rightarrow> js ''ws://127.0.0.1:1910/ws''),
      a_internalUrl = (case env ''IM_INTERNAL_URL'' of Some u \<Rightarrow> u | None \<Rightarrow> js ''http://127.0.0.1:1906''),
      a_conversation = None, a_join = None, a_createGroup = None, a_members = None\<rparr>"

text \<open>The branches of the \<open>switch\<close>.\<close>

definition flags :: "(string \<times> (jstr \<Rightarrow> args \<Rightarrow> args)) list" where
  "flags =
     [(''--name'', \<lambda>v a. a\<lparr>a_name := Some v\<rparr>),
      (''--uuid'', \<lambda>v a. a\<lparr>a_uuid := Some v\<rparr>),
      (''--nickname'', \<lambda>v a. a\<lparr>a_nickname := Some v\<rparr>),
      (''--credential'', \<lambda>v a. a\<lparr>a_credential := Some v\<rparr>),
      (''--internal-secret'', \<lambda>v a. a\<lparr>a_internalSecret := Some v\<rparr>),
      (''--admin-username'', \<lambda>v a. a\<lparr>a_adminUsername := Some v\<rparr>),
      (''--admin-password'', \<lambda>v a. a\<lparr>a_adminPassword := Some v\<rparr>),
      (''--backend'', \<lambda>v a. a\<lparr>a_backend := v\<rparr>),
      (''--gateway'', \<lambda>v a. a\<lparr>a_gateway := v\<rparr>),
      (''--internal-url'', \<lambda>v a. a\<lparr>a_internalUrl := v\<rparr>),
      (''--conversation'', \<lambda>v a. a\<lparr>a_conversation := Some v\<rparr>),
      (''--join'', \<lambda>v a. a\<lparr>a_join := Some v\<rparr>),
      (''--create-group'', \<lambda>v a. a\<lparr>a_createGroup := Some v\<rparr>),
      (''--members'', \<lambda>v a. a\<lparr>a_members := Some v\<rparr>)]"

definition flag_setter :: "jstr \<Rightarrow> (jstr \<Rightarrow> args \<Rightarrow> args) option" where
  "flag_setter flag = map_of (map (\<lambda>(k, f). (js k, f)) flags) flag"

fun parse_loop :: "jstr list \<Rightarrow> args \<Rightarrow> exn + args" where
  "parse_loop [] a = Inr a"
| "parse_loop (flag # rest) a =
     (if \<not> starts_with flag (js ''--'') then
        if a_command a \<noteq> None then Inl (JsError (js ''unexpected argument: '' @ flag))
        else parse_loop rest (a\<lparr>a_command := Some flag\<rparr>)
      else
        (case flag_setter flag of
           None \<Rightarrow> Inl (JsError (js ''unknown flag: '' @ flag))
         | Some set_value \<Rightarrow>
             (case rest of
                [] \<Rightarrow> Inl (JsError (js ''missing value for '' @ flag))
              | v # rest' \<Rightarrow> parse_loop rest' (set_value v a))))"

definition parseArgs :: "(string \<rightharpoonup> jstr) \<Rightarrow> jstr list \<Rightarrow> exn + args" where
  "parseArgs env argv = parse_loop argv (default_args env)"

section \<open>Answers of the typed client\<close>

definition user_of_json :: "json \<Rightarrow> user" where
  "user_of_json v =
     \<lparr>usr_uuid = text_of (jget (js ''uuid'') v), usr_username = text_of (jget (js ''username'') v),
      usr_nickname = nullable (jget (js ''nickname'') v), usr_avatar_url = nullable (jget (js ''avatar_url'') v),
      usr_email = nullable (jget (js ''email'') v), usr_last_seen_at = nullable (jget (js ''last_seen_at'') v),
      usr_created_at = text_of (jget (js ''created_at'') v), usr_updated_at = text_of (jget (js ''updated_at'') v)\<rparr>"

definition summary_of_json :: "json \<Rightarrow> conversation_summary" where
  "summary_of_json v =
     \<lparr>cs_id = text_of (jget (js ''id'') v), cs_kind = kind_of_text (text_of (jget (js ''kind'') v)),
      cs_title = nullable (jget (js ''title'') v), cs_avatar_url = nullable (jget (js ''avatar_url'') v),
      cs_created_by = text_of (jget (js ''created_by'') v), cs_created_at = text_of (jget (js ''created_at'') v),
      cs_updated_at = text_of (jget (js ''updated_at'') v)\<rparr>"

definition role_of_text :: "jstr \<Rightarrow> member_role" where
  "role_of_text t = (if t = js ''owner'' then Owner else if t = js ''admin'' then Admin else Member)"

fun role_text :: "member_role \<Rightarrow> jstr" where
  "role_text Owner = js ''owner''"
| "role_text Admin = js ''admin''"
| "role_text Member = js ''member''"

definition member_of_json :: "json \<Rightarrow> conversation_member" where
  "member_of_json v =
     \<lparr>cm_uuid = text_of (jget (js ''uuid'') v), cm_username = text_of (jget (js ''username'') v),
      cm_nickname = nullable (jget (js ''nickname'') v), cm_avatar_url = nullable (jget (js ''avatar_url'') v),
      cm_role = role_of_text (text_of (jget (js ''role'') v))\<rparr>"

fun elements :: "json option \<Rightarrow> json list" where
  "elements (Some (JArr vs)) = vs"
| "elements _ = []"

definition details_of_json :: "json \<Rightarrow> conversation_details" where
  "details_of_json v =
     \<lparr>cd_conversation_uuid = text_of (jget (js ''conversation_uuid'') v),
      cd_type = kind_of_text (text_of (jget (js ''type'') v)),
      cd_members = map member_of_json (elements (jget (js ''members'') v))\<rparr>"

definition admin_conversation_of_json :: "json \<Rightarrow> admin_conversation" where
  "admin_conversation_of_json v =
     \<lparr>ac_id = text_of (jget (js ''id'') v), ac_title = nullable (jget (js ''title'') v),
      ac_avatar_url = nullable (jget (js ''avatar_url'') v), ac_created_by = text_of (jget (js ''created_by'') v),
      ac_creator_username = text_of (jget (js ''creator_username'') v),
      ac_member_count = (case number_field ''member_count'' v of Some n \<Rightarrow> n | None \<Rightarrow> 0),
      ac_message_count = (case number_field ''message_count'' v of Some n \<Rightarrow> n | None \<Rightarrow> 0),
      ac_latest_message_at = nullable (jget (js ''latest_message_at'') v),
      ac_created_at = text_of (jget (js ''created_at'') v), ac_updated_at = text_of (jget (js ''updated_at'') v)\<rparr>"

definition typed :: "(json \<Rightarrow> 'a) \<Rightarrow> (exn + json option) \<times> 'w \<Rightarrow> (exn + 'a) \<times> 'w" where
  "typed cast r =
     (case r of
        (Inl e, w) \<Rightarrow> (Inl e, w)
      | (Inr (Some v), w) \<Rightarrow> (Inr (cast v), w)
      | (Inr None, w) \<Rightarrow> (Inl (JsError (js ''Cannot read properties of undefined'')), w))"

definition typed_list :: "(json \<Rightarrow> 'a) \<Rightarrow> json \<Rightarrow> 'a list" where
  "typed_list cast v = map cast (elements (Some v))"

section \<open>Helpers\<close>

record 'w terminal_io =
  io_fetch :: "'w cli_fetch"
  io_question :: "jstr \<Rightarrow> 'w \<Rightarrow> jstr \<times> 'w"
  io_toLocaleString :: "jstr \<Rightarrow> jstr"

definition mustSecret :: "args \<Rightarrow> ('w, jstr) prog" where
  "mustSecret a =
     (case a_internalSecret a of
        Some secret \<Rightarrow>
          if secret = [] then die (js ''error: pass --credential, or --internal-secret / IM_INTERNAL_SECRET to mint one'') 2
          else ret secret
      | None \<Rightarrow> die (js ''error: pass --credential, or --internal-secret / IM_INTERNAL_SECRET to mint one'') 2)"

definition parseMemberUuids :: "jstr \<Rightarrow> jstr list" where
  "parseMemberUuids raw = filter (\<lambda>s. length s > 0) (map trim (split_on 44 raw))"

definition memberNames :: "conversation_member list \<Rightarrow> jstr \<Rightarrow> jstr list" where
  "memberNames members selfUuid =
     map (\<lambda>m. (case cm_nickname m of Some n \<Rightarrow> n | None \<Rightarrow> cm_username m) @ js ''('' @
            (if cm_uuid m = selfUuid then js ''you'' else cm_uuid m) @ js '')'') members"

definition createGroupOrExit ::
  "'w terminal_io \<Rightarrow> im_client \<Rightarrow> jstr option \<Rightarrow> jstr list \<Rightarrow> ('w, conversation_summary) prog" where
  "createGroupOrExit io c title memberUuids =
     (if memberUuids = [] then
        die (js ''error: a group needs at least one other member uuid (--members <uuid>[,<uuid>...])'') 2
      else catching (await (\<lambda>w. typed summary_of_json (cli_createGroup (io_fetch io) c title memberUuids w)))
        (\<lambda>e. die (js ''error: could not create group: '' @ exn_message e) 1))"

definition ask :: "'w terminal_io \<Rightarrow> jstr \<Rightarrow> ('w, jstr) prog" where
  "ask io prompt s = (case io_question io prompt (fst s) of (answer, w) \<Rightarrow> (Done answer, w, snd s))"

definition title_or_id :: "conversation_summary \<Rightarrow> jstr" where
  "title_or_id conv = (case cs_title conv of Some t \<Rightarrow> t | None \<Rightarrow> cs_id conv)"

definition promptCreateGroup :: "'w terminal_io \<Rightarrow> im_client \<Rightarrow> ('w, conversation_summary option) prog" where
  "promptCreateGroup io c =
     and_then (ask io (js ''Create a group now? Title (empty to quit): '')) (\<lambda>answer.
       let title = trim answer
       in if title = [] then ret None
          else and_then (ask io (js ''Member uuids, comma-separated: '')) (\<lambda>raw.
            let memberUuids = parseMemberUuids raw
            in if memberUuids = [] then
                 and_then (console (js ''no valid member uuids given'')) (\<lambda>_. ret None)
               else
                 catching
                   (and_then (await (\<lambda>w. typed summary_of_json (cli_createGroup (io_fetch io) c (Some title) memberUuids w)))
                     (\<lambda>conv. and_then (console (js ''created group \"'' @ title_or_id conv @ js ''\" ('' @ cs_id conv @ js '')''))
                        (\<lambda>_. ret (Some conv))))
                   (\<lambda>e. and_then (console (js ''could not create group: '' @ exn_message e)) (\<lambda>_. ret None))))"

fun console_all :: "jstr list \<Rightarrow> ('w, unit) prog" where
  "console_all [] = ret ()"
| "console_all (l # ls) = and_then (console l) (\<lambda>_. console_all ls)"

text \<open>\<open>Promise.all\<close>: every request is made; the first failure in the order of the groups is the outcome.\<close>

fun all_details :: "'w terminal_io \<Rightarrow> im_client \<Rightarrow> conversation_summary list \<Rightarrow> 'w \<Rightarrow> (exn + conversation_details list) \<times> 'w" where
  "all_details io c [] w = (Inr [], w)"
| "all_details io c (g # gs) w =
     (case typed details_of_json (cli_getConversation (io_fetch io) c (cs_id g) w) of
        (r, w1) \<Rightarrow>
          (case all_details io c gs w1 of
             (rs, w2) \<Rightarrow>
               (case r of
                  Inl e \<Rightarrow> (Inl e, w2)
                | Inr d \<Rightarrow> (case rs of Inl e \<Rightarrow> (Inl e, w2) | Inr ds \<Rightarrow> (Inr (d # ds), w2)))))"

definition untitled :: "jstr option \<Rightarrow> jstr" where
  "untitled title = (case title of Some t \<Rightarrow> t | None \<Rightarrow> js ''(untitled)'')"

definition my_group_line :: "'w terminal_io \<Rightarrow> jstr \<Rightarrow> conversation_summary \<times> conversation_details \<Rightarrow> jstr" where
  "my_group_line io selfUuid row =
     (let (g, details) = row;
          role = (case find (\<lambda>m. cm_uuid m = selfUuid) (cd_members details) of Some m \<Rightarrow> role_text (cm_role m) | None \<Rightarrow> js ''?'')
      in js ''  '' @ untitled (cs_title g) @ js ''  '' @ cs_id g @ js ''  '' @ show_nat (length (cd_members details)) @
         js '' members '' @ [183] @ js '' you: '' @ role @ [32, 183] @ js '' updated '' @ io_toLocaleString io (cs_updated_at g))"

definition listMyGroups :: "'w terminal_io \<Rightarrow> im_client \<Rightarrow> jstr \<Rightarrow> ('w, unit) prog" where
  "listMyGroups io c selfUuid =
     and_then (await (\<lambda>w. typed (typed_list summary_of_json) (cli_listGroups (io_fetch io) c w))) (\<lambda>groups.
       if groups = [] then
         console (js ''you have no groups yet '' @ [8212] @ js '' create one with --create-group \"Title\" --members <uuid>[,<uuid>...]'')
       else and_then (await (all_details io c groups)) (\<lambda>ds.
         and_then (console (show_nat (length groups) @ js '' group(s):'')) (\<lambda>_.
           console_all (map (my_group_line io selfUuid) (zip groups ds)))))"

definition admin_group_line :: "'w terminal_io \<Rightarrow> admin_conversation \<Rightarrow> jstr" where
  "admin_group_line io g =
     (let latest = (case ac_latest_message_at g of
                      Some t \<Rightarrow> if t = [] then js ''never'' else io_toLocaleString io t
                    | None \<Rightarrow> js ''never'')
      in js ''  '' @ untitled (ac_title g) @ js ''  '' @ ac_id g @ js ''  '' @ show_int (ac_member_count g) @
         js '' members '' @ [183, 32] @ show_int (ac_message_count g) @ js '' messages '' @ [183] @ js '' by '' @
         ac_creator_username g @ [32, 183] @ js '' latest '' @ latest)"

fun truthy_text :: "jstr option \<Rightarrow> bool" where
  "truthy_text (Some t) \<longleftrightarrow> t \<noteq> []"
| "truthy_text None \<longleftrightarrow> False"

definition listAllGroups :: "'w terminal_io \<Rightarrow> args \<Rightarrow> ('w, unit) prog" where
  "listAllGroups io a =
     (if \<not> truthy_text (a_adminUsername a) \<or> \<not> truthy_text (a_adminPassword a) then
        die (js ''error: listing all groups requires admin credentials '' @ [8212] @
            js '' set IM_ADMIN_USERNAME / IM_ADMIN_PASSWORD (or --admin-username / --admin-password)'') 2
      else
        and_then (await (admin_login (io_fetch io) (a_backend a) (the (a_adminUsername a)) (the (a_adminPassword a)))) (\<lambda>admin.
          and_then (await (\<lambda>w. typed (typed_list admin_conversation_of_json) (admin_listAllGroups (io_fetch io) admin w))) (\<lambda>groups.
            if groups = [] then console (js ''no groups in the system yet'')
            else and_then (console (show_nat (length groups) @ js '' group(s) in the system:'')) (\<lambda>_.
              console_all (map (admin_group_line io) groups)))))"

section \<open>Choosing the conversation\<close>

text \<open>The four branches of \<open>main\<close>: the id and the title of the conversation to join.\<close>

definition create_branch :: "'w terminal_io \<Rightarrow> im_client \<Rightarrow> args \<Rightarrow> jstr \<Rightarrow> ('w, jstr \<times> jstr) prog" where
  "create_branch io c a wanted =
     and_then (createGroupOrExit io c (if wanted = [] then None else Some wanted)
         (parseMemberUuids (case a_members a of Some m \<Rightarrow> m | None \<Rightarrow> []))) (\<lambda>conv.
       and_then (console (js ''created group \"'' @ title_or_id conv @ js ''\" ('' @ cs_id conv @ js '')'')) (\<lambda>_.
         ret (cs_id conv, title_or_id conv)))"

definition no_such_group :: "jstr \<Rightarrow> conversation_summary list \<Rightarrow> jstr" where
  "no_such_group wanted groups =
     (let available = join (js '', '') (map title_or_id groups)
      in js ''error: no group named \"'' @ wanted @ js ''\" among your groups'' @
         (if available = [] then js '' (you have none)'' else js '' (you have: '' @ available @ js '')'') @ js ''.'')"

definition join_branch :: "'w terminal_io \<Rightarrow> im_client \<Rightarrow> jstr \<Rightarrow> ('w, jstr \<times> jstr) prog" where
  "join_branch io c wanted =
     and_then (await (\<lambda>w. typed (typed_list summary_of_json) (cli_listGroups (io_fetch io) c w))) (\<lambda>groups.
       case filter (\<lambda>g. cs_title g = Some wanted) groups of
         [] \<Rightarrow>
           and_then (console (no_such_group wanted groups)) (\<lambda>_.
             die (js ''note: --join selects a group you already belong to; only an owner/admin can add you to a new one.'') 2)
       | m # ms \<Rightarrow>
           and_then
             (if ms \<noteq> [] then
                console (js ''found '' @ show_nat (Suc (length ms)) @ js '' groups named \"'' @ wanted @
                  js ''\"; joining the most recent ('' @ cs_id m @ js '')'')
              else ret ())
             (\<lambda>_. ret (cs_id m, title_or_id m)))"

definition latest_branch :: "'w terminal_io \<Rightarrow> im_client \<Rightarrow> user \<Rightarrow> ('w, jstr \<times> jstr) prog" where
  "latest_branch io c self =
     and_then (await (\<lambda>w. typed (typed_list summary_of_json) (cli_listGroups (io_fetch io) c w))) (\<lambda>groups.
       case groups of
         [] \<Rightarrow>
           and_then (console (js ''logged in as '' @ usr_username self @ js '' (uuid '' @ usr_uuid self @ js '') '' @ [8212] @ js '' you have no groups yet.'')) (\<lambda>_.
             and_then (console (js ''Group members are user uuids; each member's uuid is shown in the member list.'')) (\<lambda>_.
               and_then (promptCreateGroup io c) (\<lambda>created.
                 case created of
                   None \<Rightarrow>
                     die (js ''aborted. Use --create-group \"Title\" --members <uuid>[,<uuid>...] next time.'') 2
                 | Some conv \<Rightarrow> ret (cs_id conv, title_or_id conv))))
       | g # gs \<Rightarrow>
           and_then
             (if gs \<noteq> [] then
                console (js ''joining most recent group \"'' @ title_or_id g @ js ''\"; pick another with --conversation <id>'')
              else ret ())
             (\<lambda>_. ret (cs_id g, title_or_id g)))"

definition resolve_conversation :: "'w terminal_io \<Rightarrow> im_client \<Rightarrow> args \<Rightarrow> user \<Rightarrow> ('w, jstr \<times> jstr) prog" where
  "resolve_conversation io c a self =
     (case a_createGroup a of
        Some title \<Rightarrow> create_branch io c a title
      | None \<Rightarrow>
          if truthy_text (a_conversation a) then ret (the (a_conversation a), the (a_conversation a))
          else
            (case a_join a of
               Some wanted \<Rightarrow> join_branch io c wanted
             | None \<Rightarrow> latest_branch io c self))"

text \<open>What \<open>main\<close> has when the chat starts.\<close>

record chat_start =
  st_client :: im_client
  st_me :: user
  st_conversationId :: jstr
  st_title :: jstr
  st_history :: "chat_message list"

definition members_suffix :: "conversation_member list \<Rightarrow> jstr \<Rightarrow> jstr" where
  "members_suffix members selfUuid = [32, 183] @ js '' members: '' @ join (js '', '') (memberNames members selfUuid)"

definition login :: "'w terminal_io \<Rightarrow> args \<Rightarrow> jstr \<Rightarrow> ('w, im_client) prog" where
  "login io a name =
     (if truthy_text (a_credential a) then ret (withCredential (a_backend a) (the (a_credential a)))
      else and_then (mustSecret a) (\<lambda>secret.
        await (mint (io_fetch io) (a_backend a) secret
          \<lparr>id_uuid = (case a_uuid a of Some u \<Rightarrow> u | None \<Rightarrow> name), id_name = name, id_nickname = a_nickname a\<rparr>
          (Some (a_internalUrl a)))))"

definition open_chat :: "'w terminal_io \<Rightarrow> im_client \<Rightarrow> args \<Rightarrow> user \<Rightarrow> ('w, chat_start) prog" where
  "open_chat io c a self =
     and_then (resolve_conversation io c a self) (\<lambda>(conversationId, title).
       and_then (await (\<lambda>w. typed details_of_json (cli_getConversation (io_fetch io) c conversationId w))) (\<lambda>details.
         let title' = (if cd_type details = Group then title @ members_suffix (cd_members details) (usr_uuid self) else title)
         in and_then (await (\<lambda>w. typed (typed_list message_of_json)
                (cli_listMessages (io_fetch io) c conversationId (Some 0) None w))) (\<lambda>history.
              ret \<lparr>st_client = c, st_me = self, st_conversationId = conversationId, st_title = title', st_history = history\<rparr>)))"

text \<open>\<open>main\<close>; \<open>None\<close> when a listing command has done its work.\<close>

definition main_prog :: "'w terminal_io \<Rightarrow> (string \<rightharpoonup> jstr) \<Rightarrow> jstr list \<Rightarrow> ('w, chat_start option) prog" where
  "main_prog io env argv =
     (case parseArgs env argv of
        Inl e \<Rightarrow> (\<lambda>s. (Threw e, s))
      | Inr a \<Rightarrow>
          if a_command a \<noteq> None \<and> a_command a \<noteq> Some (js ''groups'') then
            die (js ''error: unknown command \"'' @ the (a_command a) @ js ''\" (available: groups)'') 2
          else if a_command a = Some (js ''groups'') \<and> \<not> truthy_text (a_name a) then
            and_then (listAllGroups io a) (\<lambda>_. ret None)
          else if \<not> truthy_text (a_name a) then
            die (js ''error: --name is required (see the header comment for usage)'') 2
          else
            and_then (login io a (the (a_name a))) (\<lambda>c.
              and_then (await (\<lambda>w. typed user_of_json (cli_me (io_fetch io) c w))) (\<lambda>self.
                if a_command a = Some (js ''groups'') then and_then (listMyGroups io c (usr_uuid self)) (\<lambda>_. ret None)
                else and_then (open_chat io c a self) (\<lambda>st. ret (Some st)))))"

text \<open>\<open>main().catch\<close>.\<close>

definition run_main :: "'w terminal_io \<Rightarrow> (string \<rightharpoonup> jstr) \<Rightarrow> jstr list \<Rightarrow> ('w, chat_start option) prog" where
  "run_main io env argv =
     catching (main_prog io env argv) (\<lambda>e. die (js ''fatal: '' @ exn_message e) 1)"

section \<open>The command line read back\<close>

definition opt_arg :: "string \<Rightarrow> jstr option \<Rightarrow> jstr list" where
  "opt_arg flag v = (case v of Some x \<Rightarrow> [js flag, x] | None \<Rightarrow> [])"

text \<open>A command line that asks for \<open>a\<close>.\<close>

definition print_args :: "args \<Rightarrow> jstr list" where
  "print_args a =
     (case a_command a of Some c \<Rightarrow> [c] | None \<Rightarrow> []) @
     opt_arg ''--name'' (a_name a) @ opt_arg ''--uuid'' (a_uuid a) @ opt_arg ''--nickname'' (a_nickname a) @
     opt_arg ''--credential'' (a_credential a) @ opt_arg ''--internal-secret'' (a_internalSecret a) @
     opt_arg ''--admin-username'' (a_adminUsername a) @ opt_arg ''--admin-password'' (a_adminPassword a) @
     opt_arg ''--backend'' (Some (a_backend a)) @ opt_arg ''--gateway'' (Some (a_gateway a)) @
     opt_arg ''--internal-url'' (Some (a_internalUrl a)) @ opt_arg ''--conversation'' (a_conversation a) @
     opt_arg ''--join'' (a_join a) @ opt_arg ''--create-group'' (a_createGroup a) @ opt_arg ''--members'' (a_members a)"

lemma flag_setter_js: "flag_setter (js k) = map_of flags k"
  by (simp add: flag_setter_def flags_def)

lemma parse_flag:
  "map_of flags k = Some f \<Longrightarrow> parse_loop (js k # v # rest) a = parse_loop rest (f v a)"
proof -
  assume k: "map_of flags k = Some f"
  then have "starts_with (js k) (js ''--'')"
    by (auto simp: flags_def starts_with_def js_eval split: if_splits)
  then show ?thesis using k by (simp add: flag_setter_js)
qed

lemma parse_opt_arg:
  "map_of flags k = Some f \<Longrightarrow> parse_loop (opt_arg k v @ rest) a = parse_loop rest (case v of None \<Rightarrow> a | Some x \<Rightarrow> f x a)"
  by (cases v) (simp_all add: opt_arg_def parse_flag del: parse_loop.simps)

lemma parse_fields:
  "a_name b = None \<Longrightarrow> parse_loop (opt_arg ''--name'' v @ rest) b = parse_loop rest (b\<lparr>a_name := v\<rparr>)"
  "a_uuid b = None \<Longrightarrow> parse_loop (opt_arg ''--uuid'' v @ rest) b = parse_loop rest (b\<lparr>a_uuid := v\<rparr>)"
  "a_nickname b = None \<Longrightarrow> parse_loop (opt_arg ''--nickname'' v @ rest) b = parse_loop rest (b\<lparr>a_nickname := v\<rparr>)"
  "a_credential b = None \<Longrightarrow> parse_loop (opt_arg ''--credential'' v @ rest) b = parse_loop rest (b\<lparr>a_credential := v\<rparr>)"
  "a_internalSecret b = None \<Longrightarrow> parse_loop (opt_arg ''--internal-secret'' v @ rest) b = parse_loop rest (b\<lparr>a_internalSecret := v\<rparr>)"
  "a_adminUsername b = None \<Longrightarrow> parse_loop (opt_arg ''--admin-username'' v @ rest) b = parse_loop rest (b\<lparr>a_adminUsername := v\<rparr>)"
  "a_adminPassword b = None \<Longrightarrow> parse_loop (opt_arg ''--admin-password'' v @ rest) b = parse_loop rest (b\<lparr>a_adminPassword := v\<rparr>)"
  "a_conversation b = None \<Longrightarrow> parse_loop (opt_arg ''--conversation'' v @ rest) b = parse_loop rest (b\<lparr>a_conversation := v\<rparr>)"
  "a_join b = None \<Longrightarrow> parse_loop (opt_arg ''--join'' v @ rest) b = parse_loop rest (b\<lparr>a_join := v\<rparr>)"
  "a_createGroup b = None \<Longrightarrow> parse_loop (opt_arg ''--create-group'' v @ rest) b = parse_loop rest (b\<lparr>a_createGroup := v\<rparr>)"
  "a_members b = None \<Longrightarrow> parse_loop (opt_arg ''--members'' v @ rest) b = parse_loop rest (b\<lparr>a_members := v\<rparr>)"
  "parse_loop (opt_arg ''--backend'' (Some u) @ rest) b = parse_loop rest (b\<lparr>a_backend := u\<rparr>)"
  "parse_loop (opt_arg ''--gateway'' (Some u) @ rest) b = parse_loop rest (b\<lparr>a_gateway := u\<rparr>)"
  "parse_loop (opt_arg ''--internal-url'' (Some u) @ rest) b = parse_loop rest (b\<lparr>a_internalUrl := u\<rparr>)"
  by (cases b; cases v; simp add: parse_opt_arg flags_def del: parse_loop.simps)+

text \<open>
C30: Every setting can be given on the command line: in an empty environment the line printed for a set of arguments, whose command
does not start with two dashes, is parsed back to exactly those arguments, whatever the values are (a value may itself look like a flag).
\<close>

theorem parseArgs_print_args:
  assumes "\<And>c. a_command a = Some c \<Longrightarrow> \<not> starts_with c (js ''--'')"
  shows "parseArgs Map.empty (print_args a) = Inr a"
proof -
  have cmd: "parse_loop ((case x of Some c \<Rightarrow> [c] | None \<Rightarrow> []) @ rest) b = parse_loop rest (b\<lparr>a_command := x\<rparr>)"
    if "a_command b = None" "\<And>c. x = Some c \<Longrightarrow> \<not> starts_with c (js ''--'')" for x rest b
    using that by (cases b; cases x) simp_all
  have "parse_loop (print_args a @ []) (default_args Map.empty) = parse_loop [] a"
    unfolding print_args_def append_assoc
    by (subst cmd) (simp_all add: assms parse_fields default_args_def del: parse_loop.simps(2) append_Nil2)
  then show ?thesis by (simp add: parseArgs_def)
qed

definition sample_args :: args where
  "sample_args = (default_args Map.empty)\<lparr>a_command := Some (js ''groups''), a_name := Some (js ''--join'')\<rparr>"

theorem parseArgs_print_args_witness:
  "a_command sample_args = Some (js ''groups'') \<and> parseArgs Map.empty (print_args sample_args) = Inr sample_args"
proof -
  have c: "a_command sample_args = Some (js ''groups'')" by (simp add: sample_args_def)
  have "\<not> starts_with (js ''groups'') (js ''--'')" by (simp add: starts_with_def js_eval)
  then show ?thesis using parseArgs_print_args [of sample_args] c by simp
qed

section \<open>Exit codes\<close>

definition exits_ok :: "('w, 'a) prog \<Rightarrow> bool" where
  "exits_ok p \<longleftrightarrow> (\<forall>w ls. case p (w, ls) of (r, w', ls') \<Rightarrow>
     \<exists>new. ls' = ls @ new \<and> (\<forall>n. r = Exited n \<longrightarrow> (n = 1 \<or> n = 2) \<and> new \<noteq> []))"

named_theorems exits_intro \<open>programs that only exit with code 1 or 2 and a line on the console\<close>

lemma exits_ok_basic [exits_intro]:
  "exits_ok (ret x)" "exits_ok (console l)" "exits_ok (die l 1)" "exits_ok (die l 2)"
  "exits_ok (await f)" "exits_ok (ask io p)" "exits_ok (\<lambda>s. (Threw e, s))"
  by (auto simp: exits_ok_def ret_def console_def exit_with_def await_def ask_def die_def and_then_def
      split: prod.splits sum.splits)

lemma exits_okE:
  assumes "exits_ok p"
  obtains r w' new where "p (w, ls) = (r, w', ls @ new)" "\<forall>n. r = Exited n \<longrightarrow> (n = 1 \<or> n = 2) \<and> new \<noteq> []"
proof -
  obtain r w' ls' where p: "p (w, ls) = (r, w', ls')" by (cases "p (w, ls)") auto
  have "case p (w, ls) of (r, w', ls') \<Rightarrow>
     \<exists>new. ls' = ls @ new \<and> (\<forall>n. r = Exited n \<longrightarrow> (n = 1 \<or> n = 2) \<and> new \<noteq> [])"
    by (rule assms [unfolded exits_ok_def, THEN spec, THEN spec])
  then show ?thesis using that p by auto
qed

lemma exits_ok_and_then [exits_intro]:
  assumes "exits_ok p" "\<And>x. exits_ok (q x)"
  shows "exits_ok (and_then p q)"
  unfolding exits_ok_def
proof (intro allI)
  fix w ls
  obtain r w1 new where p: "p (w, ls) = (r, w1, ls @ new)" "\<forall>n. r = Exited n \<longrightarrow> (n = 1 \<or> n = 2) \<and> new \<noteq> []"
    using assms(1) by (rule exits_okE)
  show "case and_then p q (w, ls) of (r, w', ls') \<Rightarrow>
     \<exists>new. ls' = ls @ new \<and> (\<forall>n. r = Exited n \<longrightarrow> (n = 1 \<or> n = 2) \<and> new \<noteq> [])"
  proof (cases r)
    case (Done x)
    obtain r2 w2 new2 where "q x (w1, ls @ new) = (r2, w2, (ls @ new) @ new2)"
      "\<forall>n. r2 = Exited n \<longrightarrow> (n = 1 \<or> n = 2) \<and> new2 \<noteq> []" using assms(2) by (rule exits_okE)
    then show ?thesis using p(1) Done by (auto simp: and_then_def)
  qed (use p in \<open>auto simp: and_then_def\<close>)
qed

lemma exits_ok_catching [exits_intro]:
  assumes "exits_ok p" "\<And>e. exits_ok (h e)"
  shows "exits_ok (catching p h)"
  unfolding exits_ok_def
proof (intro allI)
  fix w ls
  obtain r w1 new where p: "p (w, ls) = (r, w1, ls @ new)" "\<forall>n. r = Exited n \<longrightarrow> (n = 1 \<or> n = 2) \<and> new \<noteq> []"
    using assms(1) by (rule exits_okE)
  show "case catching p h (w, ls) of (r, w', ls') \<Rightarrow>
     \<exists>new. ls' = ls @ new \<and> (\<forall>n. r = Exited n \<longrightarrow> (n = 1 \<or> n = 2) \<and> new \<noteq> [])"
  proof (cases r)
    case (Threw e)
    obtain r2 w2 new2 where "h e (w1, ls @ new) = (r2, w2, (ls @ new) @ new2)"
      "\<forall>n. r2 = Exited n \<longrightarrow> (n = 1 \<or> n = 2) \<and> new2 \<noteq> []" using assms(2) by (rule exits_okE)
    then show ?thesis using p(1) Threw by (auto simp: catching_def)
  qed (use p in \<open>auto simp: catching_def\<close>)
qed

lemma exits_ok_console_all [exits_intro]: "exits_ok (console_all ls)"
  by (induction ls) (auto intro: exits_intro)

lemma exits_ok_mustSecret [exits_intro]: "exits_ok (mustSecret a)"
  by (auto simp: mustSecret_def intro!: exits_intro split: option.splits)

lemma exits_ok_resolve [exits_intro]: "exits_ok (resolve_conversation io c a self)"
  unfolding resolve_conversation_def create_branch_def join_branch_def latest_branch_def createGroupOrExit_def
    promptCreateGroup_def Let_def
  by (auto intro!: exits_intro split: option.splits list.splits)

lemma exits_ok_main [exits_intro]: "exits_ok (main_prog io env argv)"
  unfolding main_prog_def listAllGroups_def listMyGroups_def login_def open_chat_def Let_def
  by (auto intro!: exits_intro split: option.splits sum.splits)

text \<open>
C31: Up to the start of the chat, and for the commands that do not chat up to their end, the program does not die of an unhandled
rejection: whatever the arguments, the answers of the backend and the user's input, it either gets there or
exits with code 1 or 2 after a line on the console.  (In the chat, \<open>/members\<close> has no \<open>catch\<close>; that is \<open>ap_crashed\<close> in \<open>Terminal_App\<close>.)
\<close>

theorem run_main_exits:
  "case run_main io env argv (w, ls) of
     (Done r, w', ls') \<Rightarrow> True
   | (Exited n, w', ls') \<Rightarrow> (n = 1 \<or> n = 2) \<and> (\<exists>new. new \<noteq> [] \<and> ls' = ls @ new)
   | (Threw e, w', ls') \<Rightarrow> False"
proof -
  have "exits_ok (run_main io env argv)" unfolding run_main_def by (intro exits_intro)
  then obtain r w' new where r: "run_main io env argv (w, ls) = (r, w', ls @ new)"
    and exits: "\<forall>n. r = Exited n \<longrightarrow> (n = 1 \<or> n = 2) \<and> new \<noteq> []" by (rule exits_okE)
  have "fst (catching p (\<lambda>e. die (m e) 1) s) \<noteq> Threw e" for p m s e
    by (auto simp: catching_def die_def and_then_def console_def exit_with_def split: run.splits prod.splits)
  then have "r \<noteq> Threw e" for e using r unfolding run_main_def by (metis fst_conv)
  with exits show ?thesis unfolding r by (cases r) auto
qed

end
