(* ===== verification/Terminal_App.thy ===== *)
theory Terminal_App
  imports Terminal
begin

text \<open>
  The running chat of the terminal client (\<open>client/src/main.ts\<close>, from \<open>seenMessages\<close> to
  \<open>gateway.connect()\<close>, and \<open>handleCommand\<close>).  The closures of \<open>main\<close> share the record \<open>app\<close>: the local
  variables of \<open>main\<close>, the UI, the gateway client, and the requests in flight.  A promise that waits
  for an answer is a request in \<open>ap_pending\<close>; answers come in any order.  The handler of an answer is
  the code of its \<open>then\<close> and \<open>catch\<close>.

  \<open>ap_shown\<close> records the messages that \<open>append\<close> displayed.  The local time of a message and \<open>String(err)\<close>
  are arguments (\<open>app_env\<close>).  A rejection without a handler ends the process (\<open>ap_crashed\<close>).
\<close>

section \<open>State\<close>

datatype app_request =
    ReqSync int
  | ReqSend jstr
  | ReqReload int
  | ReqTitle
  | ReqAdd "jstr list"
  | ReqRemove jstr
  | ReqMembers

datatype app_answer =
    AnsMessages "chat_message list"
  | AnsMessage chat_message
  | AnsDetails conversation_details
  | AnsError exn

record app_env =
  ae_time :: "jstr \<Rightarrow> jstr"
  ae_error :: "exn \<Rightarrow> jstr"

record app =
  ap_ui :: chat_ui
  ap_gateway :: gateway
  ap_conversationId :: jstr
  ap_title :: jstr
  ap_selfUuid :: jstr
  seenMessages :: "jstr list"
  ap_lastSequence :: int
  ap_syncing :: bool
  ap_syncQueue :: nat
  ap_pending :: "app_request list"
  ap_shown :: "chat_message list"
  ap_crashed :: bool

definition on_ui :: "(chat_ui \<Rightarrow> chat_ui) \<Rightarrow> app \<Rightarrow> app" where
  "on_ui f a = a\<lparr>ap_ui := f (ap_ui a)\<rparr>"

definition request_of :: "app_request \<Rightarrow> app \<Rightarrow> app" where
  "request_of r a = a\<lparr>ap_pending := ap_pending a @ [r]\<rparr>"

text \<open>The call of the REST client that a request stands for; a send has a fresh idempotency key.\<close>

definition perform ::
  "'w cli_fetch \<Rightarrow> im_client \<Rightarrow> jstr \<Rightarrow> jstr \<Rightarrow> app_request \<Rightarrow> 'w \<Rightarrow> (exn + app_answer) \<times> 'w" where
  "perform fetch c conversationId idemKey r w =
     (case r of
        ReqSync after \<Rightarrow> typed (AnsMessages \<circ> typed_list message_of_json) (cli_listMessages fetch c conversationId (Some after) None w)
      | ReqSend line \<Rightarrow> typed (AnsMessage \<circ> message_of_json) (cli_sendMessage fetch c conversationId line None (Some idemKey) w)
      | ReqReload after \<Rightarrow> typed (AnsMessages \<circ> typed_list message_of_json) (cli_listMessages fetch c conversationId (Some after) (Some 1) w)
      | ReqTitle \<Rightarrow> typed (AnsDetails \<circ> details_of_json) (cli_getConversation fetch c conversationId w)
      | ReqAdd members \<Rightarrow> typed (AnsDetails \<circ> details_of_json) (cli_addMembers fetch c conversationId members w)
      | ReqRemove member \<Rightarrow> typed (AnsDetails \<circ> details_of_json) (cli_removeMember fetch c conversationId member w)
      | ReqMembers \<Rightarrow> typed (AnsDetails \<circ> details_of_json) (cli_getConversation fetch c conversationId w))"

section \<open>append and sync\<close>

definition append_message :: "app_env \<Rightarrow> app \<Rightarrow> chat_message \<Rightarrow> app" where
  "append_message env a msg =
     (if msg_id msg \<in> set (seenMessages a) then a
      else on_ui (addMessage msg (ap_selfUuid a) (ae_time env (msg_created_at msg)))
        (a\<lparr>seenMessages := set_add (msg_id msg) (seenMessages a),
           ap_lastSequence := max (ap_lastSequence a) (msg_sequence msg),
           ap_shown := ap_shown a @ [msg]\<rparr>))"

text \<open>The chain of syncs: one waits for its answer, the others wait for their turn.\<close>

definition start_sync :: "app \<Rightarrow> app" where
  "start_sync a = request_of (ReqSync (ap_lastSequence a)) (a\<lparr>ap_syncing := True\<rparr>)"

definition sync_now :: "app \<Rightarrow> app" where
  "sync_now a = (if ap_syncing a then a\<lparr>ap_syncQueue := Suc (ap_syncQueue a)\<rparr> else start_sync a)"

definition next_sync :: "app \<Rightarrow> app" where
  "next_sync a =
     (case ap_syncQueue a of
        0 \<Rightarrow> a\<lparr>ap_syncing := False\<rparr>
      | Suc n \<Rightarrow> start_sync (a\<lparr>ap_syncQueue := n\<rparr>))"

definition refreshTitle :: "app \<Rightarrow> app" where
  "refreshTitle a = request_of ReqTitle a"

text \<open>\<open>s.split(sep)[0]\<close>.\<close>

fun before :: "jstr \<Rightarrow> jstr \<Rightarrow> jstr" where
  "before sep [] = []"
| "before sep (c # s) = (if starts_with (c # s) sep then [] else c # before sep s)"

section \<open>The gateway callbacks\<close>

fun status_text :: "connection_status \<Rightarrow> jstr" where
  "status_text Connecting = js ''connecting''"
| "status_text Authenticating = js ''authenticating''"
| "status_text Online = js ''online''"
| "status_text Reconnecting = js ''reconnecting''"
| "status_text Offline = js ''offline''"
| "status_text Closed = js ''closed''"

definition app_onEvent :: "gateway_event \<Rightarrow> app \<Rightarrow> app" where
  "app_onEvent ev a =
     (if ev_conversation_id ev \<noteq> ap_conversationId a then
        on_ui (addSystem (js ''new event in another conversation '' @ ev_conversation_id ev)) a
      else if ev_event ev = js ''message.created'' then sync_now a
      else if ev_event ev = js ''message.moderated'' then
        request_of (ReqReload (max 0 ((case ev_sequence ev of Some n \<Rightarrow> n | None \<Rightarrow> 1) - 1))) a
      else if ev_event ev = js ''conversation.member_added'' then
        refreshTitle (on_ui (addSystem (js ''member(s) '' @
          join (js '', '') (case ev_added_user_uuids ev of Some us \<Rightarrow> us | None \<Rightarrow> []) @ js '' joined the group'')) a)
      else if ev_event ev = js ''conversation.member_removed'' then
        refreshTitle (on_ui (addSystem
          (if ev_removed_user_uuid ev = Some (ap_selfUuid a)
           then js ''you were removed from this group '' @ [8212] @ js '' sending will fail''
           else js ''member '' @ (case ev_removed_user_uuid ev of Some u \<Rightarrow> u | None \<Rightarrow> js ''undefined'') @ js '' was removed'')) a)
      else a)"

fun gateway_call :: "gateway_effect \<Rightarrow> app \<Rightarrow> app" where
  "gateway_call (OnStatus status) a = on_ui (ui_setStatus (status_text status)) a"
| "gateway_call OnReady a = sync_now a"
| "gateway_call (OnEvent frame) a = app_onEvent (event_of_json frame) a"
| "gateway_call (OnError m) a = on_ui (addSystem (js ''gateway error: '' @ m)) a"
| "gateway_call _ a = a"

text \<open>The gateway client has moved to \<open>g\<close>; its new effects are the callbacks to run.\<close>

definition gateway_moved :: "gateway \<Rightarrow> app \<Rightarrow> app" where
  "gateway_moved g a =
     foldl (\<lambda>b x. gateway_call x b) (a\<lparr>ap_gateway := g\<rparr>) (drop (length (g_effects (ap_gateway a))) (g_effects g))"

section \<open>Input lines\<close>

text \<open>\<open>line.split(/\s+/)\<close>.\<close>

function split_spaces :: "jstr \<Rightarrow> jstr list" where
  "split_spaces s =
     (case dropWhile (\<lambda>c. \<not> is_space c) s of
        [] \<Rightarrow> [s]
      | c # r \<Rightarrow> takeWhile (\<lambda>c. \<not> is_space c) s # split_spaces (dropWhile is_space r))"
  by pat_completeness auto
termination
proof (relation "measure length")
  fix s c r assume "dropWhile (\<lambda>c. \<not> is_space c) s = c # r"
  then have "length (c # r) \<le> length s" using length_dropWhile_le [of "\<lambda>c. \<not> is_space c" s] by simp
  then show "(dropWhile is_space r, s) \<in> measure length"
    using length_dropWhile_le [of is_space r] by simp
qed simp

definition member_line :: "jstr \<Rightarrow> conversation_member \<Rightarrow> jstr" where
  "member_line selfUuid m =
     (case cm_nickname m of Some n \<Rightarrow> n | None \<Rightarrow> cm_username m) @ js ''('' @
     (if cm_uuid m = selfUuid then js ''you, '' @ role_text (cm_role m) else cm_uuid m @ js '', '' @ role_text (cm_role m)) @ js '')''"

definition exit_app :: "app \<Rightarrow> app" where
  "exit_app a = on_ui (\<lambda>ui. (ui_stop ui)\<lparr>ui_exited := True\<rparr>) (gateway_moved (cg_close (ap_gateway a)) a)"

definition handleCommand :: "jstr \<Rightarrow> app \<Rightarrow> app" where
  "handleCommand line a =
     (let cmd = hd (split_spaces line); rest = tl (split_spaces line)
      in if cmd = js ''/help'' then
           on_ui (addSystem (js ''commands: /add <uuid>[,<uuid>...] /remove <uuid> /members /sync /exit '' @ [8212] @
             js '' anything else is sent as a message'')) a
         else if cmd = js ''/add'' then
           let memberUuids = parseMemberUuids (join [44] rest)
           in if memberUuids = [] then on_ui (addSystem (js ''usage: /add <uuid>[,<uuid>...]'')) a
              else request_of (ReqAdd memberUuids) a
         else if cmd = js ''/remove'' then
           let targetUuid = trim (case rest of [] \<Rightarrow> [] | r # _ \<Rightarrow> r)
           in if targetUuid = [] then on_ui (addSystem (js ''usage: /remove <uuid>'')) a
              else request_of (ReqRemove targetUuid) a
         else if cmd = js ''/members'' then request_of ReqMembers a
         else if cmd = js ''/sync'' then on_ui (addSystem (js ''resync requested'')) (sync_now a)
         else if cmd = js ''/exit'' then exit_app a
         else on_ui (addSystem (js ''unknown command '' @ cmd @ [32, 8212] @ js '' try /help'')) a)"

text \<open>The callback of \<open>ui.start\<close>.\<close>

definition onLine :: "app \<Rightarrow> jstr \<Rightarrow> app" where
  "onLine a line =
     (if starts_with line (js ''/'') then handleCommand line a else request_of (ReqSend line) a)"

text \<open>One key, with the call of \<open>onLine\<close> that it may make; and a chunk of input.\<close>

definition app_key :: "app \<Rightarrow> jstr \<Rightarrow> app" where
  "app_key a ch =
     (let ui = key ch (ap_ui a) in foldl onLine (a\<lparr>ap_ui := ui\<rparr>) (drop (length (ui_sent (ap_ui a))) (ui_sent ui)))"

definition app_input :: "jstr \<Rightarrow> app \<Rightarrow> app" where
  "app_input t a =
     (let b = foldl app_key a (chars t) in if ui_exited (ap_ui b) then b else on_ui render b)"

section \<open>Answers\<close>

definition show_members :: "conversation_details \<Rightarrow> app \<Rightarrow> app" where
  "show_members d a =
     on_ui (addSystem (js ''members: '' @ join (js '', '') (memberNames (cd_members d) (ap_selfUuid a)))) a"

definition failed :: "app_env \<Rightarrow> string \<Rightarrow> exn \<Rightarrow> app \<Rightarrow> app" where
  "failed env what e a = on_ui (addSystem (js what @ js '' failed: '' @ ae_error env e)) a"

fun handle_answer :: "app_env \<Rightarrow> app_request \<Rightarrow> app_answer \<Rightarrow> app \<Rightarrow> app" where
  "handle_answer env (ReqSync n) (AnsMessages missed) a = next_sync (foldl (append_message env) a missed)"
| "handle_answer env (ReqSync n) (AnsError e) a = next_sync (failed env ''sync'' e a)"
| "handle_answer env (ReqSend l) (AnsMessage m) a = append_message env a m"
| "handle_answer env (ReqSend l) (AnsError e) a = failed env ''send'' e a"
| "handle_answer env (ReqReload n) (AnsMessages (m # ms)) a = on_ui (replaceMessage m) a"
| "handle_answer env ReqTitle (AnsDetails d) a =
     (if cd_type d \<noteq> Group then a
      else on_ui (ui_setTitle (before ([32, 183] @ js '' members:'') (ap_title a) @ members_suffix (cd_members d) (ap_selfUuid a))) a)"
| "handle_answer env (ReqAdd us) (AnsDetails d) a = show_members d a"
| "handle_answer env (ReqAdd us) (AnsError e) a = failed env ''add'' e a"
| "handle_answer env (ReqRemove u) (AnsDetails d) a = show_members d a"
| "handle_answer env (ReqRemove u) (AnsError e) a = failed env ''remove'' e a"
| "handle_answer env ReqMembers (AnsDetails d) a =
     on_ui (addSystem (join (js '', '') (map (member_line (ap_selfUuid a)) (cd_members d)))) a"
| "handle_answer env ReqMembers (AnsError e) a = a\<lparr>ap_crashed := True\<rparr>"
| "handle_answer env _ _ a = a"

text \<open>The request at position \<open>i\<close> is answered.\<close>

definition answer :: "app_env \<Rightarrow> nat \<Rightarrow> app_answer \<Rightarrow> app \<Rightarrow> app" where
  "answer env i x a =
     handle_answer env (ap_pending a ! i) x
       (a\<lparr>ap_pending := take i (ap_pending a) @ drop (Suc i) (ap_pending a)\<rparr>)"

section \<open>Start\<close>

definition start_app :: "app_env \<Rightarrow> nat \<times> nat \<Rightarrow> jstr \<Rightarrow> chat_start \<Rightarrow> app" where
  "start_app env dims gatewayUrl st =
     (let self = st_me st;
          name = (case usr_nickname self of Some n \<Rightarrow> n | None \<Rightarrow> usr_username self);
          a0 = \<lparr>ap_ui = newChatUI (st_title st) name (usr_uuid self) dims,
                ap_gateway = newGatewayClient gatewayUrl (ic_credential (st_client st)),
                ap_conversationId = st_conversationId st, ap_title = st_title st, ap_selfUuid = usr_uuid self,
                seenMessages = [], ap_lastSequence = 0, ap_syncing = False, ap_syncQueue = 0, ap_pending = [],
                ap_shown = [], ap_crashed = False\<rparr>;
          a1 = on_ui (addSystem (js ''logged in as '' @ usr_username self @ js '' (uuid '' @ usr_uuid self @ js '')''))
                 (on_ui ui_start a0);
          a2 = foldl (append_message env) a1 (st_history st);
          a3 = (if st_history st \<noteq> []
                then on_ui (addSystem (js ''loaded '' @ show_nat (length (st_history st)) @ js '' earlier message(s)'')) a2
                else a2)
      in gateway_moved (cg_connect (ap_gateway a3)) a3)"

section \<open>Runs\<close>

text \<open>
  Input, answers and gateway events, in any order, until the process ends.  The backend answers a
  sync with the page of its log, as it was when the backend read it, or fails; a message that is stored is
  appended to the log, and the answer of a send is a message of the log.
\<close>

datatype app_label =
    Typed jstr
  | Synced nat nat
  | Answered nat app_answer
  | GatewayEvent cg_label
  | Stored chat_message

fun is_sync :: "app_request \<Rightarrow> bool" where
  "is_sync (ReqSync n) \<longleftrightarrow> True"
| "is_sync _ \<longleftrightarrow> False"

fun sync_from :: "app_request \<Rightarrow> int" where
  "sync_from (ReqSync n) = n"
| "sync_from _ = 0"

definition alive :: "app \<Rightarrow> bool" where
  "alive a \<longleftrightarrow> \<not> ui_exited (ap_ui a) \<and> \<not> ap_crashed a"

inductive app_step :: "app_env \<Rightarrow> app_label \<Rightarrow> app \<times> chat_message list \<Rightarrow> app \<times> chat_message list \<Rightarrow> bool"
  for env :: app_env where
  typed: "alive a \<Longrightarrow> app_step env (Typed t) (a, log) (app_input t a, log)"
| synced: "alive a \<Longrightarrow> i < length (ap_pending a) \<Longrightarrow> ap_pending a ! i = ReqSync n \<Longrightarrow>
    app_step env (Synced i k) (a, log) (answer env i (AnsMessages (server_page (take k log) n 200)) a, log)"
| failed: "alive a \<Longrightarrow> i < length (ap_pending a) \<Longrightarrow>
    app_step env (Answered i (AnsError e)) (a, log) (answer env i (AnsError e) a, log)"
| answered: "alive a \<Longrightarrow> i < length (ap_pending a) \<Longrightarrow> \<not> is_sync (ap_pending a ! i) \<Longrightarrow>
    (\<And>m. x = AnsMessage m \<Longrightarrow> m \<in> set log) \<Longrightarrow>
    app_step env (Answered i x) (a, log) (answer env i x a, log)"
| gateway: "alive a \<Longrightarrow> cg_step l (ap_gateway a) g \<Longrightarrow>
    app_step env (GatewayEvent l) (a, log) (gateway_moved g a, log)"
| stored: "sorted_log (log @ [m]) \<Longrightarrow> distinct (map msg_id (log @ [m])) \<Longrightarrow> 0 < msg_sequence m \<Longrightarrow>
    app_step env (Stored m) (a, log) (a, log @ [m])"

end
