(* ===== verification/Terminal_Sync.thy ===== *)
theory Terminal_Sync
  imports Terminal_App
begin

text \<open>
  What the terminal chat shows.  \<open>app_frame\<close> is the contract of a property that the user interface, the
  gateway callbacks and the input line cannot disturb; it is stated once over the few operations they
  are made of.  Its interpretations give: every message is shown at most once and syncs are serialized
  (\<open>shown_ok\<close>), what is shown is a prefix of the conversation while nothing is sent (\<open>follows\<close>), and a
  message that an own send has overtaken is never shown (\<open>overtaken\<close>).
\<close>

section \<open>The frame of the chat\<close>

lemma on_ui_sel [simp]:
  "seenMessages (on_ui f a) = seenMessages a" "ap_lastSequence (on_ui f a) = ap_lastSequence a"
  "ap_syncing (on_ui f a) = ap_syncing a" "ap_syncQueue (on_ui f a) = ap_syncQueue a"
  "ap_pending (on_ui f a) = ap_pending a" "ap_shown (on_ui f a) = ap_shown a"
  "ap_crashed (on_ui f a) = ap_crashed a" "ap_gateway (on_ui f a) = ap_gateway a"
  by (simp_all add: on_ui_def)

lemma request_of_sel [simp]:
  "seenMessages (request_of r a) = seenMessages a" "ap_lastSequence (request_of r a) = ap_lastSequence a"
  "ap_syncing (request_of r a) = ap_syncing a" "ap_syncQueue (request_of r a) = ap_syncQueue a"
  "ap_pending (request_of r a) = ap_pending a @ [r]" "ap_shown (request_of r a) = ap_shown a"
  by (simp_all add: request_of_def)

lemma sync_now_sel [simp]:
  "seenMessages (sync_now a) = seenMessages a" "ap_lastSequence (sync_now a) = ap_lastSequence a"
  "ap_shown (sync_now a) = ap_shown a"
  by (simp_all add: sync_now_def start_sync_def)

lemma next_sync_sel [simp]:
  "seenMessages (next_sync a) = seenMessages a" "ap_lastSequence (next_sync a) = ap_lastSequence a"
  "ap_shown (next_sync a) = ap_shown a"
  by (simp_all add: next_sync_def start_sync_def split: nat.split)

locale app_frame =
  fixes I :: "app \<Rightarrow> bool"
  assumes I_ui: "I a \<Longrightarrow> I (on_ui f a)"
    and I_gateway_field: "I a \<Longrightarrow> I (a\<lparr>ap_gateway := g\<rparr>)"
    and I_crash: "I a \<Longrightarrow> I (a\<lparr>ap_crashed := True\<rparr>)"
    and I_request: "I a \<Longrightarrow> \<not> is_sync r \<Longrightarrow> I (request_of r a)"
    and I_sync: "I a \<Longrightarrow> I (sync_now a)"
begin

lemmas I_basic = I_ui I_gateway_field I_crash I_request I_sync

lemma I_ui_field: "I a \<Longrightarrow> I (a\<lparr>ap_ui := u\<rparr>)"
  using I_ui [of a "\<lambda>_. u"] by (simp add: on_ui_def)

lemma I_onEvent: "I a \<Longrightarrow> I (app_onEvent ev a)"
  by (simp add: app_onEvent_def refreshTitle_def I_basic)

lemma I_gateway_call: "I a \<Longrightarrow> I (gateway_call x a)"
  by (cases x) (simp_all add: I_basic I_onEvent)

lemma I_foldl: "I a \<Longrightarrow> (\<And>b x. I b \<Longrightarrow> I (f b x)) \<Longrightarrow> I (foldl f a xs)"
  by (induction xs arbitrary: a) simp_all

lemma I_gateway_moved: "I a \<Longrightarrow> I (gateway_moved g a)"
  unfolding gateway_moved_def by (intro I_foldl I_gateway_field I_gateway_call)

lemma I_handleCommand: "I a \<Longrightarrow> I (handleCommand line a)"
  by (simp add: handleCommand_def Let_def exit_app_def I_basic I_gateway_moved)

lemma I_onLine: "I a \<Longrightarrow> I (onLine a line)"
  by (simp add: onLine_def I_handleCommand I_request)

lemma I_input: "I a \<Longrightarrow> I (app_input t a)"
proof -
  have k: "I (app_key b ch)" if "I b" for b ch
    unfolding app_key_def Let_def using that by (intro I_foldl I_ui_field I_onLine)
  assume "I a"
  then have "I (foldl app_key a (chars t))" by (intro I_foldl k)
  then show ?thesis by (simp add: app_input_def Let_def I_ui)
qed

text \<open>An answer that carries no message to show.\<close>

lemma I_handle_answer:
  assumes "I a" "\<not> is_sync r" "\<And>m. x \<noteq> AnsMessage m"
  shows "I (handle_answer env r x a)"
  using assms by (cases "(env, r, x, a)" rule: handle_answer.cases) (auto simp: failed_def show_members_def I_basic)

end

section \<open>Each message is shown once\<close>

definition syncs :: "app \<Rightarrow> app_request list" where
  "syncs a = filter is_sync (ap_pending a)"

definition shown_ok :: "app \<Rightarrow> bool" where
  "shown_ok a \<longleftrightarrow> map msg_id (ap_shown a) = seenMessages a \<and> distinct (seenMessages a) \<and>
     ap_lastSequence a = foldl max 0 (map msg_sequence (ap_shown a))"

definition serial_ok :: "app \<Rightarrow> bool" where
  "serial_ok a \<longleftrightarrow> length (syncs a) = (if ap_syncing a then 1 else 0) \<and> (\<not> ap_syncing a \<longrightarrow> ap_syncQueue a = 0)"

interpretation shown: app_frame shown_ok
  by unfold_locales (simp_all add: shown_ok_def)

interpretation serial: app_frame serial_ok
  by unfold_locales (auto simp: serial_ok_def syncs_def sync_now_def start_sync_def)

lemma shown_ok_append: "shown_ok a \<Longrightarrow> shown_ok (append_message env a m)"
  by (auto simp: shown_ok_def append_message_def set_add_def)

lemma shown_ok_appends: "shown_ok a \<Longrightarrow> shown_ok (foldl (append_message env) a ms)"
  by (rule shown.I_foldl) (simp_all add: shown_ok_append)

lemma append_message_sel [simp]:
  "ap_pending (append_message env a m) = ap_pending a" "ap_syncing (append_message env a m) = ap_syncing a"
  "ap_syncQueue (append_message env a m) = ap_syncQueue a"
  by (simp_all add: append_message_def)

lemma append_messages_sel [simp]:
  "ap_pending (foldl (append_message env) a ms) = ap_pending a"
  "ap_syncing (foldl (append_message env) a ms) = ap_syncing a"
  "ap_syncQueue (foldl (append_message env) a ms) = ap_syncQueue a"
  by (induction ms arbitrary: a) simp_all

lemma shown_ok_cong: "ap_shown a = ap_shown b \<Longrightarrow> seenMessages a = seenMessages b \<Longrightarrow>
    ap_lastSequence a = ap_lastSequence b \<Longrightarrow> shown_ok a \<longleftrightarrow> shown_ok b"
  by (simp add: shown_ok_def)

lemma shown_ok_answer:
  assumes "shown_ok a"
  shows "shown_ok (answer env i x a)"
proof -
  have a: "shown_ok (a\<lparr>ap_pending := ps\<rparr>)" for ps using assms by (simp add: shown_ok_def)
  have "shown_ok b \<Longrightarrow> shown_ok (handle_answer env r x b)" for r b
    by (cases "(env, r, x, b)" rule: handle_answer.cases)
       (auto simp: failed_def show_members_def shown.I_basic shown_ok_append shown.I_foldl
         shown_ok_cong [of "next_sync c" c for c])
  from this [OF a] show ?thesis by (simp add: answer_def)
qed

lemma filter_remove_nth:
  "i < length xs \<Longrightarrow> filter P (take i xs @ drop (Suc i) xs) =
     (if P (xs ! i) then take (length (filter P (take i xs))) (filter P xs) @ drop (Suc (length (filter P (take i xs)))) (filter P xs)
      else filter P xs)"
proof -
  assume i: "i < length xs"
  have "filter P xs = filter P (take i xs @ xs ! i # drop (Suc i) xs)" using id_take_nth_drop [OF i] by simp
  then show ?thesis by simp
qed

lemma serial_ok_removed:
  assumes "serial_ok a" "i < length (ap_pending a)"
  defines "b \<equiv> a\<lparr>ap_pending := take i (ap_pending a) @ drop (Suc i) (ap_pending a)\<rparr>"
  shows "is_sync (ap_pending a ! i) \<Longrightarrow> syncs b = [] \<and> ap_syncing a"
    and "\<not> is_sync (ap_pending a ! i) \<Longrightarrow> serial_ok b \<and> syncs b = syncs a"
proof -
  have count: "length (syncs a) = length (syncs b) + (if is_sync (ap_pending a ! i) then 1 else 0)"
  proof -
    have "syncs a = filter is_sync (take i (ap_pending a) @ ap_pending a ! i # drop (Suc i) (ap_pending a))"
      unfolding syncs_def using id_take_nth_drop [OF assms(2)] by simp
    then show ?thesis by (simp add: syncs_def b_def)
  qed
  show "is_sync (ap_pending a ! i) \<Longrightarrow> syncs b = [] \<and> ap_syncing a"
    using count assms(1) by (auto simp: serial_ok_def split: if_splits)
  assume n: "\<not> is_sync (ap_pending a ! i)"
  then have "syncs b = syncs a" using filter_remove_nth [OF assms(2), of is_sync] by (simp add: syncs_def b_def)
  then show "serial_ok b \<and> syncs b = syncs a" using assms(1) by (simp add: serial_ok_def b_def)
qed

lemma serial_ok_next: "syncs a = [] \<Longrightarrow> ap_syncing a \<Longrightarrow> serial_ok (next_sync a)"
  by (auto simp: serial_ok_def syncs_def next_sync_def start_sync_def split: nat.split)

lemma serial_ok_answer:
  assumes "serial_ok a" "i < length (ap_pending a)"
    and "is_sync (ap_pending a ! i) \<Longrightarrow> (\<exists>ms. x = AnsMessages ms) \<or> (\<exists>e. x = AnsError e)"
  shows "serial_ok (answer env i x a)"
proof -
  let ?b = "a\<lparr>ap_pending := take i (ap_pending a) @ drop (Suc i) (ap_pending a)\<rparr>"
  show ?thesis
  proof (cases "is_sync (ap_pending a ! i)")
    case True
    then obtain n where n: "ap_pending a ! i = ReqSync n" by (cases "ap_pending a ! i") auto
    have b: "syncs ?b = []" "ap_syncing ?b" using serial_ok_removed(1) [OF assms(1,2) True] by simp_all
    have "serial_ok (next_sync (foldl (append_message env) ?b ms))" "serial_ok (next_sync (failed env w e ?b))" for ms w e
      using b by (auto simp: syncs_def failed_def intro!: serial_ok_next)
    then show ?thesis using assms(3) [OF True] by (auto simp: answer_def n)
  next
    case False
    then have b: "serial_ok ?b" using serial_ok_removed(2) [OF assms(1,2)] by simp
    have "serial_ok (append_message env ?b m)" for m
      using b by (simp add: serial_ok_def syncs_def)
    then have "serial_ok (handle_answer env (ap_pending a ! i) (AnsMessage m) ?b)" for m
      using b by (cases "ap_pending a ! i") simp_all
    then show ?thesis using serial.I_handle_answer [OF b False, of x] by (cases x) (simp_all add: answer_def)
  qed
qed

lemma app_step_ok:
  assumes "app_step env l s t" "shown_ok (fst s) \<and> serial_ok (fst s)"
  shows "shown_ok (fst t) \<and> serial_ok (fst t)"
  using assms
proof (induction rule: app_step.induct)
  case (typed a t log)
  then show ?case by (simp add: shown.I_input serial.I_input)
next
  case (gateway a l g log)
  then show ?case by (simp add: shown.I_gateway_moved serial.I_gateway_moved)
qed (auto intro: shown_ok_answer serial_ok_answer)

interpretation chat: inductive_invariant "app_step env" "\<lambda>l. True" "\<lambda>s. shown_ok (fst s) \<and> serial_ok (fst s)"
  for env
  by unfold_locales (rule app_step_ok)

text \<open>The state before the gateway connects: the history is shown, nothing is in flight.\<close>

definition idle :: "app \<Rightarrow> bool" where
  "idle a \<longleftrightarrow> ap_pending a = [] \<and> \<not> ap_syncing a \<and> ap_syncQueue a = 0"

lemma start_app_reads:
  assumes frame: "\<And>g b. P b \<Longrightarrow> P (gateway_moved g b)" and ui: "\<And>f b. P b \<Longrightarrow> P (on_ui f b)"
    and start: "\<And>b. idle b \<Longrightarrow> seenMessages b = [] \<Longrightarrow> ap_lastSequence b = 0 \<Longrightarrow> ap_shown b = [] \<Longrightarrow>
      P (foldl (append_message env) b (st_history st))"
  shows "P (start_app env dims url st)"
proof -
  define a1 where "a1 = on_ui (addSystem (js ''logged in as '' @ usr_username (st_me st) @ js '' (uuid '' @ usr_uuid (st_me st) @ js '')''))
    (on_ui ui_start \<lparr>ap_ui = newChatUI (st_title st) (case usr_nickname (st_me st) of Some n \<Rightarrow> n | None \<Rightarrow> usr_username (st_me st))
        (usr_uuid (st_me st)) dims,
      ap_gateway = newGatewayClient url (ic_credential (st_client st)),
      ap_conversationId = st_conversationId st, ap_title = st_title st, ap_selfUuid = usr_uuid (st_me st),
      seenMessages = [], ap_lastSequence = 0, ap_syncing = False, ap_syncQueue = 0, ap_pending = [],
      ap_shown = [], ap_crashed = False\<rparr>)"
  have "P (foldl (append_message env) a1 (st_history st))" by (rule start) (simp_all add: a1_def idle_def)
  then show ?thesis
    unfolding start_app_def Let_def a1_def [symmetric] by (intro frame) (auto intro: ui)
qed

text \<open>
C20: Whatever the user types and in whatever order answers and gateway events arrive, the terminal shows no
message twice, its cursor is the largest sequence it has shown, and at most one sync is in flight.
\<close>

theorem terminal_shows_once:
  assumes "lreach (app_step env) (\<lambda>l. True) (start_app env dims url st, log0) (a, log)"
  shows "distinct (map msg_id (ap_shown a)) \<and>
    ap_lastSequence a = foldl max 0 (map msg_sequence (ap_shown a)) \<and>
    length (filter is_sync (ap_pending a)) \<le> 1"
proof -
  have "shown_ok (start_app env dims url st)"
    by (rule start_app_reads [where P = shown_ok]) 
       (blast intro: shown.I_gateway_moved shown.I_ui, blast intro: shown.I_ui, rule shown_ok_appends, simp add: shown_ok_def)
  moreover have "serial_ok (start_app env dims url st)"
    by (rule start_app_reads [where P = serial_ok]) 
       (blast intro: serial.I_gateway_moved, blast intro: serial.I_ui, simp add: serial_ok_def idle_def syncs_def)
  ultimately have "shown_ok a \<and> serial_ok a" using chat.inv_reach [OF assms] by simp
  then show ?thesis by (auto simp: shown_ok_def serial_ok_def syncs_def)
qed

text \<open>A chat with the sample conversation of three messages, for the examples.\<close>

definition sample_app_env :: app_env where
  "sample_app_env = \<lparr>ae_time = (\<lambda>t. t), ae_error = exn_message\<rparr>"

definition sample_start :: "chat_message list \<Rightarrow> chat_start" where
  "sample_start ms =
     \<lparr>st_client = newIMClient [] [], st_me = user_of_json JNull, st_conversationId = [99], st_title = [], st_history = ms\<rparr>"

definition sample_app :: app where
  "sample_app = start_app sample_app_env (80, 24) [] (sample_start sample_log)"

lemma ui_exited_frame [simp]:
  "ui_exited (addSystem t ui) = ui_exited ui" "ui_exited (addMessage m u t ui) = ui_exited ui"
  "ui_exited (ui_setStatus t ui) = ui_exited ui" "ui_exited (ui_start ui) = ui_exited ui"
  by (simp_all add: addSystem_def addMessage_def pushLines_def ui_setStatus_def ui_start_def colorForName_def
      Let_def render_frame split: option.split)

lemma gateway_call_alive [simp]: "alive (gateway_call x a) = alive a"
  by (cases x) (simp_all add: alive_def on_ui_def app_onEvent_def refreshTitle_def request_of_def sync_now_def start_sync_def)

lemma gateway_moved_alive [simp]: "alive (gateway_moved g a) = alive a"
proof -
  have "alive (foldl (\<lambda>b x. gateway_call x b) a xs) = alive a" for xs a by (induction xs arbitrary: a) simp_all
  then show ?thesis by (simp add: gateway_moved_def alive_def)
qed

lemma append_message_alive [simp]: "alive (append_message env a m) = alive a"
  by (simp add: append_message_def alive_def on_ui_def)

lemma start_app_alive: "alive (start_app env dims url st)"
proof -
  have app: "alive (foldl (append_message env) a ms) = alive a" for a ms by (induction ms arbitrary: a) simp_all
  have "alive (on_ui (addSystem t) a) = alive a" for t a by (simp add: alive_def on_ui_def)
  then show ?thesis unfolding start_app_def Let_def by (simp add: app) (simp add: alive_def on_ui_def newChatUI_def)
qed

lemma sample_app_typed:
  "app_step sample_app_env (Typed t) (sample_app, log) (app_input t sample_app, log)"
  by (rule app_step.typed) (simp add: sample_app_def start_app_alive)

lemma sample_app_reach:
  "allowed (Typed t) \<Longrightarrow> lreach (app_step sample_app_env) allowed (sample_app, log) (app_input t sample_app, log)"
  by (rule lreach.more [where l = "Typed t"], rule lreach.start, assumption, rule sample_app_typed)

theorem terminal_shows_once_witness:
  "distinct (map msg_id (ap_shown (app_input (js ''/sync'') sample_app))) \<and>
   length (filter is_sync (ap_pending (app_input (js ''/sync'') sample_app))) \<le> 1"
proof -
  have "lreach (app_step sample_app_env) (\<lambda>l. True) (sample_app, sample_log) (app_input (js ''/sync'') sample_app, sample_log)"
    by (rule sample_app_reach) simp
  note reach = this
  show ?thesis using terminal_shows_once [OF reach [unfolded sample_app_def]] unfolding sample_app_def by blast
qed

section \<open>Following the conversation\<close>

definition chat_log_ok :: "chat_message list \<Rightarrow> bool" where
  "chat_log_ok log \<longleftrightarrow> sorted_log log \<and> distinct (map msg_id log) \<and> (\<forall>m \<in> set log. 0 < msg_sequence m)"

text \<open>Without sends, what is shown is the part of the log up to the cursor, and syncs ask from the cursor.\<close>

definition follows :: "chat_message list \<Rightarrow> app \<Rightarrow> bool" where
  "follows log a \<longleftrightarrow> shown_ok a \<and> serial_ok a \<and> ap_shown a = between log 0 (ap_lastSequence a) \<and>
     0 \<le> ap_lastSequence a \<and> (\<forall>r \<in> set (syncs a). sync_from r = ap_lastSequence a)"

lemma followsD:
  assumes "follows log a"
  shows "shown_ok a" "serial_ok a" "ap_shown a = between log 0 (ap_lastSequence a)" "0 \<le> ap_lastSequence a"
    "r \<in> set (syncs a) \<Longrightarrow> sync_from r = ap_lastSequence a"
    "seenMessages a = map msg_id (between log 0 (ap_lastSequence a))"
  using assms unfolding follows_def shown_ok_def by metis+

lemma follows_cong:
  assumes "follows log a" "ap_shown b = ap_shown a" "seenMessages b = seenMessages a" "ap_lastSequence b = ap_lastSequence a"
    and "serial_ok b" "set (syncs b) \<subseteq> set (syncs a)"
  shows "follows log b"
  unfolding follows_def using followsD [OF assms(1)] assms shown_ok_cong [of a b] by fastforce

interpretation following: app_frame "follows log" for log
proof unfold_locales
  fix a assume "follows log a"
  then show "follows log (sync_now a)"
    by (auto simp: follows_def shown.I_sync serial.I_sync) (auto simp: syncs_def sync_now_def start_sync_def split: if_splits)
qed (auto simp: follows_def shown.I_basic serial.I_basic syncs_def)

lemma append_messages_fresh:
  assumes "distinct (map msg_id ms)" "set (map msg_id ms) \<inter> set (seenMessages a) = {}"
  shows "ap_shown (foldl (append_message env) a ms) = ap_shown a @ ms \<and>
    ap_lastSequence (foldl (append_message env) a ms) = foldl max (ap_lastSequence a) (map msg_sequence ms)"
  using assms
proof (induction ms arbitrary: a)
  case (Cons m ms)
  let ?a = "append_message env a m"
  have a: "ap_shown ?a = ap_shown a @ [m]" "ap_lastSequence ?a = max (ap_lastSequence a) (msg_sequence m)"
    "set (seenMessages ?a) = insert (msg_id m) (set (seenMessages a))"
    using Cons.prems by (simp_all add: append_message_def)
  have "ap_shown (foldl (append_message env) ?a ms) = ap_shown ?a @ ms \<and>
    ap_lastSequence (foldl (append_message env) ?a ms) = foldl max (ap_lastSequence ?a) (map msg_sequence ms)"
    using Cons.prems a(3) by (intro Cons.IH) auto
  then show ?case by (simp add: a)
qed simp

lemma foldl_max_sorted:
  "sorted_log ms \<Longrightarrow> (\<forall>m \<in> set ms. d < msg_sequence m) \<Longrightarrow> foldl max d (map msg_sequence ms) = upto_seq d ms"
proof (induction ms arbitrary: d)
  case (Cons m ms)
  then have "foldl max (msg_sequence m) (map msg_sequence ms) = upto_seq (msg_sequence m) ms"
    by (intro Cons.IH) (auto simp: sorted_log_def)
  then show ?case using Cons.prems by (simp add: upto_seq_def)
qed (simp add: upto_seq_def)

text \<open>One page from the cursor is shown and moves the cursor to its end.\<close>

lemma append_page:
  fixes env :: app_env and k :: nat
  assumes "chat_log_ok log" "follows log a"
  defines "page \<equiv> server_page (take k log) (ap_lastSequence a) 200"
  defines "b \<equiv> foldl (append_message env) a page"
  shows "ap_shown b = between log 0 (ap_lastSequence b) \<and> ap_lastSequence a \<le> ap_lastSequence b"
proof -
  let ?c = "ap_lastSequence a"
  have log: "sorted_log log" "distinct (map msg_id log)" using assms(1) by (simp_all add: chat_log_ok_def)
  obtain j where j: "page = take j (pending log ?c)" using page_of_prefix unfolding page_def by blast
  have page: "page = between log ?c (upto_seq ?c page)" "?c \<le> upto_seq ?c page"
    unfolding j by (rule take_pending_between [OF log(1)], rule upto_seq_ge [OF take_pending_in])
  have "m \<in> set log \<and> ?c < msg_sequence m" if "m \<in> set page" for m
    using that by (subst (asm) page(1)) (simp add: between_def)
  then have sub: "set page \<subseteq> set log" "\<forall>m \<in> set page. ?c < msg_sequence m" by blast+
  have "distinct (map msg_id page)" "sorted_log page"
    using log by (subst page(1), simp add: between_def sorted_log_def sorted_wrt_filter distinct_map_filter)+
  moreover have "set (map msg_id page) \<inter> set (seenMessages a) = {}"
  proof (rule ccontr)
    assume "set (map msg_id page) \<inter> set (seenMessages a) \<noteq> {}"
    then obtain m where m: "m \<in> set page" "msg_id m \<in> set (seenMessages a)" by auto
    have "seenMessages a = map msg_id (between log 0 ?c)" by (rule followsD(6) [OF assms(2)])
    then obtain m' where m': "m' \<in> set log" "msg_sequence m' \<le> ?c" "msg_id m' = msg_id m"
      using m(2) by (auto simp: between_def)
    then have "m' = m" using m(1) sub(1) log(2) by (meson distinct_map inj_onD subsetD)
    then show False using m(1) m'(2) sub(2) by auto
  qed
  ultimately have b: "ap_shown b = ap_shown a @ page" "ap_lastSequence b = upto_seq ?c page"
    using append_messages_fresh [of page a env] foldl_max_sorted [OF _ sub(2)] unfolding b_def by metis+
  have a: "ap_shown a = between log 0 ?c" "0 \<le> ?c" using followsD [OF assms(2)] by simp_all
  have "between log 0 ?c @ page = between log 0 (upto_seq ?c page)"
    by (subst page(1)) (rule between_append [OF log(1) a(2) page(2)])
  then show ?thesis unfolding b a(1) using page(2) by simp
qed

text \<open>The answer to a synchronization that started at the cursor, and the start of the next one.\<close>

lemma append_page_idle:
  fixes env :: app_env and k :: nat
  assumes "chat_log_ok log" "follows log (b\<lparr>ap_syncing := False, ap_syncQueue := 0\<rparr>)"
  defines "c \<equiv> foldl (append_message env) b (server_page (take k log) (ap_lastSequence b) 200)"
  shows "ap_shown c = between log 0 (ap_lastSequence c) \<and> ap_lastSequence b \<le> ap_lastSequence c"
proof -
  have upd: "append_message env (d\<lparr>ap_syncing := False, ap_syncQueue := 0\<rparr>) m =
      (append_message env d m)\<lparr>ap_syncing := False, ap_syncQueue := 0\<rparr>" for d m
    by (simp add: append_message_def on_ui_def)
  have "foldl (append_message env) (d\<lparr>ap_syncing := False, ap_syncQueue := 0\<rparr>) ms =
      (foldl (append_message env) d ms)\<lparr>ap_syncing := False, ap_syncQueue := 0\<rparr>" for d ms
    by (induction ms arbitrary: d) (simp_all add: upd)
  then show ?thesis using append_page [OF assms(1,2), of env k] by (simp add: c_def)
qed

lemma follows_synced:
  assumes "chat_log_ok log" "follows log a" "i < length (ap_pending a)" "is_sync (ap_pending a ! i)"
    and "(\<exists>k. x = AnsMessages (server_page (take k log) (sync_from (ap_pending a ! i)) 200)) \<or> (\<exists>e. x = AnsError e)"
    and "shown_ok (answer env i x a)" "serial_ok (answer env i x a)"
  shows "follows log (answer env i x a) \<and> ap_lastSequence a \<le> ap_lastSequence (answer env i x a)"
proof -
  define b where "b = a\<lparr>ap_pending := take i (ap_pending a) @ drop (Suc i) (ap_pending a)\<rparr>"
  obtain n where n: "ap_pending a ! i = ReqSync n" using assms(4) by (cases "ap_pending a ! i") auto
  have "ReqSync n \<in> set (syncs a)" using assms(3) n nth_mem [OF assms(3)] by (simp add: syncs_def)
  then have cursor: "n = ap_lastSequence a" using followsD(5) [OF assms(2)] by force
  have b: "syncs b = []" "ap_lastSequence b = ap_lastSequence a"
    using serial_ok_removed(1) [OF followsD(2) [OF assms(2)] assms(3,4)] by (simp_all add: b_def)
  have fb: "follows log (b\<lparr>ap_syncing := False, ap_syncQueue := 0\<rparr>)"
    using b(1) by (intro follows_cong [OF assms(2)]) (simp_all add: serial_ok_def syncs_def b_def)
  have starts: "\<forall>r \<in> set (syncs (next_sync c)). sync_from r = ap_lastSequence c" if "syncs c = []" for c
    using that by (auto simp: next_sync_def start_sync_def syncs_def filter_empty_conv split: nat.split)
  define c where "c = (case x of AnsMessages ms \<Rightarrow> foldl (append_message env) b ms | AnsError e \<Rightarrow> failed env ''sync'' e b | _ \<Rightarrow> b)"
  have ans: "answer env i x a = next_sync c"
    using assms(5) by (auto simp: answer_def n b_def c_def)
  have "ap_shown c = between log 0 (ap_lastSequence c) \<and> ap_lastSequence a \<le> ap_lastSequence c \<and> syncs c = []"
    using assms(5) append_page_idle [OF assms(1) fb, of env] b followsD(3) [OF fb]
    by (auto simp: c_def n cursor failed_def syncs_def simp del: foldl_append)
  then show ?thesis
    using assms(6,7) starts [of c] followsD(4) [OF assms(2)] unfolding ans follows_def by force
qed

lemma follows_answer:
  assumes "chat_log_ok log" "follows log a" "i < length (ap_pending a)" "\<And>m. x \<noteq> AnsMessage m"
    and "is_sync (ap_pending a ! i) \<Longrightarrow>
      (\<exists>k. x = AnsMessages (server_page (take k log) (sync_from (ap_pending a ! i)) 200)) \<or> (\<exists>e. x = AnsError e)"
  shows "follows log (answer env i x a) \<and> ap_lastSequence a \<le> ap_lastSequence (answer env i x a)"
proof (cases "is_sync (ap_pending a ! i)")
  case True
  have "shown_ok (answer env i x a)" "serial_ok (answer env i x a)"
    using shown_ok_answer [OF followsD(1) [OF assms(2)]] serial_ok_answer [OF followsD(2) [OF assms(2)] assms(3)] assms(5)
    by blast+
  then show ?thesis by (rule follows_synced [OF assms(1-3) True assms(5) [OF True]])
next
  case False
  define b where "b = a\<lparr>ap_pending := take i (ap_pending a) @ drop (Suc i) (ap_pending a)\<rparr>"
  have "follows log b"
    using serial_ok_removed(2) [OF followsD(2) [OF assms(2)] assms(3) False]
    by (intro follows_cong [OF assms(2)]) (simp_all add: b_def)
  then have "follows log (handle_answer env (ap_pending a ! i) x b)"
    by (rule following.I_handle_answer [OF _ False assms(4)])
  moreover have "ap_lastSequence (handle_answer env (ap_pending a ! i) x b) = ap_lastSequence a"
    using False assms(4)
    by (cases "(env, ap_pending a ! i, x, b)" rule: handle_answer.cases)
       (auto simp: failed_def show_members_def b_def)
  ultimately show ?thesis by (simp add: answer_def b_def)
qed

text \<open>
  The abstract reader: a log that grows at its end, and the number of its messages that have been
  read, which only grows.
\<close>

inductive reader_step :: "app_label \<Rightarrow> nat \<times> chat_message list \<Rightarrow> nat \<times> chat_message list \<Rightarrow> bool" where
  read: "n \<le> k \<Longrightarrow> k \<le> length log \<Longrightarrow> reader_step l (n, log) (k, log)"
| publish: "reader_step (Stored m) (n, log) (n, log @ [m])"

fun no_send :: "app_label \<Rightarrow> bool" where
  "no_send (Answered i (AnsMessage m)) \<longleftrightarrow> False"
| "no_send _ \<longleftrightarrow> True"

definition reads :: "app \<times> chat_message list \<Rightarrow> nat \<times> chat_message list \<Rightarrow> bool" where
  "reads s t \<longleftrightarrow> snd s = snd t \<and> chat_log_ok (snd s) \<and> follows (snd s) (fst s) \<and>
     fst t \<le> length (snd t) \<and> ap_shown (fst s) = take (fst t) (snd t)"

lemma between_prefix:
  assumes "chat_log_ok log"
  shows "\<exists>k \<le> length log. between log 0 c = take k log"
proof -
  have "takeWhile (\<lambda>m. msg_sequence m \<le> c) log = between log 0 c"
    using assms unfolding chat_log_ok_def
  proof (induction log)
    case (Cons m ms)
    show ?case
    proof (cases "msg_sequence m \<le> c")
      case True
      then show ?thesis using Cons by (auto simp: between_def sorted_log_def)
    next
      case False
      then have "\<forall>x \<in> set ms. c < msg_sequence x" using Cons.prems by (auto simp: sorted_log_def)
      then have "between ms 0 c = []" by (auto simp: between_def filter_empty_conv)
      then show ?thesis using False by (simp add: between_def)
    qed
  qed (simp add: between_def)
  then have "between log 0 c = take (length (takeWhile (\<lambda>m. msg_sequence m \<le> c) log)) log"
    using takeWhile_eq_take by metis
  then show ?thesis using length_takeWhile_le by blast
qed

text \<open>The cursor never moves back, so that the reader has read at least as much.\<close>

lemma reads_more:
  assumes "reads (a, log) (n, log)" "follows log b" "ap_lastSequence a \<le> ap_lastSequence b"
  shows "\<exists>t. reader_step l (n, log) t \<and> reads (b, log) t"
proof -
  have ok: "chat_log_ok log" using assms(1) by (simp add: reads_def)
  obtain k where k: "k \<le> length log" "between log 0 (ap_lastSequence b) = take k log" using between_prefix [OF ok] by blast
  have n: "n \<le> length log" "between log 0 (ap_lastSequence a) = take n log" "0 \<le> ap_lastSequence a"
    using assms(1) by (auto simp: reads_def follows_def)
  have "between log 0 (ap_lastSequence b) = take n log @ between log (ap_lastSequence a) (ap_lastSequence b)"
    using between_append [of log 0 "ap_lastSequence a" "ap_lastSequence b"] ok n assms(3) by (simp add: chat_log_ok_def)
  then have "length (take n log) \<le> length (take k log)" using k(2) by (metis length_append le_add1)
  then have "n \<le> k" using n(1) k(1) by simp
  moreover have "ap_shown b = take k log" using assms(2) k(2) by (simp add: follows_def)
  ultimately show ?thesis using assms k ok by (intro exI [of _ "(k, log)"]) (auto simp: reads_def intro: read)
qed

text \<open>Input and gateway events do not move the cursor.\<close>

interpretation cursor_frame: app_frame "\<lambda>b. ap_lastSequence b = c" for c
  by unfold_locales simp_all

lemma foldl_max_mem: "foldl max (d :: int) xs = d \<or> foldl max d xs \<in> set xs"
proof (induction xs arbitrary: d)
  case (Cons x xs)
  then show ?case using Cons [of "max d x"] by (auto simp: max_def)
qed simp

lemma reads_stored:
  assumes "reads (a, log) (n, log)" "sorted_log (log @ [m])" "chat_log_ok (log @ [m])" "0 < msg_sequence m"
  shows "reads (a, log @ [m]) (n, log @ [m])"
proof -
  have r: "follows log a" "n \<le> length log" "ap_shown a = take n log" using assms(1) by (simp_all add: reads_def)
  have "ap_lastSequence a < msg_sequence m"
  proof (rule ccontr)
    assume old: "\<not> ap_lastSequence a < msg_sequence m"
    then have "ap_lastSequence a \<noteq> 0" using assms(4) by simp
    then have "ap_lastSequence a \<in> set (map msg_sequence (ap_shown a))"
      using followsD(1) [OF r(1)] foldl_max_mem [of 0 "map msg_sequence (ap_shown a)"] unfolding shown_ok_def by metis
    then show False using old assms(2) r(3) by (auto simp: sorted_log_def sorted_wrt_append dest!: in_set_takeD)
  qed
  then have "between (log @ [m]) 0 (ap_lastSequence a) = between log 0 (ap_lastSequence a)" by (simp add: between_def)
  then have "follows (log @ [m]) a" using followsD [OF r(1)] unfolding follows_def by auto
  then show ?thesis using r assms(3) by (simp add: reads_def)
qed

lemma reads_answer:
  assumes "reads (a, log) (k, log)" "i < length (ap_pending a)" "\<And>m. x \<noteq> AnsMessage m"
    and "is_sync (ap_pending a ! i) \<Longrightarrow>
      (\<exists>k. x = AnsMessages (server_page (take k log) (sync_from (ap_pending a ! i)) 200)) \<or> (\<exists>e. x = AnsError e)"
  shows "\<exists>t'. reader_step l (k, log) t' \<and> reads (answer env i x a, log) t'"
  using follows_answer [OF _ _ assms(2-4)] assms(1) by (intro reads_more [OF assms(1)]) (auto simp: reads_def)

lemma app_step_reads:
  assumes "app_step env l s s'" "reads s t" "no_send l"
  shows "\<exists>t'. reader_step l t t' \<and> reads s' t'"
proof -
  obtain n where n: "t = (n, snd s)" using assms(2) by (cases t) (auto simp: reads_def)
  show ?thesis using assms unfolding n
  proof (induction rule: app_step.induct)
    case (typed a u log)
    then show ?case
      using following.I_input [of log a u] cursor_frame.I_input [of a "ap_lastSequence a" u]
      unfolding snd_conv by (intro reads_more [of a]) (auto simp: reads_def)
  next
    case (gateway a l g log)
    then show ?case
      using following.I_gateway_moved [of log a g] cursor_frame.I_gateway_moved [of a "ap_lastSequence a" g]
      unfolding snd_conv by (intro reads_more [of a]) (auto simp: reads_def)
  next
    case (stored log m a)
    then have "chat_log_ok (log @ [m])" by (auto simp: chat_log_ok_def reads_def)
    then have "reads (a, log @ [m]) (n, log @ [m])" using stored by (intro reads_stored) auto
    then show ?case unfolding snd_conv using publish by blast
  next
    case (synced a i n k log)
    then show ?case unfolding snd_conv by (intro reads_answer) auto
  next
    case (failed a i e log)
    then show ?case unfolding snd_conv by (intro reads_answer) auto
  next
    case (answered a i x log)
    then show ?case unfolding snd_conv by (intro reads_answer) auto
  qed
qed

interpretation terminal: simulation "app_step env" reader_step no_send reads for env
  by unfold_locales (rule app_step_reads)

interpretation shown_frame: app_frame "\<lambda>b. ap_shown b = ms" for ms
  by unfold_locales simp_all

lemma start_app_follows:
  assumes "chat_log_ok log" "st_history st = server_page log 0 200"
  shows "follows log (start_app env dims url st) \<and> ap_shown (start_app env dims url st) = st_history st"
proof (rule start_app_reads [where P = "\<lambda>b. follows log b \<and> ap_shown b = st_history st"])
  fix b assume b: "idle b" "seenMessages b = []" "ap_lastSequence b = 0" "ap_shown b = []"
  let ?b = "foldl (append_message env) b (st_history st)"
  have "between log 0 0 = []" by (simp add: between_def filter_empty_conv)
  then have fb: "follows log b" using b by (simp add: follows_def shown_ok_def serial_ok_def idle_def syncs_def)
  have page: "ap_shown ?b = between log 0 (ap_lastSequence ?b) \<and> 0 \<le> ap_lastSequence ?b"
    using append_page [OF assms(1) fb, of env "length log"] by (simp add: b assms(2))
  have "distinct (map msg_id (st_history st))"
    using assms by (simp add: chat_log_ok_def server_page_def take_map [symmetric] distinct_map_filter)
  then have "ap_shown ?b = st_history st" using append_messages_fresh [of "st_history st" b env] b by simp
  moreover have "shown_ok ?b" by (rule shown_ok_appends) (simp add: shown_ok_def b)
  ultimately show "follows log ?b \<and> ap_shown ?b = st_history st"
    using page b(1) unfolding follows_def by (simp add: serial_ok_def idle_def syncs_def)
qed (auto intro: following.I_gateway_moved shown_frame.I_gateway_moved following.I_ui)

text \<open>
C9: While the user sends nothing, the terminal refines an abstract reader of the conversation: in every run,
with failing requests, queued syncs and events in any order, what is shown is a prefix of the
conversation's messages, in order, which only grows.
\<close>

theorem terminal_refines_reader:
  assumes "chat_log_ok log0" "st_history st = server_page log0 0 200"
    and "lreach (app_step env) no_send (start_app env dims url st, log0) (a, log)"
  shows "\<exists>n. lreach reader_step no_send (length (st_history st), log0) (n, log) \<and> ap_shown a = take n log"
proof -
  have all: "filter (\<lambda>m. 0 < msg_sequence m) log0 = log0"
    using assms(1) by (simp add: chat_log_ok_def filter_id_conv)
  have "reads (start_app env dims url st, log0) (length (st_history st), log0)"
    using start_app_follows [OF assms(1,2), of env dims url] assms(1,2)
    by (auto simp: reads_def server_page_def all min_def)
  then obtain t where "lreach reader_step no_send (length (st_history st), log0) t" "reads (a, log) t"
    using terminal.simulates_reach [OF assms(3)] by blast
  then show ?thesis by (cases t) (auto simp: reads_def)
qed

lemma sample_chat: "chat_log_ok sample_log" "st_history (sample_start sample_log) = server_page sample_log 0 200"
  by (simp_all add: chat_log_ok_def sorted_log_def sample_log_def sample_start_def server_page_def)

theorem terminal_refines_reader_witness:
  "\<exists>n. lreach reader_step no_send (3, sample_log) (n, sample_log) \<and>
     ap_shown (app_input (js ''/sync'') sample_app) = take n sample_log"
proof -
  have "lreach (app_step sample_app_env) no_send (sample_app, sample_log) (app_input (js ''/sync'') sample_app, sample_log)"
    by (rule sample_app_reach) simp
  note reach = this
  have "length (st_history (sample_start sample_log)) = 3" by (simp add: sample_start_def sample_log_def)
  then show ?thesis
    using terminal_refines_reader [OF sample_chat reach [unfolded sample_app_def]] unfolding sample_app_def by simp
qed

section \<open>A message that a send has overtaken\<close>

definition overtaken :: "chat_message \<Rightarrow> app \<Rightarrow> bool" where
  "overtaken m a \<longleftrightarrow> m \<notin> set (ap_shown a) \<and> msg_sequence m \<le> ap_lastSequence a \<and>
     (\<forall>r \<in> set (syncs a). msg_sequence m \<le> sync_from r)"

interpretation overtaking: app_frame "overtaken m" for m
  by unfold_locales (auto simp: overtaken_def syncs_def sync_now_def start_sync_def)

lemma overtaken_append:
  "overtaken m a \<Longrightarrow> x \<noteq> m \<Longrightarrow> overtaken m (append_message env a x)"
  by (auto simp: overtaken_def append_message_def syncs_def)

lemma overtaken_appends:
  "overtaken m a \<Longrightarrow> m \<notin> set ms \<Longrightarrow> overtaken m (foldl (append_message env) a ms)"
proof (induction ms arbitrary: a)
  case (Cons x ms)
  then show ?case using overtaken_append [of m a x env] by auto
qed simp

lemma overtaken_next: "overtaken m a \<Longrightarrow> overtaken m (next_sync a)"
  by (auto simp: overtaken_def next_sync_def start_sync_def syncs_def split: nat.split)

lemma overtaken_removed:
  "overtaken m a \<Longrightarrow> overtaken m (a\<lparr>ap_pending := take i (ap_pending a) @ drop (Suc i) (ap_pending a)\<rparr>)"
  by (auto simp: overtaken_def syncs_def dest!: in_set_takeD in_set_dropD)

lemma overtaken_answer:
  assumes "overtaken m a" "i < length (ap_pending a)" "x \<noteq> AnsMessage m"
    and "is_sync (ap_pending a ! i) \<Longrightarrow>
      x = AnsMessages (server_page log (sync_from (ap_pending a ! i)) 200) \<or> (\<exists>e. x = AnsError e)"
  shows "overtaken m (answer env i x a)"
proof -
  let ?b = "a\<lparr>ap_pending := take i (ap_pending a) @ drop (Suc i) (ap_pending a)\<rparr>"
  note b = overtaken_removed [OF assms(1), of i]
  show ?thesis
  proof (cases "ap_pending a ! i")
    case (ReqSync n)
    then have "ReqSync n \<in> set (syncs a)" using nth_mem [OF assms(2)] by (simp add: syncs_def)
    then have "msg_sequence m \<le> n" using assms(1) by (auto simp: overtaken_def)
    then have "m \<notin> set (server_page log n 200)" by (auto simp: server_page_def dest!: in_set_takeD)
    then show ?thesis using assms(4) ReqSync b
      by (auto simp: answer_def failed_def intro!: overtaken_next overtaken_appends overtaking.I_ui)
  next
    case (ReqSend l)
    then show ?thesis using assms(3) b
      by (cases x) (auto simp: answer_def failed_def intro!: overtaken_append overtaking.I_ui)
  qed (use b overtaking.I_handle_answer [OF b, of "ap_pending a ! i" x env] in \<open>cases x; simp add: answer_def\<close>)+
qed

lemma overtaken_step:
  assumes "app_step env l s t" "overtaken m (fst s)" "\<forall>i. l \<noteq> Answered i (AnsMessage m)"
  shows "overtaken m (fst t)"
  using assms
  by (induction rule: app_step.induct)
     (auto simp: overtaking.I_input overtaking.I_gateway_moved intro: overtaken_answer)

interpretation hidden: inductive_invariant "app_step env" "\<lambda>l. \<forall>i. l \<noteq> Answered i (AnsMessage m)" "\<lambda>s. overtaken m (fst s)"
  for env m
  by unfold_locales (rule overtaken_step)

text \<open>
A message of somebody else that is stored but not yet shown when the answer of an own send with a larger
sequence arrives is never shown: the send moves the cursor over it, and every later sync asks for
what comes after.
\<close>

theorem own_send_hides_unseen:
  assumes "i < length (ap_pending a)" "ap_pending a ! i = ReqSend line" "filter is_sync (ap_pending a) = []"
    and "msg_id own \<notin> set (seenMessages a)" "m \<in> set log" "m \<notin> set (ap_shown a)" "msg_sequence m < msg_sequence own"
    and "lreach (app_step env) (\<lambda>l. \<forall>i. l \<noteq> Answered i (AnsMessage m)) (answer env i (AnsMessage own) a, log) (b, log')"
  shows "m \<notin> set (ap_shown b)"
proof -
  let ?a = "a\<lparr>ap_pending := take i (ap_pending a) @ drop (Suc i) (ap_pending a)\<rparr>"
  have "answer env i (AnsMessage own) a = append_message env ?a own" using assms(2) by (simp add: answer_def)
  moreover have "syncs ?a = []"
    using assms(3) by (auto simp: syncs_def filter_empty_conv dest!: in_set_takeD in_set_dropD)
  then have "syncs (append_message env ?a own) = []" by (simp add: syncs_def)
  ultimately have "overtaken m (answer env i (AnsMessage own) a)"
    using assms(4,6,7) by (auto simp: overtaken_def append_message_def)
  then show ?thesis using hidden.inv_reach [OF assms(8)] by (simp add: overtaken_def)
qed

theorem own_send_hides_unseen_witness:
  "sample_message 4 6 \<notin> set (ap_shown (answer sample_app_env 0 (AnsMessage (sample_message 5 7))
     (sample_app\<lparr>ap_pending := [ReqSend [104]]\<rparr>)))"
proof -
  let ?a = "sample_app\<lparr>ap_pending := [ReqSend [104]]\<rparr>"
  have "follows sample_log sample_app" "ap_shown sample_app = sample_log"
    using start_app_follows [OF sample_chat, of sample_app_env "(80, 24)" "[]"] by (simp_all add: sample_app_def sample_start_def)
  then have "seenMessages ?a = [[1], [2], [3]]" "ap_shown ?a = sample_log"
    using followsD(1) unfolding shown_ok_def by (force simp: sample_log_def)+
  moreover have "sample_message 4 6 \<in> set [sample_message 4 6]" "sample_message 4 6 \<notin> set sample_log"
    by (simp_all add: sample_log_def sample_message_def)
  ultimately show ?thesis
    by (intro own_send_hides_unseen [of 0 ?a "[104]" "sample_message 5 7" "sample_message 4 6" "[sample_message 4 6]",
          OF _ _ _ _ _ _ _ lreach.start]) simp_all
qed

end
