(* ===== verification/Demo.thy ===== *)
theory Demo
  imports Terminal "HOL-Library.Sublist"
begin

text \<open>
  The end-to-end script \<open>client/src/demo.ts\<close>: its configuration, bookkeeping, participants, checks and the whole
  sequence of calls.

  A script step takes the state of the script to its outcome and the next state; \<open>None\<close> is a step that never
  ends.  During every \<open>await\<close>, of a REST call or of a timer, the runtime may let the sockets and timers
  of any gateway client of any participant do anything that is possible (\<open>dv_moves\<close>).  The runtime's \<open>fetch\<close>, clock,
  timer and random ids are arguments (\<open>demo_env\<close>).  A frame \<open>null\<close>, on which the gateway client throws, changes nothing here.  Requests of a \<open>Promise.all\<close> are made in order.
\<close>

section \<open>State\<close>

record demo_result =
  de_name :: jstr
  de_ok :: bool
  de_detail :: jstr

text \<open>The gateway clients a participant has made; the last one is \<open>gateway\<close>.\<close>

record participant =
  pt_name :: jstr
  pt_client :: "im_client option"
  pt_uuid :: jstr
  pt_events :: "json list"
  pt_online :: bool
  pt_gateways :: "gateway list"

definition newParticipant :: "jstr \<Rightarrow> participant" where
  "newParticipant name =
     \<lparr>pt_name = name, pt_client = None, pt_uuid = [], pt_events = [], pt_online = False, pt_gateways = []\<rparr>"

record 'w demo =
  dm_parts :: "participant list"
  dm_results :: "demo_result list"
  dm_console :: "jstr list"
  dm_world :: 'w

record 'w demo_env =
  dv_fetch :: "'w cli_fetch"
  dv_now :: "'w \<Rightarrow> int"
  dv_sleep :: "int \<Rightarrow> 'w \<Rightarrow> 'w"
  dv_uuid :: "'w \<Rightarrow> jstr \<times> 'w"
  dv_moves :: "participant list \<Rightarrow> 'w \<Rightarrow> (nat \<times> nat \<times> cg_label) list \<times> 'w"

record demo_config =
  dc_backend :: jstr
  dc_gateway :: jstr
  dc_internal :: jstr
  dc_secret :: "jstr option"

definition demo_config_of :: "(string \<rightharpoonup> jstr) \<Rightarrow> demo_config" where
  "demo_config_of env =
     \<lparr>dc_backend = (case env ''IM_BACKEND_URL'' of Some u \<Rightarrow> u | None \<Rightarrow> js ''http://127.0.0.1:1905''),
      dc_gateway = (case env ''IM_GATEWAY_URL'' of Some u \<Rightarrow> u | None \<Rightarrow> js ''ws://127.0.0.1:1910/ws''),
      dc_internal = (case env ''IM_INTERNAL_URL'' of Some u \<Rightarrow> u | None \<Rightarrow> js ''http://127.0.0.1:1906''),
      dc_secret = env ''IM_INTERNAL_SECRET''\<rparr>"

section \<open>Steps\<close>

type_synonym ('w, 'a) script = "'w demo \<Rightarrow> ('a run \<times> 'w demo) option"

definition s_ret :: "'a \<Rightarrow> ('w, 'a) script" where
  "s_ret x d = Some (Done x, d)"

definition s_then :: "('w, 'a) script \<Rightarrow> ('a \<Rightarrow> ('w, 'b) script) \<Rightarrow> ('w, 'b) script" where
  "s_then p q d =
     (case p d of
        None \<Rightarrow> None
      | Some (Done x, d') \<Rightarrow> q x d'
      | Some (Exited n, d') \<Rightarrow> Some (Exited n, d')
      | Some (Threw e, d') \<Rightarrow> Some (Threw e, d'))"

definition s_try :: "('w, 'a) script \<Rightarrow> (exn \<Rightarrow> ('w, 'a) script) \<Rightarrow> ('w, 'a) script" where
  "s_try p h d = (case p d of Some (Threw e, d') \<Rightarrow> h e d' | r \<Rightarrow> r)"

definition s_state :: "('w demo \<Rightarrow> 'a) \<Rightarrow> ('w, 'a) script" where
  "s_state f d = Some (Done (f d), d)"

definition s_set :: "(participant list \<Rightarrow> participant list) \<Rightarrow> ('w, unit) script" where
  "s_set f d = Some (Done (), d\<lparr>dm_parts := f (dm_parts d)\<rparr>)"

fun s_map :: "('a \<Rightarrow> ('w, 'b) script) \<Rightarrow> 'a list \<Rightarrow> ('w, 'b list) script" where
  "s_map f [] = s_ret []"
| "s_map f (x # xs) = s_then (f x) (\<lambda>y. s_then (s_map f xs) (\<lambda>ys. s_ret (y # ys)))"

text \<open>\<open>Promise.all\<close>: every request is made; the first failure in the order of the list is the outcome.\<close>

definition settled :: "('w, 'a) script \<Rightarrow> ('w, exn + 'a) script" where
  "settled p = s_try (s_then p (\<lambda>x. s_ret (Inr x))) (\<lambda>e. s_ret (Inl e))"

fun all_fulfilled :: "(exn + 'a) list \<Rightarrow> exn + 'a list" where
  "all_fulfilled [] = Inr []"
| "all_fulfilled (Inl e # rs) = Inl e"
| "all_fulfilled (Inr x # rs) = (case all_fulfilled rs of Inl e \<Rightarrow> Inl e | Inr xs \<Rightarrow> Inr (x # xs))"

definition s_throw :: "exn \<Rightarrow> ('w, 'a) script" where
  "s_throw e d = Some (Threw e, d)"

definition promise_all :: "('a \<Rightarrow> ('w, 'b) script) \<Rightarrow> 'a list \<Rightarrow> ('w, 'b list) script" where
  "promise_all f xs =
     s_then (s_map (\<lambda>x. settled (f x)) xs) (\<lambda>rs. case all_fulfilled rs of Inl e \<Rightarrow> s_throw e | Inr ys \<Rightarrow> s_ret ys)"

section \<open>Participants\<close>

text \<open>What the runtime does with a gateway client: a socket opens, closes or delivers a frame, a timer fires.\<close>

fun cg_react :: "cg_label \<Rightarrow> gateway \<Rightarrow> gateway" where
  "cg_react CgConnect g = g"
| "cg_react CgClose g = g"
| "cg_react (CgOpened k) g = (if k \<in> set (g_sockets g) then cg_onOpen k g else g)"
| "cg_react (CgMessage k raw) g = (if k \<in> set (g_sockets g) then snd (cg_onMessage k raw g) else g)"
| "cg_react (CgClosed k) g = (if k \<in> set (g_sockets g) then cg_onClose k g else g)"
| "cg_react (CgTimer t) g = (if t \<in> set (g_timeouts g) then cg_onReconnectTimer t g else g)"
| "cg_react (CgPing t) g = (if t \<in> set (g_intervals g) then onPingTimer g else g)"

fun participant_callback :: "gateway_effect \<Rightarrow> participant \<Rightarrow> participant" where
  "participant_callback (OnEvent frame) p = p\<lparr>pt_events := pt_events p @ [frame]\<rparr>"
| "participant_callback (OnStatus s) p = p\<lparr>pt_online := (s = Online)\<rparr>"
| "participant_callback _ p = p"

text \<open>The gateway client number \<open>k\<close> of a participant moves by \<open>f\<close>; its new effects are the callbacks to run.\<close>

definition participant_gateway :: "nat \<Rightarrow> (gateway \<Rightarrow> gateway) \<Rightarrow> participant \<Rightarrow> participant" where
  "participant_gateway k f p =
     (if k < length (pt_gateways p) then
        let g = pt_gateways p ! k
        in foldl (\<lambda>q x. participant_callback x q) (p\<lparr>pt_gateways := (pt_gateways p)[k := f g]\<rparr>)
             (drop (length (g_effects g)) (g_effects (f g)))
      else p)"

text \<open>\<open>this.client.credentialValue\<close> of a participant that was not set up is a \<open>TypeError\<close>.\<close>

definition no_client :: exn where
  "no_client = JsError (js ''Cannot read properties of undefined'')"

definition participant_connect :: "jstr \<Rightarrow> participant \<Rightarrow> exn + participant" where
  "participant_connect url p =
     (case pt_client p of
        None \<Rightarrow> Inl no_client
      | Some c \<Rightarrow>
          let p1 = p\<lparr>pt_gateways := pt_gateways p @ [newGatewayClient url (ic_credential c)]\<rparr>
          in Inr (participant_gateway (length (pt_gateways p)) cg_connect p1))"

definition participant_disconnect :: "participant \<Rightarrow> exn + participant" where
  "participant_disconnect p =
     (if pt_gateways p = [] then Inl no_client
      else Inr ((participant_gateway (length (pt_gateways p) - 1) cg_close p)\<lparr>pt_online := False\<rparr>))"

text \<open>A synchronous operation of participant \<open>i\<close>.\<close>

definition on_participant :: "(participant \<Rightarrow> exn + participant) \<Rightarrow> nat \<Rightarrow> ('w, unit) script" where
  "on_participant f i d =
     (case f (dm_parts d ! i) of
        Inl e \<Rightarrow> Some (Threw e, d)
      | Inr p \<Rightarrow> Some (Done (), d\<lparr>dm_parts := (dm_parts d)[i := p]\<rparr>))"

definition events_in :: "'w demo_env \<Rightarrow> 'w demo \<Rightarrow> 'w demo" where
  "events_in env d =
     (case dv_moves env (dm_parts d) (dm_world d) of
        (moves, w) \<Rightarrow>
          d\<lparr>dm_world := w,
            dm_parts := foldl (\<lambda>ps (i, k, l). if i < length ps then ps[i := participant_gateway k (cg_react l) (ps ! i)] else ps)
              (dm_parts d) moves\<rparr>)"

definition rest :: "'w demo_env \<Rightarrow> ('w \<Rightarrow> (exn + 'a) \<times> 'w) \<Rightarrow> ('w, 'a) script" where
  "rest env call d =
     (case call (dm_world d) of
        (r, w) \<Rightarrow>
          let d1 = events_in env (d\<lparr>dm_world := w\<rparr>)
          in Some (case r of Inl e \<Rightarrow> (Threw e, d1) | Inr x \<Rightarrow> (Done x, d1)))"

definition by_client :: "'w demo_env \<Rightarrow> nat \<Rightarrow> (im_client \<Rightarrow> 'w \<Rightarrow> (exn + 'a) \<times> 'w) \<Rightarrow> ('w, 'a) script" where
  "by_client env i call d =
     (case pt_client (dm_parts d ! i) of
        None \<Rightarrow> Some (Threw no_client, d)
      | Some c \<Rightarrow> rest env (call c) d)"

definition participant_identity :: "jstr \<Rightarrow> identity" where
  "participant_identity name = \<lparr>id_uuid = js ''demo-'' @ name, id_name = name, id_nickname = Some name\<rparr>"

definition setup_participant :: "'w demo_env \<Rightarrow> demo_config \<Rightarrow> jstr \<Rightarrow> nat \<Rightarrow> ('w, unit) script" where
  "setup_participant env cfg secret i =
     s_then (s_state (\<lambda>d. pt_name (dm_parts d ! i))) (\<lambda>name.
     s_then (rest env (mint (dv_fetch env) (dc_backend cfg) secret (participant_identity name) (Some (dc_internal cfg)))) (\<lambda>c.
     s_then (on_participant (\<lambda>p. Inr (p\<lparr>pt_client := Some c\<rparr>)) i) (\<lambda>_.
     s_then (by_client env i (\<lambda>c w. typed user_of_json (cli_me (dv_fetch env) c w))) (\<lambda>u.
     on_participant (\<lambda>p. Inr (p\<lparr>pt_uuid := usr_uuid u\<rparr>)) i))))"

section \<open>Bookkeeping\<close>

definition report :: "jstr \<Rightarrow> bool \<Rightarrow> jstr \<Rightarrow> ('w, unit) script" where
  "report name ok detail d =
     Some (Done (), d\<lparr>dm_results := dm_results d @ [\<lparr>de_name = name, de_ok = ok, de_detail = detail\<rparr>],
       dm_console := dm_console d @ [(if ok then js ''PASS'' else js ''FAIL'') @ js ''  '' @ name @
         (if detail = [] then [] else [32, 8212, 32] @ detail)]\<rparr>)"

definition s_console :: "jstr \<Rightarrow> ('w, unit) script" where
  "s_console line d = Some (Done (), d\<lparr>dm_console := dm_console d @ [line]\<rparr>)"

definition slept :: "'w demo_env \<Rightarrow> int \<Rightarrow> 'w demo \<Rightarrow> 'w demo" where
  "slept env ms d = events_in env (d\<lparr>dm_world := dv_sleep env ms (dm_world d)\<rparr>)"

definition sleep :: "'w demo_env \<Rightarrow> int \<Rightarrow> ('w, unit) script" where
  "sleep env ms d = Some (Done (), slept env ms d)"

abbreviation now :: "'w demo_env \<Rightarrow> 'w demo \<Rightarrow> int" where
  "now env d \<equiv> dv_now env (dm_world d)"

text \<open>A loop that never ends is \<open>None\<close>.\<close>

partial_function (option) wait_loop ::
  "'w demo_env \<Rightarrow> (participant list \<Rightarrow> bool) \<Rightarrow> jstr \<Rightarrow> int \<Rightarrow> 'w demo \<Rightarrow> (unit run \<times> 'w demo) option" where
  "wait_loop env cond what deadline d =
     (if now env d < deadline then
        if cond (dm_parts d) then Some (Done (), d) else wait_loop env cond what deadline (slept env 50 d)
      else Some (Threw (JsError (js ''timeout waiting for: '' @ what)), d))"

definition waitUntil :: "'w demo_env \<Rightarrow> (participant list \<Rightarrow> bool) \<Rightarrow> int \<Rightarrow> jstr \<Rightarrow> ('w, unit) script" where
  "waitUntil env cond limit what d = wait_loop env cond what (now env d + limit) d"

section \<open>Checks\<close>

definition events_named :: "string \<Rightarrow> participant \<Rightarrow> json list" where
  "events_named n p = filter (\<lambda>e. string_field ''event'' e = Some (js n)) (pt_events p)"

definition rolesOk :: "conversation_member list \<Rightarrow> jstr \<Rightarrow> bool" where
  "rolesOk members alice \<longleftrightarrow>
     length members = 3 \<and>
     (case find (\<lambda>m. cm_uuid m = alice) members of Some m \<Rightarrow> cm_role m = Owner | None \<Rightarrow> False) \<and>
     length (filter (\<lambda>m. cm_role m = Member) members) = 2"

definition fanout_ready :: "participant list \<Rightarrow> bool" where
  "fanout_ready ps \<longleftrightarrow> list_all (\<lambda>p. 6 \<le> length (events_named ''message.created'' p)) ps"

definition fanoutOk :: "chat_message list \<Rightarrow> participant list \<Rightarrow> bool" where
  "fanoutOk sent ps \<longleftrightarrow>
     list_all (\<lambda>p. let ids = map (string_field ''message_id'') (events_named ''message.created'' p)
                   in list_all (\<lambda>m. Some (msg_id m) \<in> set ids) sent) ps"

definition addOk :: "conversation_member list \<Rightarrow> jstr \<Rightarrow> bool" where
  "addOk members dave \<longleftrightarrow> length members = 4 \<and> list_ex (\<lambda>m. cm_uuid m = dave \<and> cm_role m = Member) members"

definition more_events :: "string \<Rightarrow> nat list \<Rightarrow> participant list \<Rightarrow> bool" where
  "more_events n counts ps \<longleftrightarrow> list_all (\<lambda>(p, c). c < length (events_named n p)) (zip ps counts)"

definition replayed :: "chat_message \<Rightarrow> chat_message \<Rightarrow> bool" where
  "replayed m r \<longleftrightarrow> msg_id m = msg_id r \<and> msg_sequence m = msg_sequence r"

definition deliveries :: "chat_message \<Rightarrow> participant \<Rightarrow> nat" where
  "deliveries m p = length (filter (\<lambda>e. string_field ''message_id'' e = Some (msg_id m)) (pt_events p))"

definition catchupOk :: "nat \<Rightarrow> nat \<Rightarrow> chat_message list \<Rightarrow> chat_message list \<Rightarrow> bool" where
  "catchupOk beforeOffline offlineCount missed catchup \<longleftrightarrow>
     offlineCount = beforeOffline \<and>
     list_all (\<lambda>m. list_ex (\<lambda>c. msg_id c = msg_id m \<and> msg_content c = msg_content m) catchup) missed"

definition gapless :: "chat_message list \<Rightarrow> bool" where
  "gapless ms \<longleftrightarrow> map msg_sequence ms = map (\<lambda>i. int i + 1) [0..<length ms]"

definition identical :: "chat_message list list \<Rightarrow> bool" where
  "identical histories \<longleftrightarrow>
     list_all (\<lambda>h. length h = length (hd histories) \<and>
       list_all (\<lambda>(m, r). msg_id m = msg_id r \<and> msg_content m = msg_content r) (zip h (hd histories))) histories"

definition removedFromResponse :: "conversation_member list \<Rightarrow> jstr \<Rightarrow> bool" where
  "removedFromResponse members dave \<longleftrightarrow> length members = 3 \<and> \<not> list_ex (\<lambda>m. cm_uuid m = dave) members"

fun send_denied :: "exn \<Rightarrow> bool" where
  "send_denied (IMErr e) = (err_status e = 403)"
| "send_denied (JsError m) = False"

section \<open>The script\<close>

abbreviation alice :: nat where "alice \<equiv> 0"
abbreviation bob :: nat where "bob \<equiv> 1"
abbreviation carol :: nat where "carol \<equiv> 2"
abbreviation dave :: nat where "dave \<equiv> 3"

definition uuid_of :: "nat \<Rightarrow> ('w, jstr) script" where
  "uuid_of i = s_state (\<lambda>d. pt_uuid (dm_parts d ! i))"

definition send ::
  "'w demo_env \<Rightarrow> nat \<Rightarrow> jstr \<Rightarrow> jstr \<Rightarrow> jstr option \<Rightarrow> ('w, chat_message) script" where
  "send env i grp content idempotencyKey =
     by_client env i (\<lambda>c w. typed message_of_json (cli_sendMessage (dv_fetch env) c grp content None idempotencyKey w))"

definition groups_of :: "'w demo_env \<Rightarrow> nat \<Rightarrow> ('w, conversation_summary list) script" where
  "groups_of env i = by_client env i (\<lambda>c w. typed (typed_list summary_of_json) (cli_listGroups (dv_fetch env) c w))"

definition randomUUID :: "'w demo_env \<Rightarrow> ('w, jstr) script" where
  "randomUUID env d = (case dv_uuid env (dm_world d) of (u, w) \<Rightarrow> Some (Done u, d\<lparr>dm_world := w\<rparr>))"

definition demo_identities :: "'w demo_env \<Rightarrow> demo_config \<Rightarrow> jstr \<Rightarrow> ('w, unit) script" where
  "demo_identities env cfg secret =
     s_then (s_map (setup_participant env cfg secret) [alice, bob, carol, dave]) (\<lambda>_.
     s_then (s_state (\<lambda>d. join [32] (map (\<lambda>p. pt_name p @ js ''='' @ pt_uuid p) (take 3 (dm_parts d))))) (\<lambda>uuids.
     report (js ''identity: mint credentials + auto-register users'') True (js ''uuids: '' @ uuids)))"

definition demo_group :: "'w demo_env \<Rightarrow> ('w, conversation_summary) script" where
  "demo_group env =
     s_then (s_state (now env)) (\<lambda>t.
     s_then (s_map uuid_of [bob, carol]) (\<lambda>members.
     s_then (by_client env alice (\<lambda>c w. typed summary_of_json
       (cli_createGroup (dv_fetch env) c (Some (js ''demo-'' @ show_int t)) members w))) (\<lambda>grp.
     s_then (by_client env bob (\<lambda>c w. typed details_of_json (cli_getConversation (dv_fetch env) c (cs_id grp) w))) (\<lambda>details.
     s_then (uuid_of alice) (\<lambda>owner.
     s_then (report (js ''conversation: create group, roles assigned'') (rolesOk (cd_members details) owner)
       (join (js '', '') (map (\<lambda>m. cm_username m @ js '':'' @ role_text (cm_role m)) (cd_members details)))) (\<lambda>_.
     s_then (groups_of env bob) (\<lambda>bobGroups.
     s_then (report (js ''conversation: group listed for members'') (list_ex (\<lambda>g. cs_id g = cs_id grp) bobGroups) []) (\<lambda>_.
     s_ret grp))))))))"

definition greet :: "'w demo_env \<Rightarrow> jstr \<Rightarrow> nat \<Rightarrow> nat \<Rightarrow> ('w, chat_message) script" where
  "greet env grp p i =
     s_then (s_state (\<lambda>d. pt_name (dm_parts d ! p))) (\<lambda>name.
     s_then (randomUUID env) (\<lambda>k.
     send env p grp (js ''hello from '' @ name @ js '' #'' @ show_nat i) (Some k)))"

definition demo_fanout :: "'w demo_env \<Rightarrow> demo_config \<Rightarrow> conversation_summary \<Rightarrow> ('w, unit) script" where
  "demo_fanout env cfg grp =
     s_then (s_map (on_participant (participant_connect (dc_gateway cfg))) [alice, bob, carol, dave]) (\<lambda>_.
     s_then (waitUntil env (list_all pt_online) 10000 (js ''all online'')) (\<lambda>_.
     s_then (report (js ''gateway: four connections authenticated'') True []) (\<lambda>_.
     s_then (s_map (\<lambda>(p, i). greet env (cs_id grp) p i) [(alice, 1), (alice, 2), (bob, 1), (bob, 2), (carol, 1), (carol, 2)]) (\<lambda>sent.
     s_then (waitUntil env (\<lambda>ps. fanout_ready (take 3 ps)) 10000 (js ''fan-out of 6 messages to 3 clients'')) (\<lambda>_.
     s_then (s_state (\<lambda>d. fanoutOk sent (take 3 (dm_parts d)))) (\<lambda>ok.
     report (js ''realtime: every member received all 6 messages'') ok []))))))"

definition show_bool :: "bool \<Rightarrow> jstr" where
  "show_bool b = (if b then js ''true'' else js ''false'')"

definition demo_add_member :: "'w demo_env \<Rightarrow> conversation_summary \<Rightarrow> ('w, unit) script" where
  "demo_add_member env grp =
     s_then (s_state (\<lambda>d. map (\<lambda>p. length (events_named ''conversation.member_added'' p)) (dm_parts d))) (\<lambda>beforeAdd.
     s_then (uuid_of dave) (\<lambda>newcomer.
     s_then (by_client env alice (\<lambda>c w. typed details_of_json (cli_addMembers (dv_fetch env) c (cs_id grp) [newcomer] w))) (\<lambda>addResult.
     s_then (waitUntil env (more_events ''conversation.member_added'' beforeAdd) 10000 (js ''member_added fan-out'')) (\<lambda>_.
     s_then (groups_of env dave) (\<lambda>groups.
     s_then (send env dave (cs_id grp) (js ''dave joins in'') None) (\<lambda>daveMsg.
     s_then (waitUntil env (\<lambda>ps. 0 < deliveries daveMsg (ps ! carol)) 10000 (js ''message from new member'')) (\<lambda>_.
     (let daveSeesGroup = list_ex (\<lambda>g. cs_id g = cs_id grp) groups
      in report (js ''membership: owner adds member, event fans out, new member chats'')
           (addOk (cd_members addResult) newcomer \<and> daveSeesGroup)
           (js ''members='' @ show_nat (length (cd_members addResult)) @ js '' dave_sees_group='' @ show_bool daveSeesGroup)))))))))"

definition demo_idempotent :: "'w demo_env \<Rightarrow> conversation_summary \<Rightarrow> ('w, unit) script" where
  "demo_idempotent env grp =
     s_then (randomUUID env) (\<lambda>idemKey.
     s_then (send env bob (cs_id grp) (js ''retry me'') (Some idemKey)) (\<lambda>first.
     s_then (send env bob (cs_id grp) (js ''retry me'') (Some idemKey)) (\<lambda>replay.
     s_then (waitUntil env (\<lambda>ps. 1 \<le> deliveries first (ps ! alice)) 10000 (js ''idempotent message delivery'')) (\<lambda>_.
     s_then (sleep env 1500) (\<lambda>_.
     s_then (s_state (\<lambda>d. deliveries first (dm_parts d ! alice))) (\<lambda>dupes.
     report (js ''messages: Idempotency-Key replays same message, delivered once'') (replayed first replay \<and> dupes = 1)
       (js ''replayed='' @ show_bool (replayed first replay) @ js '' deliveries='' @ show_nat dupes)))))))"

definition demo_offline :: "'w demo_env \<Rightarrow> demo_config \<Rightarrow> conversation_summary \<Rightarrow> ('w, unit) script" where
  "demo_offline env cfg grp =
     s_then (s_state (\<lambda>d. length (events_named ''message.created'' (dm_parts d ! carol)))) (\<lambda>beforeOffline.
     s_then (on_participant participant_disconnect carol) (\<lambda>_.
     s_then (sleep env 300) (\<lambda>_.
     s_then (s_map (\<lambda>i. send env alice (cs_id grp) (js ''while you were away '' @ show_nat i) None) [1, 2, 3]) (\<lambda>missed.
     s_then (sleep env 1500) (\<lambda>_.
     s_then (s_state (\<lambda>d. length (events_named ''message.created'' (dm_parts d ! carol)))) (\<lambda>offlineCount.
     s_then (on_participant (participant_connect (dc_gateway cfg)) carol) (\<lambda>_.
     s_then (waitUntil env (\<lambda>ps. pt_online (ps ! carol)) 10000 (js ''carol reconnect'')) (\<lambda>_.
     s_then (by_client env carol (\<lambda>c w. typed (typed_list message_of_json)
       (cli_listMessages (dv_fetch env) c (cs_id grp) (Some (msg_sequence (hd missed) - 1)) None w))) (\<lambda>catchup.
     report (js ''sync: offline client missed pushes, caught up via after_sequence'')
       (catchupOk beforeOffline offlineCount missed catchup)
       (js ''events while offline='' @ show_int (int offlineCount - int beforeOffline) @ js '', recovered='' @
        show_nat (length catchup)))))))))))"

definition demo_history :: "'w demo_env \<Rightarrow> conversation_summary \<Rightarrow> ('w, unit) script" where
  "demo_history env grp =
     s_then (promise_all (\<lambda>p. by_client env p (\<lambda>c w. typed (typed_list message_of_json)
       (cli_listMessages (dv_fetch env) c (cs_id grp) (Some 0) None w))) [alice, bob, carol, dave]) (\<lambda>histories.
     report (js ''history: identical, gapless sequence across all members'') (identical histories \<and> gapless (hd histories))
       (show_nat (length (hd histories)) @ js '' messages, sequences 1..'' @
        (if hd histories = [] then js ''undefined'' else show_int (msg_sequence (last (hd histories))))))"

definition demo_remove_member :: "'w demo_env \<Rightarrow> conversation_summary \<Rightarrow> ('w, unit) script" where
  "demo_remove_member env grp =
     s_then (s_state (\<lambda>d. map (\<lambda>p. length (events_named ''conversation.member_removed'' p)) (dm_parts d))) (\<lambda>beforeRemove.
     s_then (uuid_of dave) (\<lambda>leaver.
     s_then (by_client env alice (\<lambda>c w. typed details_of_json (cli_removeMember (dv_fetch env) c (cs_id grp) leaver w))) (\<lambda>removeResult.
     s_then (waitUntil env (more_events ''conversation.member_removed'' beforeRemove) 10000
       (js ''member_removed fan-out (including the removed user)'')) (\<lambda>_.
     s_then (groups_of env dave) (\<lambda>groups.
     s_then (s_try (s_then (send env dave (cs_id grp) (js ''am I still here?'') None) (\<lambda>_. s_ret False))
       (\<lambda>e. s_ret (send_denied e))) (\<lambda>daveSendDenied.
     s_then (by_client env alice (\<lambda>c w. typed details_of_json (cli_removeMember (dv_fetch env) c (cs_id grp) leaver w))) (\<lambda>again.
     (let daveStillSees = list_ex (\<lambda>g. cs_id g = cs_id grp) groups
      in report (js ''membership: owner removes member, kick event received, access revoked'')
           (removedFromResponse (cd_members removeResult) leaver \<and> \<not> daveStillSees \<and> daveSendDenied \<and>
            length (cd_members again) = 3)
           (js ''in_list='' @ show_bool daveStillSees @ js '' send_denied='' @ show_bool daveSendDenied)))))))))"

text \<open>The last line of the console, and the exit code when a check has failed.\<close>

definition summary :: "('w, unit) script" where
  "summary d =
     (let failed = filter (\<lambda>r. \<not> de_ok r) (dm_results d);
          line = [10] @ show_nat (length (dm_results d) - length failed) @ js ''/'' @ show_nat (length (dm_results d)) @
            js '' checks passed'';
          d1 = d\<lparr>dm_console := dm_console d @ [line]\<rparr>
      in Some (if failed \<noteq> [] then Exited 1 else Done (), d1))"

definition demo_checks :: "'w demo_env \<Rightarrow> demo_config \<Rightarrow> jstr \<Rightarrow> ('w, unit list) script" where
  "demo_checks env cfg secret =
     s_then (s_set (\<lambda>_. map newParticipant [js ''alice'', js ''bob'', js ''carol'', js ''dave''])) (\<lambda>_.
     s_then (demo_identities env cfg secret) (\<lambda>_.
     s_then (demo_group env) (\<lambda>grp.
     s_then (demo_fanout env cfg grp) (\<lambda>_.
     s_then (demo_add_member env grp) (\<lambda>_.
     s_then (demo_idempotent env grp) (\<lambda>_.
     s_then (demo_offline env cfg grp) (\<lambda>_.
     s_then (demo_history env grp) (\<lambda>_.
     s_then (demo_remove_member env grp) (\<lambda>_.
     s_map (on_participant participant_disconnect) [alice, bob, carol, dave])))))))))"

definition demo_main :: "'w demo_env \<Rightarrow> demo_config \<Rightarrow> jstr \<Rightarrow> ('w, unit) script" where
  "demo_main env cfg secret = s_then (demo_checks env cfg secret) (\<lambda>_. summary)"

text \<open>The module: the secret is required, and a rejection of \<open>main\<close> ends the process.\<close>

definition exit_script :: "jstr \<Rightarrow> int \<Rightarrow> ('w, 'a) script" where
  "exit_script line n = s_then (s_console line) (\<lambda>_ d. Some (Exited n, d))"

definition require_secret :: "demo_config \<Rightarrow> ('w, jstr) script" where
  "require_secret cfg =
     (case dc_secret cfg of
        None \<Rightarrow> exit_script (js ''error: IM_INTERNAL_SECRET is required to mint demo credentials'') 2
      | Some secret \<Rightarrow>
          if secret = [] then exit_script (js ''error: IM_INTERNAL_SECRET is required to mint demo credentials'') 2
          else s_ret secret)"

definition demo_run :: "'w demo_env \<Rightarrow> (string \<rightharpoonup> jstr) \<Rightarrow> ('w, unit) script" where
  "demo_run env penv =
     (let cfg = demo_config_of penv
      in s_then (require_secret cfg) (\<lambda>secret.
         s_try (demo_main env cfg secret) (\<lambda>e. exit_script (js ''demo aborted: '' @ exn_message e) 1)))"

text \<open>The catch-up finds the messages of the backend's log, up to the two hundred of a page.\<close>

lemma catchup_recovers:
  assumes "sorted_log (old @ missed)" "missed \<noteq> []" "length missed \<le> 200"
  shows "catchupOk n n missed (server_page (old @ missed) (msg_sequence (hd missed) - 1) 200)"
proof -
  have "\<forall>m \<in> set missed. msg_sequence (hd missed) - 1 < msg_sequence m"
    using assms(1,2) by (cases missed) (auto simp: sorted_log_def sorted_wrt_append)
  moreover have "msg_sequence m < msg_sequence (hd missed)" if "m \<in> set old" for m
    using assms(1) hd_in_set [OF assms(2)] that by (auto simp: sorted_log_def sorted_wrt_append)
  then have "\<forall>m \<in> set old. \<not> msg_sequence (hd missed) - 1 < msg_sequence m" by (meson leD zle_diff1_eq linorder_not_less less_imp_le)
  ultimately have "server_page (old @ missed) (msg_sequence (hd missed) - 1) 200 = missed"
    using assms(3) by (simp add: server_page_def filter_id_conv filter_empty_conv)
  then show ?thesis by (auto simp: catchupOk_def list_all_iff list_ex_iff)
qed

text \<open>Readers of one gapless log see identical, gapless histories.\<close>

lemma histories_consistent:
  assumes "gapless log" "h \<in> set hs" "\<forall>h \<in> set hs. h = server_page log 0 200"
  shows "identical hs \<and> gapless (hd hs)"
proof -
  have hd: "hd hs = server_page log 0 200" using assms(2,3) by (cases hs) auto
  have "0 < msg_sequence m" if "m \<in> set log" for m
  proof -
    have "msg_sequence m \<in> set (map msg_sequence log)" using that by simp
    then show ?thesis unfolding assms(1) [unfolded gapless_def] by auto
  qed
  then have page: "server_page log 0 200 = take 200 log" by (simp add: server_page_def filter_id_conv)
  have "map msg_sequence (take 200 log) = take 200 (map (\<lambda>i. int i + 1) [0..<length log])"
    using assms(1) by (simp add: gapless_def take_map [symmetric])
  then have "gapless (hd hs)" unfolding hd page gapless_def by (simp add: take_map min_def)
  moreover have "\<forall>p \<in> set (zip ms ms). fst p = snd p" for ms :: "chat_message list" by (auto simp: in_set_zip)
  then have "identical hs" unfolding identical_def hd list_all_iff using assms(3) by fastforce
  ultimately show ?thesis by simp
qed

section \<open>The script ends\<close>

text \<open>The clock does not run backwards, and a timer does not fire early.\<close>

definition steady :: "'w demo_env \<Rightarrow> bool" where
  "steady env \<longleftrightarrow>
     (\<forall>ms w. dv_now env w + ms \<le> dv_now env (dv_sleep env ms w)) \<and>
     (\<forall>ps w. dv_now env w \<le> dv_now env (snd (dv_moves env ps w)))"

lemma now_events_in: "steady env \<Longrightarrow> now env d \<le> now env (events_in env d)"
  by (simp add: steady_def events_in_def split_def)

lemma now_slept:
  assumes "steady env"
  shows "now env d + ms \<le> now env (slept env ms d)"
proof -
  let ?d = "d\<lparr>dm_world := dv_sleep env ms (dm_world d)\<rparr>"
  have "now env d + ms \<le> now env ?d" using assms by (simp add: steady_def)
  also have "\<dots> \<le> now env (slept env ms d)" using now_events_in [OF assms, of ?d] by (simp add: slept_def)
  finally show ?thesis .
qed

text \<open>The state at the \<open>n\<close>-th turn of a wait.\<close>

definition polled :: "'w demo_env \<Rightarrow> nat \<Rightarrow> 'w demo \<Rightarrow> 'w demo" where
  "polled env n d = (slept env 50 ^^ n) d"

text \<open>A wait ends at the first turn at which the condition holds or the deadline has passed.\<close>

lemma wait_loop_result:
  assumes "steady env" "b = nat (deadline - now env d)"
  shows "\<exists>n r. wait_loop env cond what deadline d = Some (r, polled env n d) \<and>
    (\<forall>k < n. now env (polled env k d) < deadline \<and> \<not> cond (dm_parts (polled env k d))) \<and>
    (case r of
       Done _ \<Rightarrow> now env (polled env n d) < deadline \<and> cond (dm_parts (polled env n d))
     | Threw e \<Rightarrow> deadline \<le> now env (polled env n d) \<and> e = JsError (js ''timeout waiting for: '' @ what)
     | Exited _ \<Rightarrow> False)"
  using assms(2)
proof (induction b arbitrary: d rule: less_induct)
  case (less b)
  show ?case
  proof (cases "now env d < deadline \<and> \<not> cond (dm_parts d)")
    case True
    let ?d = "slept env 50 d"
    have "nat (deadline - now env ?d) < b" using now_slept [OF assms(1), of d 50] True less.prems by simp
    from less.IH [OF this refl] obtain n r where r: "wait_loop env cond what deadline ?d = Some (r, polled env n ?d)"
      "\<forall>k < n. now env (polled env k ?d) < deadline \<and> \<not> cond (dm_parts (polled env k ?d))"
      "case r of
         Done _ \<Rightarrow> now env (polled env n ?d) < deadline \<and> cond (dm_parts (polled env n ?d))
       | Threw e \<Rightarrow> deadline \<le> now env (polled env n ?d) \<and> e = JsError (js ''timeout waiting for: '' @ what)
       | Exited _ \<Rightarrow> False" by blast
    have p: "polled env (Suc k) d = polled env k ?d" for k by (simp add: polled_def funpow_swap1)
    have "\<forall>k < Suc n. now env (polled env k d) < deadline \<and> \<not> cond (dm_parts (polled env k d))"
      using True r(2) p by (auto simp: less_Suc_eq_0_disj) (simp_all add: polled_def)
    then show ?thesis using True r(1,3) unfolding p [symmetric]
      by (intro exI [of _ "Suc n"] exI [of _ r]) (subst wait_loop.simps, simp)
  next
    case False
    then show ?thesis by (intro exI [of _ 0]) (subst wait_loop.simps, auto simp: polled_def)
  qed
qed

text \<open>A step that ends, and that has reported the checks \<open>ns\<close> if it was not cut short by a rejection.\<close>

definition reports :: "jstr list \<Rightarrow> ('w, 'a) script \<Rightarrow> bool" where
  "reports ns m \<longleftrightarrow> (\<forall>d. \<exists>r d' rs. m d = Some (r, d') \<and> dm_results d' = dm_results d @ rs \<and>
     (case r of Done _ \<Rightarrow> map de_name rs = ns | Threw _ \<Rightarrow> prefix (map de_name rs) ns | Exited _ \<Rightarrow> False))"

abbreviation silent :: "('w, 'a) script \<Rightarrow> bool" where
  "silent m \<equiv> reports [] m"

lemma reportsI:
  assumes "\<And>d. \<exists>r d' rs. m d = Some (r, d') \<and> dm_results d' = dm_results d @ rs \<and>
     (case r of Done _ \<Rightarrow> map de_name rs = ns | Threw _ \<Rightarrow> prefix (map de_name rs) ns | Exited _ \<Rightarrow> False)"
  shows "reports ns m"
  using assms by (simp add: reports_def)

lemma reports_then:
  assumes "reports ns m" "\<And>x. reports ms (q x)"
  shows "reports (ns @ ms) (s_then m q)"
proof (rule reportsI)
  fix d
  obtain r d1 rs where m: "m d = Some (r, d1)" "dm_results d1 = dm_results d @ rs"
    "case r of Done _ \<Rightarrow> map de_name rs = ns | Threw _ \<Rightarrow> prefix (map de_name rs) ns | Exited _ \<Rightarrow> False"
    using assms(1) unfolding reports_def by blast
  show "\<exists>r d' rs. s_then m q d = Some (r, d') \<and> dm_results d' = dm_results d @ rs \<and>
      (case r of Done _ \<Rightarrow> map de_name rs = ns @ ms | Threw _ \<Rightarrow> prefix (map de_name rs) (ns @ ms) | Exited _ \<Rightarrow> False)"
  proof (cases r)
    case (Done x)
    obtain r' d2 rs' where q: "q x d1 = Some (r', d2)" "dm_results d2 = dm_results d1 @ rs'"
      "case r' of Done _ \<Rightarrow> map de_name rs' = ms | Threw _ \<Rightarrow> prefix (map de_name rs') ms | Exited _ \<Rightarrow> False"
      using assms(2) [of x] unfolding reports_def by blast
    then show ?thesis using m Done
      by (intro exI [of _ r'] exI [of _ d2] exI [of _ "rs @ rs'"]) (auto simp: s_then_def split: run.splits)
  qed (use m in \<open>auto simp: s_then_def\<close>)
qed

lemmas silent_then = reports_then [where ns = "[]", simplified]
lemmas then_silent = reports_then [where ms = "[]", simplified]

lemma silent_basic [simp]:
  "silent (s_ret x)" "silent (s_state f)" "silent (s_set g)" "silent (uuid_of i)" "silent (s_throw e)"
  "silent (sleep env ms)" "silent (on_participant h i)" "silent (rest env call)" "silent (by_client env i call')"
  "silent (randomUUID env)" "silent (s_console line)"
  by (auto simp: reports_def s_ret_def s_state_def s_set_def uuid_of_def s_throw_def sleep_def slept_def events_in_def
      on_participant_def rest_def by_client_def randomUUID_def s_console_def Let_def split: sum.split prod.split option.split)

lemma silent_calls [simp]: "silent (send env i grp content k)" "silent (groups_of env i)"
  by (simp_all add: send_def groups_of_def)

lemma silent_map [simp]: "(\<And>x. silent (f x)) \<Longrightarrow> silent (s_map f xs)"
  by (induction xs) (auto intro!: silent_then)

text \<open>A silent step ends without a report, by a value or a rejection.\<close>

lemma silent_iff:
  "silent m \<longleftrightarrow> (\<forall>d. \<exists>r d'. m d = Some (r, d') \<and> dm_results d' = dm_results d \<and> (\<forall>n. r \<noteq> Exited n))"
proof -
  have "(\<exists>r d' rs. m d = Some (r, d') \<and> dm_results d' = dm_results d @ rs \<and>
      (case r of Done _ \<Rightarrow> map de_name rs = [] | Threw _ \<Rightarrow> prefix (map de_name rs) [] | Exited _ \<Rightarrow> False)) =
    (\<exists>r d'. m d = Some (r, d') \<and> dm_results d' = dm_results d \<and> (\<forall>n. r \<noteq> Exited n))" for d
    by (cases "m d") (auto split: run.splits, metis run.exhaust)
  then show ?thesis by (simp add: reports_def)
qed

lemma silent_try:
  assumes "silent p" "\<And>e. silent (h e)"
  shows "silent (s_try p h)"
  unfolding silent_iff
proof
  fix d
  obtain r d1 where p: "p d = Some (r, d1)" "dm_results d1 = dm_results d" "\<forall>n. r \<noteq> Exited n"
    using assms(1) unfolding silent_iff by blast
  show "\<exists>r d'. s_try p h d = Some (r, d') \<and> dm_results d' = dm_results d \<and> (\<forall>n. r \<noteq> Exited n)"
  proof (cases r)
    case (Threw e)
    then show ?thesis using p assms(2) [of e, unfolded silent_iff, THEN spec, of d1] by (simp add: s_try_def)
  qed (use p in \<open>auto simp: s_try_def\<close>)
qed

lemma silent_promise_all [simp]: "(\<And>x. silent (f x)) \<Longrightarrow> silent (promise_all f xs)"
  by (auto simp: promise_all_def settled_def intro!: silent_then silent_map silent_try split: sum.split)

lemma silent_waitUntil [simp]: "steady env \<Longrightarrow> silent (waitUntil env cond limit what)"
proof (rule reportsI)
  fix d assume "steady env"
  have slept: "dm_results (polled env n d) = dm_results d" for n
    by (induction n) (simp_all add: polled_def slept_def events_in_def split: prod.split)
  from \<open>steady env\<close> obtain n r where "waitUntil env cond limit what d = Some (r, polled env n d)" "\<forall>k. r \<noteq> Exited k"
    using wait_loop_result [of env _ _ d cond what, OF _ refl] unfolding waitUntil_def by (fastforce split: run.splits)
  then show "\<exists>r d' rs. waitUntil env cond limit what d = Some (r, d') \<and> dm_results d' = dm_results d @ rs \<and>
      (case r of Done _ \<Rightarrow> map de_name rs = [] | Threw _ \<Rightarrow> prefix (map de_name rs) [] | Exited _ \<Rightarrow> False)"
    using slept by (auto split: run.splits)
qed

lemma reports_report [simp]: "reports [name] (report name ok detail)"
  by (simp add: reports_def report_def)

text \<open>The ten checks of the script, in their order.\<close>

definition check_names :: "jstr list" where
  "check_names =
     [js ''identity: mint credentials + auto-register users'',
      js ''conversation: create group, roles assigned'',
      js ''conversation: group listed for members'',
      js ''gateway: four connections authenticated'',
      js ''realtime: every member received all 6 messages'',
      js ''membership: owner adds member, event fans out, new member chats'',
      js ''messages: Idempotency-Key replays same message, delivered once'',
      js ''sync: offline client missed pushes, caught up via after_sequence'',
      js ''history: identical, gapless sequence across all members'',
      js ''membership: owner removes member, kick event received, access revoked'']"

lemma reports_Cons:
  "(\<And>x. reports ns (q x)) \<Longrightarrow> reports (n # ns) (s_then (report n ok detail) q)"
  using reports_then [OF reports_report, of ns q n ok detail] by simp

lemmas reports_rules = reports_Cons reports_report silent_then silent_try silent_map silent_promise_all silent_basic silent_calls
  silent_waitUntil

lemma silent_greet [simp]: "silent (greet env grp p i)"
  unfolding greet_def by (rule reports_rules)+

lemma silent_setup [simp]: "silent (setup_participant env cfg secret i)"
  unfolding setup_participant_def by (rule reports_rules)+

lemma reports_parts:
  assumes "steady env"
  shows "reports [js ''identity: mint credentials + auto-register users''] (demo_identities env cfg secret)"
    and "reports [js ''conversation: create group, roles assigned'', js ''conversation: group listed for members''] (demo_group env)"
    and "reports [js ''gateway: four connections authenticated'', js ''realtime: every member received all 6 messages''] (demo_fanout env cfg grp)"
    and "reports [js ''membership: owner adds member, event fans out, new member chats''] (demo_add_member env grp)"
    and "reports [js ''messages: Idempotency-Key replays same message, delivered once''] (demo_idempotent env grp)"
    and "reports [js ''sync: offline client missed pushes, caught up via after_sequence''] (demo_offline env cfg grp)"
    and "reports [js ''history: identical, gapless sequence across all members''] (demo_history env grp)"
    and "reports [js ''membership: owner removes member, kick event received, access revoked''] (demo_remove_member env grp)"
  unfolding demo_identities_def demo_group_def demo_fanout_def demo_add_member_def demo_idempotent_def demo_offline_def
    demo_history_def demo_remove_member_def Let_def
  by (rule reports_rules assms silent_setup silent_greet | simp only: split_beta)+


lemma reports_checks:
  assumes "steady env"
  shows "reports check_names (demo_checks env cfg secret)"
proof -
  note parts = reports_parts [OF assms]
  note rules = reports_then [OF parts(1)] reports_then [OF parts(2)] reports_then [OF parts(3)] reports_then [OF parts(4)]
    reports_then [OF parts(5)] reports_then [OF parts(6)] reports_then [OF parts(7)]
  show ?thesis unfolding check_names_def demo_checks_def
    by (rule silent_then [OF silent_basic(3)] rules [unfolded append.simps] then_silent [OF parts(8)] silent_map silent_basic)+
qed

text \<open>
C32: The end-to-end script always ends, whatever the backend answers and the sockets do, as long as the clock runs
and a timer does not fire early; and it cannot end well without having checked everything: it ends
normally only when all ten checks were reported, in their order, and each has passed; it
exits with code 2 when the secret is missing and with code 1 when a check has failed or a call was rejected.
\<close>

theorem demo_never_passes_unchecked:
  assumes "steady env"
  shows "\<exists>r d. demo_run env penv \<lparr>dm_parts = [], dm_results = [], dm_console = [], dm_world = w\<rparr> = Some (r, d) \<and>
    (case r of
       Done _ \<Rightarrow> map de_name (dm_results d) = check_names \<and> list_all de_ok (dm_results d)
     | Exited n \<Rightarrow>
         n = 2 \<and> (case penv ''IM_INTERNAL_SECRET'' of None \<Rightarrow> True | Some secret \<Rightarrow> secret = []) \<or>
         n = 1 \<and> (list_ex (\<lambda>c. \<not> de_ok c) (dm_results d) \<or> (\<exists>e. last (dm_console d) = js ''demo aborted: '' @ exn_message e))
     | Threw _ \<Rightarrow> False)"
proof -
  let ?d = "\<lparr>dm_parts = [], dm_results = [], dm_console = [], dm_world = w\<rparr>" and ?cfg = "demo_config_of penv"
  have cfg: "dc_secret ?cfg = penv ''IM_INTERNAL_SECRET''" by (simp add: demo_config_of_def)
  show ?thesis
  proof (cases "\<exists>secret. penv ''IM_INTERNAL_SECRET'' = Some secret \<and> secret \<noteq> []")
    case True
    then obtain secret where secret: "penv ''IM_INTERNAL_SECRET'' = Some secret" "secret \<noteq> []" by blast
    obtain r d rs where m: "demo_checks env ?cfg secret ?d = Some (r, d)" "dm_results d = dm_results ?d @ rs"
      "case r of Done _ \<Rightarrow> map de_name rs = check_names | Threw _ \<Rightarrow> prefix (map de_name rs) check_names | Exited _ \<Rightarrow> False"
      using reports_checks [OF assms, of ?cfg secret] unfolding reports_def by blast
    show ?thesis
    proof (cases r)
      case (Done x)
      then have "demo_main env ?cfg secret ?d = summary d" using m(1) by (simp add: demo_main_def s_then_def)
      then show ?thesis using secret cfg m(2,3) Done
        by (auto simp: demo_run_def require_secret_def exit_script_def s_ret_def s_then_def s_try_def summary_def Let_def list_all_iff list_ex_iff filter_empty_conv)
    next
      case (Threw e)
      then have "demo_main env ?cfg secret ?d = Some (Threw e, d)" using m(1) by (simp add: demo_main_def s_then_def)
      then show ?thesis using secret cfg by (auto simp: demo_run_def require_secret_def exit_script_def s_ret_def s_then_def s_try_def s_then_def s_console_def Let_def)
    qed (use m(3) in simp)
  next
    case False
    then show ?thesis using cfg by (auto simp: demo_run_def require_secret_def exit_script_def s_ret_def s_then_def s_console_def Let_def split: option.splits)
  qed
qed

text \<open>A backend that is not there, and a clock that counts milliseconds.\<close>

definition sample_demo_env :: "int demo_env" where
  "sample_demo_env = \<lparr>dv_fetch = (\<lambda>w rq. (Inl (JsError (js ''fetch failed'')), w)), dv_now = id, dv_sleep = (\<lambda>ms w. w + ms),
     dv_uuid = (\<lambda>w. ([], w)), dv_moves = (\<lambda>ps w. ([], w))\<rparr>"

theorem demo_never_passes_unchecked_witness:
  "\<exists>d. demo_run sample_demo_env (\<lambda>_. Some (js ''s'')) \<lparr>dm_parts = [], dm_results = [], dm_console = [], dm_world = 0\<rparr>
     = Some (Exited 1, d) \<and> last (dm_console d) = js ''demo aborted: fetch failed''"
proof -
  let ?d = "\<lparr>dm_parts = [], dm_results = [], dm_console = [], dm_world = 0\<rparr>" and ?env = "\<lambda>_. Some (js ''s'')"
  have "steady sample_demo_env" by (simp add: steady_def sample_demo_env_def)
  note run = demo_never_passes_unchecked [OF this, of ?env 0]
  have "\<exists>d1. demo_checks sample_demo_env (demo_config_of ?env) (js ''s'') ?d = Some (Threw (JsError (js ''fetch failed'')), d1)"
    by (simp add: demo_checks_def demo_identities_def setup_participant_def s_then_def s_set_def s_state_def rest_def mint_def
        cli_call_def sample_demo_env_def)
  then have "\<exists>d1 n. demo_run sample_demo_env ?env ?d = Some (Exited n, d1) \<and> last (dm_console d1) = js ''demo aborted: fetch failed''"
    by (auto simp: demo_run_def require_secret_def exit_script_def s_ret_def demo_main_def demo_config_of_def s_try_def s_then_def s_console_def Let_def js_eval)
  then show ?thesis using run by (auto simp: js_eval)
qed

end
