(* ===== verification/Dash_Format.thy ===== *)
theory Dash_Format
  imports Types Complex_Main
begin

text \<open>
  The display helpers of the admin console, \<open>dashboard/web/format.ts\<close>.  Fractional numbers (seconds and
  metric values) are rationals, which every finite double is.  The locale's formats of dates and
  numbers and the parsing of a date (\<open>None\<close> for an invalid one) are arguments.
\<close>

section \<open>Dates\<close>

record locale_formats =
  lf_parse :: "jstr \<Rightarrow> int option"
  lf_dateTime :: "int \<Rightarrow> jstr"
  lf_time :: "int \<Rightarrow> jstr"
  lf_number :: "rat \<Rightarrow> jstr"

definition dash :: jstr where
  "dash = [8212]"

definition formatDateTime :: "locale_formats \<Rightarrow> jstr option \<Rightarrow> jstr" where
  "formatDateTime lf date =
     (case date of
        None \<Rightarrow> dash
      | Some s \<Rightarrow>
          if s = [] then dash else (case lf_parse lf s of None \<Rightarrow> s | Some ms \<Rightarrow> lf_dateTime lf ms))"

definition formatTime :: "locale_formats \<Rightarrow> jstr option \<Rightarrow> jstr" where
  "formatTime lf date =
     (case date of
        None \<Rightarrow> dash
      | Some s \<Rightarrow>
          if s = [] then dash else (case lf_parse lf s of None \<Rightarrow> s | Some ms \<Rightarrow> lf_time lf ms))"

text \<open>The age of a date in whole seconds: \<open>Math.round\<close> of a quotient of integers, halves upwards.\<close>

definition age_seconds :: "int \<Rightarrow> int \<Rightarrow> int" where
  "age_seconds now ms = (now - ms + 500) div 1000"

definition relative_text :: "locale_formats \<Rightarrow> int \<Rightarrow> int \<Rightarrow> jstr" where
  "relative_text lf now ms =
     (let seconds = age_seconds now ms;
          minutes = seconds div 60;
          hours = minutes div 60;
          days = hours div 24
      in if seconds < 5 then js ''just now''
         else if seconds < 60 then show_int seconds @ js ''s ago''
         else if minutes < 60 then show_int minutes @ js ''m ago''
         else if hours < 24 then show_int hours @ js ''h ago''
         else if days < 30 then show_int days @ js ''d ago''
         else lf_dateTime lf ms)"

definition formatRelative :: "locale_formats \<Rightarrow> int \<Rightarrow> jstr option \<Rightarrow> jstr" where
  "formatRelative lf now date =
     (case date of
        None \<Rightarrow> js ''never''
      | Some s \<Rightarrow>
          if s = [] then js ''never'' else (case lf_parse lf s of None \<Rightarrow> s | Some ms \<Rightarrow> relative_text lf now ms))"

section \<open>Numbers\<close>

text \<open>\<open>Math.round\<close>.\<close>

definition js_round :: "rat \<Rightarrow> int" where
  "js_round x = \<lfloor>x + 1 / 2\<rfloor>"

definition formatDuration :: "rat \<Rightarrow> jstr" where
  "formatDuration seconds =
     (let minutes = \<lfloor>seconds / 60\<rfloor>;
          hours = minutes div 60
      in if seconds < 1 then js ''<1s''
         else if seconds < 60 then show_int (js_round seconds) @ js ''s''
         else if minutes < 60 then show_int minutes @ js ''m '' @ show_int (js_round (seconds - 60 * of_int minutes)) @ js ''s''
         else show_int hours @ js ''h '' @ show_int (minutes mod 60) @ js ''m'')"

definition formatNumber :: "locale_formats \<Rightarrow> rat \<Rightarrow> jstr" where
  "formatNumber lf x = lf_number lf x"

text \<open>
  \<open>x.toFixed(2)\<close> below ten to the twenty-first: the integer nearest to a hundred times the value,
  the larger one of two, written with two decimals.
\<close>

definition fixed2_digits :: "rat \<Rightarrow> int" where
  "fixed2_digits x = \<lfloor>100 * \<bar>x\<bar> + 1 / 2\<rfloor>"

definition toFixed2 :: "rat \<Rightarrow> jstr" where
  "toFixed2 x =
     (let n = fixed2_digits x
      in (if x < 0 then js ''-'' else []) @ show_int (n div 100) @ js ''.'' @ pad_start 2 48 (show_int (n mod 100)))"

definition formatMetric :: "locale_formats \<Rightarrow> rat \<Rightarrow> jstr" where
  "formatMetric lf x = (if of_int \<lfloor>x\<rfloor> = x then lf_number lf x else toFixed2 x)"

section \<open>Texts\<close>

definition alnum :: "nat \<Rightarrow> bool" where
  "alnum c \<longleftrightarrow> 97 \<le> c \<and> c \<le> 122 \<or> 65 \<le> c \<and> c \<le> 90 \<or> 48 \<le> c \<and> c \<le> 57"

text \<open>The non-empty pieces of \<open>key.split(/[^a-zA-Z0-9]+/)\<close>: the maximal runs of letters and digits.\<close>

fun pieces :: "jstr \<Rightarrow> jstr \<Rightarrow> jstr list" where
  "pieces w [] = (if w = [] then [] else [w])"
| "pieces w (c # s) =
     (if alnum c then pieces (w @ [c]) s
      else if w = [] then pieces [] s else w # pieces [] s)"

definition upper_ascii :: "nat \<Rightarrow> nat" where
  "upper_ascii c = (if 97 \<le> c \<and> c \<le> 122 then c - 32 else c)"

fun capitalize :: "jstr \<Rightarrow> jstr" where
  "capitalize [] = []"
| "capitalize (c # s) = upper_ascii c # s"

definition humanizeMetricKey :: "jstr \<Rightarrow> jstr" where
  "humanizeMetricKey key = join [32] (map capitalize (pieces [] key))"

text \<open>\<open>slice\<close> to a limit that may be zero or negative, which counts from the end.\<close>

definition slice_to :: "int \<Rightarrow> jstr \<Rightarrow> jstr" where
  "slice_to n s = (if n \<ge> 0 then take (nat n) s else take (nat (int (length s) + n)) s)"

definition truncate_text :: "jstr \<Rightarrow> int \<Rightarrow> jstr" where
  "truncate_text t limit = (if int (length t) > limit then slice_to (limit - 1) t @ [8230] else t)"

section \<open>Bounds\<close>

text \<open>
The text of a table cell is never longer than its limit, and it is the full text exactly when that fits.
\<close>

theorem truncate_text_bound:
  assumes "1 \<le> limit"
  shows "int (length (truncate_text t limit)) \<le> limit \<and>
    (int (length t) \<le> limit \<longleftrightarrow> truncate_text t limit = t)"
proof (cases "int (length t) > limit")
  case True
  then have "int (length (slice_to (limit - 1) t @ [8230])) = limit" using assms by (simp add: slice_to_def)
  moreover from this have "slice_to (limit - 1) t @ [8230] \<noteq> t" using True by (metis less_irrefl)
  ultimately show ?thesis using True by (simp add: truncate_text_def)
qed (simp add: truncate_text_def)

theorem truncate_text_bound_witness:
  "int (length (truncate_text [1, 2, 3] 2)) \<le> 2 \<and> truncate_text [1, 2, 3] 2 = [1, 8230]"
  using truncate_text_bound [of 2 "[1, 2, 3]"] by (simp add: truncate_text_def slice_to_def)

text \<open>A metric is shown with an error of at most half a hundredth.\<close>

lemma fixed2_error: "\<bar>of_int (fixed2_digits x) / 100 - \<bar>x\<bar>\<bar> \<le> 1 / 200"
proof -
  have "of_int (fixed2_digits x) \<le> 100 * \<bar>x\<bar> + 1 / 2" "100 * \<bar>x\<bar> + 1 / 2 < of_int (fixed2_digits x) + 1"
    unfolding fixed2_digits_def by linarith+
  then show ?thesis by (simp add: abs_if field_simps)
qed

text \<open>
A metric that is no integer is displayed as a sign, a whole part and exactly two decimals whose value
differs from the metric by at most half a hundredth.
\<close>

theorem formatMetric_precision:
  assumes "of_int \<lfloor>x\<rfloor> \<noteq> x"
  shows "\<exists>w d. 0 \<le> w \<and> 0 \<le> d \<and> d < 100 \<and>
    formatMetric lf x = (if x < 0 then js ''-'' else []) @ show_int w @ js ''.'' @ pad_start 2 48 (show_int d) \<and>
    length (pad_start 2 48 (show_int d)) = 2 \<and> \<bar>of_int w + of_int d / 100 - \<bar>x\<bar>\<bar> \<le> 1 / 200"
proof -
  let ?n = "fixed2_digits x"
  have n: "0 \<le> ?n" unfolding fixed2_digits_def by simp
  have "of_int ?n / 100 = (of_int (?n div 100) + of_int (?n mod 100) / 100 :: rat)"
  proof -
    have "(of_int ?n :: rat) = of_int (100 * (?n div 100) + ?n mod 100)" by simp
    then show ?thesis unfolding of_int_add of_int_mult by (simp add: field_simps)
  qed
  then have "\<bar>of_int (?n div 100) + of_int (?n mod 100) / 100 - \<bar>x\<bar>\<bar> \<le> 1 / 200"
    using fixed2_error [of x] by (simp only:)
  moreover have "length (show_int d) \<le> 2" if "0 \<le> d" "d < 100" for d
    using radix_digits_length [of 10 "nat d" 1] that by (simp add: show_int_def show_nat_def to_radix_def nat_less_iff numeral_2_eq_2)
  then have "length (pad_start 2 48 (show_int (?n mod 100))) = 2" by (simp add: max_def le_antisym)
  ultimately show ?thesis
    using assms n by (intro exI [of _ "?n div 100"] exI [of _ "?n mod 100"]) (auto simp: formatMetric_def toFixed2_def Let_def)
qed

definition sample_locale :: locale_formats where
  "sample_locale = \<lparr>lf_parse = (\<lambda>s. None), lf_dateTime = (\<lambda>t. []), lf_time = (\<lambda>t. []), lf_number = (\<lambda>x. show_int \<lfloor>x\<rfloor>)\<rparr>"

theorem formatMetric_precision_witness:
  "\<exists>w d. 0 \<le> d \<and> d < 100 \<and> formatMetric sample_locale (1 / 3) = show_int w @ js ''.'' @ pad_start 2 48 (show_int d) \<and>
     \<bar>of_int w + of_int d / 100 - 1 / 3\<bar> \<le> (1 / 200 :: rat)"
proof -
  have "\<lfloor>1 / 3 :: rat\<rfloor> = 0" by (simp add: floor_eq_iff)
  then have "of_int \<lfloor>1 / 3 :: rat\<rfloor> \<noteq> (1 / 3 :: rat)" by simp
  from formatMetric_precision [OF this, of sample_locale] show ?thesis by auto
qed

text \<open>
A duration between one minute and one hour is written as whole minutes and seconds, and the seconds are 60
exactly when the part after the minutes rounds up to a full minute, as for 119.7 seconds.
\<close>

theorem formatDuration_seconds:
  assumes "60 \<le> seconds" "seconds < 3600"
  shows "\<exists>m s. 1 \<le> m \<and> m < 60 \<and> 0 \<le> s \<and> s \<le> 60 \<and>
    formatDuration seconds = show_int m @ js ''m '' @ show_int s @ js ''s'' \<and>
    (s = 60 \<longleftrightarrow> 60 * of_int m + 119 / 2 \<le> seconds)"
proof -
  let ?m = "\<lfloor>seconds / 60\<rfloor>" and ?s = "js_round (seconds - 60 * of_int \<lfloor>seconds / 60\<rfloor>)"
  have m: "1 \<le> ?m" "?m < 60" using assms by (simp_all add: le_floor_iff floor_less_iff)
  have rem: "0 \<le> seconds - 60 * of_int ?m" "seconds - 60 * of_int ?m < 60"
    using of_int_floor_le [of "seconds / 60"] floor_correct [of "seconds / 60"] by (simp_all add: field_simps)
  have s: "0 \<le> ?s" "?s \<le> 60" using rem by (simp_all add: js_round_def floor_le_iff)
  have "?s = 60 \<longleftrightarrow> 60 \<le> ?s" using s(2) by linarith
  also have "\<dots> \<longleftrightarrow> 60 * of_int ?m + 119 / 2 \<le> seconds" by (simp add: js_round_def le_floor_iff) (auto simp: field_simps)
  finally have "?s = 60 \<longleftrightarrow> 60 * of_int ?m + 119 / 2 \<le> seconds" .
  moreover have "formatDuration seconds = show_int ?m @ js ''m '' @ show_int ?s @ js ''s''"
    using assms m by (simp add: formatDuration_def Let_def)
  ultimately show ?thesis using m s by blast
qed

theorem formatDuration_seconds_witness:
  "formatDuration (1197 / 10) = js ''1m 60s''"
proof -
  have "\<lfloor>1197 / 10 / (60 :: rat)\<rfloor> = 1" "\<lfloor>1197 / 10 - 60 + 1 / (2 :: rat)\<rfloor> = 60" by (simp_all add: floor_eq_iff)
  then have "formatDuration (1197 / 10) = show_int 1 @ js ''m '' @ show_int 60 @ js ''s''"
    by (simp add: formatDuration_def js_round_def Let_def)
  then show ?thesis using formatDuration_seconds [of "1197 / 10"] by (simp add: show_eval)
qed

text \<open>The metric names: every piece of the key appears, in order, with its first letter in upper case.\<close>

lemma pieces_alnum: "list_all alnum w \<Longrightarrow> p \<in> set (pieces w s) \<Longrightarrow> p \<noteq> [] \<and> list_all alnum p"
  by (induction w s rule: pieces.induct) (auto split: if_splits)

lemma pieces_concat: "concat (pieces w s) = w @ filter alnum s"
  by (induction w s rule: pieces.induct) auto

end
