(* ===== verification/Dash_Api.thy ===== *)
theory Dash_Api
  imports Dash_Format Adapters
begin

text \<open>
  The data layer of the admin console (\<open>dashboard/web/api.ts\<close>), its sign-in form (\<open>pages/login.tsx\<close>) and
  its root component with the hash router (\<open>app.tsx\<close>).

  The state of the console is a record: \<open>sessionStorage\<close> (modelled like \<open>localStorage\<close>, it can refuse
  access and overflow), the session of \<open>Root\<close>, the location's hash, and the world behind \<open>fetch\<close>.  A
  session is the JSON object the backend sent.  The clock and the parsing of dates are arguments; a
  comparison with an invalid date is false.
\<close>

section \<open>The session\<close>

type_synonym admin_session = json

record clock =
  ck_now :: int
  ck_date :: "json \<Rightarrow> int option"

record 'w dashboard =
  db_world :: 'w
  db_storage :: local_storage
  db_session :: "admin_session option"
  db_hash :: jstr
  db_handler :: bool

definition SESSION_KEY :: jstr where
  "SESSION_KEY = js ''im-admin-session''"

text \<open>\<open>loadSession\<close>: an exception anywhere, too, is no session.\<close>

definition valid_session :: "clock \<Rightarrow> json \<Rightarrow> bool" where
  "valid_session ck session \<longleftrightarrow>
     (case (jget (js ''token'') session, jget (js ''expires_at'') session) of
        (Some token, Some expires) \<Rightarrow>
          truthy token \<and> truthy expires \<and>
          (case ck_date ck expires of Some t \<Rightarrow> \<not> t \<le> ck_now ck | None \<Rightarrow> True)
      | _ \<Rightarrow> False)"

definition loadSession :: "clock \<Rightarrow> local_storage \<Rightarrow> admin_session option" where
  "loadSession ck s =
     (case getLocalStorage s of
        None \<Rightarrow> None
      | Some ls \<Rightarrow>
          (case map_of (ls_items ls) SESSION_KEY of
             None \<Rightarrow> None
           | Some raw \<Rightarrow>
               if raw = [] then None
               else
                 (case parse raw of
                    None \<Rightarrow> None
                  | Some session \<Rightarrow> if valid_session ck session then Some session else None)))"

text \<open>\<open>None\<close> is the exception of the storage.\<close>

definition saveSession :: "admin_session \<Rightarrow> local_storage \<Rightarrow> local_storage option" where
  "saveSession session s = Option.bind (getLocalStorage s) (setItem SESSION_KEY (stringify session))"

definition clearSession :: "local_storage \<Rightarrow> local_storage option" where
  "clearSession s = map_option (\<lambda>ls. ls\<lparr>ls_items := AList.delete SESSION_KEY (ls_items ls)\<rparr>) (getLocalStorage s)"

section \<open>Requests\<close>

record api_error =
  ae_code :: json
  ae_status :: int
  ae_message :: jstr

definition ApiError :: "json \<Rightarrow> int \<Rightarrow> jstr \<Rightarrow> api_error" where
  "ApiError code status message = \<lparr>ae_code = code, ae_status = status, ae_message = message\<rparr>"

record request_init =
  ri_method :: jstr
  ri_headers :: "(jstr \<times> jstr) list"
  ri_body :: "jstr option"

record dash_request =
  dr_url :: jstr
  dr_init :: request_init

type_synonym 'w dash_fetch = "'w \<Rightarrow> dash_request \<Rightarrow> (jstr + (int \<times> jstr)) \<times> 'w"

text \<open>\<open>Headers\<close>: the names do not depend on case.\<close>

definition lower_ascii :: "nat \<Rightarrow> nat" where
  "lower_ascii c = (if 65 \<le> c \<and> c \<le> 90 then c + 32 else c)"

definition header_name :: "jstr \<Rightarrow> jstr" where
  "header_name n = map lower_ascii n"

definition headers_of :: "(jstr \<times> jstr) list \<Rightarrow> (jstr \<times> jstr) list" where
  "headers_of hs = map (\<lambda>(n, v). (header_name n, v)) hs"

definition header_set :: "string \<Rightarrow> jstr \<Rightarrow> (jstr \<times> jstr) list \<Rightarrow> (jstr \<times> jstr) list" where
  "header_set n v hs = AList.update (header_name (js n)) v (AList.clearjunk hs)"

definition bearer :: "admin_session \<Rightarrow> jstr" where
  "bearer session = js ''Bearer '' @ (case jget (js ''token'') session of Some t \<Rightarrow> js_String t | None \<Rightarrow> js ''undefined'')"

definition fetch_headers :: "admin_session option \<Rightarrow> request_init \<Rightarrow> (jstr \<times> jstr) list" where
  "fetch_headers session init =
     (let h = headers_of (ri_headers init);
          h1 = (case session of Some s \<Rightarrow> header_set ''Authorization'' (bearer s) h | None \<Rightarrow> h)
      in if (case ri_body init of Some b \<Rightarrow> b \<noteq> [] | None \<Rightarrow> False) \<and> map_of h1 (header_name (js ''Content-Type'')) = None
         then header_set ''Content-Type'' (js ''application/json'') h1 else h1)"

text \<open>The handler of an unauthenticated answer that \<open>Root\<close> installs.\<close>

definition unauthorized :: "'w dashboard \<Rightarrow> 'w dashboard" where
  "unauthorized d =
     (if db_handler d then
        (case clearSession (db_storage d) of
           Some s \<Rightarrow> d\<lparr>db_storage := s, db_session := None\<rparr>
         | None \<Rightarrow> d)
      else d)"

definition message_or :: "json option \<Rightarrow> jstr \<Rightarrow> jstr" where
  "message_or body fallback =
     (case Option.bind body (jget (js ''message'')) of
        Some m \<Rightarrow> if truthy m then js_String m else fallback
      | None \<Rightarrow> fallback)"

text \<open>What the answer means; the body is \<open>None\<close> when it is not JSON or is \<open>null\<close>.\<close>

definition interpret_answer :: "int \<Rightarrow> json option \<Rightarrow> api_error + json option" where
  "interpret_answer status body =
     (if \<not> (200 \<le> status \<and> status < 300) then
        Inl (ApiError
          (case Option.bind body (jget (js ''code'')) of Some c \<Rightarrow> if c = JNull then JNum status else c | None \<Rightarrow> JNum status)
          status (message_or body (js ''HTTP '' @ show_int status)))
      else
        (case body of
           None \<Rightarrow> Inl (ApiError (JNum (-1)) status (js ''empty response body''))
         | Some b \<Rightarrow>
             if \<not> truthy b then Inl (ApiError (JNum (-1)) status (js ''empty response body''))
             else if jget (js ''code'') b \<noteq> Some (JNum 0) then
               Inl (ApiError (case jget (js ''code'') b of Some c \<Rightarrow> c | None \<Rightarrow> JNull) status (message_or body (js ''request failed'')))
             else Inr (jget (js ''data'') b)))"

definition body_of :: "jstr \<Rightarrow> json option" where
  "body_of raw = (case parse raw of Some b \<Rightarrow> if b = JNull then None else Some b | None \<Rightarrow> None)"

definition apiFetch ::
  "clock \<Rightarrow> 'w dash_fetch \<Rightarrow> jstr \<Rightarrow> jstr \<Rightarrow> request_init \<Rightarrow> 'w dashboard \<Rightarrow> (api_error + json option) \<times> 'w dashboard" where
  "apiFetch ck fetch base path init d =
     (let session = loadSession ck (db_storage d);
          request = \<lparr>dr_url = base @ js ''/admin/api'' @ path, dr_init = init\<lparr>ri_headers := fetch_headers session init\<rparr>\<rparr>
      in case fetch (db_world d) request of
           (Inl m, w) \<Rightarrow> (Inl (ApiError (JNum (-1)) 0 (js ''network error: '' @ m)), d\<lparr>db_world := w\<rparr>)
         | (Inr (status, raw), w) \<Rightarrow>
             let d1 = d\<lparr>db_world := w\<rparr>;
                 d2 = (if status = 401 \<and> session \<noteq> None then unauthorized d1 else d1)
             in (interpret_answer status (body_of raw), d2))"

definition get_init :: request_init where
  "get_init = \<lparr>ri_method = js ''GET'', ri_headers = [], ri_body = None\<rparr>"

definition post_init :: "json \<Rightarrow> request_init" where
  "post_init payload = \<lparr>ri_method = js ''POST'', ri_headers = [], ri_body = Some (stringify payload)\<rparr>"

definition apiPost ::
  "clock \<Rightarrow> 'w dash_fetch \<Rightarrow> jstr \<Rightarrow> jstr \<Rightarrow> json option \<Rightarrow> 'w dashboard \<Rightarrow> (api_error + json option) \<times> 'w dashboard" where
  "apiPost ck fetch base path payload =
     apiFetch ck fetch base path (post_init (case payload of Some p \<Rightarrow> if p = JNull then JObj [] else p | None \<Rightarrow> JObj []))"

section \<open>Signing in\<close>

record login_form =
  lg_username :: jstr
  lg_password :: jstr
  lg_error :: "jstr option"
  lg_submitting :: bool

definition navigate :: "jstr \<Rightarrow> 'w dashboard \<Rightarrow> 'w dashboard" where
  "navigate path d = d\<lparr>db_hash := js ''#'' @ path\<rparr>"

text \<open>\<open>onSignedIn\<close> of \<open>Root\<close>.\<close>

definition signed_in :: "admin_session \<Rightarrow> 'w dashboard \<Rightarrow> 'w dashboard" where
  "signed_in next d = navigate (js ''/overview'') (d\<lparr>db_session := Some next\<rparr>)"

text \<open>\<open>{ ...session, username: session.username || username.trim() }\<close>; the answer's \<open>data\<close> is an object.\<close>

definition full_session :: "jstr \<Rightarrow> json \<Rightarrow> admin_session" where
  "full_session username session =
     (let name = (case jget (js ''username'') session of
                    Some u \<Rightarrow> if truthy u then u else JStr (trim username)
                  | None \<Rightarrow> JStr (trim username))
      in JObj (AList.update (js ''username'') name (case session of JObj kvs \<Rightarrow> kvs | _ \<Rightarrow> [])))"

definition login_body :: "login_form \<Rightarrow> json" where
  "login_body f = JObj [(js ''username'', JStr (trim (lg_username f))), (js ''password'', JStr (lg_password f))]"

text \<open>What follows the answer of the backend, up to the \<open>catch\<close>; \<open>refused\<close> is the message of the storage's exception.\<close>

definition accept_login :: "jstr \<Rightarrow> login_form \<Rightarrow> api_error + json option \<Rightarrow> 'w dashboard \<Rightarrow> jstr option \<times> 'w dashboard" where
  "accept_login refused f r d =
     (case r of
        Inl e \<Rightarrow> (Some (ae_message e), d)
      | Inr None \<Rightarrow> (Some (js ''Cannot read properties of undefined''), d)
      | Inr (Some session) \<Rightarrow>
          if session = JNull then (Some (js ''Cannot read properties of null''), d)
          else
            let full = full_session (lg_username f) session
            in (case saveSession full (db_storage d) of
                  None \<Rightarrow> (Some refused, d)
                | Some s \<Rightarrow> (None, signed_in full (d\<lparr>db_storage := s\<rparr>))))"

definition submit ::
  "clock \<Rightarrow> 'w dash_fetch \<Rightarrow> jstr \<Rightarrow> jstr \<Rightarrow> login_form \<Rightarrow> 'w dashboard \<Rightarrow> login_form \<times> 'w dashboard" where
  "submit ck fetch base refused f d =
     (if lg_submitting f then (f, d)
      else
        (case apiFetch ck fetch base (js ''/login'') (post_init (login_body f)) d of
           (r, d1) \<Rightarrow>
             (case accept_login refused f r d1 of
                (err, d2) \<Rightarrow> (f\<lparr>lg_error := err, lg_submitting := False\<rparr>, d2))))"

section \<open>The root component\<close>

definition current_route :: "jstr \<Rightarrow> jstr" where
  "current_route hash = (if \<not> starts_with hash (js ''#'') \<or> hash = js ''#'' then js ''/overview'' else drop 1 hash)"

datatype page = LoginPage | UsersPage | MessagesPage jstr | ConversationsPage | OverviewPage

text \<open>\<open>route.match(/^\/conversations\/([^/]+)$/)\<close>.\<close>

definition messagesMatch :: "jstr \<Rightarrow> jstr option" where
  "messagesMatch route =
     (if starts_with route (js ''/conversations/'') then
        let r = drop (length (js ''/conversations/'')) route in if r \<noteq> [] \<and> 47 \<notin> set r then Some r else None
      else None)"

definition route_page :: "jstr \<Rightarrow> page" where
  "route_page route =
     (if starts_with route (js ''/users'') then UsersPage
      else
        (case messagesMatch route of
           Some i \<Rightarrow> MessagesPage i
         | None \<Rightarrow> if starts_with route (js ''/conversations'') then ConversationsPage else OverviewPage))"

definition root_page :: "'w dashboard \<Rightarrow> page" where
  "root_page d = (if db_session d = None then LoginPage else route_page (current_route (db_hash d)))"

definition NAV_ITEMS :: "(jstr \<times> jstr) list" where
  "NAV_ITEMS = [(js ''/overview'', js ''Overview''), (js ''/users'', js ''Users''), (js ''/conversations'', js ''Conversations'')]"

definition activeBase :: "jstr \<Rightarrow> jstr" where
  "activeBase route = [47] @ (case split_on 47 route of a # b # r \<Rightarrow> b | _ \<Rightarrow> [])"

definition sign_out :: "'w dashboard \<Rightarrow> 'w dashboard" where
  "sign_out d =
     (case clearSession (db_storage d) of
        Some s \<Rightarrow> navigate (js ''/overview'') (d\<lparr>db_storage := s, db_session := None\<rparr>)
      | None \<Rightarrow> d)"

text \<open>Mounting \<open>Root\<close>: the stored session, and the effect that installs the handler.\<close>

definition mount_root :: "clock \<Rightarrow> 'w dashboard \<Rightarrow> 'w dashboard" where
  "mount_root ck d = d\<lparr>db_session := loadSession ck (db_storage d), db_handler := True\<rparr>"

section \<open>What the session promises\<close>

lemma clearSession_load: "clearSession s = Some s' \<Longrightarrow> loadSession ck s' = None"
  by (auto simp: clearSession_def loadSession_def getLocalStorage_def AList.delete_conv' split: if_splits)

lemma parse_saved:
  assumes "json_ok session" "saveSession session s = Some s'" "stringify session \<noteq> []"
  shows "loadSession ck s' = (if valid_session ck session then Some session else None)"
proof -
  have "\<not> ls_denied s'" "map_of (ls_items s') SESSION_KEY = Some (stringify session)"
    using assms(2) by (auto simp: saveSession_def setItem_def getLocalStorage_def AList.update_conv' Let_def split: if_splits)
  then show ?thesis using assms(3) parse_stringify [OF assms(1)] by (simp add: loadSession_def getLocalStorage_def)
qed

text \<open>
A stored session is read back unchanged by the next page load for as long as it has not expired, and not
at all from the moment it expires.
\<close>

theorem session_survives_reload:
  assumes "json_ok session" "saveSession session (db_storage d) = Some s"
    and "\<exists>kvs. session = JObj kvs" "jget (js ''token'') session = Some (JStr token)" "token \<noteq> []"
    and "jget (js ''expires_at'') session = Some (JStr e)" "e \<noteq> []" "ck_date ck (JStr e) = Some t"
  shows "db_session (mount_root ck (d\<lparr>db_storage := s\<rparr>)) = (if ck_now ck < t then Some session else None)"
proof -
  have "stringify session \<noteq> []" using assms(3) by (auto simp: stringify.simps)
  then show ?thesis using parse_saved [OF assms(1,2)] assms(4-8) by (simp add: mount_root_def valid_session_def)
qed

text \<open>A console with an empty storage, and a session that expires at 100, for the examples.\<close>

definition sample_session :: json where
  "sample_session = JObj [(js ''token'', JStr [116]), (js ''expires_at'', JStr [101])]"

definition sample_clock :: "int \<Rightarrow> clock" where
  "sample_clock t = \<lparr>ck_now = t, ck_date = (\<lambda>v. Some 100)\<rparr>"

definition sample_dashboard :: "unit dashboard" where
  "sample_dashboard = \<lparr>db_world = (), db_storage = sample_local_storage, db_session = None, db_hash = [], db_handler = True\<rparr>"

definition signed_in_storage :: local_storage where
  "signed_in_storage = sample_local_storage\<lparr>ls_items := [(SESSION_KEY, stringify sample_session)]\<rparr>"

lemma sample_session_fields:
  "json_ok sample_session" "\<exists>kvs. sample_session = JObj kvs" "jget (js ''token'') sample_session = Some (JStr [116])"
  "jget (js ''expires_at'') sample_session = Some (JStr [101])"
  by (simp_all add: sample_session_def)

lemma save_sample_session: "saveSession sample_session (db_storage sample_dashboard) = Some signed_in_storage"
proof -
  have "length (stringify sample_session) \<le> 1000"
    by (simp add: sample_session_def stringify.simps quote_string_def escape_unit_def high_surrogate_def low_surrogate_def js_eval)
  then show ?thesis
    by (simp add: saveSession_def sample_dashboard_def sample_local_storage_def getLocalStorage_def setItem_def
        items_size_def signed_in_storage_def SESSION_KEY_def)
qed

theorem session_survives_reload_witness:
  "db_session (mount_root (sample_clock 99) (sample_dashboard\<lparr>db_storage := signed_in_storage\<rparr>)) = Some sample_session \<and>
   db_session (mount_root (sample_clock 100) (sample_dashboard\<lparr>db_storage := signed_in_storage\<rparr>)) = None"
  using session_survives_reload [OF sample_session_fields(1) save_sample_session sample_session_fields(2,3) _
      sample_session_fields(4), of "sample_clock 99" 100]
    session_survives_reload [OF sample_session_fields(1) save_sample_session sample_session_fields(2,3) _
      sample_session_fields(4), of "sample_clock 100" 100]
  by (simp add: sample_clock_def)

text \<open>
An answer that rejects the credential of a signed-in administrator signs the console out: the stored
session is gone, the sign-in page takes over, and later requests carry no credential; the caller
gets an error with status 401.
\<close>

theorem unauthorized_signs_out:
  assumes "fetch (db_world d) \<lparr>dr_url = base @ js ''/admin/api'' @ path,
        dr_init = init\<lparr>ri_headers := fetch_headers (loadSession ck (db_storage d)) init\<rparr>\<rparr> = (Inr (401, raw), w)"
    and "loadSession ck (db_storage d) \<noteq> None" "db_handler d"
    and "apiFetch ck fetch base path init d = (r, d')"
  shows "root_page d' = LoginPage \<and> loadSession ck' (db_storage d') = None \<and>
    (\<exists>e. r = Inl e \<and> ae_status e = 401)"
proof -
  have "\<not> ls_denied (db_storage d)" using assms(2) by (auto simp: loadSession_def getLocalStorage_def split: if_splits)
  then obtain s where s: "clearSession (db_storage d) = Some s" by (auto simp: clearSession_def getLocalStorage_def)
  then have "d' = d\<lparr>db_world := w, db_storage := s, db_session := None\<rparr>" "r = interpret_answer 401 (body_of raw)"
    using assms by (auto simp: apiFetch_def unauthorized_def Let_def)
  then show ?thesis using clearSession_load [OF s] by (simp add: root_page_def interpret_answer_def ApiError_def)
qed

theorem unauthorized_signs_out_witness:
  "root_page (snd (apiFetch (sample_clock 1) (\<lambda>w rq. (Inr (401, []), w)) [] [] get_init
     (sample_dashboard\<lparr>db_storage := signed_in_storage, db_session := Some sample_session\<rparr>))) = LoginPage"
proof -
  let ?d = "sample_dashboard\<lparr>db_storage := signed_in_storage, db_session := Some sample_session\<rparr>"
  have "stringify sample_session \<noteq> []" by (simp add: sample_session_def stringify.simps)
  then have load: "loadSession (sample_clock 1) (db_storage ?d) \<noteq> None"
    using parse_saved [OF sample_session_fields(1) save_sample_session] sample_session_fields(3,4)
    by (simp add: valid_session_def sample_clock_def)
  show ?thesis
    using unauthorized_signs_out [where fetch = "\<lambda>w rq. (Inr (401, []), w)" and d = ?d, OF refl load _ prod.collapse [symmetric]]
    by (simp add: sample_dashboard_def)
qed

text \<open>
A request of the console resolves exactly when a 2xx answer carries a JSON envelope with code 0, with the
envelope's data; every error says its HTTP status, and a failed \<open>fetch\<close> has status 0.
\<close>

theorem apiFetch_outcome:
  assumes "fetch (db_world d) \<lparr>dr_url = base @ js ''/admin/api'' @ path,
        dr_init = init\<lparr>ri_headers := fetch_headers (loadSession ck (db_storage d)) init\<rparr>\<rparr> = (answer, w)"
    and "apiFetch ck fetch base path init d = (r, d')"
  shows "case answer of
      Inl m \<Rightarrow> \<exists>e. r = Inl e \<and> ae_status e = 0 \<and> db_session d' = db_session d
    | Inr (status, raw) \<Rightarrow>
        (if 200 \<le> status \<and> status < 300 \<and> (\<exists>b. parse raw = Some b \<and> truthy b \<and> jget (js ''code'') b = Some (JNum 0))
         then \<exists>b. parse raw = Some b \<and> r = Inr (jget (js ''data'') b)
         else \<exists>e. r = Inl e \<and> ae_status e = status)"
proof (cases answer)
  case (Inr a)
  obtain status raw where a: "a = (status, raw)" by (cases a)
  then have "r = interpret_answer status (body_of raw)" using assms Inr by (auto simp: apiFetch_def Let_def)
  moreover have "\<not> truthy b \<Longrightarrow> jget (js ''code'') b = None" for b by (cases b) simp_all
  ultimately show ?thesis unfolding Inr a
    by (auto simp: interpret_answer_def body_of_def ApiError_def split: option.split)
qed (use assms in \<open>auto simp: apiFetch_def ApiError_def Let_def\<close>)

theorem apiFetch_outcome_witness:
  "\<exists>e. fst (apiFetch (sample_clock 1) (\<lambda>w rq. (Inr (502, js ''oops''), w)) [] [] get_init sample_dashboard) = Inl e \<and> ae_status e = 502"
  using apiFetch_outcome [where fetch = "\<lambda>w rq. (Inr (502, js ''oops''), w)" and d = sample_dashboard,
      OF refl prod.collapse [symmetric]] by simp

text \<open>Signing in ends with the session stored, unless an error is shown; the form can be sent again.\<close>

lemma submit_outcome:
  assumes "submit ck fetch base refused f d = (f', d')" "\<not> lg_submitting f"
  shows "\<not> lg_submitting f' \<and>
    (lg_error f' = None \<longrightarrow> db_hash d' = js ''#/overview'' \<and>
       (\<exists>session s. db_session d' = Some session \<and> saveSession session s = Some (db_storage d')))"
  using assms
  by (auto simp: submit_def accept_login_def signed_in_def navigate_def js_eval Let_def split: prod.splits sum.splits option.splits if_splits)

text \<open>
  Each link of the navigation opens its own page and is the only one highlighted there; a row of the
  conversation table opens the messages of that conversation.
\<close>

lemma nav_links:
  "map (\<lambda>(p, l). (route_page (current_route (js ''#'' @ p)), filter (\<lambda>(q, m). activeBase p = q) NAV_ITEMS)) NAV_ITEMS =
     zip [OverviewPage, UsersPage, ConversationsPage] (map (\<lambda>i. [i]) NAV_ITEMS)"
  by (simp add: NAV_ITEMS_def current_route_def route_page_def messagesMatch_def activeBase_def starts_with_def js_eval)

lemma conversation_link:
  "i \<noteq> [] \<Longrightarrow> 47 \<notin> set i \<Longrightarrow> route_page (current_route (js ''#/conversations/'' @ i)) = MessagesPage i"
  by (simp add: current_route_def route_page_def messagesMatch_def starts_with_def js_eval)

end
