(* ===== verification/Dash_Ui.thy ===== *)
theory Dash_Ui
  imports Dash_Api
begin

text \<open>
  The component library of the admin console, \<open>dashboard/web/ui\<close>.  A component is a function from its
  properties and its state to a tree of elements (\<open>html\<close>); a handler in an attribute is the event it
  dispatches.  \<open>c && x\<close> in a child position is \<open>when c x\<close>.  State changes are functions on the component's
  state.  The table library is the argument \<open>table\<close> of \<open>DataTable\<close>.
\<close>

section \<open>Elements\<close>

datatype 'e attr = AText jstr | AFlag bool | ANum int | AOn 'e

datatype 'e html = Elem string "(string \<times> 'e attr) list" "'e html list" | Txt jstr

definition "when" :: "bool \<Rightarrow> 'a \<Rightarrow> 'a list" where
  "when c x = (if c then [x] else [])"

definition opt_attr :: "string \<Rightarrow> 'e attr option \<Rightarrow> (string \<times> 'e attr) list" where
  "opt_attr n v = (case v of Some x \<Rightarrow> [(n, x)] | None \<Rightarrow> [])"

text \<open>The elements of a tree.\<close>

fun elements_of :: "'e html \<Rightarrow> 'e html list" where
  "elements_of (Elem t as cs) = Elem t as cs # concat (map elements_of cs)"
| "elements_of (Txt s) = []"

fun attr_of :: "string \<Rightarrow> 'e html \<Rightarrow> 'e attr option" where
  "attr_of n (Elem t as cs) = map_of as n"
| "attr_of n (Txt s) = None"

text \<open>The events that a user can trigger by a click: those of elements that are not disabled.\<close>

definition own_click :: "'e html \<Rightarrow> 'e list" where
  "own_click h =
     (case attr_of ''onClick'' h of
        Some (AOn e) \<Rightarrow> if attr_of ''disabled'' h = Some (AFlag True) then [] else [e]
      | _ \<Rightarrow> [])"

definition clicks :: "'e html \<Rightarrow> 'e list" where
  "clicks h = concat (map own_click (elements_of h))"

fun children_of :: "'e html \<Rightarrow> 'e html list" where
  "children_of (Elem t as cs) = cs"
| "children_of (Txt s) = []"

definition cx :: "jstr option list \<Rightarrow> jstr" where
  "cx parts = join [32] (filter (\<lambda>p. p \<noteq> []) (List.map_filter id parts))"

definition class_attr :: "jstr option list \<Rightarrow> string \<times> 'e attr" where
  "class_attr parts = (''class'', AText (cx parts))"

definition text_attr :: "string \<Rightarrow> string \<Rightarrow> string \<times> 'e attr" where
  "text_attr n v = (n, AText (js v))"

definition if_class :: "bool \<Rightarrow> string \<Rightarrow> jstr option" where
  "if_class c s = (if c then Some (js s) else None)"

section \<open>Spinner, button, empty state, field\<close>

definition Spinner :: "jstr option \<Rightarrow> 'e html" where
  "Spinner cls = Elem ''div'' [class_attr [Some (js ''aw-spinner''), cls], text_attr ''aria-hidden'' ''true''] []"

datatype button_variant = Primary | Secondary | Danger | Ghost

fun variant_text :: "button_variant \<Rightarrow> jstr" where
  "variant_text Primary = js ''primary''"
| "variant_text Secondary = js ''secondary''"
| "variant_text Danger = js ''danger''"
| "variant_text Ghost = js ''ghost''"

record 'e button_props =
  bp_variant :: "button_variant option"
  bp_small :: bool
  bp_type :: "jstr option"
  bp_loading :: bool
  bp_disabled :: bool
  bp_class :: "jstr option"
  bp_onClick :: "'e option"

definition Button :: "'e button_props \<Rightarrow> 'e html list \<Rightarrow> 'e html" where
  "Button p children =
     Elem ''button''
       ([(''type'', AText (case bp_type p of Some t \<Rightarrow> t | None \<Rightarrow> js ''button'')),
         class_attr [Some (js ''aw-button''),
           Some (js ''aw-button-'' @ variant_text (case bp_variant p of Some v \<Rightarrow> v | None \<Rightarrow> Secondary)),
           if_class (bp_small p) ''aw-button-sm'', bp_class p],
         (''disabled'', AFlag (bp_disabled p \<or> bp_loading p))] @
        opt_attr ''onClick'' (map_option AOn (bp_onClick p)))
       (when (bp_loading p) (Spinner None) @ children)"

definition plain_button :: "'e \<Rightarrow> 'e button_props" where
  "plain_button e = \<lparr>bp_variant = None, bp_small = False, bp_type = None, bp_loading = False, bp_disabled = False,
     bp_class = None, bp_onClick = Some e\<rparr>"

definition EmptyState :: "'e html list \<Rightarrow> 'e html list \<Rightarrow> 'e html list \<Rightarrow> 'e html list \<Rightarrow> 'e html" where
  "EmptyState icon title description action =
     Elem ''div'' [class_attr [Some (js ''aw-empty'')]]
       (when (icon \<noteq> []) (Elem ''div'' [class_attr [Some (js ''aw-empty-icon'')], text_attr ''aria-hidden'' ''true''] icon) @
        [Elem ''div'' [class_attr [Some (js ''aw-empty-title'')]] title] @
        when (description \<noteq> []) (Elem ''div'' [] description) @
        when (action \<noteq> []) (Elem ''div'' [] action))"

record 'e field_props =
  fp_label :: "'e html list"
  fp_htmlFor :: "jstr option"
  fp_error :: "'e html list"
  fp_hint :: "'e html list"
  fp_required :: bool
  fp_class :: "jstr option"

definition Field :: "jstr \<Rightarrow> 'e field_props \<Rightarrow> (jstr \<Rightarrow> 'e html list) \<Rightarrow> 'e html" where
  "Field autoId p children =
     (let i = (case fp_htmlFor p of Some h \<Rightarrow> h | None \<Rightarrow> js ''aw-field-'' @ autoId)
      in Elem ''div'' [class_attr [Some (js ''aw-field''), fp_class p]]
        (when (fp_label p \<noteq> [])
           (Elem ''label'' [class_attr [Some (js ''aw-field-label'')], (''htmlFor'', AText i)]
              (fp_label p @ when (fp_required p) (Elem ''span'' [text_attr ''aria-hidden'' ''true''] [Txt (js '' *'')]))) @
         children i @
         (if fp_error p \<noteq> [] then [Elem ''p'' [class_attr [Some (js ''aw-field-error'')], text_attr ''role'' ''alert''] (fp_error p)]
          else when (fp_hint p \<noteq> []) (Elem ''p'' [class_attr [Some (js ''aw-field-hint'')]] (fp_hint p)))))"

text \<open>\<open>Input\<close>, \<open>Textarea\<close> and \<open>Select\<close> differ in their tag; later attributes win, as in a spread.\<close>

definition control :: "string \<Rightarrow> string \<Rightarrow> bool \<Rightarrow> jstr option \<Rightarrow> (string \<times> 'e attr) list \<Rightarrow> 'e html list \<Rightarrow> 'e html" where
  "control t base invalid cls rest children =
     Elem t (foldl (\<lambda>as (n, v). AList.update n v as)
       (class_attr [Some (js base), if_class invalid (base @ ''-invalid''), cls] #
        (if invalid then [text_attr ''aria-invalid'' ''true''] else [])) rest) children"

definition Input :: "bool \<Rightarrow> jstr option \<Rightarrow> (string \<times> 'e attr) list \<Rightarrow> 'e html" where
  "Input invalid cls rest = control ''input'' ''aw-input'' invalid cls rest []"

definition Textarea :: "bool \<Rightarrow> jstr option \<Rightarrow> (string \<times> 'e attr) list \<Rightarrow> 'e html" where
  "Textarea invalid cls rest = control ''textarea'' ''aw-textarea'' invalid cls rest []"

definition Select :: "bool \<Rightarrow> jstr option \<Rightarrow> (string \<times> 'e attr) list \<Rightarrow> 'e html list \<Rightarrow> 'e html" where
  "Select invalid cls rest children = control ''select'' ''aw-select'' invalid cls rest children"

definition check_control :: "string \<Rightarrow> (string \<times> 'e attr) list \<Rightarrow> 'e html list \<Rightarrow> 'e html" where
  "check_control t rest lbl =
     Elem ''label'' [class_attr [Some (js ''aw-check'')]]
       (Elem ''input'' (foldl (\<lambda>as (n, v). AList.update n v as) [text_attr ''type'' t] rest) [] # lbl)"

definition Checkbox :: "(string \<times> 'e attr) list \<Rightarrow> 'e html list \<Rightarrow> 'e html" where
  "Checkbox = check_control ''checkbox''"

definition Radio :: "(string \<times> 'e attr) list \<Rightarrow> 'e html list \<Rightarrow> 'e html" where
  "Radio = check_control ''radio''"

section \<open>Pagination\<close>

definition Pagination :: "int \<Rightarrow> int \<Rightarrow> (int \<Rightarrow> 'e) \<Rightarrow> 'e html list" where
  "Pagination page pageCount onPageChange =
     (if pageCount \<le> 1 then []
      else [Elem ''nav'' [class_attr [Some (js ''aw-pagination'')], text_attr ''aria-label'' ''pagination'']
        [Elem ''button''
           [text_attr ''type'' ''button'', class_attr [Some (js ''aw-button aw-button-secondary aw-button-sm'')],
            (''disabled'', AFlag (page \<le> 1)), (''onClick'', AOn (onPageChange (page - 1)))]
           [Txt ([8592] @ js '' Prev'')],
         Elem ''span'' [] [Txt (js ''Page '' @ show_int page @ js '' / '' @ show_int pageCount)],
         Elem ''button''
           [text_attr ''type'' ''button'', class_attr [Some (js ''aw-button aw-button-secondary aw-button-sm'')],
            (''disabled'', AFlag (pageCount \<le> page)), (''onClick'', AOn (onPageChange (page + 1)))]
           [Txt (js ''Next '' @ [8594])]]])"

section \<open>Modal\<close>

record 'e modal_props =
  mp_open :: bool
  mp_onClose :: 'e
  mp_title :: "'e html list"
  mp_label :: "jstr option"
  mp_footer :: "'e html list"

text \<open>\<open>mp_label\<close> is the title when it is a string.  The overlay closes on a press outside the panel.\<close>

definition Modal :: "'e modal_props \<Rightarrow> 'e html list \<Rightarrow> 'e html list" where
  "Modal p children =
     (if \<not> mp_open p then []
      else [Elem ''div'' [class_attr [Some (js ''aw-modal-overlay'')], (''onMouseDown'', AOn (mp_onClose p))]
        [Elem ''div''
           [class_attr [Some (js ''aw-modal'')], text_attr ''role'' ''dialog'', text_attr ''aria-modal'' ''true'',
            (''aria-label'', AText (case mp_label p of Some t \<Rightarrow> t | None \<Rightarrow> js ''dialog'')), (''tabindex'', ANum (-1))]
           (when (mp_title p \<noteq> [])
              (Elem ''div'' [class_attr [Some (js ''aw-modal-header'')]]
                 [Elem ''div'' [class_attr [Some (js ''aw-modal-title'')]] (mp_title p),
                  Elem ''button'' [text_attr ''type'' ''button'', class_attr [Some (js ''aw-modal-close'')],
                    text_attr ''aria-label'' ''close'', (''onClick'', AOn (mp_onClose p))] [Txt [215]]]) @
            [Elem ''div'' [class_attr [Some (js ''aw-modal-body'')]] children] @
            when (mp_footer p \<noteq> []) (Elem ''div'' [class_attr [Some (js ''aw-modal-footer'')]] (mp_footer p)))]])"

text \<open>
  The key handler of an open dialog.  Elements are numbers; \<open>focusables\<close> are those of the panel in
  document order.  \<open>KeyNone\<close> leaves the key to the browser.
\<close>

datatype key_result = KeyClose | KeyFocus nat | KeyNone

definition modal_key :: "nat option \<Rightarrow> nat list \<Rightarrow> nat \<Rightarrow> jstr \<Rightarrow> bool \<Rightarrow> key_result" where
  "modal_key panel focusables active k shift =
     (if k = js ''Escape'' then KeyClose
      else if k \<noteq> js ''Tab'' \<or> panel = None then KeyNone
      else if focusables = [] then KeyNone
      else if shift \<and> (active = hd focusables \<or> Some active = panel) then KeyFocus (last focusables)
      else if \<not> shift \<and> active = last focusables then KeyFocus (hd focusables)
      else KeyNone)"

text \<open>What the effect focuses when the dialog opens.\<close>

definition modal_first_focus :: "nat option \<Rightarrow> nat list \<Rightarrow> nat option" where
  "modal_first_focus panel focusables = (case focusables of f # fs \<Rightarrow> Some f | [] \<Rightarrow> panel)"

section \<open>Tabs\<close>

record 'e tab_item =
  ti_id :: jstr
  ti_label :: "'e html list"
  ti_content :: "'e html list"

definition tabs_start :: "'e tab_item list \<Rightarrow> jstr option" where
  "tabs_start items = (case items of i # is \<Rightarrow> Some (ti_id i) | [] \<Rightarrow> None)"

text \<open>\<open>findIndex\<close>, minus one when there is none.\<close>

definition find_index :: "('a \<Rightarrow> bool) \<Rightarrow> 'a list \<Rightarrow> int" where
  "find_index P xs = (let n = length (takeWhile (\<lambda>x. \<not> P x) xs) in if n < length xs then int n else -1)"

text \<open>\<open>move\<close>; \<open>None\<close> is the exception when there are no items.\<close>

definition tabs_move :: "'e tab_item list \<Rightarrow> int \<Rightarrow> jstr option \<Rightarrow> jstr option" where
  "tabs_move items dir active =
     (if items = [] then None
      else
        let idx = find_index (\<lambda>i. Some (ti_id i) = active) items;
            nxt = (idx + dir + int (length items)) mod int (length items)
        in Some (ti_id (items ! nat nxt)))"

datatype tab_event = SelectTab jstr | MoveTab int

definition Tabs :: "(tab_event \<Rightarrow> 'e) \<Rightarrow> 'e tab_item list \<Rightarrow> jstr option \<Rightarrow> 'e html" where
  "Tabs ev items active =
     Elem ''div'' [class_attr [Some (js ''aw-tabs'')]]
       (Elem ''div'' [class_attr [Some (js ''aw-tabs-list'')], text_attr ''role'' ''tablist'',
           (''onArrowRight'', AOn (ev (MoveTab 1))), (''onArrowLeft'', AOn (ev (MoveTab (-1))))]
          (map (\<lambda>i. let on = (Some (ti_id i) = active) in
             Elem ''button''
               [(''id'', AText (js ''aw-tab-'' @ ti_id i)), text_attr ''type'' ''button'', text_attr ''role'' ''tab'',
                (''aria-selected'', AFlag on), (''aria-controls'', AText (js ''aw-tabpanel-'' @ ti_id i)),
                (''tabindex'', ANum (if on then 0 else -1)),
                class_attr [Some (js ''aw-tab''), if_class on ''aw-tab-active''], (''onClick'', AOn (ev (SelectTab (ti_id i))))]
               (ti_label i)) items) #
        map (\<lambda>i. Elem ''div''
             [(''id'', AText (js ''aw-tabpanel-'' @ ti_id i)), text_attr ''role'' ''tabpanel'',
              (''aria-labelledby'', AText (js ''aw-tab-'' @ ti_id i)), (''hidden'', AFlag (Some (ti_id i) \<noteq> active)),
              class_attr [Some (js ''aw-tab-panel'')]]
             (ti_content i)) items)"

section \<open>Toasts\<close>

datatype toast_kind = Info | Success | Error

record toast_item =
  to_id :: int
  to_kind :: toast_kind
  to_message :: jstr

text \<open>The module's counter, the items of the provider, and the running timers with their toast.\<close>

record toasts =
  nextToastId :: int
  to_items :: "toast_item list"
  to_timers :: "int list"

definition no_toasts :: toasts where
  "no_toasts = \<lparr>nextToastId = 1, to_items = [], to_timers = []\<rparr>"

definition dismiss :: "int \<Rightarrow> toasts \<Rightarrow> toasts" where
  "dismiss i t = t\<lparr>to_items := filter (\<lambda>x. to_id x \<noteq> i) (to_items t)\<rparr>"

definition show_toast :: "jstr \<Rightarrow> toast_kind \<Rightarrow> toasts \<Rightarrow> toasts" where
  "show_toast message kind t =
     t\<lparr>nextToastId := nextToastId t + 1,
       to_items := to_items t @ [\<lparr>to_id = nextToastId t, to_kind = kind, to_message = message\<rparr>],
       to_timers := to_timers t @ [nextToastId t]\<rparr>"

definition toast_timer :: "int \<Rightarrow> toasts \<Rightarrow> toasts" where
  "toast_timer i t = dismiss i (t\<lparr>to_timers := set_delete i (to_timers t)\<rparr>)"

fun kind_text :: "toast_kind \<Rightarrow> jstr" where
  "kind_text Info = js ''info''"
| "kind_text Success = js ''success''"
| "kind_text Error = js ''error''"

definition toast_view :: "toasts \<Rightarrow> int html" where
  "toast_view t =
     Elem ''div'' [class_attr [Some (js ''aw-toast-container'')], text_attr ''aria-live'' ''polite'']
       (map (\<lambda>x. Elem ''div'' [(''class'', AText (js ''aw-toast aw-toast-'' @ kind_text (to_kind x))), text_attr ''role'' ''status'']
           [Elem ''span'' [] [Txt (to_message x)],
            Elem ''button'' [text_attr ''type'' ''button'', class_attr [Some (js ''aw-toast-close'')],
              text_attr ''aria-label'' ''dismiss'', (''onClick'', AOn (to_id x))] [Txt [215]]]) (to_items t))"

datatype toast_label = ShowToast jstr toast_kind | Dismiss int | ToastTimer int

inductive toast_step :: "toast_label \<Rightarrow> toasts \<Rightarrow> toasts \<Rightarrow> bool" where
  toast_show: "toast_step (ShowToast m k) t (show_toast m k t)"
| toast_dismiss: "toast_step (Dismiss i) t (dismiss i t)"
| toast_timer: "i \<in> set (to_timers t) \<Longrightarrow> toast_step (ToastTimer i) t (toast_timer i t)"

section \<open>DataTable\<close>

text \<open>
  What the table library offers for a state of the table: header cells, rows of the current page with
  the record they show, the number of pages and the index of the current one.
\<close>

datatype sort_dir = Unsorted | Ascending | Descending

record 'e header_cell =
  hc_sortable :: bool
  hc_sorted :: sort_dir
  hc_header :: "'e html list"
  hc_toggle :: 'e

record ('a, 'e) table_row =
  tr_original :: 'a
  tr_cells :: "'e html list list"

record ('a, 'e) table_model =
  tm_headers :: "'e header_cell list list"
  tm_rows :: "('a, 'e) table_row list"
  tm_pageCount :: int
  tm_pageIndex :: int
  tm_setPageIndex :: "int \<Rightarrow> 'e"

record ('a, 'e) table_props =
  tp_pageSize :: "int option"
  tp_loading :: bool
  tp_onRowClick :: "('a \<Rightarrow> 'e) option"
  tp_empty :: "('e html list \<times> 'e html list) option"

definition has_pages :: "('a, 'e) table_props \<Rightarrow> bool" where
  "has_pages p \<longleftrightarrow> (case tp_pageSize p of Some n \<Rightarrow> n \<noteq> 0 | None \<Rightarrow> False)"

definition header_view :: "'e header_cell \<Rightarrow> 'e html" where
  "header_view h =
     Elem ''th''
       ([class_attr [if_class (hc_sortable h) ''aw-sortable'']] @
        opt_attr ''onClick'' (if hc_sortable h then Some (AOn (hc_toggle h)) else None) @
        opt_attr ''aria-sort'' (case hc_sorted h of
            Ascending \<Rightarrow> Some (AText (js ''ascending'')) | Descending \<Rightarrow> Some (AText (js ''descending'')) | Unsorted \<Rightarrow> None))
       (hc_header h @ [Txt (case hc_sorted h of Ascending \<Rightarrow> [32, 9650] | Descending \<Rightarrow> [32, 9660] | Unsorted \<Rightarrow> [])])"

definition row_view :: "('a \<Rightarrow> 'e) option \<Rightarrow> ('a, 'e) table_row \<Rightarrow> 'e html" where
  "row_view onRowClick r =
     Elem ''tr'' (opt_attr ''onClick'' (map_option (\<lambda>f. AOn (f (tr_original r))) onRowClick))
       (map (\<lambda>c. Elem ''td'' [] c) (tr_cells r))"

definition DataTable :: "('a, 'e) table_props \<Rightarrow> ('a, 'e) table_model \<Rightarrow> 'e html" where
  "DataTable p table =
     (let pageCount = (if has_pages p then tm_pageCount table else 1);
          pageIndex = (if has_pages p then tm_pageIndex table else 0)
      in Elem ''div'' []
        (Elem ''div'' [class_attr [Some (js ''aw-table-wrap'')]]
           (Elem ''table'' [class_attr [Some (js ''aw-table'')]]
              [Elem ''thead'' [] (map (\<lambda>hg. Elem ''tr'' [] (map header_view hg)) (tm_headers table)),
               Elem ''tbody'' [] (map (row_view (tp_onRowClick p)) (tm_rows table))] #
            when (\<not> tp_loading p \<and> tm_rows table = [])
              (EmptyState [Txt [9678]]
                 (case tp_empty p of Some (t, d) \<Rightarrow> t | None \<Rightarrow> [Txt (js ''Nothing here yet'')])
                 (case tp_empty p of Some (t, d) \<Rightarrow> d | None \<Rightarrow> []) []) @
            when (tp_loading p)
              (Elem ''div'' [class_attr [Some (js ''aw-table-loading'')]]
                 [Elem ''div'' [class_attr [Some (js ''aw-spinner'')], text_attr ''aria-label'' ''loading''] []])) #
         (if has_pages p \<and> pageCount > 1 then Pagination (pageIndex + 1) pageCount (\<lambda>q. tm_setPageIndex table (q - 1)) else [])))"

text \<open>Row selection: the next selection is reported and kept.\<close>

datatype 's updater = UpdateBy "'s \<Rightarrow> 's" | UpdateTo 's

fun row_selection_change :: "'s updater \<Rightarrow> 's \<Rightarrow> 's list \<Rightarrow> 's \<times> 's list" where
  "row_selection_change (UpdateBy f) prev reported = (f prev, reported @ [f prev])"
| "row_selection_change (UpdateTo v) prev reported = (v, reported @ [v])"

definition select_header :: "bool \<Rightarrow> 'e \<Rightarrow> 'e html" where
  "select_header all toggle =
     Elem ''input'' [text_attr ''type'' ''checkbox'', text_attr ''aria-label'' ''select all rows'',
       (''checked'', AFlag all), (''onChange'', AOn toggle)] []"

definition select_cell :: "bool \<Rightarrow> 'e \<Rightarrow> 'e html" where
  "select_cell on toggle =
     Elem ''input'' [text_attr ''type'' ''checkbox'', text_attr ''aria-label'' ''select row'',
       (''checked'', AFlag on), (''onChange'', AOn toggle)] []"

section \<open>What the components promise\<close>

lemma clicks_Elem: "clicks (Elem t as cs) = own_click (Elem t as cs) @ concat (map clicks cs)"
proof -
  have "concat (map own_click (concat (map elements_of cs))) = concat (map clicks cs)"
    unfolding clicks_def by (induction cs) simp_all
  then show ?thesis by (simp add: clicks_def [of "Elem t as cs"])
qed

lemma clicks_Txt [simp]: "clicks (Txt s) = []"
  by (simp add: clicks_def)

lemmas view_simps = clicks_Elem own_click_def class_attr_def text_attr_def when_def

text \<open>
A user can only turn to pages that exist: the buttons that can be clicked lead to the page before, if the
table is not on its first page, and to the page after, if it is not on its last.
\<close>

theorem pagination_clicks:
  assumes "1 \<le> page" "page \<le> pageCount"
  shows "concat (map clicks (Pagination page pageCount f)) =
    (if 1 < page then [f (page - 1)] else []) @ (if page < pageCount then [f (page + 1)] else [])"
  using assms by (auto simp: Pagination_def view_simps)

theorem pagination_clicks_witness:
  "concat (map clicks (Pagination 3 3 (\<lambda>p. p))) = [2]"
  using pagination_clicks [of 3 3 "\<lambda>p. p"] by simp

text \<open>The browser's own move of the focus: the neighbour in document order.\<close>

definition browser_tab :: "nat list \<Rightarrow> nat \<Rightarrow> bool \<Rightarrow> nat option" where
  "browser_tab focusables active shift =
     (let i = find_index (\<lambda>x. x = active) focusables; j = (if shift then i - 1 else i + 1)
      in if 0 \<le> j \<and> j < int (length focusables) then Some (focusables ! nat j) else None)"

definition focus_after_tab :: "nat option \<Rightarrow> nat list \<Rightarrow> nat \<Rightarrow> bool \<Rightarrow> nat option" where
  "focus_after_tab panel focusables active shift =
     (case modal_key panel focusables active (js ''Tab'') shift of
        KeyFocus x \<Rightarrow> Some x
      | KeyNone \<Rightarrow> browser_tab focusables active shift
      | KeyClose \<Rightarrow> None)"

lemma find_index_key:
  assumes "distinct (map f xs)" "k < length xs"
  shows "find_index (\<lambda>x. Some (f x) = Some (f (xs ! k))) xs = int k"
proof -
  have "f (xs ! j) \<noteq> f (xs ! k)" if "j < k" for j
    using nth_eq_iff_index_eq [OF assms(1), of j k] assms(2) that by simp
  then have "takeWhile (\<lambda>x. \<not> Some (f x) = Some (f (xs ! k))) xs = take k xs"
    using assms(2) by (intro takeWhile_eq_take_P_nth) auto
  then show ?thesis using assms(2) by (simp add: find_index_def)
qed

text \<open>
While a dialog is open, the Tab key keeps the focus among the controls of the dialog: from each of them it
moves to the next one, with Shift to the previous one, around both ends.
\<close>

theorem modal_traps_focus:
  assumes "distinct focusables" "k < length focusables" "p \<notin> set focusables"
  shows "focus_after_tab (Some p) focusables (focusables ! k) shift =
    Some (focusables ! ((if shift then k + length focusables - 1 else Suc k) mod length focusables))"
proof -
  let ?n = "length focusables"
  have index: "find_index (\<lambda>x. x = focusables ! k) focusables = int k"
    using find_index_key [of "\<lambda>x. x" focusables k] assms(1,2) by simp
  have nonempty: "focusables \<noteq> []" using assms(2) by auto
  then have first: "hd focusables = focusables ! 0" and last: "last focusables = focusables ! (?n - 1)"
    by (simp_all add: hd_conv_nth last_conv_nth)
  have ends: "focusables ! k = hd focusables \<longleftrightarrow> k = 0" "focusables ! k = last focusables \<longleftrightarrow> k = ?n - 1"
    unfolding first last
    using nonempty nth_eq_iff_index_eq [OF assms(1,2), of 0] nth_eq_iff_index_eq [OF assms(1,2), of "?n - 1"]
    by simp_all
  have "focusables ! k \<noteq> p" using assms(2,3) by auto
  with nonempty have key: "modal_key (Some p) focusables (focusables ! k) (js ''Tab'') shift =
      (if shift \<and> k = 0 then KeyFocus (focusables ! (?n - 1))
       else if \<not> shift \<and> k = ?n - 1 then KeyFocus (focusables ! 0) else KeyNone)"
    unfolding modal_key_def ends by (simp add: first last)
  show ?thesis
  proof (cases shift)
    case True
    then show ?thesis using assms(2) unfolding focus_after_tab_def key browser_tab_def index
      by (cases k) (simp_all add: Let_def)
  next
    case False
    then show ?thesis using assms(2) unfolding focus_after_tab_def key browser_tab_def index
      by (cases "Suc k = ?n") (auto simp: Let_def nat_add_distrib)
  qed
qed

theorem modal_traps_focus_witness:
  "focus_after_tab (Some 9) [1, 2] 2 False = Some 1"
  using modal_traps_focus [of "[1, 2]" 1 9 False] by simp

lemma tabs_move_nth:
  assumes "distinct (map ti_id items)" "m < length items"
  shows "tabs_move items d (Some (ti_id (items ! m))) = Some (ti_id (items ! nat ((int m + d) mod int (length items))))"
proof -
  have "items \<noteq> []" using assms(2) by auto
  then show ?thesis using find_index_key [OF assms] by (simp add: tabs_move_def)
qed

lemma filter_key: "distinct (map f xs) \<Longrightarrow> x \<in> set xs \<Longrightarrow> filter (\<lambda>y. f y = f x) xs = [x]"
  by (induction xs) (auto simp: filter_empty_conv, metis imageI)

text \<open>
The arrow keys keep one of the tabs selected, moving right and then left returns to the same tab, and
exactly the panel of the selected tab is visible.
\<close>

theorem tabs_keep_selection:
  assumes "distinct (map ti_id items)" "active = Some (ti_id i)" "i \<in> set items"
  shows "(\<exists>j \<in> set items. tabs_move items dir active = Some (ti_id j)) \<and>
    tabs_move items (-1) (tabs_move items 1 active) = active \<and>
    length (filter (\<lambda>h. attr_of ''hidden'' h = Some (AFlag False)) (children_of (Tabs ev items active))) = 1"
proof -
  obtain k where k: "k < length items" "i = items ! k" using assms(3) by (auto simp: in_set_conv_nth)
  have ne: "items \<noteq> []" using k by auto
  note move = tabs_move_nth [OF assms(1)]
  have in_range: "nat (x mod int (length items)) < length items" for x using ne by (simp add: nat_less_iff)
  let ?r = "nat ((int k + 1) mod int (length items))"
  have "(int ?r + - 1) mod int (length items) = int k"
    using k(1) ne by (simp add: mod_diff_left_eq)
  then have "tabs_move items (-1) (tabs_move items 1 active) = active"
    using move [OF k(1), of 1] move [OF in_range [of "int k + 1"], of "-1"] by (simp add: assms(2) k(2))
  moreover have "\<exists>j \<in> set items. tabs_move items dir active = Some (ti_id j)"
    using move [OF k(1), of dir] in_range [of "int k + dir"] by (auto simp: assms(2) k(2))
  moreover have "filter (\<lambda>x. ti_id x = ti_id i) items = [i]" using assms(1,3) by (rule filter_key)
  then have "length (filter (\<lambda>h. attr_of ''hidden'' h = Some (AFlag False)) (children_of (Tabs ev items active))) = 1"
    by (simp add: Tabs_def class_attr_def text_attr_def filter_map comp_def assms(2))
  ultimately show ?thesis by blast
qed

definition sample_tabs :: "nat tab_item list" where
  "sample_tabs = map (\<lambda>i. \<lparr>ti_id = [i], ti_label = [], ti_content = []\<rparr>) [1, 2, 3]"

theorem tabs_keep_selection_witness:
  "tabs_move sample_tabs (-1) (tabs_move sample_tabs 1 (Some [3])) = Some [3]"
  using tabs_keep_selection [of sample_tabs "Some [3]" "sample_tabs ! 2"] by (simp add: sample_tabs_def)

section \<open>Toasts come and go\<close>

text \<open>The ids of the items are distinct and below the counter, and each has a timer that will remove it.\<close>

definition toasts_ok :: "toasts \<Rightarrow> bool" where
  "toasts_ok t \<longleftrightarrow> distinct (map to_id (to_items t)) \<and> (\<forall>i \<in> set (to_timers t). i < nextToastId t) \<and>
     set (map to_id (to_items t)) \<subseteq> set (to_timers t)"

lemma toasts_ok_step: "toast_step l t t' \<Longrightarrow> toasts_ok t \<Longrightarrow> toasts_ok t'"
  by (induction rule: toast_step.induct)
     (auto simp: toasts_ok_def show_toast_def dismiss_def toast_timer_def distinct_map_filter)

interpretation toast: inductive_invariant toast_step "\<lambda>l. True" toasts_ok
  by unfold_locales (rule toasts_ok_step)

text \<open>
Every toast on the screen has its own id and a running timer, so that each disappears by itself: when the
timers that run at some moment have fired, none of the toasts of that moment is left.
\<close>

theorem toasts_disappear:
  assumes "lreach toast_step (\<lambda>l. True) no_toasts t"
  shows "distinct (map to_id (to_items t)) \<and> to_items (foldl (\<lambda>u i. toast_timer i u) t (to_timers t)) = []"
proof -
  have ok: "toasts_ok t" by (rule toast.inv_reach [OF assms]) (simp add: toasts_ok_def no_toasts_def)
  have "to_items (foldl (\<lambda>u i. toast_timer i u) u is) = filter (\<lambda>x. to_id x \<notin> set is) (to_items u)" for u "is"
    by (induction "is" arbitrary: u) (auto simp: toast_timer_def dismiss_def intro!: filter_cong)
  then show ?thesis using ok by (auto simp: toasts_ok_def filter_empty_conv)
qed

theorem toasts_disappear_witness:
  "to_items (foldl (\<lambda>u i. toast_timer i u) (show_toast [104] Info no_toasts) (to_timers (show_toast [104] Info no_toasts))) = []"
proof -
  have "lreach toast_step (\<lambda>l. True) no_toasts (show_toast [104] Info no_toasts)"
    by (rule lreach.more [where l = "ShowToast [104] Info"]) (auto intro: toast_step.intros)
  from toasts_disappear [OF this] show ?thesis by blast
qed

end
