(* ===== verification/Dash_Pages.thy ===== *)
theory Dash_Pages
  imports Dash_Ui "HOL-Library.List_Lexorder"
begin

text \<open>
  The pages of the admin console: \<open>types.ts\<close>, \<open>pages/*.tsx\<close> and the views of \<open>app.tsx\<close>.  A page is a function
  of the state of its queries (\<open>query\<close>: what the query library says), of its own state and of the table
  library (\<open>use_table\<close>, from columns, data and page size to the model of the table).  \<open>lower\<close> is
  \<open>toLowerCase\<close>.  The dialogs of the users and the messages page are one state machine (\<open>confirm\<close>).
\<close>

section \<open>types.ts\<close>

record admin_user =
  au_uuid :: jstr
  au_username :: jstr
  au_nickname :: "jstr option"
  au_avatar_url :: "jstr option"
  au_email :: "jstr option"
  au_last_seen_at :: "jstr option"
  au_token_version :: int
  au_created_at :: jstr

record revoke_result =
  rr_uuid :: jstr
  rr_token_version :: int
  rr_connections_kicked :: int

record admin_participant =
  apa_uuid :: jstr
  apa_username :: jstr
  apa_nickname :: "jstr option"

record admin_conv =
  dc_id :: jstr
  dc_kind :: jstr
  dc_title :: "jstr option"
  dc_avatar_url :: "jstr option"
  dc_created_by :: jstr
  dc_creator_username :: jstr
  dc_member_count :: int
  dc_message_count :: int
  dc_latest_message_at :: "jstr option"
  dc_created_at :: jstr
  dc_updated_at :: jstr
  dc_participants :: "admin_participant list option"

record admin_message =
  am_id :: jstr
  am_conversation_id :: jstr
  am_sender_uuid :: jstr
  am_sender_username :: jstr
  am_sender_nickname :: "jstr option"
  am_sender_avatar_url :: "jstr option"
  am_content :: jstr
  am_content_type :: jstr
  am_sequence :: int
  am_created_at :: jstr
  am_is_illegal :: bool
  am_moderated_at :: "jstr option"

record service_metrics =
  sm_available :: bool
  sm_error :: "jstr option"
  sm_values :: "(jstr \<times> rat) list"

record system_status =
  ss_generated_at :: jstr
  ss_users_total :: int
  ss_online_available :: bool
  ss_online_error :: "jstr option"
  ss_online_uuids :: "jstr list"
  ss_pending :: int
  ss_published :: int
  ss_failed_attempts :: int
  ss_oldest_pending_seconds :: rat
  ss_gateway :: service_metrics
  ss_delivery :: service_metrics

section \<open>Page frames\<close>

text \<open>A query is pending, failed with a message, or has data; \<open>data ?? []\<close> reads a missing list as empty.\<close>

datatype 'a query = QPending | QError jstr | QData "'a option"

record page_env =
  pe_locale :: locale_formats
  pe_now :: int

definition num :: "page_env \<Rightarrow> int \<Rightarrow> jstr" where
  "num env n = formatNumber (pe_locale env) (of_int n)"

definition rel :: "page_env \<Rightarrow> jstr option \<Rightarrow> jstr" where
  "rel env d = formatRelative (pe_locale env) (pe_now env) d"

definition div_of :: "string \<Rightarrow> 'e html list \<Rightarrow> 'e html" where
  "div_of c cs = Elem ''div'' [text_attr ''class'' c] cs"

definition span_of :: "string \<Rightarrow> 'e html list \<Rightarrow> 'e html" where
  "span_of c cs = Elem ''span'' [text_attr ''class'' c] cs"

definition Page :: "'e html list \<Rightarrow> 'e html list \<Rightarrow> 'e html list \<Rightarrow> 'e html list \<Rightarrow> 'e html" where
  "Page title subtitle toolbar children =
     Elem ''div'' []
       (Elem ''header'' [text_attr ''class'' ''admin-page-header'']
          (Elem ''div'' []
             (Elem ''h1'' [text_attr ''class'' ''admin-page-title''] title #
              when (subtitle \<noteq> []) (div_of ''admin-page-subtitle'' subtitle)) #
           when (toolbar \<noteq> []) (div_of ''admin-page-toolbar'' toolbar)) #
        children)"

definition PageLoading :: "'e html" where
  "PageLoading = div_of ''admin-center'' [Spinner None]"

definition ErrorBanner :: "jstr \<Rightarrow> 'e html list \<Rightarrow> 'e html" where
  "ErrorBanner message children =
     Elem ''div'' [text_attr ''class'' ''admin-error-banner'', text_attr ''role'' ''alert'']
       ([Elem ''strong'' [] [Txt (js ''Could not load data.'')], Txt (js '' '' @ message)] @ children)"

text \<open>The three states of a page with one query.\<close>

definition with_query :: "'a query \<Rightarrow> ('a option \<Rightarrow> 'e html) \<Rightarrow> 'e html" where
  "with_query q view = (case q of QPending \<Rightarrow> PageLoading | QError m \<Rightarrow> ErrorBanner m [] | QData d \<Rightarrow> view d)"

definition list_of :: "'a list option \<Rightarrow> 'a list" where
  "list_of d = (case d of Some xs \<Rightarrow> xs | None \<Rightarrow> [])"

record ('a, 'e) column =
  co_header :: jstr
  co_id :: jstr
  co_sortable :: bool
  co_cell :: "'a \<Rightarrow> 'e html list"

type_synonym ('a, 'e) use_table = "('a, 'e) column list \<Rightarrow> 'a list \<Rightarrow> int \<Rightarrow> ('a, 'e) table_model"

definition col :: "string \<Rightarrow> string \<Rightarrow> bool \<Rightarrow> ('a \<Rightarrow> 'e html list) \<Rightarrow> ('a, 'e) column" where
  "col h i srt cell = \<lparr>co_header = js h, co_id = js i, co_sortable = srt, co_cell = cell\<rparr>"

definition SearchBox :: "jstr \<Rightarrow> jstr \<Rightarrow> 'e \<Rightarrow> 'e html" where
  "SearchBox placeholder current onInput =
     Input False (Some (js ''admin-search''))
       [(''placeholder'', AText placeholder), (''value'', AText current), (''onInput'', AOn onInput)]"

definition strong_cell :: "jstr \<Rightarrow> jstr option \<Rightarrow> 'e html list" where
  "strong_cell main sub =
     [Elem ''div'' [] (div_of ''admin-cell-strong'' [Txt main] #
        (case sub of Some s \<Rightarrow> when (s \<noteq> []) (div_of ''admin-cell-sub'' [Txt s]) | None \<Rightarrow> []))]"

section \<open>Overview\<close>

definition StatCard :: "string \<Rightarrow> jstr \<Rightarrow> jstr \<Rightarrow> bool \<Rightarrow> 'e html" where
  "StatCard label v sub degraded =
     div_of ''admin-card''
       ([div_of ''admin-card-label'' [Txt (js label)], div_of ''admin-card-value'' [Txt v]] @
        when (sub \<noteq> []) (div_of ''admin-card-sub'' [Txt sub]) @
        when degraded (div_of ''aw-badge aw-badge-danger admin-card-badge'' [Txt (js ''degraded'')]))"

definition metric_row :: "page_env \<Rightarrow> service_metrics \<Rightarrow> jstr \<Rightarrow> 'e html" where
  "metric_row env m k =
     div_of ''admin-metrics-row''
       [Elem ''dt'' [] [Txt (humanizeMetricKey k)],
        Elem ''dd'' [text_attr ''class'' ''admin-mono''] [Txt (formatMetric (pe_locale env) (the (map_of (sm_values m) k)))]]"

definition ServicePanel :: "page_env \<Rightarrow> string \<Rightarrow> service_metrics \<Rightarrow> 'e html" where
  "ServicePanel env title m =
     (let keys = sort (map fst (sm_values m))
      in Elem ''section'' [text_attr ''class'' ''admin-panel'']
        [div_of ''admin-panel-header''
           [Elem ''h2'' [text_attr ''class'' ''admin-panel-title''] [Txt (js title)],
            if sm_available m then span_of ''aw-badge aw-badge-success'' [Txt (js ''up'')]
            else span_of ''aw-badge aw-badge-danger'' [Txt (js ''unreachable'')]],
         if sm_available m then
           if keys \<noteq> [] then Elem ''dl'' [text_attr ''class'' ''admin-metrics''] (map (metric_row env m) keys)
           else Elem ''p'' [text_attr ''class'' ''admin-panel-empty''] [Txt (js ''No metrics exposed.'')]
         else Elem ''p'' [text_attr ''class'' ''admin-panel-empty'']
           [Txt ((case sm_error m of Some e \<Rightarrow> e | None \<Rightarrow> js ''Service did not respond.'') @
              js '' Metrics appear once the service is running.'')]])"

definition overview_view :: "page_env \<Rightarrow> system_status \<Rightarrow> 'e html" where
  "overview_view env s =
     Page [Txt (js ''Overview'')]
       [Txt (js ''Generated '' @ rel env (Some (ss_generated_at s)) @ [32, 183] @ js '' refreshes every 15s'')] []
       [div_of ''admin-cards''
          [StatCard ''Registered users'' (num env (ss_users_total s)) [] False,
           StatCard ''Online now'' (if ss_online_available s then num env (int (length (ss_online_uuids s))) else dash)
             (if ss_online_available s then js ''via gateway''
              else js ''gateway unavailable'' @ (case ss_online_error s of Some e \<Rightarrow> if e = [] then [] else js '': '' @ e | None \<Rightarrow> []))
             (\<not> ss_online_available s),
           StatCard ''Outbox pending'' (num env (ss_pending s))
             (js ''oldest pending '' @ formatDuration (ss_oldest_pending_seconds s))
             (ss_pending s > 0 \<and> ss_oldest_pending_seconds s > 60),
           StatCard ''Outbox published'' (num env (ss_published s)) (num env (ss_failed_attempts s) @ js '' failed attempt(s)'') False],
        ServicePanel env ''Gateway metrics'' (ss_gateway s),
        ServicePanel env ''Delivery metrics'' (ss_delivery s)]"

definition Overview :: "page_env \<Rightarrow> system_status query \<Rightarrow> 'e html" where
  "Overview env q =
     with_query q (\<lambda>d. case d of Some s \<Rightarrow> overview_view env s | None \<Rightarrow> PageLoading)"

section \<open>Searching\<close>

definition field_matches :: "(jstr \<Rightarrow> jstr) \<Rightarrow> jstr \<Rightarrow> jstr option \<Rightarrow> bool" where
  "field_matches lower needle f = (case f of Some s \<Rightarrow> s \<noteq> [] \<and> str_includes (lower s) needle | None \<Rightarrow> False)"

definition search_filter :: "(jstr \<Rightarrow> jstr) \<Rightarrow> ('a \<Rightarrow> jstr option list) \<Rightarrow> jstr \<Rightarrow> 'a list \<Rightarrow> 'a list" where
  "search_filter lower fs search data =
     (let needle = lower (trim search)
      in if needle = [] then data else filter (\<lambda>x. list_ex (field_matches lower needle) (fs x)) data)"

definition user_fields :: "admin_user \<Rightarrow> jstr option list" where
  "user_fields u = [Some (au_username u), au_nickname u, au_email u, Some (au_uuid u)]"

definition conversation_fields :: "admin_conv \<Rightarrow> jstr option list" where
  "conversation_fields c =
     [dc_title c, Some (dc_creator_username c), Some (dc_id c)] @
     concat (map (\<lambda>p. [Some (apa_username p), apa_nickname p]) (list_of (dc_participants c)))"

definition users_filtered :: "(jstr \<Rightarrow> jstr) \<Rightarrow> jstr \<Rightarrow> admin_user list option \<Rightarrow> admin_user list" where
  "users_filtered lower search data = search_filter lower user_fields search (list_of data)"

definition conversations_filtered :: "(jstr \<Rightarrow> jstr) \<Rightarrow> jstr \<Rightarrow> admin_conv list option \<Rightarrow> admin_conv list" where
  "conversations_filtered lower search data = search_filter lower conversation_fields search (list_of data)"

section \<open>Confirmation dialogs\<close>

text \<open>
  A dialog asks about a target; confirming it starts the mutation, whose \<open>onSettled\<close> closes the dialog.
  The key handler of the dialog was made when the dialog opened and keeps the properties of that
  moment: \<open>cf_guard\<close> is the \<open>isPending\<close> it sees.
\<close>

record 'a confirm =
  cf_target :: "'a option"
  cf_pending :: bool
  cf_guard :: bool
  cf_started :: "'a list"
  cf_settled :: nat

definition no_confirm :: "'a confirm" where
  "no_confirm = \<lparr>cf_target = None, cf_pending = False, cf_guard = False, cf_started = [], cf_settled = 0\<rparr>"

definition cf_ask :: "'a \<Rightarrow> 'a confirm \<Rightarrow> 'a confirm" where
  "cf_ask x c = c\<lparr>cf_target := Some x, cf_guard := (if cf_target c = None then cf_pending c else cf_guard c)\<rparr>"

text \<open>The cancel button is disabled while the mutation runs.\<close>

definition cf_cancel :: "'a confirm \<Rightarrow> 'a confirm" where
  "cf_cancel c = (if cf_pending c then c else c\<lparr>cf_target := None\<rparr>)"

text \<open>The close button and the overlay call the current \<open>onClose\<close>, the Escape key the one of the opening.\<close>

definition cf_close :: "'a confirm \<Rightarrow> 'a confirm" where
  "cf_close c = (if cf_pending c then c else c\<lparr>cf_target := None\<rparr>)"

definition cf_escape :: "'a confirm \<Rightarrow> 'a confirm" where
  "cf_escape c = (if cf_target c = None \<or> cf_guard c then c else c\<lparr>cf_target := None\<rparr>)"

text \<open>
  The confirm button is disabled while it is loading.  The code has no other guard, the rendered button is the only one; \<open>isPending\<close> is taken to reach it at
  once, a second click between the mutation's start and the next rendering is not modelled.
\<close>

definition cf_confirm :: "'a confirm \<Rightarrow> 'a confirm" where
  "cf_confirm c =
     (if cf_pending c then c
      else (case cf_target c of
              Some x \<Rightarrow> c\<lparr>cf_pending := True, cf_started := cf_started c @ [x]\<rparr>
            | None \<Rightarrow> c))"

definition cf_settle :: "'a confirm \<Rightarrow> 'a confirm" where
  "cf_settle c = c\<lparr>cf_pending := False, cf_target := None, cf_settled := Suc (cf_settled c)\<rparr>"

datatype 'a confirm_event = CfAsk 'a | CfCancel | CfClose | CfEscape | CfConfirm | CfSettle

inductive confirm_step :: "'a confirm_event \<Rightarrow> 'a confirm \<Rightarrow> 'a confirm \<Rightarrow> bool" where
  "confirm_step (CfAsk x) c (cf_ask x c)"
| "confirm_step CfCancel c (cf_cancel c)"
| "confirm_step CfClose c (cf_close c)"
| "confirm_step CfEscape c (cf_escape c)"
| "confirm_step CfConfirm c (cf_confirm c)"
| "cf_pending c \<Longrightarrow> confirm_step CfSettle c (cf_settle c)"

text \<open>The dialog of a confirmation.\<close>

definition ConfirmDialog :: "('a confirm_event \<Rightarrow> 'e) \<Rightarrow> string \<Rightarrow> string \<Rightarrow> ('a \<Rightarrow> 'e html list) \<Rightarrow> 'a confirm \<Rightarrow> 'e html list" where
  "ConfirmDialog ev title action body c =
     Modal \<lparr>mp_open = (cf_target c \<noteq> None), mp_onClose = ev CfClose, mp_title = [Txt (js title)], mp_label = Some (js title),
         mp_footer =
           [Button ((plain_button (ev CfCancel))\<lparr>bp_disabled := cf_pending c\<rparr>) [Txt (js ''Cancel'')],
            Button ((plain_button (ev CfConfirm))\<lparr>bp_variant := Some Danger, bp_loading := cf_pending c\<rparr>) [Txt (js action)]]\<rparr>
       (case cf_target c of Some x \<Rightarrow> body x | None \<Rightarrow> [])"

section \<open>Users\<close>

datatype users_event = UsSearch | UsCopy jstr | UsDialog "admin_user confirm_event" | UsTable nat

record users_state =
  us_search :: jstr
  us_confirm :: "admin_user confirm"
  us_toasts :: toasts
  us_invalidated :: "jstr list"

definition revoke_path :: "admin_user \<Rightarrow> jstr option" where
  "revoke_path u = map_option (\<lambda>e. js ''/users/'' @ e @ js ''/revoke'') (encodeURIComponent (au_uuid u))"

text \<open>\<open>onSuccess\<close>, \<open>onError\<close> and \<open>onSettled\<close> of the mutation.\<close>

definition revoke_settled :: "jstr + revoke_result \<Rightarrow> users_state \<Rightarrow> users_state" where
  "revoke_settled r st =
     (case r of
        Inr result \<Rightarrow>
          st\<lparr>us_toasts := show_toast (js ''Credentials revoked for '' @ rr_uuid result @ [32, 8212, 32] @
               show_int (rr_connections_kicked result) @ js '' live connection(s) kicked'') Success (us_toasts st),
             us_invalidated := us_invalidated st @ [js ''users'', js ''status''],
             us_confirm := cf_settle (us_confirm st)\<rparr>
      | Inl message \<Rightarrow>
          st\<lparr>us_toasts := show_toast message Error (us_toasts st), us_confirm := cf_settle (us_confirm st)\<rparr>)"

definition user_columns :: "page_env \<Rightarrow> (admin_user, users_event) column list" where
  "user_columns env =
     [col ''User'' ''username'' True (\<lambda>u. strong_cell (au_username u) (au_nickname u)),
      col ''UUID'' ''uuid'' False (\<lambda>u. [Elem ''button''
         [text_attr ''type'' ''button'', text_attr ''class'' ''admin-mono admin-copy'', text_attr ''title'' ''Click to copy'',
          (''onClick'', AOn (UsCopy (au_uuid u)))] [Txt (truncate_text (au_uuid u) 14)]]),
      col ''Email'' ''email'' True (\<lambda>u. case au_email u of Some e \<Rightarrow> [Txt e] | None \<Rightarrow> [span_of ''admin-cell-muted'' [Txt dash]]),
      col ''Last seen'' ''last_seen_at'' True (\<lambda>u. [Txt (rel env (au_last_seen_at u))]),
      col ''Token v'' ''token_version'' True (\<lambda>u. [span_of ''admin-mono'' [Txt (js ''v'' @ show_int (au_token_version u))]]),
      col ''Created'' ''created_at'' True (\<lambda>u. [Txt (formatDateTime (pe_locale env) (Some (au_created_at u)))]),
      col [] ''actions'' False (\<lambda>u. [Button ((plain_button (UsDialog (CfAsk u)))\<lparr>bp_variant := Some Danger, bp_small := True\<rparr>)
         [Txt (js ''Revoke'')]])]"

definition revoke_question :: "admin_user \<Rightarrow> users_event html list" where
  "revoke_question u =
     [Elem ''p'' []
        [Txt (js ''Revoke every versioned credential issued to ''), Elem ''strong'' [] [Txt (au_username u)], Txt (js '' (''),
         span_of ''admin-mono'' [Txt (au_uuid u)],
         Txt (js '')? The user's token version is bumped, so signed credentials stop verifying, and their live gateway connections are kicked. Hosts keep control of unversioned credentials.'')]]"

definition Users ::
  "page_env \<Rightarrow> (jstr \<Rightarrow> jstr) \<Rightarrow> (admin_user, users_event) use_table \<Rightarrow> admin_user list query \<Rightarrow> users_state \<Rightarrow> users_event html" where
  "Users env lower use_table q st =
     with_query q (\<lambda>data.
       Page [Txt (js ''Users'')]
         [Txt (num env (int (length (list_of data))) @ js '' registered identit(ies) '' @ [183] @
            js '' identities appear when a host-signed credential first authenticates'')]
         [SearchBox (js ''Search username, email, UUID'' @ [8230]) (us_search st) UsSearch]
         (DataTable \<lparr>tp_pageSize = Some 15, tp_loading = False, tp_onRowClick = None,
              tp_empty = Some ([Txt (js ''No users yet'')], [Txt (js ''Identities show up once clients sign in with host-signed credentials.'')])\<rparr>
            (use_table (user_columns env) (users_filtered lower (us_search st) data) 15) #
          ConfirmDialog UsDialog ''Revoke credentials'' ''Revoke credentials'' revoke_question (us_confirm st)))"

section \<open>Conversations\<close>

datatype convs_event = CvSearch | CvTab tab_event | CvOpen jstr | CvTable nat

definition participantNames :: "admin_participant list option \<Rightarrow> jstr" where
  "participantNames ps =
     (let names = map (\<lambda>p. case apa_nickname p of Some n \<Rightarrow> n | None \<Rightarrow> apa_username p) (list_of ps)
      in if names \<noteq> [] then join [32, 8596, 32] names else js ''Direct conversation'')"

definition latest_columns :: "page_env \<Rightarrow> (admin_conv, convs_event) column list" where
  "latest_columns env =
     [col ''Latest activity'' ''latest_message_at'' True (\<lambda>c. [Txt (rel env (dc_latest_message_at c))]),
      col ''Created'' ''created_at'' True (\<lambda>c. [Txt (formatDateTime (pe_locale env) (Some (dc_created_at c)))])]"

definition id_line :: "admin_conv \<Rightarrow> convs_event html" where
  "id_line c = div_of ''admin-cell-sub admin-mono'' [Txt (truncate_text (dc_id c) 16)]"

definition groupColumns :: "page_env \<Rightarrow> (admin_conv, convs_event) column list" where
  "groupColumns env =
     [col ''Title'' ''title'' True (\<lambda>c. [Elem ''div'' [] [div_of ''admin-cell-strong''
         [Txt (case dc_title c of Some t \<Rightarrow> t | None \<Rightarrow> js ''Untitled group'')], id_line c]]),
      col ''Created by'' ''creator_username'' True (\<lambda>c. [Txt (dc_creator_username c)]),
      col ''Members'' ''member_count'' True (\<lambda>c. [Txt (num env (dc_member_count c))]),
      col ''Messages'' ''message_count'' True (\<lambda>c. [Txt (num env (dc_message_count c))])] @ latest_columns env"

definition directColumns :: "page_env \<Rightarrow> (admin_conv, convs_event) column list" where
  "directColumns env =
     [col ''Participants'' ''participants'' True (\<lambda>c. [Elem ''div'' [] [div_of ''admin-cell-strong''
         [Txt (participantNames (dc_participants c))], id_line c]]),
      col ''Messages'' ''message_count'' True (\<lambda>c. [Txt (num env (dc_message_count c))])] @ latest_columns env"

definition of_kind :: "string \<Rightarrow> admin_conv list \<Rightarrow> admin_conv list" where
  "of_kind k cs = filter (\<lambda>c. dc_kind c = js k) cs"

definition conversation_hash :: "admin_conv \<Rightarrow> jstr" where
  "conversation_hash c = js ''#/conversations/'' @ dc_id c"

definition conversations_table ::
  "(admin_conv, convs_event) table_model \<Rightarrow> string \<Rightarrow> string \<Rightarrow> convs_event html" where
  "conversations_table table title description =
     DataTable \<lparr>tp_pageSize = Some 15, tp_loading = False, tp_onRowClick = Some (\<lambda>c. CvOpen (conversation_hash c)),
       tp_empty = Some ([Txt (js title)], [Txt (js description)])\<rparr> table"

definition Conversations ::
  "page_env \<Rightarrow> (jstr \<Rightarrow> jstr) \<Rightarrow> (admin_conv, convs_event) use_table \<Rightarrow> admin_conv list query \<Rightarrow> jstr \<Rightarrow> jstr option
   \<Rightarrow> convs_event html" where
  "Conversations env lower use_table q search active =
     with_query q (\<lambda>data.
       let filtered = conversations_filtered lower search data;
           groups = of_kind ''group'' filtered;
           directs = of_kind ''direct'' filtered
       in Page [Txt (js ''Conversations'')]
         [Txt (num env (int (length groups)) @ js '' group(s) '' @ [183, 32] @ num env (int (length directs)) @ js '' direct '' @ [183] @
            js '' click a row to inspect its messages'')]
         [SearchBox (js ''Search title, participant, ID'' @ [8230]) search CvSearch]
         [Tabs CvTab
            [\<lparr>ti_id = js ''groups'', ti_label = [Txt (js ''Groups ('' @ num env (int (length groups)) @ js '')'')],
              ti_content = [conversations_table (use_table (groupColumns env) groups 15) ''No group conversations yet''
                ''Groups appear here as soon as clients create them.'']\<rparr>,
             \<lparr>ti_id = js ''direct'', ti_label = [Txt (js ''Direct ('' @ num env (int (length directs)) @ js '')'')],
              ti_content = [conversations_table (use_table (directColumns env) directs 15) ''No direct conversations yet''
                ''One-to-one chats appear here once clients exchange direct messages.'']\<rparr>] active])"

section \<open>Messages\<close>

datatype msgs_event = MsInspect admin_message | MsCloseInspect | MsInspectMark | MsDialog "admin_message confirm_event" | MsTable nat

record msgs_state =
  ms_inspect :: "admin_message option"
  ms_confirm :: "admin_message confirm"
  ms_toasts :: toasts
  ms_invalidated :: "jstr list"

definition messages_query_path :: "jstr \<Rightarrow> jstr option" where
  "messages_query_path conversationId =
     map_option (\<lambda>e. js ''/conversations/'' @ e @ js ''/messages'') (encodeURIComponent conversationId)"

definition mark_illegal_path :: "admin_message \<Rightarrow> jstr option" where
  "mark_illegal_path m = map_option (\<lambda>e. js ''/messages/'' @ e @ js ''/mark-illegal'') (encodeURIComponent (am_id m))"

definition mark_settled :: "jstr + admin_message \<Rightarrow> msgs_state \<Rightarrow> msgs_state" where
  "mark_settled r st =
     (case r of
        Inr updated \<Rightarrow>
          st\<lparr>ms_toasts := show_toast (js ''Message '' @ truncate_text (am_id updated) 12 @ js '' marked illegal '' @ [8212] @
               js '' members are being notified'') Success (ms_toasts st),
             ms_invalidated := ms_invalidated st @ [js ''conversations''],
             ms_confirm := cf_settle (ms_confirm st)\<rparr>
      | Inl message \<Rightarrow>
          st\<lparr>ms_toasts := show_toast message Error (ms_toasts st), ms_confirm := cf_settle (ms_confirm st)\<rparr>)"

text \<open>The button of the inspection dialog moves its message to the confirmation.\<close>

definition inspect_mark :: "msgs_state \<Rightarrow> msgs_state" where
  "inspect_mark st =
     (case ms_inspect st of
        Some m \<Rightarrow> st\<lparr>ms_confirm := cf_ask m (ms_confirm st), ms_inspect := None\<rparr>
      | None \<Rightarrow> st)"

definition status_badge :: "page_env \<Rightarrow> admin_message \<Rightarrow> 'e html" where
  "status_badge env m =
     (if am_is_illegal m then
        Elem ''span'' [text_attr ''class'' ''aw-badge aw-badge-danger'',
          (''title'', AText (formatDateTime (pe_locale env) (am_moderated_at m)))] [Txt (js ''illegal'')]
      else span_of ''aw-badge aw-badge-muted'' [Txt (js ''ok'')])"

definition message_columns :: "page_env \<Rightarrow> (admin_message, msgs_event) column list" where
  "message_columns env =
     [col ''Seq'' ''sequence'' True (\<lambda>m. [span_of ''admin-mono'' [Txt (js ''#'' @ show_int (am_sequence m))]]),
      col ''Sender'' ''sender_username'' True (\<lambda>m. strong_cell (am_sender_username m) (am_sender_nickname m)),
      col ''Content'' ''content'' False (\<lambda>m. [Elem ''button''
         [text_attr ''type'' ''button'', text_attr ''class'' ''admin-content-cell'', text_attr ''title'' ''Show full message'',
          (''onClick'', AOn (MsInspect m))] [Txt (truncate_text (am_content m) 90)]]),
      col ''Type'' ''content_type'' True (\<lambda>m. [Txt (am_content_type m)]),
      col ''Sent'' ''created_at'' True (\<lambda>m. [Txt (formatDateTime (pe_locale env) (Some (am_created_at m)))]),
      col ''Status'' ''is_illegal'' True (\<lambda>m. [status_badge env m]),
      col [] ''actions'' False (\<lambda>m. when (\<not> am_is_illegal m)
         (Button ((plain_button (MsDialog (CfAsk m)))\<lparr>bp_variant := Some Danger, bp_small := True\<rparr>) [Txt (js ''Mark illegal'')]))]"

definition heading :: "admin_conv \<Rightarrow> jstr" where
  "heading c = (case dc_title c of Some t \<Rightarrow> t | None \<Rightarrow> participantNames (dc_participants c))"

definition detail_row :: "string \<Rightarrow> (string \<times> msgs_event attr) list \<Rightarrow> msgs_event html list \<Rightarrow> msgs_event html" where
  "detail_row label as cs = div_of ''admin-metrics-row'' [Elem ''dt'' [] [Txt (js label)], Elem ''dd'' as cs]"

definition inspect_body :: "page_env \<Rightarrow> admin_message \<Rightarrow> msgs_event html list" where
  "inspect_body env m =
     [div_of ''admin-message-detail''
        [Elem ''p'' [text_attr ''class'' ''admin-message-content''] [Txt (am_content m)],
         Elem ''dl'' [text_attr ''class'' ''admin-metrics'']
           [detail_row ''Message ID'' [text_attr ''class'' ''admin-mono''] [Txt (am_id m)],
            detail_row ''Sender'' []
              [Txt (am_sender_username m @ [32]), span_of ''admin-mono'' [Txt (js ''('' @ am_sender_uuid m @ js '')'')]],
            detail_row ''Sent'' [] [Txt (formatDateTime (pe_locale env) (Some (am_created_at m)))],
            detail_row ''Status'' []
              [Txt (if am_is_illegal m then js ''Marked illegal '' @ formatDateTime (pe_locale env) (am_moderated_at m)
                    else js ''No moderation action'')]]]]"

definition InspectDialog :: "page_env \<Rightarrow> admin_message option \<Rightarrow> msgs_event html list" where
  "InspectDialog env target =
     (let title = js ''Message #'' @ (case target of Some m \<Rightarrow> show_int (am_sequence m) | None \<Rightarrow> [])
      in Modal \<lparr>mp_open = (target \<noteq> None), mp_onClose = MsCloseInspect, mp_title = [Txt title], mp_label = Some title,
           mp_footer = Button (plain_button MsCloseInspect) [Txt (js ''Close'')] #
             (case target of
                Some m \<Rightarrow> when (\<not> am_is_illegal m)
                  (Button ((plain_button MsInspectMark)\<lparr>bp_variant := Some Danger\<rparr>) [Txt (js ''Mark illegal'')])
              | None \<Rightarrow> [])\<rparr>
         (case target of Some m \<Rightarrow> inspect_body env m | None \<Rightarrow> []))"

definition moderate_question :: "admin_message \<Rightarrow> msgs_event html list" where
  "moderate_question m =
     [Elem ''p'' []
        [Txt (js ''Flag message ''), span_of ''admin-mono'' [Txt (js ''#'' @ show_int (am_sequence m))], Txt (js '' from ''),
         Elem ''strong'' [] [Txt (am_sender_username m)],
         Txt (js '' as illegal? Every current member of the conversation is notified through the gateway, and the message stays flagged for audits.'')]]"

definition messages_page ::
  "page_env \<Rightarrow> (admin_message, msgs_event) use_table \<Rightarrow> admin_conv \<Rightarrow> admin_message list \<Rightarrow> msgs_state \<Rightarrow> msgs_event html" where
  "messages_page env use_table c ms st =
     Page [Txt (heading c)]
       [Elem ''a'' [text_attr ''href'' ''#/conversations''] [Txt ([8592] @ js '' Conversations'')],
        Elem ''span'' [] [Txt ([32, 183, 32] @ num env (dc_member_count c) @ js '' member(s) '' @ [183, 32] @ num env (dc_message_count c) @
          js '' message(s) '' @ [183] @ js '' created by '' @ dc_creator_username c @ [32] @ rel env (Some (dc_created_at c)))]]
       []
       (DataTable \<lparr>tp_pageSize = Some 20, tp_loading = False, tp_onRowClick = None,
            tp_empty = Some ([Txt (js ''No messages in this conversation yet'')], [])\<rparr>
          (use_table (message_columns env) ms 20) #
        InspectDialog env (ms_inspect st) @
        ConfirmDialog MsDialog ''Mark message illegal'' ''Mark illegal'' moderate_question (ms_confirm st))"

definition ConversationMessages ::
  "page_env \<Rightarrow> (admin_message, msgs_event) use_table \<Rightarrow> jstr \<Rightarrow> admin_conv list query \<Rightarrow> admin_message list query \<Rightarrow> msgs_state
   \<Rightarrow> msgs_event html" where
  "ConversationMessages env use_table conversationId conversations messages st =
     (if messages = QPending \<or> conversations = QPending then PageLoading
      else
        (case messages of
           QError m \<Rightarrow> ErrorBanner m []
         | _ \<Rightarrow>
             (case find (\<lambda>c. dc_id c = conversationId) (case conversations of QData d \<Rightarrow> list_of d | _ \<Rightarrow> []) of
                None \<Rightarrow>
                  ErrorBanner (js ''Conversation '' @ conversationId @ js '' was not found.'')
                    [Elem ''p'' [] [Elem ''a'' [text_attr ''href'' ''#/conversations''] [Txt ([8592] @ js '' Back to conversations'')]]]
              | Some c \<Rightarrow> messages_page env use_table c (case messages of QData d \<Rightarrow> list_of d | _ \<Rightarrow> []) st)))"

section \<open>The frame of the console\<close>

datatype root_event = RtUsername | RtPassword | RtSubmit | RtSignOut | RtPage

definition login_field :: "jstr \<Rightarrow> string \<Rightarrow> bool \<Rightarrow> jstr option \<Rightarrow> (string \<times> root_event attr) list \<Rightarrow> root_event html" where
  "login_field autoId label bad err rest =
     Field autoId \<lparr>fp_label = [Txt (js label)], fp_htmlFor = None,
         fp_error = (case err of Some e \<Rightarrow> when (e \<noteq> []) (Txt e) | None \<Rightarrow> []), fp_hint = [], fp_required = True, fp_class = None\<rparr>
       (\<lambda>i. [Input bad None ((''id'', AText i) # rest)])"

definition Login :: "jstr \<Rightarrow> jstr \<Rightarrow> login_form \<Rightarrow> root_event html" where
  "Login id1 id2 f =
     (let bad = (case lg_error f of Some e \<Rightarrow> e \<noteq> [] | None \<Rightarrow> False)
      in div_of ''admin-login-wrap''
        [Elem ''form'' [text_attr ''class'' ''admin-login-card'', (''onSubmit'', AOn RtSubmit)]
          [div_of ''admin-login-brand'' [Txt (js ''IM Admin'')],
           Elem ''p'' [text_attr ''class'' ''admin-login-hint'']
             [Txt (js ''Sign in with the console credentials configured through ''), Elem ''code'' [] [Txt (js ''IM_ADMIN_USERNAME'')],
              Txt (js '' / ''), Elem ''code'' [] [Txt (js ''IM_ADMIN_PASSWORD'')], Txt (js ''.'')],
           login_field id1 ''Username'' bad None
             [(''value'', AText (lg_username f)), (''autofocus'', AFlag True), text_attr ''autocomplete'' ''username'',
              text_attr ''placeholder'' ''admin'', (''onInput'', AOn RtUsername)],
           login_field id2 ''Password'' bad (lg_error f)
             [text_attr ''type'' ''password'', (''value'', AText (lg_password f)), text_attr ''autocomplete'' ''current-password'',
              (''placeholder'', AText (replicate 8 8226)), (''onInput'', AOn RtPassword)],
           Button \<lparr>bp_variant = Some Primary, bp_small = False, bp_type = Some (js ''submit''), bp_loading = lg_submitting f,
               bp_disabled = False, bp_class = Some (js ''admin-login-submit''), bp_onClick = None\<rparr> [Txt (js ''Sign in'')]]])"

definition Shell :: "jstr \<Rightarrow> jstr \<Rightarrow> root_event html list \<Rightarrow> root_event html" where
  "Shell route username children =
     div_of ''admin-shell''
       [Elem ''aside'' [text_attr ''class'' ''admin-sidebar'']
          [div_of ''admin-brand'' [Txt (js ''IM Admin''), span_of ''admin-brand-sub'' [Txt (js ''airway-im-plugin'')]],
           Elem ''nav'' [text_attr ''class'' ''admin-nav'', text_attr ''aria-label'' ''main'']
             (map (\<lambda>(path, label). Elem ''a''
                 [(''href'', AText (js ''#'' @ path)),
                  class_attr [Some (js ''admin-nav-link''), if_class (activeBase route = path) ''admin-nav-link-active'']]
                 [Txt label]) NAV_ITEMS),
           div_of ''admin-sidebar-footer''
             [Elem ''div'' [text_attr ''class'' ''admin-sidebar-user'', (''title'', AText username)] [Txt username],
              Elem ''button'' [text_attr ''type'' ''button'', text_attr ''class'' ''admin-signout'', (''onClick'', AOn RtSignOut)]
                [Txt (js ''Sign out'')]]],
        Elem ''main'' [text_attr ''class'' ''admin-main''] children]"

section \<open>What the pages promise\<close>

definition confirm_ok :: "'a confirm \<Rightarrow> bool" where
  "confirm_ok c \<longleftrightarrow> length (cf_started c) = cf_settled c + (if cf_pending c then 1 else 0)"

lemma confirm_ok_step: "confirm_step l c c' \<Longrightarrow> confirm_ok c \<Longrightarrow> confirm_ok c'"
  by (induction rule: confirm_step.induct)
     (auto simp: confirm_ok_def cf_ask_def cf_cancel_def cf_close_def cf_escape_def cf_confirm_def cf_settle_def split: option.split)

interpretation confirming: inductive_invariant "confirm_step :: 'a confirm_event \<Rightarrow> 'a confirm \<Rightarrow> 'a confirm \<Rightarrow> bool" "\<lambda>l. True" confirm_ok
  by unfold_locales (rule confirm_ok_step)

lemma dialog_clicks:
  "cf_target c = Some x \<Longrightarrow> concat (map clicks (ConfirmDialog ev title action body c)) =
     ev CfClose # concat (map clicks (body x)) @ (if cf_pending c then [] else [ev CfCancel, ev CfConfirm])"
  by (auto simp: ConfirmDialog_def Modal_def Button_def plain_button_def Spinner_def opt_attr_def view_simps)

text \<open>
C33: A confirmed moderation or revocation is sent once: at most one request of a dialog is in flight, and while
it is, the dialog offers neither confirming nor cancelling.
\<close>

theorem confirm_single_flight:
  assumes "lreach confirm_step (\<lambda>l. True) no_confirm c"
  shows "cf_settled c \<le> length (cf_started c) \<and> length (cf_started c) \<le> Suc (cf_settled c) \<and>
    (cf_pending c \<longrightarrow> length (cf_started c) = Suc (cf_settled c) \<and>
       concat (map clicks (ConfirmDialog (\<lambda>e. e) title action (\<lambda>x. []) c)) = (if cf_target c = None then [] else [CfClose]))"
proof -
  have "confirm_ok c" by (rule confirming.inv_reach [OF assms]) (simp add: confirm_ok_def no_confirm_def)
  moreover have "concat (map clicks (ConfirmDialog (\<lambda>e. e) title action (\<lambda>x. []) c)) = [CfClose]"
    if "cf_pending c" "cf_target c = Some x" for x
    using dialog_clicks [OF that(2), of "\<lambda>e. e"] that(1) by simp
  moreover have "ConfirmDialog (\<lambda>e. e) title action (\<lambda>x. []) c = []" if "cf_target c = None"
    using that by (simp add: ConfirmDialog_def Modal_def)
  ultimately show ?thesis by (cases "cf_target c") (auto simp: confirm_ok_def split: if_splits)
qed

lemma confirm_reach:
  "confirm_step l c c' \<Longrightarrow> lreach confirm_step (\<lambda>l. True) c0 c \<Longrightarrow> lreach confirm_step (\<lambda>l. True) c0 c'"
  by (rule lreach.more) auto

theorem confirm_single_flight_witness:
  "length (cf_started (cf_confirm (cf_ask (7 :: nat) no_confirm))) = 1 \<and>
   concat (map clicks (ConfirmDialog (\<lambda>e. e) ''T'' ''A'' (\<lambda>x. []) (cf_confirm (cf_ask (7 :: nat) no_confirm)))) = [CfClose]"
proof -
  have "lreach confirm_step (\<lambda>l. True) no_confirm (cf_confirm (cf_ask (7 :: nat) no_confirm))"
    by (intro confirm_reach [OF confirm_step.intros(5)] confirm_reach [OF confirm_step.intros(1)] lreach.start)
  from confirm_single_flight [OF this, of "''T''" "''A''"]
  show ?thesis by (simp add: cf_confirm_def cf_ask_def no_confirm_def)
qed

text \<open>The phases of a dialog: open before its request runs, running and still open, and running in any case.\<close>

definition guard_fresh :: "'a confirm \<Rightarrow> bool" where
  "guard_fresh c \<longleftrightarrow> (cf_target c \<noteq> None \<and> \<not> cf_pending c \<longrightarrow> \<not> cf_guard c)"

definition running_open :: "'a list \<Rightarrow> 'a confirm \<Rightarrow> bool" where
  "running_open xs c \<longleftrightarrow> cf_pending c \<and> cf_started c = xs \<and> cf_target c \<noteq> None \<and> \<not> cf_guard c"

definition running :: "'a list \<Rightarrow> 'a confirm \<Rightarrow> bool" where
  "running xs c \<longleftrightarrow> cf_pending c \<and> cf_started c = xs"

lemmas cf_defs = cf_ask_def cf_cancel_def cf_close_def cf_escape_def cf_confirm_def cf_settle_def

interpretation fresh_guards: inductive_invariant "confirm_step :: 'a confirm_event \<Rightarrow> 'a confirm \<Rightarrow> 'a confirm \<Rightarrow> bool" "\<lambda>l. True" guard_fresh
  by unfold_locales (auto simp: guard_fresh_def cf_defs elim!: confirm_step.cases split: option.splits if_splits)

interpretation open_requests: inductive_invariant "confirm_step :: 'a confirm_event \<Rightarrow> 'a confirm \<Rightarrow> 'a confirm \<Rightarrow> bool"
    "\<lambda>l. l \<noteq> CfSettle \<and> l \<noteq> CfEscape" "running_open xs"
  by unfold_locales (auto simp: running_open_def cf_defs elim!: confirm_step.cases)

interpretation running_requests: inductive_invariant "confirm_step :: 'a confirm_event \<Rightarrow> 'a confirm \<Rightarrow> 'a confirm \<Rightarrow> bool"
    "\<lambda>l. l \<noteq> CfSettle" "running xs"
  by unfold_locales (auto simp: running_def cf_defs elim!: confirm_step.cases)

text \<open>
C40: The Escape key bypasses the guard of a running request.  In every run of a dialog page, when a dialog is confirmed and its request has not
settled, the close and cancel buttons leave the dialog open and Escape closes it, because its key handler belongs to the moment the dialog opened.
Until the request settles, whatever else the user does, no further request starts: a dialog opened for another target cannot be confirmed,
and it is closed when the first request settles.
\<close>

theorem escape_closes_pending_dialog:
  assumes "lreach confirm_step (\<lambda>l. True) no_confirm c0" "\<not> cf_pending c0" "cf_target c0 = Some x"
    and "lreach confirm_step (\<lambda>l. l \<noteq> CfSettle \<and> l \<noteq> CfEscape) (cf_confirm c0) c"
    and "lreach confirm_step (\<lambda>l. l \<noteq> CfSettle) (cf_escape c) d"
  shows "cf_target c \<noteq> None \<and> cf_close c = c \<and> cf_cancel c = c \<and> cf_target (cf_escape c) = None \<and>
    cf_pending d \<and> cf_started d = cf_started c0 @ [x] \<and>
    cf_target (cf_ask y d) = Some y \<and> cf_confirm (cf_ask y d) = cf_ask y d \<and> cf_target (cf_settle (cf_ask y d)) = None"
proof -
  have "guard_fresh c0" by (rule fresh_guards.inv_reach [OF assms(1)]) (simp add: guard_fresh_def no_confirm_def)
  then have "running_open (cf_started c0 @ [x]) (cf_confirm c0)"
    using assms(2,3) by (simp add: guard_fresh_def running_open_def cf_confirm_def)
  from open_requests.inv_reach [OF assms(4) this] have c: "running_open (cf_started c0 @ [x]) c" .
  then have "cf_target c \<noteq> None \<and> cf_close c = c \<and> cf_cancel c = c \<and> cf_target (cf_escape c) = None"
    by (simp add: running_open_def cf_defs)
  moreover have "running (cf_started c0 @ [x]) (cf_escape c)" using c by (simp add: running_open_def running_def cf_escape_def)
  note running_requests.inv_reach [OF assms(5) this]
  ultimately show ?thesis by (simp add: running_def cf_defs)
qed

theorem escape_closes_pending_dialog_witness:
  "let c = cf_confirm (cf_ask (7 :: nat) no_confirm); d = cf_ask 8 (cf_escape c)
   in cf_close c = c \<and> cf_target (cf_escape c) = None \<and> cf_started d = [7] \<and> cf_target d = Some 8 \<and> cf_target (cf_settle (cf_ask 8 d)) = None"
proof -
  let ?a = "cf_ask (7 :: nat) no_confirm" and ?c = "cf_confirm (cf_ask (7 :: nat) no_confirm)"
  have 1: "lreach confirm_step (\<lambda>l. True) no_confirm ?a" by (intro confirm_reach [OF confirm_step.intros(1)] lreach.start)
  have 2: "\<not> cf_pending ?a" "cf_target ?a = Some 7" by (simp_all add: cf_ask_def no_confirm_def)
  have 3: "lreach confirm_step (\<lambda>l. l \<noteq> CfSettle \<and> l \<noteq> CfEscape) ?c ?c" by (rule lreach.start)
  have 4: "lreach confirm_step (\<lambda>l. l \<noteq> CfSettle) (cf_escape ?c) (cf_ask 8 (cf_escape ?c))"
    by (rule lreach_single [where l = "CfAsk 8"]) (simp, rule confirm_step.intros)
  show ?thesis using escape_closes_pending_dialog [OF 1 2 3 4, of 8] by (simp add: Let_def) (simp add: cf_ask_def no_confirm_def)
qed

text \<open>A message that is already illegal is not offered for moderation, in the table or in the inspection.\<close>

lemma illegal_not_offered:
  assumes "am_is_illegal m"
  shows "MsDialog (CfAsk m') \<notin> set (concat (map (\<lambda>c. concat (map clicks (co_cell c m))) (message_columns env)))"
    and "MsInspectMark \<notin> set (concat (map clicks (InspectDialog env (Some m))))"
  using assms
  by (auto simp: message_columns_def col_def strong_cell_def status_badge_def span_of_def div_of_def view_simps
      InspectDialog_def Modal_def Button_def plain_button_def opt_attr_def inspect_body_def detail_row_def Let_def split: option.split)

text \<open>
  The search of a table shows, in the order of the data, exactly the records of which some field
  contains the needle, case ignored; a blank search shows everything.
\<close>

lemma search_filter_member:
  "x \<in> set (search_filter lower fs search data) \<longleftrightarrow> x \<in> set data \<and>
     (lower (trim search) = [] \<or> (\<exists>s. Some s \<in> set (fs x) \<and> s \<noteq> [] \<and> (\<exists>a b. lower s = a @ lower (trim search) @ b)))"
  by (auto simp: search_filter_def Let_def list_ex_iff field_matches_def str_includes_iff split: option.splits) force+

text \<open>The two tabs of the conversation page show every conversation that matches, each in one of them.\<close>

lemma tabs_partition:
  assumes "\<forall>c \<in> set (list_of data). dc_kind c = js ''group'' \<or> dc_kind c = js ''direct''"
  shows "set (of_kind ''group'' (conversations_filtered lower search data)) \<union>
      set (of_kind ''direct'' (conversations_filtered lower search data)) = set (conversations_filtered lower search data)"
    and "set (of_kind ''group'' (conversations_filtered lower search data)) \<inter>
      set (of_kind ''direct'' (conversations_filtered lower search data)) = {}"
proof -
  have "set (conversations_filtered lower search data) \<subseteq> set (list_of data)"
    by (auto simp: conversations_filtered_def search_filter_member)
  then show "set (of_kind ''group'' (conversations_filtered lower search data)) \<union>
      set (of_kind ''direct'' (conversations_filtered lower search data)) = set (conversations_filtered lower search data)"
    "set (of_kind ''group'' (conversations_filtered lower search data)) \<inter>
      set (of_kind ''direct'' (conversations_filtered lower search data)) = {}"
    using assms by (auto simp: of_kind_def)
qed

end
