(* ===== verification/Dash_Shell.thy ===== *)
theory Dash_Shell
  imports Dash_Pages
begin

text \<open>
  What holds the admin console together: the queries of its pages with their cache keys (\<open>useApiQuery\<close>), the
  hash router with its listener, the handler for unauthenticated answers, the effect of an open dialog on the page, the functions of the toast
  context and the state of a table.  The query library is known by two of its rules: a cached answer belongs to a key,
  and an invalidation concerns the keys that begin with the given one.
\<close>

section \<open>Queries\<close>

record api_query =
  aq_key :: "jstr list"
  aq_path :: jstr
  aq_refetch :: "int option"

definition useApiQuery :: "jstr list \<Rightarrow> jstr \<Rightarrow> int option \<Rightarrow> api_query" where
  "useApiQuery key path refetchInterval = \<lparr>aq_key = key, aq_path = path, aq_refetch = refetchInterval\<rparr>"

text \<open>The \<open>queryFn\<close>.\<close>

definition query_fn :: "clock \<Rightarrow> 'w dash_fetch \<Rightarrow> jstr \<Rightarrow> api_query \<Rightarrow> 'w dashboard \<Rightarrow> (api_error + json option) \<times> 'w dashboard" where
  "query_fn ck fetch base q d = apiFetch ck fetch base (aq_path q) get_init d"

definition STATUS_REFETCH_MS :: int where
  "STATUS_REFETCH_MS = 15000"

definition USERS_REFETCH_MS :: int where
  "USERS_REFETCH_MS = 30000"

definition CONVERSATIONS_REFETCH_MS :: int where
  "CONVERSATIONS_REFETCH_MS = 30000"

definition overview_queries :: "api_query list" where
  "overview_queries = [useApiQuery [js ''status''] (js ''/status'') (Some STATUS_REFETCH_MS)]"

definition users_queries :: "api_query list" where
  "users_queries = [useApiQuery [js ''users''] (js ''/users'') (Some USERS_REFETCH_MS)]"

definition conversations_queries :: "api_query list" where
  "conversations_queries = [useApiQuery [js ''conversations''] (js ''/conversations'') (Some CONVERSATIONS_REFETCH_MS)]"

text \<open>\<open>None\<close> is the \<open>URIError\<close> of an id with a lone surrogate, which ends the rendering.\<close>

definition messages_queries :: "jstr \<Rightarrow> api_query list option" where
  "messages_queries conversationId =
     map_option (\<lambda>path. [useApiQuery [js ''conversations''] (js ''/conversations'') None,
       useApiQuery [js ''conversations'', conversationId, js ''messages''] path None]) (messages_query_path conversationId)"

fun page_queries :: "page \<Rightarrow> api_query list option" where
  "page_queries LoginPage = Some []"
| "page_queries OverviewPage = Some overview_queries"
| "page_queries UsersPage = Some users_queries"
| "page_queries ConversationsPage = Some conversations_queries"
| "page_queries (MessagesPage i) = messages_queries i"

definition invalidated :: "jstr list \<Rightarrow> api_query \<Rightarrow> bool" where
  "invalidated keys q \<longleftrightarrow> (\<exists>k \<in> set keys. take 1 (aq_key q) = [k])"

lemmas query_defs = useApiQuery_def overview_queries_def users_queries_def conversations_queries_def messages_queries_def messages_query_path_def

lemma page_queries_cases:
  assumes "page_queries p = Some qs" "q \<in> set qs"
  shows "(aq_key q, aq_path q) \<in> {([js ''status''], js ''/status''), ([js ''users''], js ''/users''), ([js ''conversations''], js ''/conversations'')} \<or>
    (\<exists>i. aq_key q = [js ''conversations'', i, js ''messages''] \<and> messages_query_path i = Some (aq_path q))"
  using assms by (cases p) (auto simp: query_defs)

text \<open>
The pages share the cache safely: queries with the same key ask for the same path, whichever pages they belong to.
\<close>

theorem equal_keys_equal_paths:
  assumes "page_queries p = Some qs" "q \<in> set qs" "page_queries p' = Some qs'" "q' \<in> set qs'" "aq_key q = aq_key q'"
  shows "aq_path q = aq_path q'"
  using page_queries_cases [OF assms(1,2)] page_queries_cases [OF assms(3,4)] assms(5) by auto

theorem equal_keys_equal_paths_witness:
  "aq_path (hd conversations_queries) = aq_path (hd (the (messages_queries [97])))"
proof -
  have "messages_queries [97] \<noteq> None"
    by (simp add: query_defs encodeURIComponent_def high_surrogate_def low_surrogate_def)
  then obtain qs where "messages_queries [97] = Some qs" by blast
  then show ?thesis
    using equal_keys_equal_paths [of ConversationsPage conversations_queries "hd conversations_queries" "MessagesPage [97]" qs "hd qs"]
    by (auto simp: query_defs)
qed

text \<open>A successful moderation makes every query of the page it was made on be fetched again, and a revocation those of its page.\<close>

lemma moderation_invalidates: "page_queries (MessagesPage i) = Some qs \<Longrightarrow> q \<in> set qs \<Longrightarrow> invalidated (ms_invalidated (mark_settled (Inr m) st)) q"
  by (auto simp: query_defs invalidated_def mark_settled_def)

lemma revocation_invalidates: "q \<in> set users_queries \<union> set overview_queries \<Longrightarrow> invalidated (us_invalidated (revoke_settled (Inr r) st)) q"
  by (auto simp: query_defs invalidated_def revoke_settled_def)

section \<open>The router\<close>

text \<open>The location's hash, the route of the component, its listener, and the \<open>hashchange\<close> event that is still to come.\<close>

record router =
  ro_hash :: jstr
  ro_route :: jstr
  ro_listening :: bool
  ro_pending :: bool

definition useHashRoute :: "jstr \<Rightarrow> router" where
  "useHashRoute hash = \<lparr>ro_hash = hash, ro_route = current_route hash, ro_listening = True, ro_pending = False\<rparr>"

definition set_hash :: "jstr \<Rightarrow> router \<Rightarrow> router" where
  "set_hash hash r = (if hash = ro_hash r then r else r\<lparr>ro_hash := hash, ro_pending := True\<rparr>)"

definition on_hashchange :: "router \<Rightarrow> router" where
  "on_hashchange r = (if ro_listening r then r\<lparr>ro_route := current_route (ro_hash r), ro_pending := False\<rparr> else r\<lparr>ro_pending := False\<rparr>)"

definition unmount_router :: "router \<Rightarrow> router" where
  "unmount_router r = r\<lparr>ro_listening := False\<rparr>"

datatype router_label = SetHash jstr | HashChange | UnmountRouter

inductive router_step :: "router_label \<Rightarrow> router \<Rightarrow> router \<Rightarrow> bool" where
  "router_step (SetHash hash) r (set_hash hash r)"
| "ro_pending r \<Longrightarrow> router_step HashChange r (on_hashchange r)"
| "router_step UnmountRouter r (unmount_router r)"

definition router_ok :: "router \<Rightarrow> bool" where
  "router_ok r \<longleftrightarrow> (ro_listening r \<and> \<not> ro_pending r \<longrightarrow> ro_route r = current_route (ro_hash r))"

interpretation router: inductive_invariant router_step "\<lambda>l. True" router_ok
  by unfold_locales (auto elim!: router_step.cases simp: router_ok_def set_hash_def on_hashchange_def unmount_router_def split: if_splits)

text \<open>The page that is shown follows the address: once the browser has reported the last change, the route is that of the hash.\<close>

theorem route_follows_hash:
  assumes "lreach router_step (\<lambda>l. True) (useHashRoute hash) r" "ro_listening r" "\<not> ro_pending r"
  shows "ro_route r = current_route (ro_hash r)"
  using router.inv_reach [OF assms(1)] assms(2,3) by (simp add: router_ok_def useHashRoute_def)

theorem route_follows_hash_witness:
  "ro_route (on_hashchange (set_hash (js ''#/users'') (useHashRoute []))) = js ''/users''"
proof -
  let ?r = "set_hash (js ''#/users'') (useHashRoute [])"
  have r: "ro_pending ?r" "ro_listening ?r" "ro_hash ?r = js ''#/users''" by (simp_all add: set_hash_def useHashRoute_def)
  have "lreach router_step (\<lambda>l. True) (useHashRoute []) (on_hashchange ?r)"
    using lreach_next [where step = router_step] router_step.intros(1) router_step.intros(2) [OF r(1)] lreach.start by metis
  from route_follows_hash [OF this] r show ?thesis
    by (simp add: on_hashchange_def current_route_def starts_with_def) (simp add: js_def)
qed

section \<open>The handler for unauthenticated answers\<close>

definition setUnauthorizedHandler :: "bool \<Rightarrow> 'w dashboard \<Rightarrow> 'w dashboard" where
  "setUnauthorizedHandler installed d = d\<lparr>db_handler := installed\<rparr>"

text \<open>The cleanup of \<open>Root\<close>'s effect.\<close>

definition unmount_root :: "'w dashboard \<Rightarrow> 'w dashboard" where
  "unmount_root d = setUnauthorizedHandler False d"

text \<open>After \<open>Root\<close> is gone no answer touches the session.\<close>

lemma unmounted_keeps_session:
  "db_session (snd (apiFetch ck fetch base path init (unmount_root d))) = db_session d \<and>
   db_storage (snd (apiFetch ck fetch base path init (unmount_root d))) = db_storage d"
  by (simp add: apiFetch_def unmount_root_def setUnauthorizedHandler_def unauthorized_def Let_def split: prod.splits sum.splits)

section \<open>The effect of a dialog\<close>

text \<open>What a dialog touches of the document: the focused element, the scrolling of the body and the key listeners.\<close>

record dom =
  dm_focus :: "nat option"
  dm_overflow :: jstr
  dm_keydown :: "nat list"

text \<open>\<open>panel\<close> and \<open>focusables\<close> are those of dialog \<open>k\<close>; the effect remembers the element that had the focus.\<close>

definition modal_effect :: "nat \<Rightarrow> nat option \<Rightarrow> nat list \<Rightarrow> dom \<Rightarrow> nat option \<times> dom" where
  "modal_effect k panel focusables d =
     (dm_focus d, d\<lparr>dm_focus := (case modal_first_focus panel focusables of Some x \<Rightarrow> Some x | None \<Rightarrow> dm_focus d),
        dm_keydown := dm_keydown d @ [k], dm_overflow := js ''hidden''\<rparr>)"

definition modal_cleanup :: "nat \<Rightarrow> nat option \<Rightarrow> dom \<Rightarrow> dom" where
  "modal_cleanup k previouslyFocused d =
     d\<lparr>dm_keydown := remove1 k (dm_keydown d), dm_overflow := [],
       dm_focus := (case previouslyFocused of Some x \<Rightarrow> Some x | None \<Rightarrow> dm_focus d)\<rparr>"

text \<open>What the listener of the dialog does with a key; the call of \<open>onClose\<close> is the first component.\<close>

definition modal_keydown :: "nat option \<Rightarrow> nat list \<Rightarrow> jstr \<Rightarrow> bool \<Rightarrow> dom \<Rightarrow> bool \<times> dom" where
  "modal_keydown panel focusables k shift d =
     (case dm_focus d of
        None \<Rightarrow> (k = js ''Escape'', d)
      | Some active \<Rightarrow>
          (case modal_key panel focusables active k shift of
             KeyClose \<Rightarrow> (True, d)
           | KeyFocus x \<Rightarrow> (False, d\<lparr>dm_focus := Some x\<rparr>)
           | KeyNone \<Rightarrow> (False, d)))"

text \<open>
Closing a dialog undoes what opening it did, whatever keys were pressed and wherever the focus has moved in between: the element that had the
focus has it again, the page scrolls, and the listener is gone.
\<close>

theorem dialog_restores_page:
  assumes "modal_effect k panel focusables d = (prev, d1)" "dm_focus d = Some x" "k \<notin> set (dm_keydown d)" "dm_keydown d2 = dm_keydown d1"
  shows "modal_cleanup k prev d2 = \<lparr>dm_focus = Some x, dm_overflow = [], dm_keydown = dm_keydown d\<rparr>"
  using assms by (cases d2) (auto simp: modal_effect_def modal_cleanup_def remove1_append split: option.splits)

theorem dialog_restores_page_witness:
  "modal_cleanup 1 (Some 7) (snd (modal_keydown (Some 2) [3, 4] (js ''Tab'') True
     (snd (modal_effect 1 (Some 2) [3, 4] \<lparr>dm_focus = Some 7, dm_overflow = [], dm_keydown = []\<rparr>))))
   = \<lparr>dm_focus = Some 7, dm_overflow = [], dm_keydown = []\<rparr>"
proof -
  let ?d = "\<lparr>dm_focus = Some 7, dm_overflow = [], dm_keydown = []\<rparr>"
  have "dm_keydown (snd (modal_keydown (Some 2) [3, 4] (js ''Tab'') True d)) = dm_keydown d" for d
    by (simp add: modal_keydown_def split: option.splits key_result.splits)
  moreover have "modal_effect 1 (Some 2) [3, 4] ?d = (Some 7, snd (modal_effect 1 (Some 2) [3, 4] ?d))" by (simp add: modal_effect_def)
  ultimately show ?thesis using dialog_restores_page [of 1 "Some 2" "[3, 4]" ?d "Some 7"] by simp
qed

section \<open>Toasts and tables\<close>

datatype toast_call = ToastShow jstr "toast_kind option" | ToastSuccess jstr | ToastError jstr

text \<open>The functions of the context, and \<open>useToast\<close>, which does nothing outside a provider.\<close>

fun toast_api :: "toast_call \<Rightarrow> toasts \<Rightarrow> toasts" where
  "toast_api (ToastShow m kind) t = show_toast m (case kind of Some k \<Rightarrow> k | None \<Rightarrow> Info) t"
| "toast_api (ToastSuccess m) t = show_toast m Success t"
| "toast_api (ToastError m) t = show_toast m Error t"

definition useToast :: "bool \<Rightarrow> toast_call \<Rightarrow> toasts \<Rightarrow> toasts" where
  "useToast provided call t = (if provided then toast_api call t else t)"

lemma useToast_step: "useToast p call t = t \<or> (\<exists>m k. toast_step (ShowToast m k) t (useToast p call t))"
  by (cases call) (auto simp: useToast_def intro: toast_step.intros)

text \<open>The state of \<open>DataTable\<close>: what the table library calls the sorting and the selection, and the reports to the owner.\<close>

record ('so, 'se) table_state =
  ts_sorting :: 'so
  ts_selection :: 'se
  ts_reported :: "'se list"

definition table_start :: "'so \<Rightarrow> 'se \<Rightarrow> ('so, 'se) table_state" where
  "table_start unsorted nothing = \<lparr>ts_sorting = unsorted, ts_selection = nothing, ts_reported = []\<rparr>"

fun updated :: "'s updater \<Rightarrow> 's \<Rightarrow> 's" where
  "updated (UpdateBy f) prev = f prev"
| "updated (UpdateTo v) prev = v"

definition onSortingChange :: "'so updater \<Rightarrow> ('so, 'se) table_state \<Rightarrow> ('so, 'se) table_state" where
  "onSortingChange u st = st\<lparr>ts_sorting := updated u (ts_sorting st)\<rparr>"

definition onRowSelectionChange :: "'se updater \<Rightarrow> ('so, 'se) table_state \<Rightarrow> ('so, 'se) table_state" where
  "onRowSelectionChange u st =
     (case row_selection_change u (ts_selection st) (ts_reported st) of (next, rs) \<Rightarrow> st\<lparr>ts_selection := next, ts_reported := rs\<rparr>)"

definition table_columns :: "bool option \<Rightarrow> 'c \<Rightarrow> 'c list \<Rightarrow> 'c list" where
  "table_columns selectable selectColumn columns = (if selectable = Some True then selectColumn # columns else columns)"

text \<open>The owner of a table is told the selection that is shown, and nothing else.\<close>

lemma selection_reported: "ts_reported (onRowSelectionChange u st) = ts_reported st @ [ts_selection (onRowSelectionChange u st)] \<and>
    ts_sorting (onRowSelectionChange u st) = ts_sorting st"
  by (cases u) (simp_all add: onRowSelectionChange_def)

end
