(* ===== verification/Spec2Isabelle.thy ===== *)
theory Spec2Isabelle
  imports Reconnect Session_Runs Backend_Send Outbox_Progress Announce Members Adapters Internal Terminal_Sync Demo Dash_Shell
begin

text \<open>
  \<^bold>\<open>Verification of the Airway IM client code.\<close>

  The repository is an instant-messaging plugin.  A Go backend stores conversations as logs of
  messages with increasing sequence numbers and announces new messages through a WebSocket
  gateway, at least once and without order.  This development models the TypeScript code that
  has to make a correct chat out of that, with the message and membership handlers, the delivery worker and the gateway service on the other side: the SDK (\<open>install/ignore/sdk/ts/src\<close>), the terminal client
  (\<open>install/ignore/client/src\<close>) and the admin console (\<open>install/lib/im/app/dashboard/web\<close>).

  \<^bold>\<open>How the parts interact.\<close>  An application creates a session (\<open>AirwayIM\<close>) with an adapter for its
  platform.  The session owns a REST client, a synchronization engine and a gateway socket.  A gateway
  event makes the engine fetch the messages after the last seen sequence; the pages it fetches are emitted to the
  listeners of the session and of the conversation objects; a reconnection fetches what was missed.  The
  terminal client has REST and gateway clients of its own and keeps the cursor and the seen messages in
  its main program.  The admin console reads and moderates through an HTTP API of its own.

  \<^bold>\<open>The model.\<close>  Strings are lists of UTF-16 code units, JSON values a datatype, a \<open>Map\<close> or \<open>Set\<close> an
  association list or list in insertion order.  Code that is not in the repository (\<open>fetch\<close>, sockets, the
  \<open>wx\<close> object, \<open>localStorage\<close>, the clock, locale formats, the query and table libraries) is an argument of the
  definitions, with a world that it may change.  A synchronous function is a HOL function on the
  state it reads and writes; a rejected promise or an exception is the \<open>Inl\<close> of a sum.  Where several
  asynchronous activities share a state they are cut at their \<open>await\<close>s and an inductive step relation has
  one rule for each call of the owner and each event of the runtime, so that a property of all reachable
  states covers every interleaving.

  \<^bold>\<open>The theories.\<close>

    \<^item> \<open>Prelude\<close>, \<open>Encoding\<close>, \<open>Json\<close>: what the sources use of JavaScript.  \<open>Prelude\<close> has the labelled
      reachability \<open>lreach\<close> and two locales: \<open>inductive_invariant\<close> (a predicate that the allowed steps keep holds in all reachable
      states) and \<open>simulation\<close> (a relation that the steps keep makes every concrete run an abstract one).
      \<open>Json\<close> shows that \<open>parse\<close> inverts \<open>stringify\<close>, with the length of the text as the fuel of the parser.
    \<^item> \<open>Types\<close> (\<open>types.ts\<close>, \<open>error.ts\<close>, \<open>adapter.ts\<close>), \<open>Util\<close> (\<open>util.ts\<close>): the data model and the URL helpers.
    \<^item> \<open>Http\<close> (\<open>http.ts\<close>): every method of \<open>IMHttpClient\<close> with the trace of the requests it makes; outcome
      of an attempt, when a second attempt is made, idempotent sends, URLs.
    \<^item> \<open>Sync\<close> (\<open>sync.ts\<close>), \<open>Delivery\<close>: the engine's tasks and queues; \<open>sync_step\<close>.  The locale \<open>message_source\<close> is
      the contract of the message listing, interpreted on \<open>server_page\<close>, the page that \<open>ListMessages\<close> of
      \<open>messages.go\<close> selects; the locale \<open>storage_laws\<close> is the contract of a storage.  Exactly-once emission in
      order, what a fetch emits, moderation, and the two situations in which the engine does less than it says.
    \<^item> \<open>Gateway\<close> (\<open>gateway.ts\<close>, \<open>timers.ts\<close>): fields, handlers, timers and effects of \<open>GatewaySocket\<close>; \<open>gw_step\<close>.
      Bounded backoff, deduplication, finality of \<open>close()\<close>, one connection in orderly runs, rejected credentials.
    \<^item> \<open>Session\<close> (\<open>session.ts\<close>, \<open>conversation.ts\<close>): emitter, event routing, conversation registry and the
      operations that combine the clients.  \<open>emit\<close> takes the depth of the call stack, since a listener for
      errors that throws makes the code recurse without end.
    \<^item> \<open>Reconnect\<close>: the parts of the session together.  Its step implements that of the engine, so that a
      reconnection hands the messages that were missed, 2000 at most, to the listeners, once and in order.
    \<^item> \<open>Session_Runs\<close>: every run of a session.  \<open>session_step\<close> interleaves the calls of the application, the steps of the
      gateway client, the tasks of the engine and the backend; every session step is a sequence of engine
      steps, so what a \<open>message\<close> listener hears inherits the engine's promise, in the runs for which the engine gives it (\<open>clean_for\<close>).
    \<^item> \<open>Backend\<close> (\<open>messages.go\<close>, \<open>conversations.go\<close> of the admin API, the migrations): the tables and the handlers that create, list and
      moderate messages; \<open>backend_step\<close> interleaves them and lets transactions fail.  The logs it keeps are those the
      engine is proved against.  \<open>Backend_Send\<close>: a send of the SDK over a lossy network
      stores one message at most when its key is new, and two when its key is blank and an answer is lost.
    \<^item> \<open>Members\<close> (\<open>conversations.go\<close>, \<open>members.go\<close>): the tables of conversations and members and the handlers that change them, each a
      check and a transaction; \<open>member_step\<close> lets requests come in between.  Two users share one direct conversation, a group keeps its owner.
    \<^item> \<open>Hub\<close> (\<open>deps/im/gateway/main.go\<close>): the gateway service; \<open>hub_step\<close> interleaves the read and write loops of the connections
      with deliveries and kicks.  Its index holds the authenticated connections, events go to their targets only; together with
      \<open>Gateway\<close>, what an event before the reply to \<open>auth\<close> does to the SDK.
    \<^item> \<open>Delivery_Worker\<close> (\<open>deps/im/delivery/main.go\<close>, \<open>internal_api/actions.go\<close>), \<open>Outbox_Progress\<close>: the worker between the outbox and
      the gateway service; \<open>push_step\<close> composes the three and loses requests and answers.  What is acknowledged was pushed to every
      connection that was registered for a target when the delivery began, the
      outbox is drained when nothing is lost, and an event the gateway refuses stops it.
    \<^item> \<open>Announce\<close>: across the services, every stored message has an event in the outbox that the gateway service can route and that names
      the message to the SDK.
    \<^item> \<open>Adapters\<close> (\<open>browser.ts\<close>, \<open>wechat.ts\<close>), \<open>Internal\<close> (\<open>internal.ts\<close>): the platform adapters, whose storages interpret
      \<open>storage_laws\<close>, and the client that mints credentials.
    \<^item> \<open>Client_Api\<close> (\<open>api.ts\<close>), \<open>Client_Gateway\<close> (\<open>gateway.ts\<close>), \<open>Chat\<close> (\<open>chat.ts\<close>): the parts of the terminal client;
      the page it asks for is that of the SDK, its gateway client has the invariants of \<open>GatewaySocket\<close>, its
      screen fits the terminal.
    \<^item> \<open>Terminal\<close>, \<open>Terminal_App\<close>, \<open>Terminal_Sync\<close> (\<open>main.ts\<close>): the command line, the running chat, and what it
      shows.  \<open>app_step\<close> interleaves key strokes, answers and gateway events.  The locale \<open>app_frame\<close> lists what
      leaves a property of the chat alone; the chat without sends refines an abstract reader whose
      screen is a growing prefix of the conversation.
    \<^item> \<open>Demo\<close> (\<open>demo.ts\<close>): the end-to-end script with its participants, waits, checks and exit codes.  The wait is a
      \<open>partial_function\<close>, and the script is shown to return, with success only after all its checks.
    \<^item> \<open>Dash_Format\<close> (\<open>format.ts\<close>), \<open>Dash_Api\<close> (\<open>api.ts\<close>, \<open>login.tsx\<close>, \<open>app.tsx\<close>), \<open>Dash_Ui\<close> (\<open>ui\<close>), \<open>Dash_Pages\<close> (\<open>pages\<close>,
      \<open>types.ts\<close>): the admin console.  A component is a function from its properties to a tree whose nodes
      carry the events that a click dispatches; dialogs, tabs and toasts are state machines.
      \<open>Dash_Shell\<close>: cache keys of the queries, router, handlers and the effect of a dialog on the page.

  \<^bold>\<open>Not modelled.\<close>  Application callbacks that call back into the SDK while it notifies them; two REST calls of
  one client interleaved at their \<open>await\<close>s (the engine, the gateways and the terminal chat are interleaved);
  JSON numbers with fractions or exponents and doubles beyond the integers (the console's metrics are
  rationals); the reordering of integer-like object keys and the key \<open>__proto__\<close>; the clipboard; the query, table and view libraries; the compiled copies under \<open>dist\<close>
  and \<open>vendor\<close>; the credential handlers of the Go backend (their answers are arbitrary in the models of
  the services that rely on them) and the effect of the membership handlers on the tables of \<open>Backend\<close>, which is arbitrary there, and the SDKs in other languages.
\<close>

end
